(* ===== verification/Prelude.thy ===== *)
theory Prelude
  imports Main "HOL-Library.Word"
begin

unbundle bit_operations_syntax

text \<open>
  Shared vocabulary of the development: the machine integers of the C sources, the
  faults an access outside an object or a trapping instruction can raise, checked
  array reads and writes, C's truncating division, and the library functions
  \<open>fgets\<close> and \<open>strtoul\<close> as the console commands use them.
\<close>

section \<open>Types and collections of facts\<close>

type_synonym u8 = "8 word"
type_synonym u16 = "16 word"
type_synonym u32 = "32 word"
type_synonym u64 = "64 word"

datatype c_fault =
    OobRead      \<comment> \<open>a read outside the object\<close>
  | OobWrite     \<comment> \<open>a write outside the object\<close>
  | DivZero      \<comment> \<open>an integer division by zero\<close>
  | NullPtr      \<comment> \<open>use of a null pointer\<close>
  | Uninit       \<comment> \<open>use of an uninitialised variable\<close>
  | NoReturn     \<comment> \<open>control never leaves the loop\<close>
  | Overflow     \<comment> \<open>overflow of a signed integer\<close>
  | BadSize      \<comment> \<open>a variable length array without elements\<close>

type_synonym 'a res = "c_fault + 'a"

text \<open>Sequencing of fallible computations: the first fault wins.\<close>

definition rbind :: "'e + 'a \<Rightarrow> ('a \<Rightarrow> 'e + 'b) \<Rightarrow> 'e + 'b" where
  "rbind m f = (case m of Inl e \<Rightarrow> Inl e | Inr x \<Rightarrow> f x)"

named_theorems res_simps \<open>evaluation of fallible computations and array accesses\<close>
named_theorems bit_fields \<open>reading and writing bits of registers\<close>

lemma rbind_simps [simp, res_simps]:
  "rbind (Inl e) f = Inl e"
  "rbind (Inr x) f = f x"
  by (simp_all add: rbind_def)

lemma rbind_Inr_iff: "rbind m f = Inr y \<longleftrightarrow> (\<exists>x. m = Inr x \<and> f x = Inr y)"
  by (cases m) auto

lemma rbind_Inl_iff: "rbind m f = Inl e \<longleftrightarrow> m = Inl e \<or> (\<exists>x. m = Inr x \<and> f x = Inl e)"
  by (cases m) auto

lemma rbind_cong [fundef_cong]:
  "m = m' \<Longrightarrow> (\<And>x. m' = Inr x \<Longrightarrow> f x = g x) \<Longrightarrow> rbind m f = rbind m' g"
  by (cases m') auto

lemma rbind_assoc: "rbind (rbind m f) g = rbind m (\<lambda>x. rbind (f x) g)"
  by (cases m) auto

text \<open>Computations that end without a fault, in a result with a property.\<close>

definition ends :: "('a \<Rightarrow> bool) \<Rightarrow> 'a res \<Rightarrow> bool" where
  "ends Q m \<longleftrightarrow> (\<exists>x. m = Inr x \<and> Q x)"

lemma ends_Inr [simp]: "ends Q (Inr x) = Q x"
  by (simp add: ends_def)

lemma ends_bind:
  assumes "ends P m" and "\<And>x. P x \<Longrightarrow> ends Q (f x)"
  shows "ends Q (rbind m f)"
  using assms by (auto simp: ends_def)

lemma ends_cong: "ends P m \<Longrightarrow> (\<And>x. P x \<Longrightarrow> Q x) \<Longrightarrow> ends Q m"
  by (auto simp: ends_def)

lemma endsE: "ends Q m \<Longrightarrow> (\<And>x. m = Inr x \<Longrightarrow> Q x \<Longrightarrow> P) \<Longrightarrow> P"
  by (auto simp: ends_def)

lemma ends_bind2:
  assumes "ends (\<lambda>(a, b). P a b) m" and "\<And>a b. P a b \<Longrightarrow> ends Q (f (a, b))"
  shows "ends Q (rbind m f)"
  using assms by (auto simp: ends_def)

lemma ends_bind3:
  assumes "ends (\<lambda>(a, b, c). P a b c) m" and "\<And>a b c. P a b c \<Longrightarrow> ends Q (f (a, b, c))"
  shows "ends Q (rbind m f)"
  using assms by (auto simp: ends_def)

lemma ends_bind4:
  assumes "ends (\<lambda>(a, b, c, d). P a b c d) m" and "\<And>a b c d. P a b c d \<Longrightarrow> ends Q (f (a, b, c, d))"
  shows "ends Q (rbind m f)"
  using assms by (auto simp: ends_def)

section \<open>Arrays\<close>

definition rd :: "'a list \<Rightarrow> nat \<Rightarrow> 'a res" where
  "rd xs i = (if i < length xs then Inr (xs ! i) else Inl OobRead)"

definition wr :: "'a list \<Rightarrow> nat \<Rightarrow> 'a \<Rightarrow> 'a list res" where
  "wr xs i v = (if i < length xs then Inr (xs[i := v]) else Inl OobWrite)"

lemma rd_in [simp, res_simps]: "i < length xs \<Longrightarrow> rd xs i = Inr (xs ! i)"
  by (simp add: rd_def)

lemma rd_out [simp, res_simps]: "length xs \<le> i \<Longrightarrow> rd xs i = Inl OobRead"
  by (simp add: rd_def)

lemma wr_in [simp, res_simps]: "i < length xs \<Longrightarrow> wr xs i v = Inr (xs[i := v])"
  by (simp add: wr_def)

lemma wr_out [simp, res_simps]: "length xs \<le> i \<Longrightarrow> wr xs i v = Inl OobWrite"
  by (simp add: wr_def)

text \<open>A run of consecutive writes \<open>a[j++] = v\<close>.\<close>

fun wr_run :: "'a list \<Rightarrow> nat \<Rightarrow> 'a list \<Rightarrow> ('a list \<times> nat) res" where
  "wr_run xs j [] = Inr (xs, j)"
| "wr_run xs j (v # vs) = rbind (wr xs j v) (\<lambda>xs'. wr_run xs' (Suc j) vs)"

text \<open>An array of which the first cells hold \<open>vs\<close> and the rest still holds \<open>z\<close>.\<close>

definition filled :: "nat \<Rightarrow> 'a \<Rightarrow> 'a list \<Rightarrow> 'a list" where
  "filled n z vs = vs @ replicate (n - length vs) z"

lemma length_filled [simp]: "length vs \<le> n \<Longrightarrow> length (filled n z vs) = n"
  by (simp add: filled_def)

lemma filled_Nil: "filled n z [] = replicate n z"
  by (simp add: filled_def)

lemma nth_filled:
  "i < n \<Longrightarrow> length vs \<le> n \<Longrightarrow> filled n z vs ! i = (if i < length vs then vs ! i else z)"
  by (simp add: filled_def nth_append)

lemma filled_snoc:
  "length vs < n \<Longrightarrow> (filled n z vs)[length vs := v] = filled n z (vs @ [v])"
proof -
  assume h: "length vs < n"
  then obtain m where m: "n - length vs = Suc m" by (metis Suc_diff_Suc)
  then have "n - length (vs @ [v]) = m" by simp
  with m show ?thesis by (simp add: filled_def list_update_append)
qed

lemma wr_filled [simp, res_simps]:
  "length vs < n \<Longrightarrow> wr (filled n z vs) (length vs) v = Inr (filled n z (vs @ [v]))"
  by (simp add: wr_def filled_snoc)

lemma wr_filled_out [simp, res_simps]:
  "length vs = n \<Longrightarrow> wr (filled n z vs) (length vs) v = Inl OobWrite"
  by (simp add: wr_def)

lemma wr_run_filled:
  "length vs \<le> n \<Longrightarrow> wr_run (filled n z vs) (length vs) ws =
     (if length vs + length ws \<le> n then Inr (filled n z (vs @ ws), length vs + length ws)
      else Inl OobWrite)"
proof (induction ws arbitrary: vs)
  case Nil
  then show ?case by simp
next
  case (Cons w ws)
  show ?case
  proof (cases "length vs < n")
    case True
    then have "wr_run (filled n z vs) (length vs) (w # ws) =
        wr_run (filled n z (vs @ [w])) (length (vs @ [w])) ws" by (simp add: filled_snoc)
    also have "\<dots> = (if length (vs @ [w]) + length ws \<le> n
        then Inr (filled n z ((vs @ [w]) @ ws), length (vs @ [w]) + length ws)
        else Inl OobWrite)"
      using True by (intro Cons.IH) simp
    finally show ?thesis by simp
  next
    case False
    with Cons.prems show ?thesis by simp
  qed
qed

lemma wr_run_append:
  "wr_run xs j (vs @ ws) = rbind (wr_run xs j vs) (\<lambda>(xs', j'). wr_run xs' j' ws)"
  by (induction vs arbitrary: xs j) (auto simp: rbind_assoc intro!: arg_cong2 [where f = rbind])

section \<open>Counted loops\<close>

text \<open>\<open>for (i = ...)\<close> over a list of indices, stopping at the first fault.\<close>

fun for_list :: "('i \<Rightarrow> 's \<Rightarrow> 'e + 's) \<Rightarrow> 'i list \<Rightarrow> 's \<Rightarrow> 'e + 's" where
  "for_list f [] s = Inr s"
| "for_list f (i # is) s = rbind (f i s) (for_list f is)"

lemma for_list_append:
  "for_list f (is @ js) s = rbind (for_list f is s) (for_list f js)"
  by (induction "is" arbitrary: s) (auto simp: rbind_def split: sum.splits)

lemma for_list_cong:
  "(\<And>i s. i \<in> set is \<Longrightarrow> f i s = g i s) \<Longrightarrow> for_list f is s = for_list g is s"
  by (induction "is" arbitrary: s) (auto simp: rbind_def split: sum.splits)

lemma for_list_map: "for_list f (map h is) s = for_list (\<lambda>i. f (h i)) is s"
  by (induction "is" arbitrary: s) (auto simp: rbind_def split: sum.splits)

text \<open>Reading an array cell by cell is a loop over its cells.\<close>

lemma for_list_rd:
  assumes "n \<le> length a"
  shows "for_list (\<lambda>i s. rbind (rd a i) (\<lambda>c. f c s)) [0..<n] s = for_list f (take n a) s"
proof -
  have "take n a = map (\<lambda>i. a ! i) [0..<n]"
    using assms by (simp add: list_eq_iff_nth_eq)
  moreover have "for_list (\<lambda>i s. rbind (rd a i) (\<lambda>c. f c s)) [0..<n] s
      = for_list (\<lambda>i. f (a ! i)) [0..<n] s"
    using assms by (intro for_list_cong) simp
  ultimately show ?thesis by (simp add: for_list_map)
qed

lemma for_list_inv:
  assumes "for_list f is s = Inr s'" and "P s"
    and "\<And>i s t. i \<in> set is \<Longrightarrow> P s \<Longrightarrow> f i s = Inr t \<Longrightarrow> P t"
  shows "P s'"
  using assms by (induction "is" arbitrary: s) (auto simp: rbind_Inr_iff)

section \<open>C arithmetic\<close>

text \<open>Division and remainder of C's signed integers truncate towards zero.\<close>

definition cdiv :: "int \<Rightarrow> int \<Rightarrow> int" where
  "cdiv a b = sgn a * sgn b * (\<bar>a\<bar> div \<bar>b\<bar>)"

definition cmod :: "int \<Rightarrow> int \<Rightarrow> int" where
  "cmod a b = a - b * cdiv a b"

lemma cdiv_nonneg: "0 \<le> a \<Longrightarrow> 0 < b \<Longrightarrow> cdiv a b = a div b"
  by (cases "a = 0") (simp_all add: cdiv_def)

lemma cmod_nonneg: "0 \<le> a \<Longrightarrow> 0 < b \<Longrightarrow> cmod a b = a mod b"
  by (simp add: cmod_def cdiv_nonneg minus_mult_div_eq_mod)

definition cdivE :: "int \<Rightarrow> int \<Rightarrow> int res" where
  "cdivE a b = (if b = 0 then Inl DivZero else Inr (cdiv a b))"

lemma cdivE_simps [simp, res_simps]:
  "cdivE a 0 = Inl DivZero"
  "b \<noteq> 0 \<Longrightarrow> cdivE a b = Inr (cdiv a b)"
  by (simp_all add: cdivE_def)

text \<open>Conversion of an unsigned long to the 32-bit \<open>int\<close> it is stored in.\<close>

definition to_int32 :: "nat \<Rightarrow> int" where
  "to_int32 n = sint (word_of_nat n :: u32)"

lemma to_int32_small: "n < 2 ^ 31 \<Longrightarrow> to_int32 n = int n"
proof -
  assume n: "n < 2 ^ 31"
  have "to_int32 n = signed_take_bit 31 (int n)"
    by (simp add: to_int32_def signed_of_nat)
  also have "\<dots> = int n"
    using n by (intro signed_take_bit_int_eq_self) simp_all
  finally show ?thesis .
qed

section \<open>The C library calls of the console commands\<close>

text \<open>
  \<open>strtoul (s, NULL, 0)\<close>: blanks are skipped, an optional sign, then the base is read
  off the prefix (\<open>0x\<close> is 16, \<open>0\<close> is 8, else 10); the value saturates at
  \<open>ULONG_MAX\<close> and a leading minus negates it in the 64-bit type.
\<close>

definition digit_of :: "char \<Rightarrow> nat option" where
  "digit_of c = (let n = of_char c :: nat in
     if 48 \<le> n \<and> n \<le> 57 then Some (n - 48)
     else if 97 \<le> n \<and> n \<le> 122 then Some (n - 87)
     else if 65 \<le> n \<and> n \<le> 90 then Some (n - 55)
     else None)"

fun strtoul_digits :: "nat \<Rightarrow> nat \<Rightarrow> string \<Rightarrow> nat" where
  "strtoul_digits base acc [] = acc"
| "strtoul_digits base acc (c # cs) =
     (case digit_of c of
        None \<Rightarrow> acc
      | Some d \<Rightarrow> if d < base then strtoul_digits base (acc * base + d) cs else acc)"

definition c_isspace :: "char \<Rightarrow> bool" where
  "c_isspace c = (let n = of_char c :: nat in n = 32 \<or> (9 \<le> n \<and> n \<le> 13))"

definition strtoul_unsigned :: "string \<Rightarrow> nat" where
  "strtoul_unsigned s =
     min (2 ^ 64 - 1)
      (case s of
         a # b # c # rest \<Rightarrow>
           if a = CHR ''0'' \<and> (b = CHR ''x'' \<or> b = CHR ''X'') \<and>
              (case digit_of c of Some d \<Rightarrow> d < 16 | None \<Rightarrow> False)
           then strtoul_digits 16 0 (c # rest)
           else if a = CHR ''0'' then strtoul_digits 8 0 s
           else strtoul_digits 10 0 s
       | a # rest \<Rightarrow> if a = CHR ''0'' then strtoul_digits 8 0 s else strtoul_digits 10 0 s
       | [] \<Rightarrow> 0)"

definition strtoul0 :: "string \<Rightarrow> nat" where
  "strtoul0 s =
     (case dropWhile c_isspace s of
        [] \<Rightarrow> 0
      | c # cs \<Rightarrow>
          if c = CHR ''-'' then unat (- (word_of_nat (strtoul_unsigned cs) :: u64))
          else if c = CHR ''+'' then strtoul_unsigned cs
          else strtoul_unsigned (c # cs))"

text \<open>
  \<open>fgets (buf, size, stdin)\<close> on the characters waiting on the console: at most
  \<open>size - 1\<close> of them, stopping after a newline, then a NUL; \<open>None\<close> at end of file
  (the buffer is then unchanged).
\<close>

fun fgets_line :: "nat \<Rightarrow> string \<Rightarrow> string" where
  "fgets_line 0 cs = []"
| "fgets_line (Suc n) [] = []"
| "fgets_line (Suc n) (c # cs) =
     (if c = CHR 0x0A then [c] else c # fgets_line n cs)"

definition fgets :: "nat \<Rightarrow> string \<Rightarrow> string option" where
  "fgets n cs = (if cs = [] then None else Some (fgets_line (n - 1) cs @ [CHR 0x00]))"

lemma length_fgets_line: "length (fgets_line n cs) \<le> n"
  by (induction n cs rule: fgets_line.induct) auto

lemma length_fgets: "0 < n \<Longrightarrow> fgets n cs = Some b \<Longrightarrow> length b \<le> n"
  using length_fgets_line [of "n - 1" cs] by (auto simp: fgets_def split: if_splits)

text \<open>Writing a block of bytes over the start of a buffer.\<close>

definition overwrite :: "'a list \<Rightarrow> 'a list \<Rightarrow> 'a list" where
  "overwrite new old = new @ drop (length new) old"

lemma length_overwrite [simp]: "length new \<le> length old \<Longrightarrow> length (overwrite new old) = length old"
  by (simp add: overwrite_def)

end
