(* ===== verification/Morse_Code.thy ===== *)
theory Morse_Code
  imports Prelude
begin

text \<open>
  The code tables of \<open>ls2kdev_play/applications/morse_code.h\<close>: one array of half-words per
  character, each ending in the letter gap and none of them in a zero. The marks are
  numbers of milliseconds; the decoder of \<open>ls2kdev_record\<close> uses the same marks and adds
  \<open>MORSE_START\<close> and \<open>MORSE_FINSH\<close> (\<open>morse/morse_code.h\<close>).
\<close>

abbreviation (input) MORSE_DIAN :: "'a::numeral" where "MORSE_DIAN \<equiv> 100"
abbreviation (input) MORSE_HUA :: "'a::numeral" where "MORSE_HUA \<equiv> 300"
abbreviation (input) MORSE_ZIFU_KONG :: "'a::numeral" where "MORSE_ZIFU_KONG \<equiv> 3000"
abbreviation (input) MORSE_CI_KONG :: "'a::numeral" where "MORSE_CI_KONG \<equiv> 7000"
abbreviation (input) MORSE_FINSH :: "'a::zero" where "MORSE_FINSH \<equiv> 0"
abbreviation (input) MORSE_START :: "'a::one" where "MORSE_START \<equiv> 1"

section \<open>The tables\<close>

definition morse_kong :: "u16 list" where
  "morse_kong = [MORSE_CI_KONG, MORSE_ZIFU_KONG]"

definition morse_A :: "u16 list" where
  "morse_A = [MORSE_DIAN, MORSE_HUA, MORSE_ZIFU_KONG]"

definition morse_B :: "u16 list" where
  "morse_B = [MORSE_HUA, MORSE_DIAN, MORSE_DIAN, MORSE_DIAN, MORSE_ZIFU_KONG]"

definition morse_C :: "u16 list" where
  "morse_C = [MORSE_HUA, MORSE_DIAN, MORSE_HUA, MORSE_DIAN, MORSE_ZIFU_KONG]"

definition morse_D :: "u16 list" where
  "morse_D = [MORSE_HUA, MORSE_DIAN, MORSE_DIAN, MORSE_ZIFU_KONG]"

definition morse_E :: "u16 list" where
  "morse_E = [MORSE_DIAN, MORSE_ZIFU_KONG]"

definition morse_F :: "u16 list" where
  "morse_F = [MORSE_DIAN, MORSE_DIAN, MORSE_HUA, MORSE_DIAN, MORSE_ZIFU_KONG]"

definition morse_G :: "u16 list" where
  "morse_G = [MORSE_HUA, MORSE_HUA, MORSE_DIAN, MORSE_ZIFU_KONG]"

definition morse_H :: "u16 list" where
  "morse_H = [MORSE_DIAN, MORSE_DIAN, MORSE_DIAN, MORSE_DIAN, MORSE_ZIFU_KONG]"

definition morse_I :: "u16 list" where
  "morse_I = [MORSE_DIAN, MORSE_DIAN, MORSE_ZIFU_KONG]"

definition morse_J :: "u16 list" where
  "morse_J = [MORSE_DIAN, MORSE_HUA, MORSE_HUA, MORSE_HUA, MORSE_ZIFU_KONG]"

definition morse_K :: "u16 list" where
  "morse_K = [MORSE_HUA, MORSE_DIAN, MORSE_HUA, MORSE_ZIFU_KONG]"

definition morse_L :: "u16 list" where
  "morse_L = [MORSE_DIAN, MORSE_HUA, MORSE_DIAN, MORSE_DIAN, MORSE_ZIFU_KONG]"

definition morse_M :: "u16 list" where
  "morse_M = [MORSE_HUA, MORSE_HUA, MORSE_ZIFU_KONG]"

definition morse_N :: "u16 list" where
  "morse_N = [MORSE_HUA, MORSE_DIAN, MORSE_ZIFU_KONG]"

definition morse_O :: "u16 list" where
  "morse_O = [MORSE_HUA, MORSE_HUA, MORSE_HUA, MORSE_ZIFU_KONG]"

definition morse_P :: "u16 list" where
  "morse_P = [MORSE_DIAN, MORSE_HUA, MORSE_HUA, MORSE_DIAN, MORSE_ZIFU_KONG]"

definition morse_Q :: "u16 list" where
  "morse_Q = [MORSE_HUA, MORSE_HUA, MORSE_DIAN, MORSE_HUA, MORSE_ZIFU_KONG]"

definition morse_R :: "u16 list" where
  "morse_R = [MORSE_DIAN, MORSE_HUA, MORSE_DIAN, MORSE_ZIFU_KONG]"

definition morse_S :: "u16 list" where
  "morse_S = [MORSE_DIAN, MORSE_DIAN, MORSE_DIAN, MORSE_ZIFU_KONG]"

definition morse_T :: "u16 list" where
  "morse_T = [MORSE_HUA, MORSE_ZIFU_KONG]"

definition morse_U :: "u16 list" where
  "morse_U = [MORSE_DIAN, MORSE_DIAN, MORSE_HUA, MORSE_ZIFU_KONG]"

definition morse_V :: "u16 list" where
  "morse_V = [MORSE_DIAN, MORSE_DIAN, MORSE_DIAN, MORSE_HUA, MORSE_ZIFU_KONG]"

definition morse_W :: "u16 list" where
  "morse_W = [MORSE_DIAN, MORSE_HUA, MORSE_HUA, MORSE_ZIFU_KONG]"

definition morse_X :: "u16 list" where
  "morse_X = [MORSE_HUA, MORSE_DIAN, MORSE_DIAN, MORSE_HUA, MORSE_ZIFU_KONG]"

definition morse_Y :: "u16 list" where
  "morse_Y = [MORSE_HUA, MORSE_DIAN, MORSE_HUA, MORSE_HUA, MORSE_ZIFU_KONG]"

definition morse_Z :: "u16 list" where
  "morse_Z = [MORSE_HUA, MORSE_HUA, MORSE_DIAN, MORSE_DIAN, MORSE_ZIFU_KONG]"

definition morse_0 :: "u16 list" where
  "morse_0 = [MORSE_HUA, MORSE_HUA, MORSE_HUA, MORSE_HUA, MORSE_HUA, MORSE_ZIFU_KONG]"

definition morse_1 :: "u16 list" where
  "morse_1 = [MORSE_DIAN, MORSE_HUA, MORSE_HUA, MORSE_HUA, MORSE_HUA, MORSE_ZIFU_KONG]"

definition morse_2 :: "u16 list" where
  "morse_2 = [MORSE_DIAN, MORSE_DIAN, MORSE_HUA, MORSE_HUA, MORSE_HUA, MORSE_ZIFU_KONG]"

definition morse_3 :: "u16 list" where
  "morse_3 = [MORSE_DIAN, MORSE_DIAN, MORSE_DIAN, MORSE_HUA, MORSE_HUA, MORSE_ZIFU_KONG]"

definition morse_4 :: "u16 list" where
  "morse_4 = [MORSE_DIAN, MORSE_DIAN, MORSE_DIAN, MORSE_DIAN, MORSE_HUA, MORSE_ZIFU_KONG]"

definition morse_5 :: "u16 list" where
  "morse_5 = [MORSE_DIAN, MORSE_DIAN, MORSE_DIAN, MORSE_DIAN, MORSE_DIAN, MORSE_ZIFU_KONG]"

definition morse_6 :: "u16 list" where
  "morse_6 = [MORSE_HUA, MORSE_DIAN, MORSE_DIAN, MORSE_DIAN, MORSE_DIAN, MORSE_ZIFU_KONG]"

definition morse_7 :: "u16 list" where
  "morse_7 = [MORSE_HUA, MORSE_HUA, MORSE_DIAN, MORSE_DIAN, MORSE_DIAN, MORSE_ZIFU_KONG]"

definition morse_8 :: "u16 list" where
  "morse_8 = [MORSE_HUA, MORSE_HUA, MORSE_HUA, MORSE_DIAN, MORSE_DIAN, MORSE_ZIFU_KONG]"

definition morse_9 :: "u16 list" where
  "morse_9 = [MORSE_HUA, MORSE_HUA, MORSE_HUA, MORSE_HUA, MORSE_DIAN, MORSE_ZIFU_KONG]"

definition morse_dian :: "u16 list" where
  "morse_dian = [MORSE_DIAN, MORSE_HUA, MORSE_DIAN, MORSE_HUA, MORSE_DIAN, MORSE_HUA, MORSE_ZIFU_KONG]"

definition morse_mao :: "u16 list" where
  "morse_mao = [MORSE_HUA, MORSE_HUA, MORSE_HUA, MORSE_DIAN, MORSE_DIAN, MORSE_DIAN, MORSE_ZIFU_KONG]"

definition morse_dou :: "u16 list" where
  "morse_dou = [MORSE_HUA, MORSE_HUA, MORSE_DIAN, MORSE_DIAN, MORSE_HUA, MORSE_HUA, MORSE_ZIFU_KONG]"

definition morse_fen :: "u16 list" where
  "morse_fen = [MORSE_HUA, MORSE_DIAN, MORSE_HUA, MORSE_DIAN, MORSE_HUA, MORSE_DIAN, MORSE_ZIFU_KONG]"

definition morse_wen :: "u16 list" where
  "morse_wen = [MORSE_DIAN, MORSE_DIAN, MORSE_HUA, MORSE_HUA, MORSE_DIAN, MORSE_DIAN, MORSE_ZIFU_KONG]"

definition morse_deng :: "u16 list" where
  "morse_deng = [MORSE_HUA, MORSE_DIAN, MORSE_DIAN, MORSE_DIAN, MORSE_HUA, MORSE_ZIFU_KONG]"

definition morse_danyin :: "u16 list" where
  "morse_danyin = [MORSE_DIAN, MORSE_HUA, MORSE_HUA, MORSE_HUA, MORSE_HUA, MORSE_DIAN, MORSE_ZIFU_KONG]"

definition morse_xie :: "u16 list" where
  "morse_xie = [MORSE_HUA, MORSE_DIAN, MORSE_DIAN, MORSE_HUA, MORSE_DIAN, MORSE_ZIFU_KONG]"

definition morse_jing :: "u16 list" where
  "morse_jing = [MORSE_HUA, MORSE_DIAN, MORSE_HUA, MORSE_DIAN, MORSE_HUA, MORSE_HUA, MORSE_ZIFU_KONG]"

definition morse_hua :: "u16 list" where
  "morse_hua = [MORSE_HUA, MORSE_DIAN, MORSE_DIAN, MORSE_DIAN, MORSE_DIAN, MORSE_HUA, MORSE_ZIFU_KONG]"

definition morse_xiahua :: "u16 list" where
  "morse_xiahua = [MORSE_DIAN, MORSE_DIAN, MORSE_HUA, MORSE_HUA, MORSE_DIAN, MORSE_HUA, MORSE_ZIFU_KONG]"

definition morse_shuangyin :: "u16 list" where
  "morse_shuangyin = [MORSE_DIAN, MORSE_HUA, MORSE_DIAN, MORSE_DIAN, MORSE_HUA, MORSE_DIAN, MORSE_ZIFU_KONG]"

definition morse_zuokuo :: "u16 list" where
  "morse_zuokuo = [MORSE_HUA, MORSE_DIAN, MORSE_HUA, MORSE_HUA, MORSE_DIAN, MORSE_ZIFU_KONG]"

definition morse_youkuo :: "u16 list" where
  "morse_youkuo = [MORSE_HUA, MORSE_DIAN, MORSE_HUA, MORSE_HUA, MORSE_DIAN, MORSE_HUA, MORSE_ZIFU_KONG]"

definition morse_meiyuan :: "u16 list" where
  "morse_meiyuan = [MORSE_DIAN, MORSE_DIAN, MORSE_DIAN, MORSE_HUA, MORSE_DIAN, MORSE_DIAN, MORSE_HUA, MORSE_ZIFU_KONG]"

definition morse_and :: "u16 list" where
  "morse_and = [MORSE_DIAN, MORSE_DIAN, MORSE_DIAN, MORSE_DIAN, MORSE_ZIFU_KONG]"

definition morse_at :: "u16 list" where
  "morse_at = [MORSE_DIAN, MORSE_HUA, MORSE_HUA, MORSE_DIAN, MORSE_HUA, MORSE_DIAN, MORSE_ZIFU_KONG]"

lemmas morse_table_defs =
  morse_kong_def
  morse_A_def
  morse_B_def
  morse_C_def
  morse_D_def
  morse_E_def
  morse_F_def
  morse_G_def
  morse_H_def
  morse_I_def
  morse_J_def
  morse_K_def
  morse_L_def
  morse_M_def
  morse_N_def
  morse_O_def
  morse_P_def
  morse_Q_def
  morse_R_def
  morse_S_def
  morse_T_def
  morse_U_def
  morse_V_def
  morse_W_def
  morse_X_def
  morse_Y_def
  morse_Z_def
  morse_0_def
  morse_1_def
  morse_2_def
  morse_3_def
  morse_4_def
  morse_5_def
  morse_6_def
  morse_7_def
  morse_8_def
  morse_9_def
  morse_dian_def
  morse_mao_def
  morse_dou_def
  morse_fen_def
  morse_wen_def
  morse_deng_def
  morse_danyin_def
  morse_xie_def
  morse_jing_def
  morse_hua_def
  morse_xiahua_def
  morse_shuangyin_def
  morse_zuokuo_def
  morse_youkuo_def
  morse_meiyuan_def
  morse_and_def
  morse_at_def

end
