(* ===== verification/Morse_Encode.thy ===== *)
theory Morse_Encode
  imports Morse_Code
begin

text \<open>
  The Morse player of \<open>ls2kdev_play/applications/morse_encode.c\<close>: \<open>translate\<close> fills the
  global \<open>morse_code[200]\<close> from a buffer of 31 characters, and the console commands
  \<open>morse_play_once\<close> and \<open>morse_play_test\<close> turn that array into calls of the sound module.

  A table is copied \<open>while (morse_X[k] != NULL)\<close>, and no table holds a zero: the copy reads
  on into the memory behind the table. That memory is laid out by the compiler and the
  linker, so it is a parameter of the model: \<open>after c k\<close> is the half-word \<open>k\<close> places behind
  the table of the character \<open>c\<close>; \<open>aligned8\<close> is the layout of the shipped image. The console output of \<open>translate\<close> (the dots and dashes)
  is kept beside the array.
\<close>

section \<open>The switch of \<open>translate\<close>: what is printed and which table is copied\<close>

definition translate_A_M :: "char \<Rightarrow> (string \<times> u16 list) option" where
  "translate_A_M c =
    (if c = CHR '' '' then Some (''  '', morse_kong)
     else if c = CHR ''A'' then Some (''.- '', morse_A)
     else if c = CHR ''B'' then Some (''-... '', morse_B)
     else if c = CHR ''C'' then Some (''-.-. '', morse_C)
     else if c = CHR ''D'' then Some (''-.. '', morse_D)
     else if c = CHR ''E'' then Some (''. '', morse_E)
     else if c = CHR ''F'' then Some (''..-. '', morse_F)
     else if c = CHR ''G'' then Some (''--. '', morse_G)
     else if c = CHR ''H'' then Some (''.... '', morse_H)
     else if c = CHR ''I'' then Some (''.. '', morse_I)
     else if c = CHR ''J'' then Some (''.--- '', morse_J)
     else if c = CHR ''K'' then Some (''-.- '', morse_K)
     else if c = CHR ''L'' then Some (''.-.. '', morse_L)
     else if c = CHR ''M'' then Some (''-- '', morse_M)
     else None)"

definition translate_N_Z :: "char \<Rightarrow> (string \<times> u16 list) option" where
  "translate_N_Z c =
    (if c = CHR ''N'' then Some (''-. '', morse_N)
     else if c = CHR ''O'' then Some (''--- '', morse_O)
     else if c = CHR ''P'' then Some (''.--. '', morse_P)
     else if c = CHR ''Q'' then Some (''--.- '', morse_Q)
     else if c = CHR ''R'' then Some (''.-. '', morse_R)
     else if c = CHR ''S'' then Some (''... '', morse_S)
     else if c = CHR ''T'' then Some (''- '', morse_T)
     else if c = CHR ''U'' then Some (''..- '', morse_U)
     else if c = CHR ''V'' then Some (''...- '', morse_V)
     else if c = CHR ''W'' then Some (''.-- '', morse_W)
     else if c = CHR ''X'' then Some (''-..- '', morse_X)
     else if c = CHR ''Y'' then Some (''-.-- '', morse_Y)
     else if c = CHR ''Z'' then Some (''--.. '', morse_Z)
     else None)"

definition translate_digits :: "char \<Rightarrow> (string \<times> u16 list) option" where
  "translate_digits c =
    (if c = CHR ''0'' then Some (''----- '', morse_0)
     else if c = CHR ''1'' then Some (''.---- '', morse_1)
     else if c = CHR ''2'' then Some (''..--- '', morse_2)
     else if c = CHR ''3'' then Some (''...-- '', morse_3)
     else if c = CHR ''4'' then Some (''....- '', morse_4)
     else if c = CHR ''5'' then Some (''..... '', morse_5)
     else if c = CHR ''6'' then Some (''-.... '', morse_6)
     else if c = CHR ''7'' then Some (''--... '', morse_7)
     else if c = CHR ''8'' then Some (''---.. '', morse_8)
     else if c = CHR ''9'' then Some (''----. '', morse_9)
     else None)"

definition translate_punct1 :: "char \<Rightarrow> (string \<times> u16 list) option" where
  "translate_punct1 c =
    (if c = CHR ''.'' then Some (''.-.-.- '', morse_dian)
     else if c = CHR '':'' then Some (''---... '', morse_mao)
     else if c = CHR '','' then Some (''--..-- '', morse_dou)
     else if c = CHR '';'' then Some (''-.-.-. '', morse_fen)
     else if c = CHR ''?'' then Some (''..--.. '', morse_wen)
     else if c = CHR ''='' then Some (''-...- '', morse_deng)
     else if c = CHR 0x27 then Some (''.----. '', morse_danyin)
     else if c = CHR ''/'' then Some (''-..-. '', morse_xie)
     else if c = CHR ''!'' then Some (''-.-.-- '', morse_jing)
     else None)"

definition translate_punct2 :: "char \<Rightarrow> (string \<times> u16 list) option" where
  "translate_punct2 c =
    (if c = CHR ''-'' then Some (''-....- '', morse_hua)
     else if c = CHR ''_'' then Some (''..--.- '', morse_xiahua)
     else if c = CHR 0x22 then Some (''.-..-. '', morse_shuangyin)
     else if c = CHR ''('' then Some (''-.--. '', morse_zuokuo)
     else if c = CHR '')'' then Some (''-.--.- '', morse_youkuo)
     else if c = CHR ''$'' then Some (''...-..- '', morse_meiyuan)
     else if c = CHR ''&'' then Some (''...- '', morse_and)
     else if c = CHR ''@'' then Some (''.--.-. '', morse_at)
     else None)"

definition translate_case :: "char \<Rightarrow> (string \<times> u16 list) option" where
  "translate_case c =
     (case translate_A_M c of Some r \<Rightarrow> Some r | None \<Rightarrow>
      case translate_N_Z c of Some r \<Rightarrow> Some r | None \<Rightarrow>
      case translate_digits c of Some r \<Rightarrow> Some r | None \<Rightarrow>
      case translate_punct1 c of Some r \<Rightarrow> Some r | None \<Rightarrow>
      translate_punct2 c)"

lemmas translate_groups =
  translate_A_M_def translate_N_Z_def translate_digits_def translate_punct1_def
  translate_punct2_def

section \<open>Copying a table\<close>

type_synonym layout = "char \<Rightarrow> nat \<Rightarrow> u16"

definition table_mem :: "layout \<Rightarrow> char \<Rightarrow> u16 list \<Rightarrow> nat \<Rightarrow> u16" where
  "table_mem after c t k = (if k < length t then t ! k else after c (k - length t))"

text \<open>\<open>while (morse_X[k] != NULL) { morse_code[j] = morse_X[k]; k++; j++; }\<close>\<close>

function copy_table :: "(nat \<Rightarrow> u16) \<Rightarrow> u16 list \<Rightarrow> nat \<Rightarrow> nat \<Rightarrow> (u16 list \<times> nat) res" where
  "copy_table tb code j k =
     (if tb k = 0 then Inr (code, j)
      else if j < length code then copy_table tb (code[j := tb k]) (Suc j) (Suc k)
      else Inl OobWrite)"
  by pat_completeness auto
termination
  by (relation "measure (\<lambda>(tb, code, j, k). length code - j)") auto

declare copy_table.simps [simp del]

definition translate_step ::
  "layout \<Rightarrow> char \<Rightarrow> string \<times> u16 list \<times> nat \<Rightarrow> (string \<times> u16 list \<times> nat) res" where
  "translate_step after c st =
     (case st of (out, code, j) \<Rightarrow>
      case translate_case c of
        None \<Rightarrow> Inr (out, code, j)
      | Some (txt, t) \<Rightarrow>
          rbind (copy_table (table_mem after c t) code j 0)
            (\<lambda>(code', j'). Inr (out @ txt, code', j')))"

text \<open>\<open>for (i = 0; i < 31; i++) switch (a[i])\<close>, on the cleared array.\<close>

definition translate :: "layout \<Rightarrow> string \<Rightarrow> (string \<times> u16 list) res" where
  "translate after a =
     rbind (for_list (\<lambda>i s. rbind (rd a i) (\<lambda>c. translate_step after c s)) [0..<31]
              ([], replicate 200 0, 0))
       (\<lambda>(out, code, j). Inr (out, code))"

section \<open>Playing\<close>

datatype sound_op =
    Sound_init
  | Sound_off
  | Sound_on
  | Sound_set u16 u8
  | Mdelay int

text \<open>\<open>while (morse_code[i] != NULL)\<close> of \<open>morse_play_once\<close>, on the rest of the array.\<close>

fun play_once_loop :: "int \<Rightarrow> int \<Rightarrow> u16 list \<Rightarrow> sound_op list res" where
  "play_once_loop freq speed [] = Inl OobRead"
| "play_once_loop freq speed (c # cs) =
     (if c = 0 then Inr []
      else if c = MORSE_ZIFU_KONG then
        rbind (cdivE 600 speed) (\<lambda>d.
        rbind (play_once_loop freq speed cs) (\<lambda>ops. Inr (Sound_off # Mdelay d # ops)))
      else if c = MORSE_CI_KONG then
        rbind (cdivE 400 speed) (\<lambda>d.
        rbind (play_once_loop freq speed cs) (\<lambda>ops. Inr (Sound_off # Mdelay d # ops)))
      else if c = MORSE_DIAN \<or> c = MORSE_HUA then
        rbind (cdivE (uint c * 2) speed) (\<lambda>d.
        rbind (cdivE 200 speed) (\<lambda>d'.
        rbind (play_once_loop freq speed cs) (\<lambda>ops.
          Inr (Sound_set (word_of_int freq) 50 # Sound_on # Mdelay d # Sound_off #
               Mdelay d' # ops))))
      else play_once_loop freq speed cs)"

fun play_test_loop :: "u16 list \<Rightarrow> sound_op list res" where
  "play_test_loop [] = Inl OobRead"
| "play_test_loop (c # cs) =
     (if c = 0 then Inr []
      else if c = MORSE_ZIFU_KONG then
        rbind (play_test_loop cs) (\<lambda>ops. Inr (Sound_off # Mdelay 300 # ops))
      else if c = MORSE_CI_KONG then
        rbind (play_test_loop cs) (\<lambda>ops. Inr (Sound_off # Mdelay 200 # ops))
      else if c = MORSE_DIAN \<or> c = MORSE_HUA then
        rbind (play_test_loop cs) (\<lambda>ops.
          Inr (Sound_set 3000 50 # Sound_on # Mdelay (uint c) # Sound_off # Mdelay 100 # ops))
      else play_test_loop cs)"

text \<open>
  \<open>malloc (31)\<close> filled with \<open>~\<close>, then \<open>fgets\<close>; \<open>strlen\<close> runs off the buffer when it holds
  no NUL. \<open>None\<close> models a failed \<open>malloc\<close>.
\<close>

definition read_input :: "bool \<Rightarrow> string \<Rightarrow> string res" where
  "read_input malloc_ok input =
     (if \<not> malloc_ok then Inl NullPtr
      else let str = replicate 31 (CHR ''~'');
               str' = (case fgets 31 input of None \<Rightarrow> str | Some b \<Rightarrow> overwrite b str)
           in if CHR 0x00 \<in> set str' then Inr str' else Inl OobRead)"

text \<open>\<open>None\<close> is a usage message; the command has then called nothing.\<close>

definition morse_play_once ::
  "layout \<Rightarrow> bool \<Rightarrow> string list \<Rightarrow> string \<Rightarrow> (string \<times> sound_op list) option res" where
  "morse_play_once after malloc_ok argv input =
     (case argv of
        [_, a1, a2] \<Rightarrow>
          (let freq = to_int32 (strtoul0 a1) in
           if freq < 3500 then
             let speed = to_int32 (strtoul0 a2) in
             rbind (read_input malloc_ok input) (\<lambda>str.
             rbind (translate after str) (\<lambda>(out, code).
             rbind (play_once_loop freq speed code) (\<lambda>ops. Inr (Some (out, Sound_init # ops)))))
           else Inr None)
      | _ \<Rightarrow> Inr None)"

text \<open>
  The pointer returned by \<open>malloc\<close> is replaced by the literal, whose 24 characters and NUL
  are followed by the bytes \<open>behind\<close>; \<open>translate\<close> scans 31 of them.
\<close>

definition morse_play_test ::
  "layout \<Rightarrow> bool \<Rightarrow> string \<Rightarrow> (string \<times> sound_op list) res" where
  "morse_play_test after malloc_ok behind =
     (if \<not> malloc_ok then Inl NullPtr
      else rbind (translate after (''WO AI LUO SHAN JI HU REN'' @ [CHR 0x00] @ behind))
        (\<lambda>(out, code). rbind (play_test_loop code) (\<lambda>ops. Inr (out, Sound_init # ops))))"

section \<open>Specification: the code of a character, of a text\<close>

definition code_of :: "char \<Rightarrow> u16 list" where
  "code_of c = (case translate_case c of None \<Rightarrow> [] | Some (txt, t) \<Rightarrow> t)"

definition printed_of :: "char \<Rightarrow> string" where
  "printed_of c = (case translate_case c of None \<Rightarrow> [] | Some (txt, t) \<Rightarrow> txt)"

definition morse_of :: "string \<Rightarrow> u16 list" where
  "morse_of s = concat (map code_of s)"

definition text_of :: "string \<Rightarrow> string" where
  "text_of s = concat (map printed_of s)"

text \<open>The 54 characters the switch has a case for.\<close>

definition alphabet :: string where
  "alphabet = '' ABCDEFGHIJKLMNOPQRSTUVWXYZ0123456789.:,;?='' @
     [CHR 0x27] @ ''/!-_'' @ [CHR 0x22] @ ''()$&@''"

lemma translate_case_alphabet: "translate_case c \<noteq> None \<Longrightarrow> c \<in> set alphabet"
  unfolding translate_case_def translate_groups alphabet_def
  by (simp split: if_splits)

lemma translate_case_None: "c \<notin> set alphabet \<Longrightarrow> translate_case c = None"
  using translate_case_alphabet by blast

text \<open>A table is not empty, holds marks only, ends in the letter gap and has at most 8 cells.\<close>

definition is_table :: "u16 list \<Rightarrow> bool" where
  "is_table t \<longleftrightarrow> t \<noteq> [] \<and> length t \<le> 8 \<and> last t = MORSE_ZIFU_KONG \<and>
     (butlast t = [MORSE_CI_KONG] \<or>
      list_all (\<lambda>m. m = MORSE_DIAN \<or> m = MORSE_HUA) (butlast t))"

lemma alphabet_tables: "list_all (\<lambda>c. is_table (code_of c)) alphabet"
  unfolding alphabet_def is_table_def code_of_def translate_case_def
  by (simp add: translate_groups morse_table_defs)

lemma is_table_code_of: "translate_case c = Some (txt, t) \<Longrightarrow> is_table t"
  using alphabet_tables translate_case_alphabet [of c]
  by (auto simp: list_all_iff code_of_def)

lemma is_table_nonzero: "is_table t \<Longrightarrow> 0 \<notin> set t"
proof -
  assume t: "is_table t"
  then have "t = butlast t @ [3000]" by (metis append_butlast_last_id is_table_def)
  moreover have "0 \<notin> set (butlast t)"
    using t by (auto simp: is_table_def list_all_iff)
  ultimately have "set t = insert 3000 (set (butlast t))"
    by (metis append.right_neutral list.set(1,2) rotate1.simps(2) set_append set_rotate1 sup_commute
        Un_insert_left Un_empty_left)
  with \<open>0 \<notin> set (butlast t)\<close> show ?thesis by simp
qed

lemma code_of_nonzero: "0 \<notin> set (code_of c)"
proof (cases "translate_case c")
  case (Some r)
  then show ?thesis
    using is_table_nonzero [OF is_table_code_of [of c "fst r" "snd r"]] by (cases r) (simp add: code_of_def)
qed (simp add: code_of_def)

lemma length_code_of: "length (code_of c) \<le> 8"
  using is_table_code_of by (fastforce simp: code_of_def is_table_def split: option.splits)

lemma morse_of_simps [simp]:
  "morse_of [] = []"
  "morse_of (c # s) = code_of c @ morse_of s"
  "morse_of (s @ s') = morse_of s @ morse_of s'"
  by (simp_all add: morse_of_def)

lemma text_of_simps [simp]:
  "text_of [] = []"
  "text_of (c # s) = printed_of c @ text_of s"
  "text_of (s @ s') = text_of s @ text_of s'"
  by (simp_all add: text_of_def)

lemma morse_of_nonzero: "0 \<notin> set (morse_of s)"
  using code_of_nonzero by (induction s) auto

lemma code_of_marks: "set (code_of c) \<subseteq> {100, 300, 3000, 7000}"
proof (cases "c \<in> set alphabet")
  case True
  have "list_all (\<lambda>c. list_all (\<lambda>m. m = 100 \<or> m = 300 \<or> m = 3000 \<or> m = 7000) (code_of c)) alphabet"
    unfolding alphabet_def code_of_def translate_case_def
    by (simp add: translate_groups morse_table_defs)
  with True show ?thesis by (auto simp: list_all_iff)
qed (simp add: code_of_def translate_case_None)

lemma morse_of_marks: "set (morse_of s) \<subseteq> {100, 300, 3000, 7000}"
  using code_of_marks by (induction s) auto

lemma length_morse_of: "length (morse_of s) \<le> 8 * length s"
proof (induction s)
  case (Cons c s)
  then show ?case using length_code_of [of c] by simp
qed simp

section \<open>Copying stops at the end of the table when a zero follows it\<close>

lemma copy_table_run:
  assumes "\<And>i. i < n \<Longrightarrow> tb (k + i) \<noteq> 0" and "tb (k + n) = 0"
  shows "copy_table tb code j k = wr_run code j (map tb [k..<k + n])"
  using assms
proof (induction n arbitrary: code j k)
  case 0
  then show ?case by (simp add: copy_table.simps)
next
  case (Suc n)
  have ne: "tb k \<noteq> 0" using Suc.prems(1) [of 0] by simp
  have cons: "[k..<k + Suc n] = k # [Suc k..<Suc k + n]" by (simp add: upt_conv_Cons)
  have IH: "copy_table tb code' (Suc j) (Suc k) = wr_run code' (Suc j) (map tb [Suc k..<Suc k + n])"
    for code'
    using Suc.prems(1) [of "Suc i" for i] Suc.prems(2) by (intro Suc.IH) simp_all
  show ?case
    unfolding copy_table.simps [of tb code j k] cons
    using ne IH by (simp add: wr_def)
qed

lemma copy_table_padded:
  assumes "0 \<notin> set t" and "after c 0 = 0"
  shows "copy_table (table_mem after c t) code j 0 = wr_run code j t"
proof -
  have "copy_table (table_mem after c t) code j 0
      = wr_run code j (map (table_mem after c t) [0..<0 + length t])"
  proof (rule copy_table_run)
    fix i assume "i < length t"
    then have "t ! i \<noteq> 0" using assms(1) by (metis nth_mem)
    with \<open>i < length t\<close> show "table_mem after c t (0 + i) \<noteq> 0" by (simp add: table_mem_def)
  qed (simp add: table_mem_def assms(2))
  also have "map (table_mem after c t) [0..<0 + length t] = t"
    by (rule nth_equalityI) (simp_all add: table_mem_def)
  finally show ?thesis .
qed

text \<open>Whatever follows the table, at least its own cells are copied.\<close>

lemma copy_table_progress:
  assumes "copy_table tb code j k = Inr (code', j')"
    and "\<And>i. i < n \<Longrightarrow> tb (k + i) \<noteq> 0" and "j \<le> length code"
  shows "j + n \<le> j' \<and> j' \<le> length code' \<and> length code' = length code"
  using assms
proof (induction tb code j k arbitrary: n rule: copy_table.induct)
  case (1 tb code j k)
  show ?case
  proof (cases "tb k = 0")
    case True
    with "1.prems"(2) [of 0] have "n = 0" by auto
    with True "1.prems" show ?thesis by (simp add: copy_table.simps [of tb code j k])
  next
    case False
    with "1.prems"(1) have j: "j < length code"
      and run: "copy_table tb (code[j := tb k]) (Suc j) (Suc k) = Inr (code', j')"
      by (auto simp: copy_table.simps [of tb code j k] split: if_splits)
    have "Suc j + (n - 1) \<le> j' \<and> j' \<le> length code' \<and> length code' = length (code[j := tb k])"
      using "1.prems"(2) [of "Suc i" for i] j by (intro "1.IH" [OF False j run]) simp_all
    then show ?thesis by auto
  qed
qed

lemma copy_table_fault: "copy_table tb code j k = Inl e \<Longrightarrow> e = OobWrite"
  by (induction tb code j k rule: copy_table.induct)
    (subst (asm) (2) copy_table.simps, simp split: if_splits)

lemma translate_step_progress:
  assumes "translate_step after c (out, code, j) = Inr (out', code', j')" and "j \<le> length code"
  shows "j + length (code_of c) \<le> j' \<and> j' \<le> length code' \<and> length code' = length code"
proof (cases "translate_case c")
  case None
  with assms show ?thesis by (simp add: translate_step_def code_of_def)
next
  case (Some r)
  then have t: "0 \<notin> set (snd r)"
    using is_table_nonzero [OF is_table_code_of [of c "fst r" "snd r"]] by simp
  have "table_mem after c (snd r) (0 + i) \<noteq> 0" if "i < length (snd r)" for i
    using t that by (auto simp: table_mem_def) (metis nth_mem)
  moreover have "copy_table (table_mem after c (snd r)) code j 0 = Inr (code', j')"
    using Some assms(1) by (auto simp: translate_step_def rbind_Inr_iff split: prod.splits)
  ultimately have "j + length (snd r) \<le> j' \<and> j' \<le> length code' \<and> length code' = length code"
    using assms(2) copy_table_progress by metis
  with Some show ?thesis by (cases r) (simp add: code_of_def)
qed

lemma translate_loop_progress:
  assumes "for_list (translate_step after) s (out, code, j) = Inr (out', code', j')"
    and "j \<le> length code"
  shows "j + length (morse_of s) \<le> j' \<and> j' \<le> length code' \<and> length code' = length code"
  using assms
proof (induction s arbitrary: out code j)
  case Nil
  then show ?case by simp
next
  case (Cons c s)
  then obtain out1 code1 j1 where
    step: "translate_step after c (out, code, j) = Inr (out1, code1, j1)" and
    rest: "for_list (translate_step after) s (out1, code1, j1) = Inr (out', code', j')"
    by (auto simp: rbind_Inr_iff)
  from translate_step_progress [OF step Cons.prems(2)] Cons.IH [OF rest]
  show ?case by auto
qed

lemma translate_loop_fault:
  "for_list (translate_step after) s st = Inl e \<Longrightarrow> e = OobWrite"
proof (induction s arbitrary: st)
  case (Cons c s)
  show ?case
  proof (cases "translate_step after c st")
    case (Inl e')
    with Cons.prems have "translate_step after c st = Inl e" by simp
    then show ?thesis
      by (auto simp: translate_step_def rbind_Inl_iff split: prod.splits option.splits
          dest!: copy_table_fault)
  next
    case (Inr st')
    with Cons show ?thesis by simp
  qed
qed simp

definition padded_for :: "layout \<Rightarrow> string \<Rightarrow> bool" where
  "padded_for after s \<longleftrightarrow> list_all (\<lambda>c. code_of c = [] \<or> after c 0 = 0) s"

text \<open>What the loop leaves when the copying of each character's table is known.\<close>

definition copied :: "layout \<Rightarrow> (char \<Rightarrow> u16 list) \<Rightarrow> char \<Rightarrow> bool" where
  "copied after f c \<longleftrightarrow>
     (if code_of c = [] then f c = []
      else \<forall>code j. copy_table (table_mem after c (code_of c)) code j 0 = wr_run code j (f c))"

lemma translate_step_copied:
  assumes "copied after f c" and "length code \<le> 200"
  shows "translate_step after c (out, filled 200 0 code, length code) =
     (if length code + length (f c) \<le> 200
      then Inr (out @ printed_of c, filled 200 0 (code @ f c), length (code @ f c))
      else Inl OobWrite)"
proof (cases "translate_case c")
  case None
  with assms show ?thesis by (simp add: translate_step_def code_of_def printed_of_def copied_def)
next
  case (Some r)
  obtain out' t where r: "r = (out', t)" by force
  have "t \<noteq> []" using is_table_code_of [of c out' t] Some r by (simp add: is_table_def)
  with assms Some r show ?thesis
    by (simp add: translate_step_def code_of_def printed_of_def copied_def wr_run_filled)
qed

lemma translate_loop_copied:
  assumes "list_all (copied after f) s" and "length code \<le> 200"
  shows "for_list (translate_step after) s (out, filled 200 0 code, length code) =
     (if length code + length (concat (map f s)) \<le> 200
      then Inr (out @ text_of s, filled 200 0 (code @ concat (map f s)), length (code @ concat (map f s)))
      else Inl OobWrite)"
  using assms
proof (induction s arbitrary: out code)
  case Nil
  then show ?case by simp
next
  case (Cons c s)
  then have c: "copied after f c" and s: "list_all (copied after f) s" by simp_all
  show ?case
  proof (cases "length code + length (f c) \<le> 200")
    case True
    with Cons.IH [OF s, of "code @ f c" "out @ printed_of c"] show ?thesis
      using translate_step_copied [OF c Cons.prems(2)] by (simp add: add.assoc)
  next
    case False
    then show ?thesis using translate_step_copied [OF c Cons.prems(2)] by simp
  qed
qed

lemma translate_copied:
  assumes "31 \<le> length a" and "list_all (copied after f) (take 31 a)"
  shows "translate after a =
     (let ms = concat (map f (take 31 a)) in
      if length ms \<le> 200 then Inr (text_of (take 31 a), filled 200 0 ms) else Inl OobWrite)"
  using translate_loop_copied [OF assms(2), of "[]" "[]"]
  by (simp add: translate_def for_list_rd [OF assms(1)] filled_Nil Let_def)

lemma copied_padded: "code_of c = [] \<or> after c 0 = 0 \<Longrightarrow> copied after code_of c"
  using copy_table_padded [where t = "code_of c", OF code_of_nonzero, of after c]
  by (auto simp: copied_def)

lemma translate_spec:
  assumes "31 \<le> length a" and "padded_for after (take 31 a)"
  shows "translate after a =
     (if length (morse_of (take 31 a)) \<le> 200
      then Inr (text_of (take 31 a), filled 200 0 (morse_of (take 31 a)))
      else Inl OobWrite)"
proof -
  have "list_all (copied after code_of) (take 31 a)"
    using assms(2) copied_padded unfolding padded_for_def by (auto simp: list_all_iff)
  from translate_copied [OF assms(1) this] show ?thesis by (simp add: morse_of_def Let_def)
qed

section \<open>The player's calls, mark by mark\<close>

definition mark_ops :: "int \<Rightarrow> int \<Rightarrow> u16 \<Rightarrow> sound_op list" where
  "mark_ops freq speed c =
     (if c = MORSE_ZIFU_KONG then [Sound_off, Mdelay (cdiv 600 speed)]
      else if c = MORSE_CI_KONG then [Sound_off, Mdelay (cdiv 400 speed)]
      else if c = MORSE_DIAN \<or> c = MORSE_HUA then
        [Sound_set (word_of_int freq) 50, Sound_on, Mdelay (cdiv (uint c * 2) speed),
         Sound_off, Mdelay (cdiv 200 speed)]
      else [])"

definition test_mark_ops :: "u16 \<Rightarrow> sound_op list" where
  "test_mark_ops c =
     (if c = MORSE_ZIFU_KONG then [Sound_off, Mdelay 300]
      else if c = MORSE_CI_KONG then [Sound_off, Mdelay 200]
      else if c = MORSE_DIAN \<or> c = MORSE_HUA then
        [Sound_set 3000 50, Sound_on, Mdelay (uint c), Sound_off, Mdelay 100]
      else [])"

lemma play_once_loop_marks:
  "0 \<notin> set ms \<Longrightarrow> speed \<noteq> 0 \<Longrightarrow>
   play_once_loop freq speed (ms @ 0 # rest) = Inr (concat (map (mark_ops freq speed) ms))"
  by (induction ms) (auto simp: mark_ops_def)

lemma play_test_loop_marks:
  "0 \<notin> set ms \<Longrightarrow> play_test_loop (ms @ 0 # rest) = Inr (concat (map test_mark_ops ms))"
  by (induction ms) (auto simp: test_mark_ops_def)

lemma play_once_loop_full:
  "0 \<notin> set ms \<Longrightarrow> speed \<noteq> 0 \<Longrightarrow> play_once_loop freq speed ms = Inl OobRead"
  by (induction ms) auto

lemma play_once_loop_speed_zero:
  "c = 3000 \<or> c = 7000 \<or> c = 100 \<or> c = 300 \<Longrightarrow>
   play_once_loop freq 0 (c # cs) = Inl DivZero"
  by auto

lemma play_once_loop_shape:
  "play_once_loop freq speed code = Inr ops \<Longrightarrow>
   \<exists>ms. ops = concat (map (mark_ops freq speed) ms)"
proof (induction code arbitrary: ops)
  case (Cons c cs)
  show ?case
  proof (cases "c = 0")
    case True
    with Cons.prems show ?thesis by (auto intro: exI [of _ "[]"])
  next
    case False
    with Cons.prems obtain ops' where
      "play_once_loop freq speed cs = Inr ops'" "ops = mark_ops freq speed c @ ops'"
      by (auto simp: rbind_Inr_iff mark_ops_def cdivE_def split: if_splits)
    with Cons.IH obtain ms where "ops = concat (map (mark_ops freq speed) (c # ms))" by auto
    then show ?thesis by blast
  qed
qed simp

lemma mark_ops_shape:
  "mark_ops freq speed m = [] \<or>
   (\<exists>n. mark_ops freq speed m =
     butlast (butlast (mark_ops freq speed m)) @ Sound_off # [Mdelay n])"
  by (simp add: mark_ops_def)

lemma filled_split:
  "length ms < n \<Longrightarrow> filled n 0 ms = ms @ 0 # replicate (n - Suc (length ms)) 0"
  by (simp add: filled_def Suc_diff_Suc flip: replicate_Suc)

lemma takeWhile_zero: "xs = ms @ 0 # r \<Longrightarrow> 0 \<notin> set ms \<Longrightarrow> takeWhile (\<lambda>m. m \<noteq> 0) xs = ms"
  by (induction ms arbitrary: xs) auto

lemma length_read_input: "read_input m inp = Inr str \<Longrightarrow> length str = 31"
  using length_fgets [of 31 inp]
  by (auto simp: read_input_def Let_def split: if_splits option.splits)

section \<open>The layout of the shipped image\<close>

text \<open>
  The MIPS compiler aligns an array to 8 bytes, and the tables follow each other in the
  order of the header: \<open>ls2kdev_play/rtthread.elf\<close> holds them so. A table of 4 or 8
  half-words is then followed by the next table and not by a zero.
\<close>

definition pad8 :: "u16 list \<Rightarrow> u16 list" where
  "pad8 t = replicate ((4 - length t mod 4) mod 4) 0"

fun behind :: "char \<Rightarrow> string \<Rightarrow> u16 list" where
  "behind c [] = []"
| "behind c (d # ds) =
     (if c = d then pad8 (code_of d) @ concat (map (\<lambda>e. code_of e @ pad8 (code_of e)) ds)
      else behind c ds)"

definition aligned8 :: layout where
  "aligned8 c k = (let m = behind c alphabet in if k < length m then m ! k else 0)"

lemma code_of_eval:
  "code_of c = (case translate_A_M c of Some r \<Rightarrow> snd r | None \<Rightarrow>
      case translate_N_Z c of Some r \<Rightarrow> snd r | None \<Rightarrow>
      case translate_digits c of Some r \<Rightarrow> snd r | None \<Rightarrow>
      case translate_punct1 c of Some r \<Rightarrow> snd r | None \<Rightarrow>
      case translate_punct2 c of Some r \<Rightarrow> snd r | None \<Rightarrow> [])"
  by (auto simp: code_of_def translate_case_def split: option.splits)

lemma behind_hd:
  assumes "c \<in> set ds" and "\<forall>d \<in> set ds. is_table (code_of d)"
    and "length (code_of (last ds)) mod 4 \<noteq> 0"
  shows "behind c ds \<noteq> [] \<and> (hd (behind c ds) = 0 \<longleftrightarrow> length (code_of c) mod 4 \<noteq> 0)"
  using assms
proof (induction ds)
  case Nil
  then show ?case by simp
next
  case (Cons d ds)
  show ?case
  proof (cases "c = d")
    case False
    with Cons show ?thesis by (cases ds) simp_all
  next
    case True
    show ?thesis
    proof (cases "length (code_of d) mod 4 = 0")
      case False
      then have "(4 - length (code_of d) mod 4) mod 4 \<noteq> 0" by presburger
      then obtain m where "(4 - length (code_of d) mod 4) mod 4 = Suc m"
        using not0_implies_Suc by blast
      with True False show ?thesis by (simp add: pad8_def)
    next
      case aligned: True
      with Cons.prems(3) have "ds \<noteq> []" by auto
      then obtain e es where ds: "ds = e # es" by (cases ds) auto
      with Cons.prems(2) have "is_table (code_of e)" by simp
      then have ne: "code_of e \<noteq> []" by (simp add: is_table_def)
      then have "hd (code_of e) \<noteq> 0" using code_of_nonzero [of e] hd_in_set by metis
      with True aligned ds ne show ?thesis by (simp add: pad8_def hd_append)
    qed
  qed
qed

lemma aligned8_zero:
  assumes "c \<in> set alphabet"
  shows "aligned8 c 0 = 0 \<longleftrightarrow> length (code_of c) mod 4 \<noteq> 0"
proof -
  have "behind c alphabet \<noteq> [] \<and>
      (hd (behind c alphabet) = 0 \<longleftrightarrow> length (code_of c) mod 4 \<noteq> 0)"
  proof (rule behind_hd [OF assms])
    show "\<forall>d \<in> set alphabet. is_table (code_of d)"
      using alphabet_tables by (simp add: list_all_iff)
    show "length (code_of (last alphabet)) mod 4 \<noteq> 0"
      by (simp add: alphabet_def code_of_def translate_case_def translate_groups morse_table_defs)
  qed
  then show ?thesis by (auto simp: aligned8_def Let_def simp flip: hd_conv_nth)
qed

lemma padded_for_aligned8:
  "padded_for aligned8 s \<longleftrightarrow> list_all (\<lambda>c. code_of c = [] \<or> length (code_of c) mod 4 \<noteq> 0) s"
proof -
  have "(code_of c = [] \<or> aligned8 c 0 = 0) \<longleftrightarrow>
      (code_of c = [] \<or> length (code_of c) mod 4 \<noteq> 0)" for c
    using aligned8_zero [of c] translate_case_None [of c]
    by (cases "c \<in> set alphabet") (simp_all add: code_of_def)
  then show ?thesis by (simp add: padded_for_def)
qed

text \<open>What is copied for a character in this layout: its table and those behind it up to a zero.\<close>

definition shipped_code :: "char \<Rightarrow> u16 list" where
  "shipped_code c =
     (if code_of c = [] then [] else takeWhile (\<lambda>m. m \<noteq> 0) (code_of c @ behind c alphabet))"

lemma copy_table_takeWhile:
  assumes "\<And>k. tb k = (if k < length m then m ! k else 0)"
  shows "copy_table tb code j 0 = wr_run code j (takeWhile (\<lambda>v. v \<noteq> 0) m)"
proof -
  let ?n = "length (takeWhile (\<lambda>v. v \<noteq> 0) m)"
  have le: "?n \<le> length m" by (rule length_takeWhile_le)
  have nz: "m ! i \<noteq> 0" if "i < ?n" for i
    using nth_mem [OF that] set_takeWhileD [of _ "\<lambda>v. v \<noteq> 0" m] takeWhile_nth [OF that] by metis
  have z: "m ! ?n = 0" if "?n < length m"
    using nth_length_takeWhile [of "\<lambda>v. v \<noteq> 0" m] that by blast
  have "copy_table tb code j 0 = wr_run code j (map tb [0..<0 + ?n])"
  proof (rule copy_table_run)
    show "tb (0 + i) \<noteq> 0" if "i < ?n" for i using nz [OF that] that le by (simp add: assms)
    show "tb (0 + ?n) = 0" using z by (simp add: assms)
  qed
  moreover have "map tb [0..<?n] = takeWhile (\<lambda>v. v \<noteq> 0) m"
    using le by (intro nth_equalityI) (simp_all add: assms takeWhile_nth)
  ultimately show ?thesis by simp
qed

lemma copied_shipped: "copied aligned8 shipped_code c"
proof (cases "code_of c = []")
  case False
  have "table_mem aligned8 c (code_of c) k = (if k < length (code_of c @ behind c alphabet)
      then (code_of c @ behind c alphabet) ! k else 0)" for k
    by (auto simp: table_mem_def aligned8_def Let_def nth_append)
  from copy_table_takeWhile [OF this] show ?thesis
    using False by (simp add: copied_def shipped_code_def del: takeWhile_append)
qed (simp add: copied_def shipped_code_def)

text \<open>The letters whose tables end at a multiple of 8 bytes are run on with the next ones.\<close>

definition run_on :: "char \<Rightarrow> string" where
  "run_on c =
    (if c = CHR ''D'' then ''DE'' else if c = CHR ''G'' then ''GH'' else if c = CHR ''K'' then ''KL''
     else if c = CHR ''O'' then ''OP'' else if c = CHR ''R'' then ''RST'' else if c = CHR ''S'' then ''ST''
     else if c = CHR ''U'' then ''UV'' else if c = CHR ''W'' then ''WX'' else if c = CHR ''$'' then ''$&''
     else [c])"

fun table_chain :: "string \<Rightarrow> u16 list" where
  "table_chain [] = []"
| "table_chain (d # ds) =
     code_of d @ (if length (code_of d) mod 4 = 0 then table_chain ds else [])"

lemma takeWhile_table:
  "takeWhile (\<lambda>m. m \<noteq> 0) (code_of d @ pad8 (code_of d) @ xs) =
     code_of d @ (if length (code_of d) mod 4 = 0 then takeWhile (\<lambda>m. m \<noteq> 0) xs else [])"
proof -
  have t: "takeWhile (\<lambda>m. m \<noteq> 0) (code_of d @ ys) = code_of d @ takeWhile (\<lambda>m. m \<noteq> 0) ys" for ys
    using code_of_nonzero [of d] by (intro takeWhile_append2) auto
  show ?thesis
  proof (cases "length (code_of d) mod 4 = 0")
    case False
    then have "(4 - length (code_of d) mod 4) mod 4 \<noteq> 0" by presburger
    then obtain k where "(4 - length (code_of d) mod 4) mod 4 = Suc k" using not0_implies_Suc by blast
    with False show ?thesis unfolding t by (simp add: pad8_def)
  qed (simp add: t pad8_def)
qed

lemma takeWhile_tables:
  "takeWhile (\<lambda>m. m \<noteq> 0) (concat (map (\<lambda>e. code_of e @ pad8 (code_of e)) ds)) = table_chain ds"
  by (induction ds) (simp_all add: takeWhile_table)

lemma takeWhile_behind:
  "c \<in> set ds \<Longrightarrow> takeWhile (\<lambda>m. m \<noteq> 0) (code_of c @ behind c ds) = table_chain (dropWhile (\<lambda>d. d \<noteq> c) ds)"
  by (induction ds) (auto simp: takeWhile_table takeWhile_tables simp del: takeWhile_append)

lemma shipped_run_on: "shipped_code c = morse_of (run_on c)"
proof (cases "c \<in> set alphabet")
  case True
  have "list_all (\<lambda>c. table_chain (dropWhile (\<lambda>d. d \<noteq> c) alphabet) = morse_of (run_on c)) alphabet"
    by code_simp
  with True have "table_chain (dropWhile (\<lambda>d. d \<noteq> c) alphabet) = morse_of (run_on c)"
    by (simp add: list_all_iff)
  moreover have "shipped_code c = takeWhile (\<lambda>m. m \<noteq> 0) (code_of c @ behind c alphabet)"
    using alphabet_tables True by (auto simp: shipped_code_def list_all_iff is_table_def)
  ultimately show ?thesis
    using takeWhile_behind [OF True] by simp
next
  case False
  then have "code_of c = []" "run_on c = [c]"
    by (auto simp: code_of_def translate_case_None run_on_def alphabet_def)
  then show ?thesis by (simp add: shipped_code_def)
qed

lemma concat_run_on: "concat (map shipped_code s) = morse_of (concat (map run_on s))"
  by (induction s) (simp_all add: shipped_run_on morse_of_def)

lemma morse_play_once_run:
  fixes a1 a2 :: string
  assumes "read_input ok input = Inr str" and "padded_for after str"
    and "length (morse_of str) < 200"
  defines "freq \<equiv> to_int32 (strtoul0 a1)" and "speed \<equiv> to_int32 (strtoul0 a2)"
  shows "morse_play_once after ok [a0, a1, a2] input =
    (if 3500 \<le> freq then Inr None
     else if speed = 0 \<and> morse_of str \<noteq> [] then Inl DivZero
     else Inr (Some (text_of str, Sound_init # concat (map (mark_ops freq speed) (morse_of str)))))"
proof -
  have len: "take 31 str = str" "31 \<le> length str"
    using length_read_input [OF assms(1)] by simp_all
  have tr: "translate after str = Inr (text_of str, filled 200 0 (morse_of str))"
    using translate_spec [of str after] assms(2,3) len by simp
  have fill: "filled 200 0 (morse_of str) = morse_of str @ 0 # replicate (199 - length (morse_of str)) 0"
    using assms(3) by (simp add: filled_split)
  have "play_once_loop freq speed (filled 200 0 (morse_of str)) =
    (if speed = 0 \<and> morse_of str \<noteq> [] then Inl DivZero
     else Inr (concat (map (mark_ops freq speed) (morse_of str))))"
  proof (cases "morse_of str")
    case Nil
    then show ?thesis unfolding fill by simp
  next
    case (Cons m ms)
    then have "m = 3000 \<or> m = 7000 \<or> m = 100 \<or> m = 300" using morse_of_marks [of str] by auto
    then have "speed = 0 \<Longrightarrow> play_once_loop freq speed (filled 200 0 (morse_of str)) = Inl DivZero"
      unfolding fill unfolding Cons by (auto simp: play_once_loop_speed_zero simp del: play_once_loop.simps)
    moreover have "speed \<noteq> 0 \<Longrightarrow> play_once_loop freq speed (filled 200 0 (morse_of str)) =
        Inr (concat (map (mark_ops freq speed) (morse_of str)))"
      unfolding fill using play_once_loop_marks [OF morse_of_nonzero] by simp
    ultimately show ?thesis using Cons by simp
  qed
  then show ?thesis
    by (simp add: morse_play_once_def Let_def assms(1) tr flip: freq_def speed_def)
qed

lemma code_of_outside:
  "code_of (CHR ''~'') = []" "printed_of (CHR ''~'') = []"
  "code_of (CHR 0x0A) = []" "printed_of (CHR 0x0A) = []"
  "code_of (CHR 0x00) = []" "printed_of (CHR 0x00) = []"
  by (simp_all add: code_of_def printed_of_def translate_case_def translate_groups)

lemma morse_of_outside:
  "code_of c = [] \<Longrightarrow> morse_of (replicate k c) = []"
  "printed_of c = [] \<Longrightarrow> text_of (replicate k c) = []"
  by (induction k) simp_all

lemma padded_zero: "padded_for (\<lambda>_ _. 0) s"
  by (simp add: padded_for_def list_all_iff)

lemma read_input_E: "read_input True [CHR ''E'', CHR 0x0A] =
  Inr ([CHR ''E'', CHR 0x0A, CHR 0x00] @ replicate 28 (CHR ''~''))"
proof -
  have "fgets_line 30 [CHR ''E'', CHR 0x0A] = [CHR ''E'', CHR 0x0A]"
    by (simp add: numeral_eq_Suc)
  then show ?thesis by (simp add: read_input_def fgets_def overwrite_def)
qed

lemma strtoul0_examples:
  "to_int32 (strtoul0 ''1000'') = 1000" "to_int32 (strtoul0 ''2'') = 2"
  by (simp_all add: strtoul0_def strtoul_unsigned_def c_isspace_def digit_of_def to_int32_small)

lemma code_of_E: "code_of (CHR ''E'') = [100, 3000]" "printed_of (CHR ''E'') = ''. ''"
  by (simp_all add: code_of_def printed_of_def translate_case_def translate_groups morse_table_defs)

text \<open>Marks as dots and dashes.\<close>

definition dash_text :: "u16 list \<Rightarrow> string" where
  "dash_text ms = map (\<lambda>m. if m = MORSE_DIAN then CHR ''.'' else CHR ''-'') ms"

section \<open>Properties\<close>

text \<open>C2. \<open>translate\<close> refines the specification: when a zero follows the table of every
  character of the text, it prints the dashes of the 31 characters and leaves their codes, one
  after the other, in the cleared array, or writes outside \<open>morse_code[200]\<close> when they are
  longer than 200 cells.\<close>

theorem translate_correct:
  assumes "31 \<le> length a" and "padded_for after (take 31 a)"
  shows "translate after a =
     (if length (morse_of (take 31 a)) \<le> 200
      then Inr (text_of (take 31 a), filled 200 0 (morse_of (take 31 a)))
      else Inl OobWrite)"
  using assms by (rule translate_spec)

theorem translate_correct_witness:
  "translate (\<lambda>_ _. 0) (''SOS'' @ replicate 28 (CHR ''~'')) =
     Inr (''... --- ... '', filled 200 0
       [100, 100, 100, 3000, 300, 300, 300, 3000, 100, 100, 100, 3000])"
proof -
  let ?a = "''SOS'' @ replicate 28 (CHR ''~'')"
  have t: "take 31 ?a = ?a" by simp
  have n: "code_of (CHR ''~'') = []" "printed_of (CHR ''~'') = []"
    by (simp_all add: code_of_def printed_of_def translate_case_def translate_groups)
  have m: "morse_of (replicate k (CHR ''~'')) = []" "text_of (replicate k (CHR ''~'')) = []" for k
    by (induction k) (simp_all add: n)
  have "translate (\<lambda>_ _. 0) ?a =
     (if length (morse_of (take 31 ?a)) \<le> 200
      then Inr (text_of (take 31 ?a), filled 200 0 (morse_of (take 31 ?a))) else Inl OobWrite)"
    by (rule translate_correct) (simp_all add: padded_for_def list_all_iff)
  then show ?thesis
    unfolding t by (simp add: m)
      (simp add: code_of_def printed_of_def translate_case_def translate_groups morse_table_defs)
qed

text \<open>A text whose characters all have at most 6 cells (every letter, digit and blank)
  never overflows \<open>morse_code[200]\<close>, and the array keeps a terminating zero.\<close>

theorem translate_fits:
  assumes "31 \<le> length a" and "padded_for after (take 31 a)"
    and "\<forall>c \<in> set (take 31 a). length (code_of c) \<le> 6"
  shows "\<exists>code. translate after a = Inr (text_of (take 31 a), code) \<and> length code = 200 \<and>
    takeWhile (\<lambda>m. m \<noteq> 0) code = morse_of (take 31 a) \<and> code ! 199 = 0"
proof -
  have "length (morse_of s) \<le> 6 * length s" if "\<forall>c \<in> set s. length (code_of c) \<le> 6" for s
    using that by (induction s) (auto simp: add_le_mono)
  from this [OF assms(3)] have l: "length (morse_of (take 31 a)) \<le> 186" by simp
  then have "filled 200 0 (morse_of (take 31 a)) =
      morse_of (take 31 a) @ 0 # replicate (199 - length (morse_of (take 31 a))) 0"
    by (simp add: filled_split)
  moreover from this have "takeWhile (\<lambda>m. m \<noteq> 0) (filled 200 0 (morse_of (take 31 a))) =
      morse_of (take 31 a)"
    using morse_of_nonzero [of "take 31 a"] by (intro takeWhile_zero)
  moreover have "filled 200 0 (morse_of (take 31 a)) ! 199 = 0"
    using l by (simp add: nth_filled)
  ultimately show ?thesis
    using translate_spec [OF assms(1,2)] l by simp
qed


theorem translate_fits_witness:
  "\<exists>code. translate (\<lambda>_ _. 0) (''HELLO 73'' @ replicate 23 (CHR ''~'')) =
     Inr (text_of (''HELLO 73'' @ replicate 23 (CHR ''~'')), code) \<and> code ! 199 = 0"
proof -
  have "\<exists>code. translate (\<lambda>_ _. 0) (''HELLO 73'' @ replicate 23 (CHR ''~'')) =
      Inr (text_of (take 31 (''HELLO 73'' @ replicate 23 (CHR ''~''))), code) \<and>
    length code = 200 \<and> takeWhile (\<lambda>m. m \<noteq> 0) code =
      morse_of (take 31 (''HELLO 73'' @ replicate 23 (CHR ''~''))) \<and> code ! 199 = 0"
  proof (rule translate_fits)
    show "\<forall>c \<in> set (take 31 (''HELLO 73'' @ replicate 23 (CHR ''~''))). length (code_of c) \<le> 6"
      by (simp add: code_of_def translate_case_def translate_groups morse_table_defs)
  qed (simp_all add: padded_for_def list_all_iff)
  then show ?thesis by auto
qed

text \<open>Whatever lies behind the tables, a text whose codes are longer than 200 cells makes
  \<open>translate\<close> write outside \<open>morse_code[200]\<close>; 26 dollar signs are such a text, though the
  prompt allows 30 characters.\<close>

theorem translate_overflow:
  assumes "31 \<le> length a" and "200 < length (morse_of (take 31 a))"
  shows "translate after a = Inl OobWrite"
proof (cases "for_list (translate_step after) (take 31 a) ([], replicate 200 0, 0)")
  case (Inl e)
  then show ?thesis
    using translate_loop_fault [OF Inl] by (simp add: translate_def for_list_rd [OF assms(1)])
next
  case (Inr st)
  obtain out code j where st: "st = (out, code, j)" by (cases st)
  show ?thesis
    using translate_loop_progress [OF Inr [unfolded st]] assms(2) by simp
qed

theorem translate_overflow_witness:
  "translate aligned8 (replicate 31 (CHR ''$'')) = Inl OobWrite"
proof -
  have c: "length (code_of (CHR ''$'')) = 8"
    by (simp add: code_of_def translate_case_def translate_groups morse_table_defs)
  have "length (morse_of (replicate n (CHR ''$''))) = 8 * n" for n
    by (induction n) (simp_all add: c)
  then show ?thesis by (intro translate_overflow) simp_all
qed

text \<open>C14. In the shipped image \<open>translate\<close> prints the dashes of the text and leaves the codes of another
  one: D is played as DE, G as GH, K as KL, O as OP, R as RST, S as ST, U as UV, W as WX and the
  dollar sign with the ampersand behind it, because the tables of these characters fill their
  8-byte units and the copy runs on into the next table.\<close>

theorem shipped_text_runs_on:
  assumes "31 \<le> length a"
  shows "translate aligned8 a =
    (let played = morse_of (concat (map run_on (take 31 a))) in
     if length played \<le> 200 then Inr (text_of (take 31 a), filled 200 0 played) else Inl OobWrite)"
  using translate_copied [OF assms, of aligned8 shipped_code] copied_shipped
  by (simp add: concat_run_on list_all_iff)

theorem shipped_text_runs_on_witness:
  "translate aligned8 (''SO'' @ replicate 29 (CHR ''~'')) =
   Inr (''... --- '', filled 200 0 (morse_of ''STOP''))"
proof -
  let ?a = "''SO'' @ replicate 29 (CHR ''~'')"
  have n: "code_of (CHR ''~'') = []" "printed_of (CHR ''~'') = []" "run_on (CHR ''~'') = ''~''"
    by (simp_all add: code_of_def printed_of_def translate_case_def translate_groups run_on_def)
  have m: "morse_of (concat (map run_on (replicate k (CHR ''~'')))) = []"
    "morse_of (replicate k (CHR ''~'')) = []" "text_of (replicate k (CHR ''~'')) = []" for k
    by (induction k) (simp_all add: n)
  have c: "code_of (CHR ''S'') = [100, 100, 100, 3000]" "code_of (CHR ''T'') = [300, 3000]"
    "code_of (CHR ''O'') = [300, 300, 300, 3000]" "code_of (CHR ''P'') = [100, 300, 300, 100, 3000]"
    "printed_of (CHR ''S'') = ''... ''" "printed_of (CHR ''O'') = ''--- ''"
    by (simp_all add: code_of_def printed_of_def translate_case_def translate_groups morse_table_defs)
  have "take 31 ?a = ?a" by simp
  then have "translate aligned8 ?a =
    (let played = morse_of (concat (map run_on ?a)) in
     if length played \<le> 200 then Inr (text_of ?a, filled 200 0 played) else Inl OobWrite)"
    using shipped_text_runs_on [of ?a] by simp
  then show ?thesis by (simp add: m c run_on_def)
qed

text \<open>\<open>morse_play_once freq speed\<close>: for a frequency below 3500 the characters read are
  printed and played mark by mark in order, each mark with the pauses of \<open>mark_ops\<close>; a speed of
  zero is a division by zero at the first mark; a frequency from 3500 on plays nothing.\<close>

theorem morse_play_once_correct:
  fixes a1 a2 :: string
  assumes "read_input ok input = Inr str" and "padded_for after str"
    and "length (morse_of str) < 200"
  defines "freq \<equiv> to_int32 (strtoul0 a1)" and "speed \<equiv> to_int32 (strtoul0 a2)"
  shows "morse_play_once after ok [a0, a1, a2] input =
    (if 3500 \<le> freq then Inr None
     else if speed = 0 \<and> morse_of str \<noteq> [] then Inl DivZero
     else Inr (Some (text_of str, Sound_init # concat (map (mark_ops freq speed) (morse_of str)))))"
  unfolding freq_def speed_def using assms(1-3) by (rule morse_play_once_run)

theorem morse_play_once_correct_witness:
  "morse_play_once (\<lambda>_ _. 0) True [''morse_play_once'', ''1000'', ''2''] [CHR ''E'', CHR 0x0A] =
   Inr (Some (''. '', [Sound_init, Sound_set 1000 50, Sound_on, Mdelay 100, Sound_off, Mdelay 100,
                       Sound_off, Mdelay 300]))"
  using morse_play_once_correct [OF read_input_E padded_zero, of "''morse_play_once''" "''1000''" "''2''"]
  by (simp add: strtoul0_examples code_of_outside morse_of_outside code_of_E mark_ops_def cdiv_def)

text \<open>\<open>morse_play_test\<close> scans 31 characters of a literal of 25 bytes: the six bytes the linker
  put behind it are translated and played too.\<close>

theorem morse_play_test_correct:
  assumes "6 \<le> length tail" and "padded_for after (''WO AI LUO SHAN JI HU REN'' @ take 6 tail)"
  shows "morse_play_test after True tail =
    Inr (text_of (''WO AI LUO SHAN JI HU REN'' @ take 6 tail),
         Sound_init # concat (map test_mark_ops (morse_of (''WO AI LUO SHAN JI HU REN'' @ take 6 tail))))"
proof -
  let ?lit = "''WO AI LUO SHAN JI HU REN''"
  let ?a = "?lit @ [CHR 0x00] @ tail"
  have nul: "code_of (CHR 0x00) = []" "printed_of (CHR 0x00) = []"
    by (simp_all add: code_of_def printed_of_def translate_case_def translate_groups)
  have t: "take 31 ?a = ?lit @ [CHR 0x00] @ take 6 tail" by simp
  have s: "morse_of (take 31 ?a) = morse_of (?lit @ take 6 tail)"
     "text_of (take 31 ?a) = text_of (?lit @ take 6 tail)"
    unfolding t by (simp_all add: nul)
  have lit: "length (morse_of ?lit) = 80"
    by (simp add: code_of_def translate_case_def translate_groups morse_table_defs)
  then have l: "length (morse_of (?lit @ take 6 tail)) < 200"
    using length_morse_of [of "take 6 tail"] assms(1) by (simp only: morse_of_simps length_append) simp
  have "padded_for after (take 31 ?a)"
    using assms(2) unfolding t by (simp add: padded_for_def nul)
  then have "translate after ?a = Inr (text_of (?lit @ take 6 tail),
      filled 200 0 (morse_of (?lit @ take 6 tail)))"
    using translate_spec [of ?a after] assms(1) l unfolding s by simp
  then show ?thesis
    using play_test_loop_marks [OF morse_of_nonzero] l
    unfolding morse_play_test_def by (simp only: rbind_simps filled_split prod.case if_False simp_thms)
qed

theorem morse_play_test_correct_witness:
  "morse_play_test (\<lambda>_ _. 0) True (replicate 6 (CHR 0x00)) =
   Inr (text_of ''WO AI LUO SHAN JI HU REN'',
        Sound_init # concat (map test_mark_ops (morse_of ''WO AI LUO SHAN JI HU REN'')))"
proof -
  have n: "code_of (CHR 0x00) = []" "printed_of (CHR 0x00) = []"
    by (simp_all add: code_of_def printed_of_def translate_case_def translate_groups)
  have m: "morse_of (replicate k (CHR 0x00)) = []" "text_of (replicate k (CHR 0x00)) = []" for k
    by (induction k) (simp_all add: n)
  have "morse_play_test (\<lambda>_ _. 0) True (replicate 6 (CHR 0x00)) =
    Inr (text_of (''WO AI LUO SHAN JI HU REN'' @ take 6 (replicate 6 (CHR 0x00))),
         Sound_init # concat (map test_mark_ops
           (morse_of (''WO AI LUO SHAN JI HU REN'' @ take 6 (replicate 6 (CHR 0x00))))))"
    by (rule morse_play_test_correct) (simp_all add: padded_for_def list_all_iff)
  then show ?thesis by (simp only: morse_of_simps text_of_simps take_replicate m append_Nil2)
qed

text \<open>The dashes and dots printed for a character are the marks of its table, for every
  character but the blank and the ampersand (printed as \<open>...-\<close>, played as the letter H).\<close>

theorem printed_is_played:
  "list_all (\<lambda>c. (printed_of c = dash_text (butlast (code_of c)) @ '' '') \<longleftrightarrow>
                 c \<noteq> CHR '' '' \<and> c \<noteq> CHR ''&'') alphabet \<and>
   code_of (CHR ''&'') = code_of (CHR ''H'')"
  unfolding alphabet_def printed_of_def code_of_def translate_case_def
  by (simp add: translate_groups morse_table_defs dash_text_def)

end
