(* ===== verification/Sound_Pwm.thy ===== *)
theory Sound_Pwm
  imports Morse_Encode
begin

unbundle bit_operations_syntax

text \<open>
  The buzzer: the PWM driver (\<open>drivers/drv_pwm.c\<close>, the same file in both trees) and the sound
  module over it (\<open>ls2kdev_play/applications/sound.c\<close>). The sound module reaches the driver
  through RT-Thread's device framework (\<open>rt_device_find\<close>, \<open>rt_pwm_enable\<close>, \<open>rt_pwm_disable\<close>,
  \<open>rt_pwm_set\<close>), which is not part of the repository: those calls are a record of
  functions, and the locale \<open>pwm_framework\<close> states what is relied on, that each call reaches
  the registered driver's control function with the configuration it was given.
\<close>

section \<open>The driver\<close>

record pwm_chip =
  low_buffer :: u32
  full_buffer :: u32
  ctrl :: u32

text \<open>The pin configuration register and the four channels behind \<open>priv[]\<close>.\<close>

record pwm_dev =
  config0 :: u64
  chips :: "pwm_chip list"

datatype rt_err = RT_EOK | RT_ERROR | RT_ENOSYS | RT_EINVAL

abbreviation (input) CTRL_EN :: u32 where "CTRL_EN \<equiv> push_bit 0 1"

text \<open>\<open>channel %= 4\<close>, which is negative for a negative channel.\<close>

definition pwm_channel :: "int \<Rightarrow> nat res" where
  "pwm_channel channel =
     (let c = cmod channel 4 in if c < 0 then Inl OobRead else Inr (nat c))"

definition loongson_pwm_enable :: "pwm_dev \<Rightarrow> int \<Rightarrow> (rt_err \<times> pwm_dev) res" where
  "loongson_pwm_enable d channel =
     rbind (pwm_channel channel) (\<lambda>c.
     let m = push_bit c (push_bit 12 1) :: u64;
         d1 = d\<lparr>config0 := config0 d OR m\<rparr> in
     rbind (rd (chips d1) c) (\<lambda>chip.
     Inr (RT_EOK, d1\<lparr>chips := (chips d1)[c := chip\<lparr>ctrl := CTRL_EN\<rparr>]\<rparr>)))"

definition loongson_pwm_disable :: "pwm_dev \<Rightarrow> int \<Rightarrow> (rt_err \<times> pwm_dev) res" where
  "loongson_pwm_disable d channel =
     rbind (pwm_channel channel) (\<lambda>c.
     rbind (rd (chips d) c) (\<lambda>chip.
     Inr (RT_EOK, d\<lparr>chips := (chips d)[c := chip\<lparr>ctrl := ctrl chip AND NOT CTRL_EN\<rparr>]\<rparr>)))"

definition loongson_pwm_set ::
  "pwm_dev \<Rightarrow> int \<Rightarrow> u32 \<Rightarrow> u32 \<Rightarrow> (rt_err \<times> pwm_dev) res" where
  "loongson_pwm_set d channel period pulse =
     rbind (pwm_channel channel) (\<lambda>c.
     rbind (rd (chips d) c) (\<lambda>chip.
     let chip1 = chip\<lparr>ctrl := ctrl chip AND NOT CTRL_EN\<rparr>;
         chip2 = chip1\<lparr>full_buffer := period\<rparr>;
         chip3 = chip2\<lparr>low_buffer := pulse\<rparr>;
         chip4 = chip3\<lparr>ctrl := ctrl chip3 OR CTRL_EN\<rparr> in
     Inr (RT_EOK, d\<lparr>chips := (chips d)[c := chip4]\<rparr>)))"

datatype pwm_cmd = PWM_CMD_ENABLE | PWM_CMD_DISABLE | PWM_CMD_SET | PWM_CMD_GET | PWM_CMD_OTHER int

record pwm_configuration =
  cfg_channel :: int
  cfg_period :: u32
  cfg_pulse :: u32

fun loongson_pwm_ioctl ::
  "pwm_dev \<Rightarrow> pwm_cmd \<Rightarrow> pwm_configuration \<Rightarrow> (rt_err \<times> pwm_dev) res" where
  "loongson_pwm_ioctl d PWM_CMD_ENABLE cfg = loongson_pwm_enable d (cfg_channel cfg)"
| "loongson_pwm_ioctl d PWM_CMD_DISABLE cfg = loongson_pwm_disable d (cfg_channel cfg)"
| "loongson_pwm_ioctl d PWM_CMD_SET cfg =
     loongson_pwm_set d (cfg_channel cfg) (cfg_period cfg) (cfg_pulse cfg)"
| "loongson_pwm_ioctl d PWM_CMD_GET cfg = Inr (RT_ENOSYS, d)"
| "loongson_pwm_ioctl d (PWM_CMD_OTHER n) cfg = Inr (RT_EINVAL, d)"

section \<open>The sound module\<close>

record ('h, 'w) pwm_api =
  api_find :: "'w \<Rightarrow> string \<Rightarrow> 'h option"
  api_enable :: "'w \<Rightarrow> 'h option \<Rightarrow> int \<Rightarrow> 'w res"
  api_disable :: "'w \<Rightarrow> 'h option \<Rightarrow> int \<Rightarrow> 'w res"
  api_set :: "'w \<Rightarrow> 'h option \<Rightarrow> int \<Rightarrow> u32 \<Rightarrow> u32 \<Rightarrow> 'w res"

record ('h, 'w) sound_state =
  pwm_device :: "'h option"
  world :: 'w

abbreviation (input) SOUND_PWM_CH_1 :: int where "SOUND_PWM_CH_1 \<equiv> 1"

definition sound_init ::
  "('h, 'w) pwm_api \<Rightarrow> ('h, 'w) sound_state \<Rightarrow> rt_err \<times> ('h, 'w) sound_state" where
  "sound_init api s =
     (let s1 = s\<lparr>pwm_device := api_find api (world s) ''pwm0''\<rparr> in
      if pwm_device s1 = None then (RT_ERROR, s1) else (RT_EOK, s1))"

definition sound_on ::
  "('h, 'w) pwm_api \<Rightarrow> ('h, 'w) sound_state \<Rightarrow> ('h, 'w) sound_state res" where
  "sound_on api s =
     rbind (api_enable api (world s) (pwm_device s) SOUND_PWM_CH_1) (\<lambda>w. Inr (s\<lparr>world := w\<rparr>))"

definition sound_off ::
  "('h, 'w) pwm_api \<Rightarrow> ('h, 'w) sound_state \<Rightarrow> ('h, 'w) sound_state res" where
  "sound_off api s =
     rbind (api_disable api (world s) (pwm_device s) SOUND_PWM_CH_1) (\<lambda>w. Inr (s\<lparr>world := w\<rparr>))"

text \<open>Period and low time in nanoseconds, in the 32-bit unsigned arithmetic of the code.\<close>

definition sound_period :: "u16 \<Rightarrow> u32" where
  "sound_period freq = (if freq = 0 then 1000000 else word_of_int (1000000000 div uint freq))"

definition sound_pulse :: "u16 \<Rightarrow> u8 \<Rightarrow> u32" where
  "sound_pulse freq volume =
     (if freq = 0 then 0
      else sound_period freq - sound_period freq div 100 * ucast volume)"

definition sound_set ::
  "('h, 'w) pwm_api \<Rightarrow> u16 \<Rightarrow> u8 \<Rightarrow> ('h, 'w) sound_state \<Rightarrow> ('h, 'w) sound_state res" where
  "sound_set api freq volume s =
     rbind (api_set api (world s) (pwm_device s) SOUND_PWM_CH_1
              (sound_period freq) (sound_pulse freq volume))
       (\<lambda>w. Inr (s\<lparr>world := w\<rparr>))"

text \<open>The calls of the player, in order.\<close>

fun sound_exec ::
  "('h, 'w) pwm_api \<Rightarrow> sound_op \<Rightarrow> ('h, 'w) sound_state \<Rightarrow> ('h, 'w) sound_state res" where
  "sound_exec api Sound_init s = Inr (snd (sound_init api s))"
| "sound_exec api Sound_off s = sound_off api s"
| "sound_exec api Sound_on s = sound_on api s"
| "sound_exec api (Sound_set f v) s = sound_set api f v s"
| "sound_exec api (Mdelay d) s = Inr s"

definition sound_run ::
  "('h, 'w) pwm_api \<Rightarrow> sound_op list \<Rightarrow> ('h, 'w) sound_state \<Rightarrow> ('h, 'w) sound_state res" where
  "sound_run api ops s = for_list (sound_exec api) ops s"

section \<open>Lemmas of the driver\<close>

definition pwm_wf :: "pwm_dev \<Rightarrow> bool" where
  "pwm_wf d \<longleftrightarrow> length (chips d) = 4"

definition pwm_silent :: "pwm_dev \<Rightarrow> bool" where
  "pwm_silent d \<longleftrightarrow> pwm_wf d \<and> \<not> bit (ctrl (chips d ! 1)) 0"

lemma pwm_channel_in: "0 \<le> c \<Longrightarrow> c < 4 \<Longrightarrow> pwm_channel c = Inr (nat c)"
  by (simp add: pwm_channel_def cmod_nonneg)

lemma pwm_channel_bound: "pwm_channel c = Inr n \<Longrightarrow> n < 4"
proof -
  assume a: "pwm_channel c = Inr n"
  have "cmod c 4 < 4" for c
    by (cases "0 \<le> c") (auto simp: cmod_def cdiv_def sgn_if)
  from this [of c] a show "n < 4"
    by (simp add: pwm_channel_def Let_def nat_less_iff split: if_splits)
qed

lemmas pwm_op_defs = loongson_pwm_enable_def loongson_pwm_disable_def loongson_pwm_set_def

lemma pwm_ioctl_wf:
  "pwm_wf d \<Longrightarrow> loongson_pwm_ioctl d cmd cfg = Inr (rc, d') \<Longrightarrow> pwm_wf d'"
  by (cases cmd) (auto simp: pwm_op_defs rbind_Inr_iff Let_def pwm_wf_def)

lemma pwm_ioctl_other_channels:
  assumes "loongson_pwm_ioctl d cmd cfg = Inr (rc, d')" and "pwm_channel (cfg_channel cfg) \<noteq> Inr i"
  shows "chips d' ! i = chips d ! i"
  using assms by (cases cmd) (auto simp: pwm_op_defs rbind_Inr_iff Let_def)

lemma pwm_ioctl_total:
  "pwm_wf d \<Longrightarrow> 0 \<le> cfg_channel cfg \<Longrightarrow> \<exists>rc d'. loongson_pwm_ioctl d cmd cfg = Inr (rc, d')"
proof -
  assume wf: "pwm_wf d" and c: "0 \<le> cfg_channel cfg"
  have "pwm_channel (cfg_channel cfg) = Inr (nat (cfg_channel cfg mod 4))"
    using c by (simp add: pwm_channel_def cmod_nonneg Let_def)
  moreover have "nat (cfg_channel cfg mod 4) < 4" by simp
  ultimately show ?thesis
    using wf by (cases cmd) (simp_all add: pwm_op_defs Let_def pwm_wf_def)
qed

section \<open>The framework between the sound module and the driver\<close>

abbreviation (input) pwm_cfg :: "int \<Rightarrow> u32 \<Rightarrow> u32 \<Rightarrow> pwm_configuration" where
  "pwm_cfg c p q \<equiv> \<lparr>cfg_channel = c, cfg_period = p, cfg_pulse = q\<rparr>"

definition driver_call :: "pwm_dev \<Rightarrow> pwm_cmd \<Rightarrow> pwm_configuration \<Rightarrow> pwm_dev res" where
  "driver_call d cmd cfg = rbind (loongson_pwm_ioctl d cmd cfg) (\<lambda>(rc, d'). Inr d')"

text \<open>What the player's calls do to the driver's registers.\<close>

fun driver_exec :: "sound_op \<Rightarrow> pwm_dev \<Rightarrow> pwm_dev res" where
  "driver_exec Sound_init d = Inr d"
| "driver_exec Sound_off d = driver_call d PWM_CMD_DISABLE (pwm_cfg 1 0 0)"
| "driver_exec Sound_on d = driver_call d PWM_CMD_ENABLE (pwm_cfg 1 0 0)"
| "driver_exec (Sound_set f v) d =
     driver_call d PWM_CMD_SET (pwm_cfg 1 (sound_period f) (sound_pulse f v))"
| "driver_exec (Mdelay n) d = Inr d"

locale pwm_framework =
  fixes api :: "('h, 'w) pwm_api" and h :: 'h and dev :: "'w \<Rightarrow> pwm_dev"
  assumes find_registered: "api_find api w ''pwm0'' = Some h"
    and enable_forwards: "rbind (api_enable api w (Some h) c) (\<lambda>w'. Inr (dev w')) =
          driver_call (dev w) PWM_CMD_ENABLE (pwm_cfg c 0 0)"
    and disable_forwards: "rbind (api_disable api w (Some h) c) (\<lambda>w'. Inr (dev w')) =
          driver_call (dev w) PWM_CMD_DISABLE (pwm_cfg c 0 0)"
    and set_forwards: "rbind (api_set api w (Some h) c p q) (\<lambda>w'. Inr (dev w')) =
          driver_call (dev w) PWM_CMD_SET (pwm_cfg c p q)"
begin

lemma init_finds: "sound_init api s = (RT_EOK, s\<lparr>pwm_device := Some h\<rparr>)"
  by (simp add: sound_init_def find_registered)

lemma exec_simulates:
  assumes "pwm_device s = Some h"
  shows "rbind (sound_exec api op s) (\<lambda>s'. Inr (pwm_device s', dev (world s'))) =
    rbind (driver_exec op (dev (world s))) (\<lambda>d. Inr (Some h, d))"
proof (cases op)
  case Sound_init
  show ?thesis by (simp add: Sound_init init_finds)
next
  case Sound_off
  show ?thesis
    using disable_forwards [of "world s" 1, symmetric] assms
    by (simp add: Sound_off sound_off_def rbind_assoc)
next
  case Sound_on
  show ?thesis
    using enable_forwards [of "world s" 1, symmetric] assms
    by (simp add: Sound_on sound_on_def rbind_assoc)
next
  case (Sound_set f v)
  show ?thesis
    using set_forwards [of "world s" 1 "sound_period f" "sound_pulse f v", symmetric] assms
    by (simp add: Sound_set sound_set_def rbind_assoc)
qed (simp add: assms)

lemma run_simulates:
  assumes "pwm_device s = Some h" and "for_list driver_exec ops (dev (world s)) = Inr d"
  shows "\<exists>s'. sound_run api ops s = Inr s' \<and> pwm_device s' = Some h \<and> dev (world s') = d"
  using assms
proof (induction ops arbitrary: s)
  case Nil
  then show ?case by (simp add: sound_run_def)
next
  case (Cons op ops)
  from Cons.prems(2) obtain d1 where
    d1: "driver_exec op (dev (world s)) = Inr d1" "for_list driver_exec ops d1 = Inr d"
    by (auto simp: rbind_Inr_iff)
  with exec_simulates [OF Cons.prems(1), of op] obtain s1 where
    s1: "sound_exec api op s = Inr s1" "pwm_device s1 = Some h" "dev (world s1) = d1"
    by (auto simp: rbind_Inr_iff)
  with Cons.IH [of s1] d1(2) show ?case by (simp add: sound_run_def)
qed

end

text \<open>The framework that does nothing but forward, on the driver's own state.\<close>

definition forward_api :: "(unit, pwm_dev) pwm_api" where
  "forward_api = \<lparr>
     api_find = (\<lambda>w name. if name = ''pwm0'' then Some () else None),
     api_enable = (\<lambda>w h c. driver_call w PWM_CMD_ENABLE (pwm_cfg c 0 0)),
     api_disable = (\<lambda>w h c. driver_call w PWM_CMD_DISABLE (pwm_cfg c 0 0)),
     api_set = (\<lambda>w h c p q. driver_call w PWM_CMD_SET (pwm_cfg c p q))\<rparr>"

interpretation fwd: pwm_framework forward_api "()" "\<lambda>w. w"
  by unfold_locales (simp_all add: forward_api_def rbind_def split: sum.splits)

section \<open>The player switches the buzzer off\<close>

lemma channel_one: "pwm_channel 1 = Inr 1"
  by (simp add: pwm_channel_in)

lemma driver_off_silent:
  "pwm_wf d \<Longrightarrow> \<exists>d'. driver_exec Sound_off d = Inr d' \<and> pwm_silent d'"
  by (simp add: driver_call_def pwm_op_defs channel_one pwm_wf_def pwm_silent_def bit_simps)

lemma driver_exec_wf: "pwm_wf d \<Longrightarrow> \<exists>d'. driver_exec op d = Inr d' \<and> pwm_wf d'"
  by (cases op) (simp_all add: driver_call_def pwm_op_defs channel_one pwm_wf_def Let_def)

lemma driver_run_wf: "pwm_wf d \<Longrightarrow> \<exists>d'. for_list driver_exec ops d = Inr d' \<and> pwm_wf d'"
proof (induction ops arbitrary: d)
  case (Cons op ops)
  obtain d1 where "driver_exec op d = Inr d1" "pwm_wf d1"
    using driver_exec_wf [OF Cons.prems] by blast
  with Cons.IH [of d1] show ?case by simp
qed simp

lemma driver_run_ends_off:
  assumes "pwm_wf d" and "list_all (\<lambda>op. \<exists>n. op = Mdelay n) rest"
  shows "\<exists>d'. for_list driver_exec (ops @ Sound_off # rest) d = Inr d' \<and> pwm_silent d'"
proof -
  obtain d1 where d1: "for_list driver_exec ops d = Inr d1" "pwm_wf d1"
    using driver_run_wf [OF assms(1)] by blast
  obtain d2 where d2: "driver_exec Sound_off d1 = Inr d2" "pwm_silent d2"
    using driver_off_silent [OF d1(2)] by blast
  have "for_list driver_exec rest d = Inr d" for d
    using assms(2) by (induction rest) auto
  with d1 d2 show ?thesis by (simp add: for_list_append)
qed

text \<open>Every mark ends with \<open>sound_off\<close> and a pause, so the last mark leaves the channel off.\<close>

lemma mark_ops_end:
  "mark_ops freq speed m = [] \<or> (\<exists>ops n. mark_ops freq speed m = ops @ Sound_off # [Mdelay n])"
  using mark_ops_shape [of freq speed m] by blast

lemma marks_end:
  "concat (map (mark_ops freq speed) ms) = [] \<or>
   (\<exists>ops n. concat (map (mark_ops freq speed) ms) = ops @ Sound_off # [Mdelay n])"
proof (induction ms rule: rev_induct)
  case (snoc m ms)
  consider "mark_ops freq speed m = []"
    | ops n where "mark_ops freq speed m = ops @ Sound_off # [Mdelay n]"
    using mark_ops_end [of freq speed m] by blast
  then show ?case
  proof cases
    case 2
    then have "concat (map (mark_ops freq speed) (ms @ [m])) =
        (concat (map (mark_ops freq speed) ms) @ ops) @ Sound_off # [Mdelay n]" by simp
    then show ?thesis by blast
  qed (use snoc in simp)
qed simp

lemma player_ends_off:
  assumes "morse_play_once after ok argv input = Inr (Some (out, ops))" and "pwm_wf d"
  shows "\<exists>rest d'. ops = Sound_init # rest \<and> for_list driver_exec rest d = Inr d' \<and>
    (if Sound_off \<in> set ops then pwm_silent d' else rest = [] \<and> d' = d)"
proof -
  from assms(1) obtain freq speed code rest where
    r: "play_once_loop freq speed code = Inr rest" "ops = Sound_init # rest"
    by (auto simp: morse_play_once_def Let_def rbind_Inr_iff split: list.splits if_splits)
  then obtain ms where ms: "rest = concat (map (mark_ops freq speed) ms)"
    using play_once_loop_shape by blast
  show ?thesis
  proof (cases "rest = []")
    case True
    with r(2) show ?thesis by simp
  next
    case False
    with marks_end [of freq speed ms] ms obtain pre n where e: "rest = pre @ Sound_off # [Mdelay n]"
      by blast
    then have "Sound_off \<in> set ops" using r(2) by simp
    moreover obtain d' where "for_list driver_exec rest d = Inr d'" "pwm_silent d'"
      using driver_run_ends_off [OF assms(2), of "[Mdelay n]" pre] e by auto
    ultimately show ?thesis using r(2) by auto
  qed
qed

section \<open>The registers of a tone\<close>

lemma uint_sound_period:
  assumes "freq \<noteq> 0"
  shows "uint (sound_period freq) = 1000000000 div uint freq"
proof -
  have "0 < uint freq" using assms by (simp add: word_neq_0_conv word_less_def)
  then have "1000000000 div uint freq \<le> 1000000000"
    by (metis div_by_1 int_one_le_iff_zero_less zdiv_mono2 zero_le_numeral zero_less_one)
  then show ?thesis
    using assms \<open>0 < uint freq\<close>
    by (simp add: sound_period_def uint_word_of_int pos_imp_zdiv_nonneg_iff)
qed

lemma uint_sound_pulse:
  assumes "freq \<noteq> 0" and "volume \<le> 100"
  defines "p \<equiv> 1000000000 div uint freq"
  shows "uint (sound_pulse freq volume) = p - p div 100 * uint volume"
    and "0 \<le> uint (sound_pulse freq volume)" and "p div 100 * uint volume \<le> p"
proof -
  have f: "0 < uint freq" using assms(1) by (simp add: word_neq_0_conv word_less_def)
  have v: "0 \<le> uint volume" "uint volume \<le> 100"
    using assms(2) by (simp_all add: word_le_def)
  have p: "0 \<le> p" "p \<le> 1000000000"
    using f by (simp add: p_def pos_imp_zdiv_nonneg_iff)
      (metis p_def div_by_1 f int_one_le_iff_zero_less zdiv_mono2 zero_le_numeral zero_less_one)
  have "p div 100 * uint volume \<le> p div 100 * 100"
    using v p by (intro mult_left_mono) simp_all
  also have "\<dots> \<le> p" by simp
  finally show le: "p div 100 * uint volume \<le> p" .
  have nn: "0 \<le> p div 100 * uint volume" using p v by simp
  have "uint (sound_period freq div 100 * ucast volume) = p div 100 * uint volume"
    using p v le nn uint_sound_period [OF assms(1)]
    by (simp add: uint_word_ariths uint_div unsigned_ucast_eq take_bit_int_eq_self p_def)
  then show "uint (sound_pulse freq volume) = p - p div 100 * uint volume"
    using assms(1) p le nn uint_sound_period [OF assms(1)]
    by (simp add: sound_pulse_def uint_word_ariths p_def)
qed simp

section \<open>Properties\<close>

text \<open>C37. Playing a text ends with the buzzer off, in whatever state its four channels were before.
  For a framework that forwards each call to the driver, and arguments and input \<open>morse_play_once\<close>
  gets through (it is given two arguments, the frequency is below 3500, the marks fit, and the speed
  is not zero if there is a mark): \<open>sound_init\<close> is the first call and all of them run without a
  fault. If the text had a mark or a pause, channel 1 ends disabled, also if it was on before; if it
  had none, \<open>sound_init\<close> is the only call, and no register of the driver changes, so that a
  channel that was on stays on.\<close>

theorem play_leaves_silent:
  fixes api :: "('h, 'w) pwm_api"
  assumes "pwm_framework api h dev"
    and "morse_play_once after ok argv input = Inr (Some (out, ops))"
    and "pwm_wf (dev (world s))"
  shows "\<exists>s'. sound_run api ops s = Inr s' \<and>
    (if Sound_off \<in> set ops then pwm_silent (dev (world s'))
     else ops = [Sound_init] \<and> dev (world s') = dev (world s))"
proof -
  obtain rest d where d: "ops = Sound_init # rest" "for_list driver_exec rest (dev (world s)) = Inr d"
    "if Sound_off \<in> set ops then pwm_silent d else rest = [] \<and> d = dev (world s)"
    using player_ends_off [OF assms(2,3)] by blast
  have "sound_init api s = (RT_EOK, s\<lparr>pwm_device := Some h\<rparr>)"
    by (rule pwm_framework.init_finds [OF assms(1)])
  then show ?thesis
    using pwm_framework.run_simulates [OF assms(1), of "s\<lparr>pwm_device := Some h\<rparr>" rest d] d
    by (auto simp: sound_run_def split: if_splits)
qed

text \<open>Channel 1 is running when \<open>E\<close> is played.\<close>

theorem play_leaves_silent_witness:
  "\<exists>s'. sound_run forward_api
          [Sound_init, Sound_set 1000 50, Sound_on, Mdelay 100, Sound_off, Mdelay 100,
           Sound_off, Mdelay 300]
          \<lparr>pwm_device = None, world = \<lparr>config0 = 0,
             chips = replicate 4 \<lparr>low_buffer = 7, full_buffer = 9, ctrl = 1\<rparr>\<rparr>\<rparr> = Inr s' \<and>
        pwm_silent (world s')"
proof -
  have run: "morse_play_once (\<lambda>_ _. 0) True [''morse_play_once'', ''1000'', ''2''] [CHR ''E'', CHR 0x0A] =
   Inr (Some (''. '', [Sound_init, Sound_set 1000 50, Sound_on, Mdelay 100, Sound_off, Mdelay 100,
                       Sound_off, Mdelay 300]))"
    using morse_play_once_run [OF read_input_E padded_zero, of "''morse_play_once''" "''1000''" "''2''"]
    by (simp add: strtoul0_examples code_of_outside morse_of_outside code_of_E mark_ops_def cdiv_def)
  show ?thesis
    using play_leaves_silent [OF fwd.pwm_framework_axioms run,
        of "\<lparr>pwm_device = None, world = \<lparr>config0 = 0,
          chips = replicate 4 \<lparr>low_buffer = 7, full_buffer = 9, ctrl = 1\<rparr>\<rparr>\<rparr>"]
    by (simp add: pwm_wf_def)
qed

text \<open>\<open>sound_set\<close> programs channel 1 and starts it: for a frequency other than zero and a
  volume of at most 100 the period is the whole nanoseconds of the frequency and the low time the
  rest of the period, so the 32-bit subtraction never wraps.\<close>

theorem sound_set_registers:
  fixes freq :: u16 and volume :: u8
  assumes "freq \<noteq> 0" and "volume \<le> 100" and "pwm_wf d"
  shows "\<exists>d'. sound_set forward_api freq volume \<lparr>pwm_device = Some (), world = d\<rparr> =
      Inr \<lparr>pwm_device = Some (), world = d'\<rparr> \<and>
    uint (full_buffer (chips d' ! 1)) = 1000000000 div uint freq \<and>
    uint (low_buffer (chips d' ! 1)) =
      1000000000 div uint freq - 1000000000 div uint freq div 100 * uint volume \<and>
    low_buffer (chips d' ! 1) \<le> full_buffer (chips d' ! 1) \<and> bit (ctrl (chips d' ! 1)) 0"
proof -
  have le: "sound_pulse freq volume \<le> sound_period freq"
    using uint_sound_period [OF assms(1)] uint_sound_pulse [OF assms(1,2)] uint_ge_0 [of volume]
    by (simp add: word_le_def div_int_pos_iff zero_le_mult_iff)
  show ?thesis
    using assms(3) le uint_sound_period [OF assms(1)] uint_sound_pulse(1) [OF assms(1,2)]
    by (simp add: sound_set_def forward_api_def driver_call_def loongson_pwm_set_def
        channel_one pwm_wf_def Let_def bit_simps)
qed

theorem sound_set_registers_witness:
  "\<exists>d'. sound_set forward_api 1000 50 \<lparr>pwm_device = Some (), world = \<lparr>config0 = 0,
          chips = replicate 4 \<lparr>low_buffer = 0, full_buffer = 0, ctrl = 0\<rparr>\<rparr>\<rparr> =
      Inr \<lparr>pwm_device = Some (), world = d'\<rparr> \<and>
    uint (full_buffer (chips d' ! 1)) = 1000000 \<and> uint (low_buffer (chips d' ! 1)) = 500000"
  using sound_set_registers [of 1000 50 "\<lparr>config0 = 0,
          chips = replicate 4 \<lparr>low_buffer = 0, full_buffer = 0, ctrl = 0\<rparr>\<rparr>"]
  by (auto simp: pwm_wf_def)

text \<open>A control call on a channel (non-negative, taken modulo 4) never faults and touches no
  other channel; every call keeps the four channels.\<close>

theorem pwm_ioctl_isolates:
  assumes "pwm_wf d" and "0 \<le> cfg_channel cfg"
  shows "\<exists>rc d'. loongson_pwm_ioctl d cmd cfg = Inr (rc, d') \<and> pwm_wf d' \<and>
    (\<forall>i. i \<noteq> nat (cfg_channel cfg mod 4) \<longrightarrow> chips d' ! i = chips d ! i)"
proof -
  obtain rc d' where r: "loongson_pwm_ioctl d cmd cfg = Inr (rc, d')"
    using pwm_ioctl_total [OF assms] by blast
  moreover have "pwm_channel (cfg_channel cfg) = Inr (nat (cfg_channel cfg mod 4))"
    using assms(2) by (simp add: pwm_channel_def cmod_nonneg Let_def)
  ultimately show ?thesis
    using pwm_ioctl_wf [OF assms(1) r] pwm_ioctl_other_channels [OF r] by auto
qed

theorem pwm_ioctl_isolates_witness:
  "\<exists>rc d'. loongson_pwm_ioctl \<lparr>config0 = 0,
          chips = replicate 4 \<lparr>low_buffer = 0, full_buffer = 0, ctrl = 0\<rparr>\<rparr>
       PWM_CMD_SET \<lparr>cfg_channel = 6, cfg_period = 10, cfg_pulse = 5\<rparr> = Inr (rc, d') \<and>
     chips d' ! 1 = \<lparr>low_buffer = 0, full_buffer = 0, ctrl = 0\<rparr>"
  using pwm_ioctl_isolates [of "\<lparr>config0 = 0,
          chips = replicate 4 \<lparr>low_buffer = 0, full_buffer = 0, ctrl = 0\<rparr>\<rparr>"
       "\<lparr>cfg_channel = 6, cfg_period = 10, cfg_pulse = 5\<rparr>" PWM_CMD_SET]
  by (auto simp: pwm_wf_def)

end
