(* ===== verification/Morse_Decode.thy ===== *)
theory Morse_Decode
  imports Morse_Encode
begin

text \<open>
  \<open>inverse_translate\<close> of \<open>ls2kdev_record/applications/morse/morse_decode.c\<close>: the array of marks the
  judge leaves (\<open>jud[200]\<close>) is cut at the letter gaps, the marks of one letter are collected in
  \<open>c[7]\<close> and looked up by their number, one branch of the code per \<open>decode1\<close> .. \<open>decode7\<close>; the
  characters found go to the global \<open>code[31]\<close> and to the console. The three arrays are
  checked: a letter of more than 7 marks, more than 31 characters, and an array without a
  terminating zero are faults.
\<close>

section \<open>The branches by number of marks\<close>

text \<open>Each branch writes one character; the branch for 6 marks is a list of independent
  \<open>if\<close>s, whose final \<open>else\<close> belongs to the last of them only.\<close>

definition decode1 :: "int list \<Rightarrow> string" where
  "decode1 c =
    (if c = [MORSE_CI_KONG] then '' ''
     else if c = [MORSE_DIAN] then ''E''
     else if c = [MORSE_HUA] then ''T''
     else ''~'')"

definition decode2 :: "int list \<Rightarrow> string" where
  "decode2 c =
    (if c = [MORSE_DIAN, MORSE_HUA] then ''A''
     else if c = [MORSE_DIAN, MORSE_DIAN] then ''I''
     else if c = [MORSE_HUA, MORSE_HUA] then ''M''
     else if c = [MORSE_HUA, MORSE_DIAN] then ''N''
     else ''~'')"

definition decode3 :: "int list \<Rightarrow> string" where
  "decode3 c =
    (if c = [MORSE_HUA, MORSE_DIAN, MORSE_DIAN] then ''D''
     else if c = [MORSE_HUA, MORSE_HUA, MORSE_DIAN] then ''G''
     else if c = [MORSE_HUA, MORSE_DIAN, MORSE_HUA] then ''K''
     else if c = [MORSE_HUA, MORSE_HUA, MORSE_HUA] then ''O''
     else if c = [MORSE_DIAN, MORSE_HUA, MORSE_DIAN] then ''R''
     else if c = [MORSE_DIAN, MORSE_DIAN, MORSE_DIAN] then ''S''
     else if c = [MORSE_DIAN, MORSE_DIAN, MORSE_HUA] then ''U''
     else if c = [MORSE_DIAN, MORSE_HUA, MORSE_HUA] then ''W''
     else ''~'')"

definition decode4 :: "int list \<Rightarrow> string" where
  "decode4 c =
    (if c = [MORSE_HUA, MORSE_DIAN, MORSE_DIAN, MORSE_DIAN] then ''B''
     else if c = [MORSE_HUA, MORSE_DIAN, MORSE_HUA, MORSE_DIAN] then ''C''
     else if c = [MORSE_DIAN, MORSE_DIAN, MORSE_HUA, MORSE_DIAN] then ''F''
     else if c = [MORSE_DIAN, MORSE_DIAN, MORSE_DIAN, MORSE_DIAN] then ''H''
     else if c = [MORSE_DIAN, MORSE_HUA, MORSE_HUA, MORSE_HUA] then ''J''
     else if c = [MORSE_DIAN, MORSE_HUA, MORSE_DIAN, MORSE_DIAN] then ''L''
     else if c = [MORSE_DIAN, MORSE_HUA, MORSE_HUA, MORSE_DIAN] then ''P''
     else if c = [MORSE_HUA, MORSE_HUA, MORSE_DIAN, MORSE_HUA] then ''Q''
     else if c = [MORSE_DIAN, MORSE_DIAN, MORSE_DIAN, MORSE_HUA] then ''V''
     else if c = [MORSE_HUA, MORSE_DIAN, MORSE_DIAN, MORSE_HUA] then ''X''
     else if c = [MORSE_HUA, MORSE_DIAN, MORSE_HUA, MORSE_HUA] then ''Y''
     else if c = [MORSE_HUA, MORSE_HUA, MORSE_DIAN, MORSE_DIAN] then ''Z''
     else if c = [MORSE_DIAN, MORSE_DIAN, MORSE_DIAN, MORSE_DIAN] then ''&''
     else ''~'')"

definition decode5 :: "int list \<Rightarrow> string" where
  "decode5 c =
    (if c = [MORSE_HUA, MORSE_HUA, MORSE_HUA, MORSE_HUA, MORSE_HUA] then ''0''
     else if c = [MORSE_DIAN, MORSE_HUA, MORSE_HUA, MORSE_HUA, MORSE_HUA] then ''1''
     else if c = [MORSE_DIAN, MORSE_DIAN, MORSE_HUA, MORSE_HUA, MORSE_HUA] then ''2''
     else if c = [MORSE_DIAN, MORSE_DIAN, MORSE_DIAN, MORSE_HUA, MORSE_HUA] then ''3''
     else if c = [MORSE_DIAN, MORSE_DIAN, MORSE_DIAN, MORSE_DIAN, MORSE_HUA] then ''4''
     else if c = [MORSE_DIAN, MORSE_DIAN, MORSE_DIAN, MORSE_DIAN, MORSE_DIAN] then ''5''
     else if c = [MORSE_HUA, MORSE_DIAN, MORSE_DIAN, MORSE_DIAN, MORSE_DIAN] then ''6''
     else if c = [MORSE_HUA, MORSE_HUA, MORSE_DIAN, MORSE_DIAN, MORSE_DIAN] then ''7''
     else if c = [MORSE_HUA, MORSE_HUA, MORSE_HUA, MORSE_DIAN, MORSE_DIAN] then ''8''
     else if c = [MORSE_HUA, MORSE_HUA, MORSE_HUA, MORSE_HUA, MORSE_DIAN] then ''9''
     else if c = [MORSE_HUA, MORSE_DIAN, MORSE_DIAN, MORSE_DIAN, MORSE_HUA] then ''=''
     else if c = [MORSE_HUA, MORSE_DIAN, MORSE_DIAN, MORSE_HUA, MORSE_DIAN] then ''/''
     else if c = [MORSE_HUA, MORSE_DIAN, MORSE_HUA, MORSE_HUA, MORSE_DIAN] then ''(''
     else ''~'')"

definition decode6 :: "int list \<Rightarrow> string" where
  "decode6 c =
    (if c = [MORSE_DIAN, MORSE_HUA, MORSE_DIAN, MORSE_HUA, MORSE_DIAN, MORSE_HUA] then ''.'' else []) @
    (if c = [MORSE_HUA, MORSE_HUA, MORSE_HUA, MORSE_DIAN, MORSE_DIAN, MORSE_DIAN] then '':'' else []) @
    (if c = [MORSE_HUA, MORSE_HUA, MORSE_DIAN, MORSE_DIAN, MORSE_HUA, MORSE_HUA] then '','' else []) @
    (if c = [MORSE_HUA, MORSE_DIAN, MORSE_HUA, MORSE_DIAN, MORSE_HUA, MORSE_DIAN] then '';'' else []) @
    (if c = [MORSE_DIAN, MORSE_DIAN, MORSE_HUA, MORSE_HUA, MORSE_DIAN, MORSE_DIAN] then ''?'' else []) @
    (if c = [MORSE_DIAN, MORSE_HUA, MORSE_HUA, MORSE_HUA, MORSE_HUA, MORSE_DIAN] then [CHR 0x27] else []) @
    (if c = [MORSE_HUA, MORSE_DIAN, MORSE_HUA, MORSE_DIAN, MORSE_HUA, MORSE_HUA] then ''!'' else []) @
    (if c = [MORSE_HUA, MORSE_DIAN, MORSE_DIAN, MORSE_DIAN, MORSE_DIAN, MORSE_HUA] then ''-'' else []) @
    (if c = [MORSE_DIAN, MORSE_DIAN, MORSE_HUA, MORSE_HUA, MORSE_DIAN, MORSE_HUA] then ''_'' else []) @
    (if c = [MORSE_DIAN, MORSE_HUA, MORSE_DIAN, MORSE_DIAN, MORSE_HUA, MORSE_DIAN] then [CHR 0x22] else []) @
    (if c = [MORSE_HUA, MORSE_DIAN, MORSE_HUA, MORSE_HUA, MORSE_DIAN, MORSE_HUA] then '')'' else []) @
    (if c = [MORSE_DIAN, MORSE_HUA, MORSE_HUA, MORSE_DIAN, MORSE_HUA, MORSE_DIAN] then ''@'' else ''~'')"

definition decode7 :: "int list \<Rightarrow> string" where
  "decode7 c =
    (if c = [MORSE_DIAN, MORSE_DIAN, MORSE_DIAN, MORSE_HUA, MORSE_DIAN, MORSE_DIAN, MORSE_HUA] then ''$''
     else ''~'')"

text \<open>The characters written for the \<open>k - 1\<close> marks collected.\<close>

definition decode_marks :: "int list \<Rightarrow> string" where
  "decode_marks c =
    (if length c = 1 then decode1 c
     else if length c = 2 then decode2 c
     else if length c = 3 then decode3 c
     else if length c = 4 then decode4 c
     else if length c = 5 then decode5 c
     else if length c = 6 then decode6 c
     else if length c = 7 then decode7 c
     else if length c = 0 then []
     else ''~'')"

lemmas decode_defs = decode1_def decode2_def decode3_def decode4_def decode5_def decode6_def
  decode7_def

section \<open>The loop over the marks\<close>

text \<open>\<open>while (a[i+k] != MORSE_ZIFU_KONG && a[i+k] != MORSE_FINSH) { c[k-1] = a[i+k]; k++; }\<close>;
  the cells of \<open>c[7]\<close> written so far are the list \<open>c\<close>.\<close>

function collect :: "int list \<Rightarrow> nat \<Rightarrow> nat \<Rightarrow> int list \<Rightarrow> (int list \<times> nat) res" where
  "collect a i k c =
     rbind (rd a (i + k)) (\<lambda>v.
       if v \<noteq> MORSE_ZIFU_KONG \<and> v \<noteq> MORSE_FINSH
       then (if length c < 7 then collect a i (Suc k) (c @ [v]) else Inl OobWrite)
       else Inr (c, k))"
  by pat_completeness auto
termination
  by (relation "measure (\<lambda>(a, i, k, c). length a - (i + k))")
    (auto simp: rd_def split: if_splits)

declare collect.simps [simp del]

lemma collect_advances: "collect a i k c = Inr (c', k') \<Longrightarrow> k \<le> k'"
proof (induction a i k c rule: collect.induct)
  case (1 a i k c)
  obtain v where v: "rd a (i + k) = Inr v" and
    r: "(if v \<noteq> 3000 \<and> v \<noteq> 0 then (if length c < 7 then collect a i (Suc k) (c @ [v]) else Inl OobWrite)
         else Inr (c, k)) = Inr (c', k')"
    using "1.prems" [unfolded collect.simps [of a i k c]] by (auto simp: rbind_Inr_iff)
  show ?case
  proof (cases "v \<noteq> 3000 \<and> v \<noteq> 0 \<and> length c < 7")
    case True
    with "1.IH" [OF v] r show ?thesis by simp
  next
    case False
    with r show ?thesis by (auto split: if_splits)
  qed
qed

text \<open>\<open>code[j] = x; j++; rt_kprintf (x);\<close> for each character written.\<close>

record decoded =
  code_buf :: string
  code_pos :: nat
  console :: string

definition put_chars :: "string \<Rightarrow> decoded \<Rightarrow> decoded res" where
  "put_chars xs s =
     rbind (wr_run (code_buf s) (code_pos s) xs)
       (\<lambda>(buf, j). Inr \<lparr>code_buf = buf, code_pos = j, console = console s @ xs\<rparr>)"

function inverse_loop :: "int list \<Rightarrow> nat \<Rightarrow> decoded \<Rightarrow> decoded res" where
  "inverse_loop a i s =
     (if i < 200 then
        rbind (rd a i) (\<lambda>v.
          if v = MORSE_START \<or> v = MORSE_ZIFU_KONG then
            rbind (collect a i 1 []) (\<lambda>(c, k).
            rbind (put_chars (decode_marks c) s) (\<lambda>s'. inverse_loop a (i + k - 1 + 1) s'))
          else if v = MORSE_FINSH then Inr s
          else inverse_loop a (i + 1) s)
      else Inr s)"
  by pat_completeness auto
termination
  by (relation "measure (\<lambda>(a, i, s). 200 - i)") (auto dest!: collect_advances)

declare inverse_loop.simps [simp del]

definition inverse_translate :: "int list \<Rightarrow> decoded res" where
  "inverse_translate a =
     inverse_loop a 0 \<lparr>code_buf = replicate 31 (CHR ''~''), code_pos = 0, console = []\<rparr>"

section \<open>Collecting one letter\<close>

definition plain :: "int list \<Rightarrow> bool" where
  "plain w \<longleftrightarrow> 0 \<notin> set w \<and> 3000 \<notin> set w"

lemma collect_word:
  assumes "plain w" and "t = 0 \<or> t = 3000" and "i + k = length pre" and "length c \<le> 7"
  shows "collect (pre @ w @ t # post) i k c =
    (if length c + length w \<le> 7 then Inr (c @ w, k + length w) else Inl OobWrite)"
  using assms
proof (induction w arbitrary: pre k c)
  case Nil
  then show ?case by (auto simp: collect.simps [of _ i k c] nth_append)
next
  case (Cons m w)
  from Cons.prems have m: "m \<noteq> 0" "m \<noteq> 3000" and w: "plain w" by (auto simp: plain_def)
  show ?case
  proof (cases "length c < 7")
    case False
    then show ?thesis
      using m Cons.prems by (simp add: collect.simps [of _ i k c] nth_append rd_def)
  next
    case True
    have "collect (pre @ (m # w) @ t # post) i k c =
      (if length c < 7 then collect ((pre @ [m]) @ w @ t # post) i (Suc k) (c @ [m]) else Inl OobWrite)"
      using m Cons.prems(3) by (simp add: collect.simps [of _ i k c] nth_append rd_def)
    also have "collect ((pre @ [m]) @ w @ t # post) i (Suc k) (c @ [m]) =
      (if length (c @ [m]) + length w \<le> 7 then Inr ((c @ [m]) @ w, Suc k + length w) else Inl OobWrite)"
      using w Cons.prems True by (intro Cons.IH) simp_all
    finally show ?thesis using True by simp
  qed
qed

text \<open>A message is a list of letters with the letter gap between them.\<close>

fun join_letters :: "int list list \<Rightarrow> int list" where
  "join_letters [] = []"
| "join_letters [w] = w"
| "join_letters (w # v # ws) = w @ MORSE_ZIFU_KONG # join_letters (v # ws)"

definition heard :: "int list list \<Rightarrow> string" where
  "heard ws = concat (map decode_marks ws)"

definition written :: "string \<Rightarrow> decoded" where
  "written s = \<lparr>code_buf = filled 31 (CHR ''~'') s, code_pos = length s, console = s\<rparr>"

lemma put_chars_written:
  "length s \<le> 31 \<Longrightarrow> put_chars xs (written s) =
     (if length s + length xs \<le> 31 then Inr (written (s @ xs)) else Inl OobWrite)"
  by (simp add: put_chars_def written_def wr_run_filled)

lemma inverse_loop_end: "i < 200 \<Longrightarrow> i < length a \<Longrightarrow> a ! i = 0 \<Longrightarrow> inverse_loop a i s = Inr s"
  by (simp add: inverse_loop.simps [of a i s])

lemma inverse_loop_letter:
  fixes post :: "int list"
  assumes "v = 1 \<or> v = 3000" and "plain w" and "length w \<le> 7" and "t = 0 \<or> t = 3000"
    and "length pre < 200" and "length s \<le> 31"
  defines "a \<equiv> pre @ v # w @ t # post"
  shows "inverse_loop a (length pre) (written s) =
    (if length s + length (decode_marks w) \<le> 31
     then inverse_loop a (length pre + length w + 1) (written (s @ decode_marks w))
     else Inl OobWrite)"
proof -
  have "collect ((pre @ [v]) @ w @ t # post) (length pre) 1 [] = Inr (w, 1 + length w)"
    using collect_word [OF assms(2,4), of "length pre" 1 "pre @ [v]" "[]" post] assms(3) by simp
  then have c: "collect a (length pre) 1 [] = Inr (w, 1 + length w)" by (simp add: a_def)
  have r: "rd a (length pre) = Inr v" by (simp add: a_def rd_def)
  show ?thesis
    unfolding inverse_loop.simps [of a "length pre" "written s"] r
    using assms(1,5,6) c by (auto simp: put_chars_written ac_simps)
qed

lemma inverse_loop_letters:
  assumes "ws \<noteq> []" and "list_all (\<lambda>w. plain w \<and> length w \<le> 7) ws" and "v = 1 \<or> v = 3000"
    and "length pre + length (join_letters ws) < 199" and "length s \<le> 31"
  shows "inverse_loop (pre @ v # join_letters ws @ 0 # post) (length pre) (written s) =
    (if length s + length (heard ws) \<le> 31 then Inr (written (s @ heard ws)) else Inl OobWrite)"
  using assms
proof (induction ws arbitrary: pre v s rule: join_letters.induct)
  case 1
  then show ?case by simp
next
  case (2 w)
  then show ?case
    using inverse_loop_letter [of v w 0 pre s post]
    by (auto simp: heard_def nth_append intro!: inverse_loop_end)
next
  case (3 w u ws)
  let ?rest = "join_letters (u # ws) @ 0 # post"
  let ?pre = "pre @ v # w"
  have e: "pre @ v # join_letters (w # u # ws) @ 0 # post = ?pre @ 3000 # ?rest" by simp
  have h: "heard (w # u # ws) = decode_marks w @ heard (u # ws)" by (simp add: heard_def)
  have l: "length pre + length w + 1 = length ?pre" by simp
  have first: "inverse_loop (?pre @ 3000 # ?rest) (length pre) (written s) =
    (if length s + length (decode_marks w) \<le> 31
     then inverse_loop (?pre @ 3000 # ?rest) (length ?pre) (written (s @ decode_marks w))
     else Inl OobWrite)"
    using inverse_loop_letter [of v w 3000 pre s ?rest] "3.prems" l by simp
  have "length s + length (decode_marks w) \<le> 31 \<Longrightarrow>
    inverse_loop (?pre @ 3000 # ?rest) (length ?pre) (written (s @ decode_marks w)) =
    (if length (s @ decode_marks w) + length (heard (u # ws)) \<le> 31
     then Inr (written ((s @ decode_marks w) @ heard (u # ws))) else Inl OobWrite)"
    using "3.prems" by (intro "3.IH") simp_all
  then show ?case unfolding e h first by simp
qed

text \<open>What is heard of a message behind \<open>MORSE_START\<close>.\<close>

lemma inverse_translate_letters:
  assumes "list_all (\<lambda>w. plain w \<and> length w \<le> 7) ws" and "length (join_letters ws) < 199"
  shows "inverse_translate (filled 200 0 (1 # join_letters ws)) =
    (if length (heard ws) \<le> 31 then Inr (written (heard ws)) else Inl OobWrite)"
proof -
  let ?ws = "if ws = [] then [[]] else ws"
  have j: "join_letters ?ws = join_letters ws" "heard ?ws = heard ws"
    by (simp_all add: heard_def decode_marks_def)
  have p: "list_all (\<lambda>w. plain w \<and> length w \<le> 7) ?ws" using assms(1) by (simp add: plain_def)
  have f: "filled 200 0 (1 # join_letters ws) =
      [] @ 1 # join_letters ?ws @ 0 # replicate (198 - length (join_letters ws)) 0"
    using assms(2) j by (simp add: filled_def Suc_diff_Suc flip: replicate_Suc)
  have w: "\<lparr>code_buf = replicate 31 (CHR ''~''), code_pos = 0, console = []\<rparr> = written []"
    by (simp add: written_def filled_Nil)
  show ?thesis
    unfolding inverse_translate_def w f
    using inverse_loop_letters [of ?ws 1 "[]" "[]"] p assms(2) j by simp
qed

section \<open>Letter tables\<close>

text \<open>
  What the decoder needs of a sender's table: each character of it is a letter of at most 7
  marks without a gap; \<open>letter_code\<close> adds the characters that come back as themselves.
\<close>

locale letter_tables =
  fixes marks :: "char \<Rightarrow> int list" and chars :: "char set"
  assumes marks_plain: "c \<in> chars \<Longrightarrow> plain (marks c)"
    and marks_fit: "c \<in> chars \<Longrightarrow> length (marks c) \<le> 7"
begin

lemma letters_decodable: "set s \<subseteq> chars \<Longrightarrow> list_all (\<lambda>w. plain w \<and> length w \<le> 7) (map marks s)"
  using marks_plain marks_fit by (auto simp: list_all_iff)

lemma message_heard:
  assumes "set s \<subseteq> chars" and "length (join_letters (map marks s)) < 199"
  shows "inverse_translate (filled 200 0 (1 # join_letters (map marks s))) =
    (if length (heard (map marks s)) \<le> 31 then Inr (written (heard (map marks s))) else Inl OobWrite)"
  using letters_decodable [OF assms(1)] assms(2) by (rule inverse_translate_letters)

end

locale letter_code = letter_tables +
  assumes marks_inverse: "c \<in> chars \<Longrightarrow> decode_marks (marks c) = [c]"
begin

lemma heard_self: "set s \<subseteq> chars \<Longrightarrow> heard (map marks s) = s"
  using marks_inverse by (induction s) (auto simp: heard_def)

lemma message_roundtrip:
  assumes "set s \<subseteq> chars" and "length s \<le> 31" and "length (join_letters (map marks s)) < 199"
  shows "inverse_translate (filled 200 0 (1 # join_letters (map marks s))) = Inr (written s)"
  using message_heard [OF assms(1,3)] heard_self [OF assms(1)] assms(2) by simp

end

section \<open>The tables of the player\<close>

definition marks_of :: "char \<Rightarrow> int list" where
  "marks_of c = map uint (butlast (code_of c))"

text \<open>The characters the decoder gives back: all but the ampersand (taken for H) and the
  characters of 6 marks other than \<open>@\<close>, behind which the decoder adds a tilde.\<close>

definition clear_chars :: string where
  "clear_chars = '' ABCDEFGHIJKLMNOPQRSTUVWXYZ0123456789=/($@''"

lemma marks_of_tables: "list_all (\<lambda>c. plain (marks_of c) \<and> length (marks_of c) \<le> 7) alphabet"
  by code_simp

lemma clear_alphabet: "set clear_chars \<subseteq> set alphabet"
  by (simp add: clear_chars_def alphabet_def)

lemma clear_marks: "list_all (\<lambda>c. decode_marks (marks_of c) = [c]) clear_chars"
  by code_simp

text \<open>What the decoder makes of a character.\<close>

definition told :: "char \<Rightarrow> string" where
  "told c = (if c \<in> set clear_chars then [c] else if c = CHR ''&'' then ''H'' else [c, CHR ''~''])"

lemma told_alphabet: "list_all (\<lambda>c. decode_marks (marks_of c) = told c) alphabet"
  by code_simp

lemma heard_told: "set s \<subseteq> set alphabet \<Longrightarrow> heard (map marks_of s) = concat (map told s)"
  using told_alphabet by (induction s) (auto simp: heard_def list_all_iff)

lemma told_clear: "set s \<subseteq> set clear_chars \<Longrightarrow> concat (map told s) = s"
  by (induction s) (simp_all add: told_def)

interpretation player: letter_tables marks_of "set alphabet"
  using marks_of_tables by unfold_locales (auto simp: list_all_iff)

interpretation clear: letter_code marks_of "set clear_chars"
  using clear_marks clear_alphabet player.marks_plain player.marks_fit
  by unfold_locales (auto simp: list_all_iff)

section \<open>Properties\<close>

text \<open>C1. Round trip: a message of characters of the tables, sent with the player's tables and a
  letter gap between them, as long as \<open>MORSE_START\<close>, its marks and the terminating zero fit the
  array, is decoded as the characters each letter is told as, on the console and in
  \<open>code[31]\<close>, whose other cells are tildes, or overflows \<open>code[31]\<close>. Letters, digits, blank and
  \<open>= / ( $ @\<close> are told as themselves, the ampersand as H, the other eleven signs with a tilde
  behind them.\<close>

theorem decode_roundtrip:
  assumes "set s \<subseteq> set alphabet" and "length (join_letters (map marks_of s)) < 199"
  shows "inverse_translate (filled 200 0 (1 # join_letters (map marks_of s))) =
      (if length (concat (map told s)) \<le> 31
       then Inr \<lparr>code_buf = filled 31 (CHR ''~'') (concat (map told s)),
         code_pos = length (concat (map told s)), console = concat (map told s)\<rparr>
       else Inl OobWrite) \<and>
    (set s \<subseteq> set clear_chars \<longrightarrow> concat (map told s) = s)"
  using player.message_heard [OF assms] heard_told [OF assms(1)] told_clear
  by (simp add: written_def)

theorem decode_roundtrip_witness:
  "inverse_translate (filled 200 0
     [1, 300, 100, 300, 300, 3000, 7000, 3000, 100, 100, 100, 300, 300, 3000, 100, 100, 300, 300, 100, 100]) =
   Inr \<lparr>code_buf = filled 31 (CHR ''~'') ''Y 3?~'', code_pos = 5, console = ''Y 3?~''\<rparr>"
proof -
  have m: "marks_of (CHR ''Y'') = [300, 100, 300, 300]" "marks_of (CHR '' '') = [7000]"
    "marks_of (CHR ''3'') = [100, 100, 100, 300, 300]" "marks_of (CHR ''?'') = [100, 100, 300, 300, 100, 100]"
    by (simp_all add: marks_of_def code_of_def translate_case_def translate_groups morse_table_defs)
  show ?thesis
    using decode_roundtrip [of "''Y 3?''"] by (simp add: alphabet_def clear_chars_def told_def m)
qed

text \<open>Of the alphabet, the decoder returns the letters, digits, blank and \<open>= / ( $ @\<close> as
  themselves; the other eleven signs of 6 marks come out followed by a tilde, because only the
  last test of that branch owns the \<open>else\<close>; the ampersand comes out as H.\<close>

theorem decoded_alphabet:
  "list_all (\<lambda>c. decode_marks (marks_of c) =
      (if c \<in> set clear_chars then [c] else if c = CHR ''&'' then ''H'' else [c, CHR ''~'']))
     alphabet"
  using told_alphabet unfolding told_def .

text \<open>A run of 8 or more marks without a gap is written outside \<open>c[7]\<close>.\<close>

theorem decode_overlong_letter:
  assumes "plain w" and "7 < length w" and "length w < 199"
  shows "inverse_translate (filled 200 0 (1 # w)) = Inl OobWrite"
proof -
  have f: "filled 200 0 (1 # w) = ([] @ [1]) @ w @ 0 # replicate (198 - length w) 0"
    using assms(3) by (simp add: filled_def Suc_diff_Suc flip: replicate_Suc)
  have c: "collect (filled 200 0 (1 # w)) 0 1 [] = Inl OobWrite"
    unfolding f using collect_word [OF assms(1), of 0 0 1 "[] @ [1]" "[]"] assms(2) by simp
  have "rd (filled 200 0 (1 # w)) 0 = Inr 1"
    using assms(3) by (simp add: rd_def filled_def)
  then show ?thesis
    using c by (simp add: inverse_translate_def inverse_loop.simps [of _ 0])
qed

theorem decode_overlong_letter_witness:
  "inverse_translate (filled 200 0 (1 # replicate 8 100)) = Inl OobWrite"
  by (rule decode_overlong_letter) (simp_all add: plain_def)

end
