(* ===== verification/Morse_Signal.thy ===== *)
theory Morse_Signal
  imports Morse_Decode
begin

text \<open>
  From audio bytes to marks: the worker threads of \<open>morse_process_once\<close> (a recorded file) and
  \<open>morse_process_test\<close> (a table compiled in) of
  \<open>ls2kdev_record/applications/morse/morse_decode.c\<close>. The bytes are cut into frames, each frame gives an
  energy, and a judge with three states turns the run lengths of loud and quiet frames into the
  marks \<open>inverse_translate\<close> reads. The two threads are the same text with other numbers, which
  are a record \<open>detector\<close> here.

  Two accesses of the code leave its objects. The last row of \<open>arr\<close> is filled up to and with
  column \<open>j_len\<close>. Bytes behind the file's buffer (or the table) are read: they are a parameter
  \<open>beyond\<close> of the model. A column from \<open>wlen\<close> on of the last row lies behind the whole array: that
  write is a fault. It happens to every file of 200 bytes or more, and never to the table.
\<close>

section \<open>The numbers of the two threads\<close>

record detector =
  wlen :: nat
  inc :: nat
  extra :: int      \<comment> \<open>the constant in \<open>fn = (flen-wlen)/inc + extra\<close>\<close>
  offset :: nat     \<comment> \<open>added to each index of the table\<close>
  noise :: int      \<comment> \<open>samples up to it are cleared\<close>
  dot_min :: int
  dash_min :: int
  dash_max :: int
  gap_min :: int
  word_min :: int

definition once_detector :: detector where
  "once_detector = \<lparr>wlen = 200, inc = 100, extra = 1, offset = 0, noise = 6,
     dot_min = 10, dash_min = 35, dash_max = 50, gap_min = 6, word_min = 15\<rparr>"

definition test_detector :: detector where
  "test_detector = \<lparr>wlen = 100, inc = 100, extra = 2, offset = 60, noise = -1,
     dot_min = 3, dash_min = 10, dash_max = 20, gap_min = 8, word_min = 60\<rparr>"

section \<open>Framing\<close>

type_synonym frames = "int list list"

definition byte_at :: "u8 list \<Rightarrow> (nat \<Rightarrow> u8) \<Rightarrow> nat \<Rightarrow> u8" where
  "byte_at fb beyond n = (if n < length fb then fb ! n else beyond (n - length fb))"

definition gate :: "detector \<Rightarrow> u8 \<Rightarrow> int" where
  "gate d b = (if uint b \<le> noise d then 0 else uint b)"

definition frame_count :: "detector \<Rightarrow> nat \<Rightarrow> int" where
  "frame_count d flen = cdiv (int flen - int (wlen d)) (int (inc d)) + extra d"

definition last_length :: "detector \<Rightarrow> nat \<Rightarrow> int" where
  "last_length d flen = int flen - (frame_count d flen - 1) * int (inc d)"

text \<open>\<open>arr[i][j] = fbuffer[inc*i+k]\<close> with \<open>j = k\<close>; the rows before the last are written at columns
  below \<open>wlen\<close> only, and \<open>arr\<close> ends with the last row.\<close>

definition frame_cell ::
  "detector \<Rightarrow> (nat \<Rightarrow> u8) \<Rightarrow> nat \<Rightarrow> nat \<Rightarrow> int list \<Rightarrow> int list res" where
  "frame_cell d byte i j row = wr row j (gate d (byte (inc d * i + j + offset d)))"

definition frame_row ::
  "detector \<Rightarrow> (nat \<Rightarrow> u8) \<Rightarrow> int \<Rightarrow> int \<Rightarrow> nat \<Rightarrow> frames \<Rightarrow> frames res" where
  "frame_row d byte fn j_len i arr =
     rbind (rd arr i) (\<lambda>row.
     rbind (for_list (frame_cell d byte i)
              (if int i < fn - 1 then [0..<wlen d] else [0..<nat (j_len + 1)]) row)
       (wr arr i))"

text \<open>\<open>int arr[fn][wlen]\<close> needs a positive \<open>fn\<close>.\<close>

definition frame_all :: "detector \<Rightarrow> u8 list \<Rightarrow> (nat \<Rightarrow> u8) \<Rightarrow> frames res" where
  "frame_all d fb beyond =
     (let flen = length fb; fn = frame_count d flen in
      if fn \<le> 0 then Inl BadSize
      else for_list (frame_row d (byte_at fb beyond) fn (last_length d flen)) [0..<nat fn]
        (replicate (nat fn) (replicate (wlen d) 0)))"

text \<open>\<open>En[i] += arr[i][j]*arr[i][j]\<close>\<close>

definition energy :: "int list \<Rightarrow> int" where
  "energy row = foldl (\<lambda>e v. e + v * v) 0 row"

section \<open>The judge\<close>

abbreviation (input) T_energy :: int where "T_energy \<equiv> 1000000"

record judge =
  judge_sta :: nat                  \<comment> \<open>0 before the first loud frame, 1 loud, 2 quiet\<close>
  judge_st :: nat                   \<comment> \<open>1 once a mark was found\<close>
  var_m :: "int option"       \<comment> \<open>first loud frame; uninitialised at first\<close>
  var_n :: "int option"       \<comment> \<open>first quiet frame; uninitialised at first\<close>
  jud :: "int list"
  jk :: nat

definition judge_init :: judge where
  "judge_init = \<lparr>judge_sta = 0, judge_st = 0, var_m = None, var_n = None, jud = replicate 200 0, jk = 0\<rparr>"

definition use_var :: "'a option \<Rightarrow> 'a res" where
  "use_var v = (case v of None \<Rightarrow> Inl Uninit | Some x \<Rightarrow> Inr x)"

text \<open>\<open>jud[k] = v; k++;\<close> for each of the values.\<close>

definition judge_put :: "int list \<Rightarrow> judge \<Rightarrow> judge res" where
  "judge_put vs s = rbind (wr_run (jud s) (jk s) vs) (\<lambda>(a, k). Inr (s\<lparr>jud := a, jk := k\<rparr>))"

definition judge_mark :: "int \<Rightarrow> judge \<Rightarrow> judge res" where
  "judge_mark v s =
     (if judge_st s = 1 then judge_put [v] s
      else rbind (judge_put [MORSE_START, v] s) (\<lambda>s'. Inr (s'\<lparr>judge_st := 1\<rparr>)))"

text \<open>The first test: the initial state sees a loud frame.\<close>

definition judge_wait :: "int \<Rightarrow> int \<Rightarrow> judge \<Rightarrow> judge" where
  "judge_wait i e s =
     (if judge_sta s = 0 \<and> e > T_energy then s\<lparr>var_m := Some i, judge_sta := 1\<rparr> else s)"

text \<open>The second test: the end of a loud run.\<close>

definition judge_fall :: "detector \<Rightarrow> int \<Rightarrow> int \<Rightarrow> judge \<Rightarrow> judge res" where
  "judge_fall d i e s =
     (if judge_sta s = 1 \<and> e < T_energy then
        let s1 = s\<lparr>var_n := Some i\<rparr> in
        rbind (use_var (var_m s1)) (\<lambda>m.
        let h = i - m in
        rbind (if h \<ge> dot_min d \<and> h < dash_min d then judge_mark MORSE_DIAN s1
               else if h \<ge> dash_min d \<and> h < dash_max d then judge_mark MORSE_HUA s1
               else Inr s1)
          (\<lambda>s2. Inr (s2\<lparr>judge_sta := 2\<rparr>)))
      else Inr s)"

text \<open>The third test: the end of a quiet run.\<close>

definition judge_rise :: "detector \<Rightarrow> int \<Rightarrow> int \<Rightarrow> judge \<Rightarrow> judge res" where
  "judge_rise d i e s =
     (if judge_sta s = 2 \<and> e > T_energy then
        let s1 = s\<lparr>var_m := Some i\<rparr> in
        rbind (use_var (var_n s1)) (\<lambda>n.
        let l = i - n in
        rbind (if l > gap_min d \<and> l \<le> word_min d then judge_put [MORSE_ZIFU_KONG] s1
               else if l > word_min d
                 then judge_put [MORSE_ZIFU_KONG, MORSE_CI_KONG, MORSE_ZIFU_KONG] s1
               else Inr s1)
          (\<lambda>s2. Inr (s2\<lparr>judge_sta := 1\<rparr>)))
      else Inr s)"

definition judge_step :: "detector \<Rightarrow> int \<Rightarrow> int \<Rightarrow> judge \<Rightarrow> judge res" where
  "judge_step d i e s =
     rbind (judge_fall d i e (judge_wait i e s)) (\<lambda>s'. judge_rise d i e s')"

fun judge_loop :: "detector \<Rightarrow> int \<Rightarrow> int list \<Rightarrow> judge \<Rightarrow> judge res" where
  "judge_loop d i [] s = Inr s"
| "judge_loop d i (e # es) s = rbind (judge_step d i e s) (judge_loop d (i + 1) es)"

definition judge_all :: "detector \<Rightarrow> int list \<Rightarrow> int list res" where
  "judge_all d ens = rbind (judge_loop d 0 ens judge_init) (\<lambda>s. Inr (jud s))"

section \<open>The threads\<close>

definition process_bytes :: "detector \<Rightarrow> u8 list \<Rightarrow> (nat \<Rightarrow> u8) \<Rightarrow> decoded res" where
  "process_bytes d fb beyond =
     rbind (frame_all d fb beyond) (\<lambda>arr.
     rbind (judge_all d (map energy arr)) inverse_translate)"


definition morse_process_test_thread ::
  "u8 list \<Rightarrow> (nat \<Rightarrow> u8) \<Rightarrow> string list \<Rightarrow> decoded option res" where
  "morse_process_test_thread wav beyond argv =
     (if length argv = 1
      then rbind (process_bytes test_detector wav beyond) (\<lambda>r. Inr (Some r))
      else Inr None)"

section \<open>What the judge should find\<close>

text \<open>The mark of a loud run, the gap of a quiet run, and the marks of a list of runs, each a
  loud run with the quiet run behind it; \<open>pend\<close> is the quiet run before the first of them.\<close>

definition mark_of :: "detector \<Rightarrow> int \<Rightarrow> int option" where
  "mark_of d h =
     (if dot_min d \<le> h \<and> h < dash_min d then Some MORSE_DIAN
      else if dash_min d \<le> h \<and> h < dash_max d then Some MORSE_HUA
      else None)"

definition gap_of :: "detector \<Rightarrow> int \<Rightarrow> int list" where
  "gap_of d l =
     (if gap_min d < l \<and> l \<le> word_min d then [MORSE_ZIFU_KONG]
      else if word_min d < l then [MORSE_ZIFU_KONG, MORSE_CI_KONG, MORSE_ZIFU_KONG]
      else [])"

definition mark_out :: "detector \<Rightarrow> bool \<Rightarrow> int \<Rightarrow> int list" where
  "mark_out d started h =
     (case mark_of d h of None \<Rightarrow> [] | Some v \<Rightarrow> if started then [v] else [MORSE_START, v])"

definition gap_out :: "detector \<Rightarrow> int option \<Rightarrow> int list" where
  "gap_out d pend = (case pend of None \<Rightarrow> [] | Some l \<Rightarrow> gap_of d l)"

fun judge_runs :: "detector \<Rightarrow> bool \<Rightarrow> int option \<Rightarrow> (int \<times> int) list \<Rightarrow> int list" where
  "judge_runs d started pend [] = []"
| "judge_runs d started pend ((h, l) # runs) =
     gap_out d pend @ mark_out d started h @
     judge_runs d (started \<or> mark_of d h \<noteq> None) (Some l) runs"

text \<open>Energies of a run: some loud frames, then some quiet ones.\<close>

definition is_run :: "int list \<times> int list \<Rightarrow> bool" where
  "is_run r \<longleftrightarrow> (case r of (hs, ls) \<Rightarrow>
     hs \<noteq> [] \<and> ls \<noteq> [] \<and> list_all (\<lambda>e. T_energy < e) hs \<and> list_all (\<lambda>e. e < T_energy) ls)"

definition run_lengths :: "int list \<times> int list \<Rightarrow> int \<times> int" where
  "run_lengths r = (int (length (fst r)), int (length (snd r)))"

section \<open>The judge finds it\<close>

definition jst :: "nat \<Rightarrow> bool \<Rightarrow> int option \<Rightarrow> int option \<Rightarrow> int list \<Rightarrow> judge" where
  "jst a started m n out = \<lparr>judge_sta = a, judge_st = (if started then 1 else 0), var_m = m, var_n = n,
     jud = filled 200 0 out, jk = length out\<rparr>"

lemma jst_sel [simp]:
  "judge_sta (jst a b m n out) = a" "judge_st (jst a b m n out) = (if b then 1 else 0)"
  "var_m (jst a b m n out) = m" "var_n (jst a b m n out) = n"
  "jud (jst a b m n out) = filled 200 0 out"
  "(jst a b m n out)\<lparr>judge_sta := a'\<rparr> = jst a' b m n out"
  "(jst a b m n out)\<lparr>judge_st := Suc 0\<rparr> = jst a True m n out"
  "(jst a b m n out)\<lparr>var_m := m'\<rparr> = jst a b m' n out"
  "(jst a b m n out)\<lparr>var_n := n'\<rparr> = jst a b m n' out"
  by (simp_all add: jst_def)

lemma judge_init_jst: "judge_init = jst 0 False None None []"
  by (simp add: judge_init_def jst_def filled_Nil)

lemma judge_put_jst:
  "length out \<le> 200 \<Longrightarrow> judge_put vs (jst a b m n out) =
     (if length out + length vs \<le> 200 then Inr (jst a b m n (out @ vs)) else Inl OobWrite)"
  by (simp add: judge_put_def jst_def wr_run_filled)

lemma judge_mark_jst:
  "length out \<le> 200 \<Longrightarrow> mark_of d h = Some v \<Longrightarrow> judge_mark v (jst a b m n out) =
     (if length out + length (mark_out d b h) \<le> 200
      then Inr (jst a True m n (out @ mark_out d b h)) else Inl OobWrite)"
  by (auto simp: judge_mark_def judge_put_jst mark_out_def)

lemma judge_loud:
  "list_all (\<lambda>e. T_energy < e) hs \<Longrightarrow>
   judge_loop d i (hs @ es) (jst 1 b m n out) = judge_loop d (i + int (length hs)) es (jst 1 b m n out)"
  by (induction hs arbitrary: i)
    (simp_all add: judge_step_def judge_wait_def judge_fall_def judge_rise_def ac_simps)

lemma judge_quiet:
  "list_all (\<lambda>e. e < T_energy) ls \<Longrightarrow>
   judge_loop d i (ls @ es) (jst 2 b m n out) = judge_loop d (i + int (length ls)) es (jst 2 b m n out)"
  by (induction ls arbitrary: i)
    (simp_all add: judge_step_def judge_wait_def judge_fall_def judge_rise_def ac_simps)

lemma judge_lead:
  "list_all (\<lambda>e. e \<le> T_energy) ls \<Longrightarrow>
   judge_loop d i (ls @ es) (jst 0 b m n out) = judge_loop d (i + int (length ls)) es (jst 0 b m n out)"
  by (induction ls arbitrary: i)
    (simp_all add: judge_step_def judge_wait_def judge_fall_def judge_rise_def ac_simps)

lemma judge_step_fall:
  assumes "e < T_energy" and "length out \<le> 200"
  shows "judge_step d i e (jst 1 b (Some m) n out) =
    (if length out + length (mark_out d b (i - m)) \<le> 200
     then Inr (jst 2 (b \<or> mark_of d (i - m) \<noteq> None) (Some m) (Some i) (out @ mark_out d b (i - m)))
     else Inl OobWrite)"
proof (cases "mark_of d (i - m)")
  case None
  then have "(if dot_min d \<le> i - m \<and> i - m < dash_min d then judge_mark MORSE_DIAN s
         else if dash_min d \<le> i - m \<and> i - m < dash_max d then judge_mark MORSE_HUA s
         else Inr s) = Inr s" for s
    by (auto simp: mark_of_def split: if_splits)
  then show ?thesis
    using assms None
    by (simp add: judge_step_def judge_wait_def judge_fall_def judge_rise_def use_var_def
        mark_out_def Let_def)
next
  case (Some v)
  have "(if dot_min d \<le> i - m \<and> i - m < dash_min d then judge_mark MORSE_DIAN s
         else if dash_min d \<le> i - m \<and> i - m < dash_max d then judge_mark MORSE_HUA s
         else Inr s) = judge_mark v s" for s
    using Some by (auto simp: mark_of_def split: if_splits)
  then show ?thesis
    using assms Some judge_mark_jst [OF assms(2) Some]
    by (simp add: judge_step_def judge_wait_def judge_fall_def judge_rise_def use_var_def Let_def)
qed

lemma judge_step_rise:
  assumes "T_energy < e" and "length out \<le> 200"
  shows "judge_step d i e (jst 2 b m (Some n) out) =
    (if length out + length (gap_of d (i - n)) \<le> 200
     then Inr (jst 1 b (Some i) (Some n) (out @ gap_of d (i - n))) else Inl OobWrite)"
  using assms
  by (auto simp: judge_step_def judge_wait_def judge_fall_def judge_rise_def use_var_def
      gap_of_def judge_put_jst Let_def)

lemma judge_step_first:
  "T_energy < e \<Longrightarrow> judge_step d i e (jst 0 b m n out) = Inr (jst 1 b (Some i) n out)"
  by (simp add: judge_step_def judge_wait_def judge_fall_def judge_rise_def)

text \<open>The state before a run: waiting, or in the quiet run that ended just now.\<close>

definition before_run :: "int \<Rightarrow> int option \<Rightarrow> bool \<Rightarrow> int list \<Rightarrow> judge \<Rightarrow> bool" where
  "before_run i pend b out s \<longleftrightarrow>
     (case pend of None \<Rightarrow> s = jst 0 b None None out
      | Some l \<Rightarrow> \<exists>m. s = jst 2 b m (Some (i - l)) out)"

lemma judge_one_run:
  fixes d :: detector
  assumes "is_run (hs, ls)" and "before_run i pend b out s" and "length out \<le> 200"
  defines "new \<equiv> gap_out d pend @ mark_out d b (int (length hs))"
  shows "(length out + length new \<le> 200 \<longrightarrow>
      (\<exists>s'. judge_loop d i (hs @ ls @ es) s = judge_loop d (i + int (length hs) + int (length ls)) es s' \<and>
         before_run (i + int (length hs) + int (length ls)) (Some (int (length ls)))
           (b \<or> mark_of d (int (length hs)) \<noteq> None) (out @ new) s')) \<and>
    (\<not> length out + length new \<le> 200 \<longrightarrow> judge_loop d i (hs @ ls @ es) s = Inl OobWrite)"
proof -
  obtain h hs' l ls' where hl: "hs = h # hs'" "ls = l # ls'"
    using assms(1) by (cases hs; cases ls) (auto simp: is_run_def)
  have loud: "T_energy < h" "list_all (\<lambda>e. T_energy < e) hs'"
    and quiet: "l < T_energy" "list_all (\<lambda>e. e < T_energy) ls'"
    using assms(1) by (auto simp: is_run_def hl)
  have rise: "\<exists>n. judge_step d i h s =
      (if length out + length (gap_out d pend) \<le> 200
       then Inr (jst 1 b (Some i) n (out @ gap_out d pend)) else Inl OobWrite)"
  proof (cases pend)
    case None
    then show ?thesis
      using assms(2,3) judge_step_first [OF loud(1)] by (auto simp: before_run_def gap_out_def)
  next
    case (Some g)
    then obtain m where "s = jst 2 b m (Some (i - g)) out" using assms(2) by (auto simp: before_run_def)
    then show ?thesis
      using Some judge_step_rise [OF loud(1) assms(3), of d i b m "i - g"] by (auto simp: gap_out_def)
  qed
  show ?thesis
  proof (cases "length out + length (gap_out d pend) \<le> 200")
    case False
    then show ?thesis using rise by (auto simp: hl new_def)
  next
    case True
    let ?o = "out @ gap_out d pend" and ?n = "i + int (length hs)"
    obtain n where "judge_loop d i (hs @ ls @ es) s =
        judge_loop d (i + 1) (hs' @ ls @ es) (jst 1 b (Some i) n ?o)"
      using rise True by (auto simp: hl)
    also have "\<dots> = judge_loop d ?n (ls @ es) (jst 1 b (Some i) n ?o)"
      using judge_loud [OF loud(2)] by (simp add: hl ac_simps)
    also have "\<dots> = rbind (judge_step d ?n l (jst 1 b (Some i) n ?o)) (judge_loop d (?n + 1) (ls' @ es))"
      by (simp add: hl)
    finally have run: "judge_loop d i (hs @ ls @ es) s =
      rbind (judge_step d ?n l (jst 1 b (Some i) n ?o)) (judge_loop d (?n + 1) (ls' @ es))" .
    show ?thesis
      unfolding run using True judge_step_fall [OF quiet(1), of ?o d ?n b i n]
        judge_quiet [OF quiet(2), of d "?n + 1" es]
      by (auto simp: new_def before_run_def hl ac_simps)
  qed
qed

lemma judge_loop_runs:
  assumes "list_all is_run runs" and "before_run i pend b out s" and "length out \<le> 200"
  shows "rbind (judge_loop d i (concat (map (\<lambda>(hs, ls). hs @ ls) runs)) s) (\<lambda>s. Inr (jud s)) =
    (let new = judge_runs d b pend (map run_lengths runs) in
     if length out + length new \<le> 200 then Inr (filled 200 0 (out @ new)) else Inl OobWrite)"
  using assms
proof (induction runs arbitrary: i pend b out s)
  case Nil
  then show ?case by (auto simp: before_run_def split: option.splits)
next
  case (Cons r runs)
  obtain hs ls where r: "r = (hs, ls)" by (cases r)
  let ?es = "concat (map (\<lambda>(hs, ls). hs @ ls) runs)"
  let ?new = "gap_out d pend @ mark_out d b (int (length hs))"
  have run: "is_run (hs, ls)" using Cons.prems(1) by (simp add: r)
  note one = judge_one_run [OF run Cons.prems(2,3), of d ?es]
  show ?case
  proof (cases "length out + length ?new \<le> 200")
    case False
    then show ?thesis using one by (simp add: r run_lengths_def Let_def)
  next
    case True
    then obtain s' where s':
      "judge_loop d i (hs @ ls @ ?es) s = judge_loop d (i + int (length hs) + int (length ls)) ?es s'"
      "before_run (i + int (length hs) + int (length ls)) (Some (int (length ls)))
         (b \<or> mark_of d (int (length hs)) \<noteq> None) (out @ ?new) s'"
      using one by blast
    have "list_all is_run runs" using Cons.prems(1) by simp
    from Cons.IH [OF this s'(2)] True show ?thesis
      by (simp add: r s'(1) run_lengths_def Let_def)
  qed
qed

text \<open>The judge on a recording: quiet frames, then runs.\<close>

lemma judge_all_runs:
  assumes "list_all (\<lambda>e. e \<le> T_energy) lead" and "list_all is_run runs"
  shows "judge_all d (lead @ concat (map (\<lambda>(hs, ls). hs @ ls) runs)) =
    (let new = judge_runs d False None (map run_lengths runs) in
     if length new \<le> 200 then Inr (filled 200 0 new) else Inl OobWrite)"
proof -
  have b: "before_run (0 + int (length lead)) None False [] judge_init"
    by (simp add: before_run_def judge_init_jst)
  show ?thesis
    using judge_loop_runs [OF assms(2) b, of d] judge_lead [OF assms(1)]
    by (simp add: judge_all_def judge_init_jst Let_def)
qed

section \<open>Frames\<close>

definition cell :: "detector \<Rightarrow> (nat \<Rightarrow> u8) \<Rightarrow> nat \<Rightarrow> nat \<Rightarrow> int" where
  "cell d byte i j = gate d (byte (inc d * i + j + offset d))"

definition row_of :: "detector \<Rightarrow> (nat \<Rightarrow> u8) \<Rightarrow> nat \<Rightarrow> nat \<Rightarrow> int list" where
  "row_of d byte n i = map (\<lambda>j. if j < n then cell d byte i j else 0) [0..<wlen d]"

lemma length_row_of [simp]: "length (row_of d byte n i) = wlen d"
  by (simp add: row_of_def)

lemma frame_cells:
  "n \<le> wlen d \<Longrightarrow>
   for_list (frame_cell d byte i) [0..<n] (replicate (wlen d) 0) = Inr (row_of d byte n i)"
proof (induction n)
  case 0
  then show ?case by (simp add: row_of_def map_replicate_const)
next
  case (Suc n)
  have "(row_of d byte n i)[n := cell d byte i n] = row_of d byte (Suc n) i"
    using Suc.prems by (intro nth_equalityI) (auto simp: row_of_def nth_list_update)
  with Suc show ?case by (simp add: for_list_append frame_cell_def cell_def)
qed

lemma frame_cells_out:
  assumes "wlen d < n"
  shows "for_list (frame_cell d byte i) [0..<n] (replicate (wlen d) 0) = Inl OobWrite"
proof -
  have "[0..<n] = [0..<wlen d] @ wlen d # [Suc (wlen d)..<n]"
    using assms by (metis less_imp_le_nat upt_add_eq_append upt_conv_Cons le_add_diff_inverse zero_le)
  then show ?thesis by (simp add: for_list_append frame_cells frame_cell_def)
qed

lemma frame_rows:
  assumes "\<And>i. i < k \<Longrightarrow> for_list (frame_cell d byte i)
      (if int i < fn - 1 then [0..<wlen d] else [0..<nat (jl + 1)]) (replicate (wlen d) 0) = Inr (f i)"
    and "k \<le> N"
  shows "for_list (frame_row d byte fn jl) [0..<k] (replicate N (replicate (wlen d) 0)) =
    Inr (map f [0..<k] @ replicate (N - k) (replicate (wlen d) 0))"
  using assms
proof (induction k)
  case (Suc k)
  then obtain r where r: "N - k = Suc r" by (metis Suc_diff_Suc less_le_trans lessI)
  then have r': "N - Suc k = r" by simp
  have "frame_row d byte fn jl k (map f [0..<k] @ replicate (N - k) (replicate (wlen d) 0)) =
    Inr (map f [0..<Suc k] @ replicate r (replicate (wlen d) 0))"
    using Suc.prems(1) [of k]
    by (simp add: frame_row_def r nth_append list_update_append del: upt_Suc)
      (simp add: rd_def wr_def nth_append list_update_append)
  with Suc show ?case by (simp add: for_list_append r')
qed simp

text \<open>The frames of a recording: all rows full but the last, which has \<open>j_len + 1\<close> cells; when these
  are more than a row holds, the last row is written behind the array.\<close>

lemma frame_all_rows:
  fixes fb :: "u8 list"
  assumes "0 < frame_count d (length fb)"
  defines "N \<equiv> nat (frame_count d (length fb))" and "jl \<equiv> nat (last_length d (length fb) + 1)"
  shows "frame_all d fb beyond =
    (if jl \<le> wlen d
     then Inr (map (row_of d (byte_at fb beyond) (wlen d)) [0..<N - 1] @
            [row_of d (byte_at fb beyond) jl (N - 1)])
     else Inl OobWrite)"
proof -
  let ?byte = "byte_at fb beyond"
  let ?arr = "map (row_of d ?byte (wlen d)) [0..<N - 1] @ [replicate (wlen d) 0]"
  obtain M where M: "N = Suc M" "frame_count d (length fb) = int (Suc M)"
    using assms(1) by (metis N_def gr0_conv_Suc int_nat_eq less_imp_le zero_less_nat_eq)
  have "for_list (frame_cell d ?byte i)
      (if int i < int (Suc M) - 1 then [0..<wlen d] else [0..<nat (last_length d (length fb) + 1)])
      (replicate (wlen d) 0) = Inr (row_of d ?byte (wlen d) i)" if "i < M" for i
    using that frame_cells [of "wlen d" d] by simp
  from frame_rows [where N = N, OF this] M(1)
  have rows: "for_list (frame_row d ?byte (int (Suc M)) (last_length d (length fb))) [0..<M]
      (replicate N (replicate (wlen d) 0)) = Inr ?arr"
    by simp
  have last: "frame_row d ?byte (int (Suc M)) (last_length d (length fb)) M ?arr =
    (if jl \<le> wlen d then Inr (map (row_of d ?byte (wlen d)) [0..<N - 1] @ [row_of d ?byte jl (N - 1)])
     else Inl OobWrite)"
    using frame_cells [of jl d ?byte M] frame_cells_out [of d jl ?byte M]
    by (simp add: frame_row_def M(1) flip: jl_def)
      (simp add: rd_def wr_def nth_append list_update_append)
  show ?thesis
    using rows last by (simp add: frame_all_def M for_list_append Let_def nat_add_distrib flip: N_def)
qed

section \<open>Energies\<close>

lemma energy_sum: "energy row = (\<Sum>v\<leftarrow>row. v * v)"
proof -
  have "foldl (\<lambda>e v. e + v * v) a row = a + (\<Sum>v\<leftarrow>row. v * v)" for a
    by (induction row arbitrary: a) simp_all
  then show ?thesis by (simp add: energy_def)
qed

lemma gate_range: "0 \<le> gate d b" "gate d b \<le> 255"
  using uint_lt2p [of b] by (auto simp: gate_def)

lemma energy_bound:
  assumes "list_all (\<lambda>v. 0 \<le> v \<and> v \<le> 255) row"
  shows "0 \<le> energy row" and "energy row \<le> 65025 * int (length row)"
proof -
  have "0 \<le> v * v \<and> v * v \<le> 255 * 255" if "0 \<le> v" "v \<le> 255" for v :: int
    using that mult_mono [of v 255 v 255] by simp
  with assms have "0 \<le> energy row \<and> energy row \<le> 65025 * int (length row)"
    unfolding energy_sum by (induction row) (auto simp: algebra_simps add_increasing add_mono)
  then show "0 \<le> energy row" and "energy row \<le> 65025 * int (length row)" by simp_all
qed





lemma test_counts:
  assumes "100 \<le> n"
  shows "frame_count test_detector n = int (n div 100 + 1)"
    and "last_length test_detector n = int (n mod 100)"
proof -
  obtain k where k: "n = 100 + k" using assms le_Suc_ex by blast
  show c: "frame_count test_detector n = int (n div 100 + 1)"
    by (simp add: frame_count_def test_detector_def k cdiv_nonneg zdiv_int)
  have "int n = int (100 * (n div 100) + n mod 100)" by simp
  then show "last_length test_detector n = int (n mod 100)"
    unfolding last_length_def c of_nat_add of_nat_mult by (simp add: test_detector_def)
qed

text \<open>The energies of the table, from its bytes and those behind it: full frames from byte 60
  on, then one of the \<open>length mod 100 + 1\<close> bytes that follow.\<close>

definition table_energies :: "u8 list \<Rightarrow> (nat \<Rightarrow> u8) \<Rightarrow> int list" where
  "table_energies wav beyond = map (\<lambda>i.
     \<Sum>j\<leftarrow>[0..<if i < length wav div 100 then 100 else length wav mod 100 + 1].
       uint (byte_at wav beyond (100 * i + j + 60)) * uint (byte_at wav beyond (100 * i + j + 60)))
     [0..<length wav div 100 + 1]"

lemma energy_row_of:
  assumes "n \<le> wlen d"
  shows "energy (row_of d byte n i) = (\<Sum>j\<leftarrow>[0..<n]. cell d byte i j * cell d byte i j)"
proof -
  have "[0..<wlen d] = [0..<n] @ [n..<wlen d]"
    using assms by (metis le_add_diff_inverse upt_add_eq_append zero_le)
  moreover have "(\<Sum>j\<leftarrow>[n..<wlen d]. (if j < n then cell d byte i j else 0) *
      (if j < n then cell d byte i j else 0)) = (\<Sum>j\<leftarrow>[n..<wlen d]. 0)"
    by (intro arg_cong [where f = sum_list] map_cong) auto
  moreover have "(\<Sum>j\<leftarrow>[0..<n]. (if j < n then cell d byte i j else 0) *
      (if j < n then cell d byte i j else 0)) = (\<Sum>j\<leftarrow>[0..<n]. cell d byte i j * cell d byte i j)"
    by (intro arg_cong [where f = sum_list] map_cong) auto
  ultimately show ?thesis by (simp add: energy_sum row_of_def comp_def)
qed

lemma test_cell: "cell test_detector byte i j = uint (byte (100 * i + j + 60))"
proof -
  have "\<not> uint (byte (100 * i + j + 60)) \<le> - 1"
    using uint_ge_0 [of "byte (100 * i + j + 60)"] by linarith
  then show ?thesis by (simp add: cell_def gate_def test_detector_def)
qed

lemma test_frames:
  assumes "100 \<le> length wav"
  shows "\<exists>arr. frame_all test_detector wav beyond = Inr arr \<and> map energy arr = table_energies wav beyond \<and>
    length arr = length wav div 100 + 1 \<and> last arr ! (length wav mod 100) = uint (beyond 60)"
proof -
  let ?byte = "byte_at wav beyond" and ?q = "length wav div 100" and ?r = "length wav mod 100"
  let ?arr = "map (row_of test_detector ?byte 100) [0..<?q] @ [row_of test_detector ?byte (?r + 1) ?q]"
  have w: "wlen test_detector = 100" by (simp add: test_detector_def)
  have n: "nat (int (?q + 1)) = ?q + 1" "nat (int ?r + 1) = ?r + 1" by simp_all
  have r: "?r + 1 \<le> 100" using mod_less_divisor [of 100 "length wav"] by linarith
  have f: "frame_all test_detector wav beyond = Inr ?arr"
    using frame_all_rows [of test_detector wav beyond] r
    unfolding test_counts [OF assms] n w by simp
  have "energy (row_of test_detector ?byte m i) =
      (\<Sum>j\<leftarrow>[0..<m]. uint (?byte (100 * i + j + 60)) * uint (?byte (100 * i + j + 60)))"
    if "m \<le> 100" for m i
    using energy_row_of [of m test_detector ?byte i] that by (simp add: w test_cell)
  with r have "map energy ?arr = table_energies wav beyond"
    by (auto simp: table_energies_def)
  moreover have "100 * ?q + ?r + 60 = length wav + 60" by simp
  then have "row_of test_detector ?byte (?r + 1) ?q ! ?r = uint (beyond 60)"
    using r by (simp add: row_of_def w test_cell byte_at_def)
  ultimately show ?thesis using f by simp
qed

section \<open>Runs that key a message\<close>

text \<open>Each letter's loud runs have the lengths of its marks, the quiet runs inside it stay below
  the letter gap, the one behind it is a letter gap or, before the blank, a word gap; the
  quiet run behind the last letter is free.\<close>

fun keys :: "detector \<Rightarrow> int list list \<Rightarrow> (int \<times> int) list \<Rightarrow> bool" where
  "keys d ((m # n # w) # ws) ((h, l) # rs) \<longleftrightarrow>
     mark_of d h = Some m \<and> gap_of d l = [] \<and> keys d ((n # w) # ws) rs"
| "keys d [[m]] [(h, l)] \<longleftrightarrow> mark_of d h = Some m"
| "keys d ([m] # v # ws) ((h, l) # rs) \<longleftrightarrow>
     mark_of d h = Some m \<and>
     (if v = [MORSE_CI_KONG] \<and> ws \<noteq> []
      then gap_of d l = [MORSE_ZIFU_KONG, MORSE_CI_KONG, MORSE_ZIFU_KONG] \<and> keys d ws rs
      else gap_of d l = [MORSE_ZIFU_KONG] \<and> keys d (v # ws) rs)"
| "keys d ws rs \<longleftrightarrow> False"

lemma keys_runs:
  "keys d ws rs \<Longrightarrow> judge_runs d b pend rs =
     gap_out d pend @ (if b then [] else [MORSE_START]) @ join_letters ws"
proof (induction d ws rs arbitrary: b pend rule: keys.induct)
  case (1 d m n w ws h l rs)
  have j: "join_letters ((m # v) # vs) = m # join_letters (v # vs)" for v vs
    by (cases vs) simp_all
  show ?case using 1 by (simp add: mark_out_def gap_out_def j)
next
  case (3 d m v ws h l rs)
  have j: "join_letters ([m] # [7000] # ws) = m # 3000 # 7000 # 3000 # join_letters ws"
    if "ws \<noteq> []" using that by (cases ws) simp_all
  show ?case
    using 3 j by (cases "v = [7000] \<and> ws \<noteq> []") (simp_all add: mark_out_def gap_out_def)
qed (simp_all add: mark_out_def gap_out_def)

section \<open>The judge never reads an uninitialised variable\<close>

definition judge_ok :: "judge \<Rightarrow> bool" where
  "judge_ok s \<longleftrightarrow> length (jud s) = 200 \<and> (judge_sta s = 1 \<longrightarrow> var_m s \<noteq> None) \<and>
     (judge_sta s = 2 \<longrightarrow> var_n s \<noteq> None)"

definition only_overflow :: "('a \<Rightarrow> bool) \<Rightarrow> 'a res \<Rightarrow> bool" where
  "only_overflow P r \<longleftrightarrow> (case r of Inl e \<Rightarrow> e = OobWrite | Inr x \<Rightarrow> P x)"

lemma only_overflow_simps [simp]:
  "only_overflow P (Inr x) = P x" "only_overflow P (Inl e) \<longleftrightarrow> e = OobWrite"
  by (simp_all add: only_overflow_def)

lemma only_overflow_rbind:
  "only_overflow P r \<Longrightarrow> (\<And>x. P x \<Longrightarrow> only_overflow Q (f x)) \<Longrightarrow> only_overflow Q (rbind r f)"
  by (cases r) simp_all

lemma wr_run_overflow: "only_overflow (\<lambda>(a, k). length a = length xs) (wr_run xs j vs)"
proof (induction vs arbitrary: xs j)
  case (Cons v vs)
  then show ?case
    using Cons.IH [of "xs[j := v]" "Suc j"] by (cases "j < length xs") simp_all
qed simp

lemma judge_put_ok:
  "judge_ok s \<Longrightarrow> only_overflow (\<lambda>s'. judge_ok s' \<and> judge_sta s' = judge_sta s \<and>
     var_m s' = var_m s \<and> var_n s' = var_n s) (judge_put vs s)"
  unfolding judge_put_def
  by (rule only_overflow_rbind [OF wr_run_overflow]) (auto simp: judge_ok_def)

lemma judge_mark_ok:
  assumes "judge_ok s"
  shows "only_overflow (\<lambda>s'. judge_ok s' \<and> judge_sta s' = judge_sta s \<and>
     var_m s' = var_m s \<and> var_n s' = var_n s) (judge_mark v s)"
proof (cases "judge_st s = 1")
  case True
  with judge_put_ok [OF assms] show ?thesis by (simp add: judge_mark_def)
next
  case False
  then show ?thesis
    unfolding judge_mark_def
    by (auto intro!: only_overflow_rbind [OF judge_put_ok [OF assms]] simp: judge_ok_def)
qed

lemma judge_wait_ok: "judge_ok s \<Longrightarrow> judge_ok (judge_wait i e s)"
  by (simp add: judge_wait_def judge_ok_def)

lemma judge_fall_ok:
  assumes "judge_ok s"
  shows "only_overflow judge_ok (judge_fall d i e s)"
proof (cases "judge_sta s = 1 \<and> e < T_energy")
  case True
  let ?s = "s\<lparr>var_n := Some i\<rparr>"
  from True assms obtain m where m: "var_m ?s = Some m" by (auto simp: judge_ok_def)
  let ?b = "if dot_min d \<le> i - m \<and> i - m < dash_min d then judge_mark MORSE_DIAN ?s
      else if dash_min d \<le> i - m \<and> i - m < dash_max d then judge_mark MORSE_HUA ?s else Inr ?s"
  have ok: "judge_ok ?s" using assms by (simp add: judge_ok_def)
  have "only_overflow (\<lambda>s'. judge_ok s' \<and> judge_sta s' = judge_sta ?s \<and>
      var_m s' = var_m ?s \<and> var_n s' = var_n ?s) ?b"
    using judge_mark_ok [OF ok] ok by simp
  then have "only_overflow judge_ok (rbind ?b (\<lambda>s2. Inr (s2\<lparr>judge_sta := 2\<rparr>)))"
    by (rule only_overflow_rbind) (auto simp: judge_ok_def)
  then show ?thesis using True m by (simp add: judge_fall_def use_var_def Let_def)
qed (simp add: judge_fall_def assms del: de_Morgan_conj)

lemma judge_rise_ok:
  assumes "judge_ok s"
  shows "only_overflow judge_ok (judge_rise d i e s)"
proof (cases "judge_sta s = 2 \<and> e > T_energy")
  case True
  let ?s = "s\<lparr>var_m := Some i\<rparr>"
  from True assms obtain n where n: "var_n ?s = Some n" by (auto simp: judge_ok_def)
  let ?b = "if gap_min d < i - n \<and> i - n \<le> word_min d then judge_put [MORSE_ZIFU_KONG] ?s
      else if word_min d < i - n then judge_put [MORSE_ZIFU_KONG, MORSE_CI_KONG, MORSE_ZIFU_KONG] ?s
      else Inr ?s"
  have ok: "judge_ok ?s" using assms by (simp add: judge_ok_def)
  have "only_overflow (\<lambda>s'. judge_ok s' \<and> judge_sta s' = judge_sta ?s \<and>
      var_m s' = var_m ?s \<and> var_n s' = var_n ?s) ?b"
    using judge_put_ok [OF ok] ok by simp
  then have "only_overflow judge_ok (rbind ?b (\<lambda>s2. Inr (s2\<lparr>judge_sta := 1\<rparr>)))"
    by (rule only_overflow_rbind) (auto simp: judge_ok_def)
  then show ?thesis using True n by (simp add: judge_rise_def use_var_def Let_def)
qed (simp add: judge_rise_def assms del: de_Morgan_conj)

lemma judge_loop_ok: "judge_ok s \<Longrightarrow> only_overflow judge_ok (judge_loop d i es s)"
proof (induction es arbitrary: i s)
  case (Cons e es)
  have "only_overflow judge_ok (judge_step d i e s)"
    unfolding judge_step_def
    using only_overflow_rbind [OF judge_fall_ok [OF judge_wait_ok [OF Cons.prems]] judge_rise_ok] .
  from only_overflow_rbind [OF this Cons.IH] show ?case by simp
qed simp


section \<open>The frames of any recording\<close>

lemma frame_all_none: "frame_count d (length fb) \<le> 0 \<Longrightarrow> frame_all d fb beyond = Inl BadSize"
  by (simp add: frame_all_def)

lemma row_of_range: "list_all (\<lambda>v. 0 \<le> v \<and> v \<le> 255) (row_of d byte n i)"
  using gate_range by (auto simp: row_of_def cell_def list_all_iff)





text \<open>A table whose bytes from 60 to \<open>60 + k\<close> are loud, and silent behind them.\<close>

lemma sum_clip:
  "(\<Sum>j\<leftarrow>[0..<n]. if a + j + 60 < b then c else 0) = c * int (min n (b - (a + 60)))"
  by (induction n) (auto simp: algebra_simps min_def)

lemma energies_burst:
  "table_energies (replicate k 255 @ replicate m 0) (\<lambda>_. 0) =
     map (\<lambda>i. 65025 * int (min (if i < (k + m) div 100 then 100 else (k + m) mod 100 + 1) (k - (100 * i + 60))))
       [0..<(k + m) div 100 + 1]"
proof -
  have byte: "uint (byte_at (replicate k 255 @ replicate m 0) (\<lambda>_. 0) n) *
      uint (byte_at (replicate k 255 @ replicate m 0) (\<lambda>_. 0) n) = (if n < k then 65025 else 0)" for n
    by (simp add: byte_at_def nth_append)
  show ?thesis
    unfolding table_energies_def byte sum_clip by simp
qed

section \<open>Properties\<close>

text \<open>C8. A table of samples whose frame energies are quiet frames and then runs that key a message
  of the characters that decode as themselves, at most 31 of them and with fewer than 199 marks
  and gaps, is printed as that message by \<open>morse_process_test\<close>. The frames start at byte 60 and
  the last two reach up to 61 bytes behind the table, which count in the energies.\<close>

theorem recording_is_heard:
  assumes "100 \<le> length wav"
    and "table_energies wav beyond = lead @ concat (map (\<lambda>(hs, ls). hs @ ls) runs)"
    and "list_all (\<lambda>e. e \<le> T_energy) lead" and "list_all is_run runs"
    and "keys test_detector (map marks_of s) (map run_lengths runs)"
    and "set s \<subseteq> set clear_chars" and "length s \<le> 31"
    and "length (join_letters (map marks_of s)) < 199"
  shows "morse_process_test_thread wav beyond [cmd] =
    Inr (Some \<lparr>code_buf = filled 31 (CHR ''~'') s, code_pos = length s, console = s\<rparr>)"
proof -
  obtain arr where arr: "frame_all test_detector wav beyond = Inr arr"
    "map energy arr = table_energies wav beyond"
    using test_frames [OF assms(1)] by blast
  have "judge_runs test_detector False None (map run_lengths runs) = 1 # join_letters (map marks_of s)"
    using keys_runs [OF assms(5)] by (simp add: gap_out_def)
  then have "judge_all test_detector (table_energies wav beyond) =
      Inr (filled 200 0 (1 # join_letters (map marks_of s)))"
    using judge_all_runs [OF assms(3,4), of test_detector] assms(2,8) by simp
  then show ?thesis
    using clear.message_roundtrip [OF assms(6-8)] arr
    by (simp add: morse_process_test_thread_def process_bytes_def written_def)
qed

theorem recording_is_heard_witness:
  "morse_process_test_thread (replicate 560 255 @ replicate 440 0) (\<lambda>_. 0) [''morse_process_test''] =
   Inr (Some \<lparr>code_buf = filled 31 (CHR ''~'') ''E'', code_pos = length ''E'', console = ''E''\<rparr>)"
proof -
  let ?wav = "replicate 560 255 @ replicate 440 0 :: u8 list"
  let ?hs = "[6502500, 6502500, 6502500, 6502500, 6502500] :: int list"
  have e: "table_energies ?wav (\<lambda>_. 0) =
      [] @ concat (map (\<lambda>(hs, ls). hs @ ls) [(?hs, [0, 0, 0, 0, 0, 0])])"
    by (subst energies_burst) (simp add: upt_rec)
  have m: "marks_of (CHR ''E'') = [100]" using code_of_E by (simp add: marks_of_def)
  show ?thesis
  proof (rule recording_is_heard [OF _ e])
    show "list_all is_run [(?hs, [0, 0, 0, 0, 0, 0])]" by (simp add: is_run_def)
    show "keys test_detector (map marks_of ''E'') (map run_lengths [(?hs, [0, 0, 0, 0, 0, 0])])"
      by (simp add: m run_lengths_def mark_of_def test_detector_def)
  qed (simp_all add: clear_chars_def m)
qed


text \<open>The judge, with either set of limits: quiet frames and then runs give exactly the marks
  and gaps of the run lengths, behind \<open>MORSE_START\<close> at the first mark, or overflow \<open>jud[200]\<close>.\<close>

theorem judge_classifies_runs:
  assumes "list_all (\<lambda>e. e \<le> T_energy) lead" and "list_all is_run runs"
  shows "judge_all d (lead @ concat (map (\<lambda>(hs, ls). hs @ ls) runs)) =
    (if length (judge_runs d False None (map run_lengths runs)) \<le> 200
     then Inr (filled 200 0 (judge_runs d False None (map run_lengths runs))) else Inl OobWrite)"
  using judge_all_runs [OF assms] by (simp add: Let_def)

theorem judge_classifies_runs_witness:
  "judge_all once_detector
     (replicate 5 0 @ (replicate 12 2000000 @ replicate 3 10) @ (replicate 40 2000000 @ replicate 20 10) @
      (replicate 11 2000000 @ replicate 7 10)) =
   Inr (filled 200 0 [1, 100, 300, 3000, 7000, 3000, 100])"
proof -
  let ?r = "[(replicate 12 2000000, replicate 3 10), (replicate 40 2000000, replicate 20 10),
    (replicate 11 2000000, replicate 7 10)] :: (int list \<times> int list) list"
  have "judge_runs once_detector False None (map run_lengths ?r) = [1, 100, 300, 3000, 7000, 3000, 100]"
    by (simp add: run_lengths_def mark_out_def gap_out_def mark_of_def gap_of_def once_detector_def)
  then show ?thesis
    using judge_classifies_runs [of "replicate 5 0" ?r once_detector]
    by (simp add: is_run_def list_all_iff)
qed

text \<open>The judge reads neither \<open>m\<close> nor \<open>n\<close> before it is set: whatever the energies, it
  leaves an array of 200 marks or writes outside \<open>jud[200]\<close>, and nothing else.\<close>

theorem judge_only_overflows:
  "case judge_all d ens of Inl e \<Rightarrow> e = OobWrite | Inr a \<Rightarrow> length a = 200"
proof -
  have "judge_ok judge_init" by (simp add: judge_ok_def judge_init_def)
  from judge_loop_ok [OF this, of d 0 ens] show ?thesis
    by (cases "judge_loop d 0 ens judge_init") (auto simp: judge_all_def judge_ok_def)
qed

text \<open>When the frames are built no energy exceeds 200 times 255 squared: the \<open>int\<close> sums of both
  threads do not overflow. Otherwise the framing left its array or had none.\<close>

theorem energies_fit_int:
  assumes "d = once_detector \<or> d = test_detector"
  shows "case frame_all d fb beyond of
      Inl e \<Rightarrow> e = OobWrite \<or> e = BadSize
    | Inr arr \<Rightarrow> list_all (\<lambda>row. 0 \<le> energy row \<and> energy row \<le> 13005000 \<and> energy row < 2 ^ 31) arr"
proof (cases "0 < frame_count d (length fb)")
  case True
  have w: "int (wlen d) \<le> 200" using assms by (auto simp: once_detector_def test_detector_def)
  have "0 \<le> energy (row_of d byte n i) \<and> energy (row_of d byte n i) \<le> 13005000 \<and>
      energy (row_of d byte n i) < 2 ^ 31" for byte n i
    using energy_bound [OF row_of_range, of d byte n i] w by simp
  then show ?thesis
    unfolding frame_all_rows [OF True] by (simp add: list_all_iff split: sum.splits)
qed (simp add: frame_all_none)

theorem energies_fit_int_witness:
  "case frame_all test_detector (replicate 1000 255) (\<lambda>_. 255) of
      Inl e \<Rightarrow> e = OobWrite \<or> e = BadSize
    | Inr arr \<Rightarrow> list_all (\<lambda>row. 0 \<le> energy row \<and> energy row \<le> 13005000 \<and> energy row < 2 ^ 31) arr"
  by (rule energies_fit_int) simp

text \<open>The table of \<open>morse_process_test\<close> is read to 61 bytes behind its end: the last cell of the
  last frame is the byte at place 60 behind the table; no write leaves the array.\<close>

theorem process_test_overreads:
  assumes "100 \<le> length wav"
  shows "\<exists>arr. frame_all test_detector wav beyond = Inr arr \<and>
    length arr = length wav div 100 + 1 \<and> last arr ! (length wav mod 100) = uint (beyond 60)"
  using test_frames [OF assms] by blast

theorem process_test_overreads_witness:
  "\<exists>arr. frame_all test_detector (replicate 130 5) (\<lambda>n. word_of_nat n) = Inr arr \<and>
    last arr ! 30 = 60"
  using process_test_overreads [of "replicate 130 5" "\<lambda>n. word_of_nat n"] by auto

end
