(* ===== verification/Adpcm.thy ===== *)
theory Adpcm
  imports Prelude
begin

unbundle bit_operations_syntax

text \<open>
  The 4-bit ADPCM codec of \<open>ls2kdev_record/applications/vs1003/adpcm-xq/adpcm-lib.c\<close>: contexts, the search for
  the best nibble, the encoder and the decoder of blocks. Samples are integers with the range of
  \<open>int16_t\<close>; buffers are lists with checked accesses. The squared errors, which the code keeps
  in a \<open>double\<close>, are exact integers: a double holds them exactly as long as a difference stays
  below \<open>2^26\<close>, which is so without noise shaping. The noise-shaping variables are 32-bit
  integers whose arithmetic wraps (\<open>i32\<close>); the first guess of the search is computed over unbounded
  integers, which agrees with the code below \<open>2^29\<close> (\<open>first_nibble_32\<close>).
\<close>

section \<open>Tables and state\<close>

definition step_table :: "int list" where
  "step_table = [
    7, 8, 9, 10, 11, 12, 13, 14,
    16, 17, 19, 21, 23, 25, 28, 31,
    34, 37, 41, 45, 50, 55, 60, 66,
    73, 80, 88, 97, 107, 118, 130, 143,
    157, 173, 190, 209, 230, 253, 279, 307,
    337, 371, 408, 449, 494, 544, 598, 658,
    724, 796, 876, 963, 1060, 1166, 1282, 1411,
    1552, 1707, 1878, 2066, 2272, 2499, 2749, 3024,
    3327, 3660, 4026, 4428, 4871, 5358, 5894, 6484,
    7132, 7845, 8630, 9493, 10442, 11487, 12635, 13899,
    15289, 16818, 18500, 20350, 22385, 24623, 27086, 29794,
    32767]"

definition index_table :: "int list" where
  "index_table = [-1, -1, -1, -1, 2, 4, 6, 8]"

record adpcm_channel =
  pcmdata :: int
  chan_error :: int
  weight :: int
  history0 :: int
  history1 :: int
  chan_index :: int

record adpcm_context =
  channels :: "adpcm_channel list"     \<comment> \<open>an array of two\<close>
  num_channels :: nat
  lookahead :: nat
  noise_shaping :: nat

abbreviation (input) NOISE_SHAPING_STATIC :: nat where "NOISE_SHAPING_STATIC \<equiv> 1"
abbreviation (input) NOISE_SHAPING_DYNAMIC :: nat where "NOISE_SHAPING_DYNAMIC \<equiv> 2"

definition CLIP :: "int \<Rightarrow> int \<Rightarrow> int \<Rightarrow> int" where
  "CLIP data lo hi = (if data > hi then hi else if data < lo then lo else data)"

definition i32 :: "int \<Rightarrow> int" where
  "i32 x = signed_take_bit 31 x"

text \<open>A read of the step table at a signed index.\<close>

definition step_at :: "int \<Rightarrow> int res" where
  "step_at i = (if i < 0 then Inl OobRead else rd step_table (nat i))"

text \<open>\<open>trial_delta = step >> 3; if (nibble & 1) trial_delta += step >> 2; ...\<close>\<close>

definition delta_bits :: "int \<Rightarrow> bool \<Rightarrow> bool \<Rightarrow> bool \<Rightarrow> bool \<Rightarrow> int" where
  "delta_bits step b0 b1 b2 b3 =
     (let t = drop_bit 3 step;
          t = (if b0 then t + drop_bit 2 step else t);
          t = (if b1 then t + drop_bit 1 step else t);
          t = (if b2 then t + step else t)
      in if b3 then - t else t)"

definition nibble_delta :: "int \<Rightarrow> nat \<Rightarrow> int" where
  "nibble_delta step n = delta_bits step (bit n 0) (bit n 1) (bit n 2) (bit n 3)"

section \<open>Contexts\<close>

definition zero_channel :: adpcm_channel where
  "zero_channel = \<lparr>pcmdata = 0, chan_error = 0, weight = 0, history0 = 0, history1 = 0, chan_index = 0\<rparr>"

text \<open>The first \<open>i\<close> the loop stops at.\<close>

definition closest_index :: "int \<Rightarrow> int" where
  "closest_index delta =
     (case find (\<lambda>i. i = 88 \<or> delta < (step_table ! i + step_table ! (i + 1)) div 2) [0..<89] of
        Some i \<Rightarrow> int i | None \<Rightarrow> 0)"

definition adpcm_create_context ::
  "bool \<Rightarrow> nat \<Rightarrow> nat \<Rightarrow> nat \<Rightarrow> int list \<Rightarrow> adpcm_context res" where
  "adpcm_create_context malloc_ok n look shaping initial_deltas =
     (if \<not> malloc_ok then Inl NullPtr
      else for_list (\<lambda>ch c.
          rbind (rd initial_deltas ch) (\<lambda>delta.
          rbind (rd (channels c) ch) (\<lambda>chan.
          rbind (wr (channels c) ch (chan\<lparr>chan_index := closest_index delta\<rparr>)) (\<lambda>chs.
          Inr (c\<lparr>channels := chs\<rparr>)))))
        [0..<n]
        \<lparr>channels = [zero_channel, zero_channel], num_channels = n, lookahead = look,
         noise_shaping = shaping\<rparr>)"

definition set_decode_parameters ::
  "adpcm_context \<Rightarrow> int list \<Rightarrow> int list \<Rightarrow> adpcm_context res" where
  "set_decode_parameters c init_pcmdata init_index =
     for_list (\<lambda>ch c.
        rbind (rd init_pcmdata ch) (\<lambda>p.
        rbind (rd init_index ch) (\<lambda>i.
        rbind (rd (channels c) ch) (\<lambda>chan.
        rbind (wr (channels c) ch (chan\<lparr>pcmdata := p, chan_index := i\<rparr>)) (\<lambda>chs.
        Inr (c\<lparr>channels := chs\<rparr>))))))
      [0..<num_channels c] c"

definition get_decode_parameters ::
  "adpcm_context \<Rightarrow> int list \<Rightarrow> int list \<Rightarrow> (int list \<times> int list) res" where
  "get_decode_parameters c init_pcmdata init_index =
     for_list (\<lambda>ch (ps, is).
        rbind (rd (channels c) ch) (\<lambda>chan.
        rbind (wr ps ch (pcmdata chan)) (\<lambda>ps'.
        rbind (wr is ch (chan_index chan)) (\<lambda>is'. Inr (ps', is')))))
      [0..<num_channels c] (init_pcmdata, init_index)"

section \<open>The search for a nibble\<close>

text \<open>The channel after a trial nibble, before its index moves.\<close>

definition trial_pcm :: "adpcm_channel \<Rightarrow> int \<Rightarrow> nat \<Rightarrow> int" where
  "trial_pcm chan step n = CLIP (pcmdata chan + nibble_delta step n) (-32768) 32767"

definition moved_index :: "adpcm_channel \<Rightarrow> nat \<Rightarrow> int" where
  "moved_index chan n = CLIP (chan_index chan + index_table ! unat ((word_of_nat n :: u8) AND 7)) 0 88"

definition square_error :: "int \<Rightarrow> int \<Rightarrow> int" where
  "square_error p csample = (p - csample) * (p - csample)"

text \<open>
  The first guess, over unbounded integers. The code shifts the difference left by 2 in 32 bits;
  as long as the difference stays below \<open>2^29\<close> nothing is lost (\<open>first_nibble_32\<close> below), which is
  so for 16-bit samples without noise shaping (\<open>sample_difference\<close>): the only contexts the program
  creates (\<open>vs1003_example.c\<close>). Beyond that the shift overflows, which C leaves undefined.
\<close>

definition first_nibble :: "int \<Rightarrow> int \<Rightarrow> nat" where
  "first_nibble delta step =
     (if delta < 0 then let mag = (- delta * 4) div step in 8 + (if mag > 7 then 7 else nat mag)
      else let mag = (delta * 4) div step in if mag > 7 then 7 else nat mag)"

text \<open>
  The samples are read at \<open>pos\<close>, and \<open>nch\<close> further on for each level of the lookahead. The
  result is the error and the nibble stored through \<open>best_nibble\<close>.
\<close>

fun minimum_error ::
  "adpcm_channel \<Rightarrow> nat \<Rightarrow> int \<Rightarrow> int list \<Rightarrow> nat \<Rightarrow> nat \<Rightarrow> (int \<times> nat) res" where
  "minimum_error pchan nch csample smp pos 0 =
     rbind (step_at (chan_index pchan)) (\<lambda>step.
     let n = first_nibble (csample - pcmdata pchan) step in
     Inr (square_error (trial_pcm pchan step n) csample, n))"
| "minimum_error pchan nch csample smp pos (Suc depth) =
     rbind (step_at (chan_index pchan)) (\<lambda>step.
     let n = first_nibble (csample - pcmdata pchan) step;
         look = (\<lambda>n. rbind (rd smp (pos + nch)) (\<lambda>s.
           minimum_error (pchan\<lparr>pcmdata := trial_pcm pchan step n, chan_index := moved_index pchan n\<rparr>)
             nch s smp (pos + nch) depth))
     in
     rbind (look n) (\<lambda>(e, _).
     for_list (\<lambda>n2 (min_error, best).
         if n2 = n then Inr (min_error, best)
         else
           let err = square_error (trial_pcm pchan step n2) csample in
           if err < min_error then
             rbind (look n2) (\<lambda>(e2, _).
             if err + e2 < min_error then Inr (err + e2, n2) else Inr (min_error, best))
           else Inr (min_error, best))
       [0..<16] (square_error (trial_pcm pchan step n) csample + e, n)))"

section \<open>The encoder\<close>

text \<open>Noise shaping before the search: the sample to code, and the channel with its new state.\<close>

definition shape_dynamic :: "adpcm_channel \<Rightarrow> int \<Rightarrow> int \<times> adpcm_channel" where
  "shape_dynamic chan csample =
     (let sam = drop_bit 1 (i32 (3 * history0 chan - history1 chan));
          temp = i32 (csample - drop_bit 10 (i32 (weight chan * sam + 512)));
          w = (if sam \<noteq> 0 \<and> temp \<noteq> 0
               then i32 (weight chan - ((drop_bit 29 (sam XOR temp) AND 4) - 2)) else weight chan);
          chan = chan\<lparr>weight := w, history1 := history0 chan, history0 := csample\<rparr>;
          sw = (if w < 256 then 1024 else i32 (1536 - w * 2));
          temp = - drop_bit 10 (i32 (sw * chan_error chan + 512))
      in if sw < 0 \<and> temp \<noteq> 0
         then let temp = (if temp = chan_error chan then if temp < 0 then temp + 1 else temp - 1
                          else temp)
              in (i32 (csample + temp), chan\<lparr>chan_error := - csample\<rparr>)
         else (i32 (csample + temp), chan\<lparr>chan_error := i32 (- (csample + temp))\<rparr>))"

definition shape_sample :: "adpcm_context \<Rightarrow> adpcm_channel \<Rightarrow> int \<Rightarrow> int \<times> adpcm_channel" where
  "shape_sample c chan csample =
     (if noise_shaping c = NOISE_SHAPING_DYNAMIC then shape_dynamic chan csample
      else if noise_shaping c = NOISE_SHAPING_STATIC
      then let csample = i32 (csample - chan_error chan)
           in (csample, chan\<lparr>chan_error := i32 (- csample)\<rparr>)
      else (csample, chan))"

text \<open>The channel after the nibble that was chosen.\<close>

definition code_nibble :: "adpcm_channel \<Rightarrow> int \<Rightarrow> nat \<Rightarrow> adpcm_channel" where
  "code_nibble chan step n =
     chan\<lparr>pcmdata := trial_pcm chan step n, chan_index := moved_index chan n\<rparr>"

definition encode_sample ::
  "adpcm_context \<Rightarrow> nat \<Rightarrow> int list \<Rightarrow> nat \<Rightarrow> nat \<Rightarrow> (adpcm_context \<times> nat) res" where
  "encode_sample c ch smp pos num_samples =
     rbind (rd (channels c) ch) (\<lambda>chan.
     rbind (rd smp pos) (\<lambda>s.
     rbind (step_at (chan_index chan)) (\<lambda>step.
     case shape_sample c chan s of (csample, chan1) \<Rightarrow>
     let depth = (if num_samples - 1 > lookahead c then lookahead c else num_samples - 1) in
     rbind (minimum_error chan1 (num_channels c) csample smp pos depth) (\<lambda>(_, n).
     let chan2 = code_nibble chan1 step n;
         chan3 = (if noise_shaping c \<noteq> 0
                  then chan2\<lparr>chan_error := i32 (chan_error chan2 + pcmdata chan2)\<rparr> else chan2) in
     rbind (wr (channels c) ch chan3) (\<lambda>chs. Inr (c\<lparr>channels := chs\<rparr>, n))))))"

record encoder =
  ctx :: adpcm_context
  outbuf :: "u8 list"
  outpos :: nat

text \<open>One byte: the nibbles of two samples, \<open>chunks\<close> whole chunks still to come.\<close>

definition encode_byte ::
  "int list \<Rightarrow> nat \<Rightarrow> nat \<Rightarrow> nat \<Rightarrow> nat \<Rightarrow> encoder \<Rightarrow> encoder res" where
  "encode_byte smp inpos chunks ch i s =
     (let nch = num_channels (ctx s); p = inpos + ch + 2 * i * nch in
      rbind (encode_sample (ctx s) ch smp p (chunks * 8 + (3 - i) * 2 + 2)) (\<lambda>(c1, n1).
      rbind (wr (outbuf s) (outpos s) (word_of_nat n1)) (\<lambda>buf1.
      rbind (encode_sample c1 ch smp (p + nch) (chunks * 8 + (3 - i) * 2 + 1)) (\<lambda>(c2, n2).
      rbind (rd buf1 (outpos s)) (\<lambda>b.
      rbind (wr buf1 (outpos s) (b OR push_bit 4 (word_of_nat n2))) (\<lambda>buf2.
      Inr \<lparr>ctx = c2, outbuf = buf2, outpos = outpos s + 1\<rparr>))))))"

definition encode_chunk :: "int list \<Rightarrow> nat \<Rightarrow> nat \<Rightarrow> encoder \<Rightarrow> encoder res" where
  "encode_chunk smp inpos chunks s =
     for_list (\<lambda>ch. for_list (encode_byte smp inpos chunks ch) [0..<4])
       [0..<num_channels (ctx s)] s"

text \<open>\<open>while (chunks--)\<close>: the number of chunks left counts down, the input moves on.\<close>

fun encode_chunks :: "int list \<Rightarrow> nat \<Rightarrow> nat \<Rightarrow> encoder \<Rightarrow> encoder res" where
  "encode_chunks smp inpos 0 s = Inr s"
| "encode_chunks smp inpos (Suc chunks) s =
     rbind (encode_chunk smp inpos chunks s)
       (encode_chunks smp (inpos + 8 * num_channels (ctx s)) chunks)"

text \<open>The header of one channel; the sample is read at \<open>ch\<close>.\<close>

definition encode_header ::
  "int list \<Rightarrow> int list \<Rightarrow> nat \<Rightarrow> int list \<times> u8 list \<times> nat \<Rightarrow> (int list \<times> u8 list \<times> nat) res" where
  "encode_header smp init_index ch st =
     (case st of (ps, buf, pos) \<Rightarrow>
      rbind (rd smp ch) (\<lambda>p.
      rbind (wr ps ch p) (\<lambda>ps'.
      rbind (rd init_index ch) (\<lambda>idx.
      rbind (wr_run buf pos [word_of_int p, word_of_int (drop_bit 8 p), word_of_int idx, 0])
        (\<lambda>(buf', pos'). Inr (ps', buf', pos'))))))"

text \<open>The result: the context, the buffer and \<open>*outbufsize\<close>; the code returns 1 always.\<close>

definition adpcm_encode_block ::
  "adpcm_context \<Rightarrow> u8 list \<Rightarrow> int list \<Rightarrow> nat \<Rightarrow> (adpcm_context \<times> u8 list \<times> nat) res" where
  "adpcm_encode_block c buf smp inbufcount =
     (if inbufcount = 0 then Inr (c, buf, 0)
      else
        rbind (get_decode_parameters c [0, 0] [0, 0]) (\<lambda>(init_pcmdata, init_index).
        rbind (for_list (encode_header smp init_index) [0..<num_channels c] (init_pcmdata, buf, 0))
          (\<lambda>(ps, buf', pos).
        rbind (set_decode_parameters c ps init_index) (\<lambda>c'.
        let chunks = (inbufcount - 1) div 8 in
        rbind (encode_chunks smp (num_channels c) chunks \<lparr>ctx = c', outbuf = buf', outpos = pos\<rparr>)
          (\<lambda>s. Inr (ctx s, outbuf s, pos + chunks * 4 * num_channels c))))))"

section \<open>The decoder\<close>

record decoder =
  dpcm :: "int list"
  dindex :: "int list"
  out :: "int list"
  dout :: nat
  din :: nat

text \<open>One nibble, given by its four bits and its entry in the index table.\<close>

definition decode_nibble ::
  "nat \<Rightarrow> bool \<Rightarrow> bool \<Rightarrow> bool \<Rightarrow> bool \<Rightarrow> nat \<Rightarrow> nat \<Rightarrow> decoder \<Rightarrow> decoder res" where
  "decode_nibble ch b0 b1 b2 b3 entry pos s =
     rbind (rd (dindex s) ch) (\<lambda>idx.
     rbind (step_at idx) (\<lambda>step.
     rbind (rd (dpcm s) ch) (\<lambda>p.
     let p' = CLIP (p + delta_bits step b0 b1 b2 b3) (-32768) 32767;
         idx' = CLIP (idx + index_table ! entry) 0 88 in
     rbind (wr (out s) pos p') (\<lambda>out'.
     Inr (s\<lparr>dpcm := (dpcm s)[ch := p'], dindex := (dindex s)[ch := idx'], out := out'\<rparr>)))))"

definition decode_byte :: "u8 list \<Rightarrow> nat \<Rightarrow> nat \<Rightarrow> nat \<Rightarrow> decoder \<Rightarrow> decoder res" where
  "decode_byte inbuf nch ch i s =
     rbind (rd inbuf (din s)) (\<lambda>b.
     rbind (decode_nibble ch (bit b 0) (bit b 1) (bit b 2) (bit b 3) (unat (b AND 7))
              (dout s + i * 2 * nch) s) (\<lambda>s1.
     rbind (decode_nibble ch (bit b 4) (bit b 5) (bit b 6) (bit b 7) (unat (drop_bit 4 b AND 7))
              (dout s + (i * 2 + 1) * nch) s1) (\<lambda>s2.
     Inr (s2\<lparr>din := din s + 1\<rparr>))))"

definition decode_chunk :: "u8 list \<Rightarrow> nat \<Rightarrow> decoder \<Rightarrow> decoder res" where
  "decode_chunk inbuf nch s =
     rbind (for_list (\<lambda>ch s.
              rbind (for_list (decode_byte inbuf nch ch) [0..<4] s) (\<lambda>s'.
              Inr (s'\<lparr>dout := dout s' + 1\<rparr>))) [0..<nch] s)
       (\<lambda>s'. Inr (s'\<lparr>dout := dout s' + nch * 7\<rparr>))"

fun decode_chunks :: "u8 list \<Rightarrow> nat \<Rightarrow> nat \<Rightarrow> decoder \<Rightarrow> decoder res" where
  "decode_chunks inbuf nch 0 s = Inr s"
| "decode_chunks inbuf nch (Suc chunks) s =
     rbind (decode_chunk inbuf nch s) (decode_chunks inbuf nch chunks)"

text \<open>\<open>None\<close> is the early \<open>return 0\<close> on a bad header, with what was written until then.\<close>

definition decode_header ::
  "u8 list \<Rightarrow> nat \<Rightarrow> decoder \<times> bool \<Rightarrow> (decoder \<times> bool) res" where
  "decode_header inbuf ch st =
     (case st of (s, ok) \<Rightarrow>
      if \<not> ok then Inr (s, False)
      else
        rbind (rd inbuf (din s)) (\<lambda>b0.
        rbind (rd inbuf (din s + 1)) (\<lambda>b1.
        let p = sint (ucast b0 OR push_bit 8 (ucast b1) :: u16) in
        rbind (wr (dpcm s) ch p) (\<lambda>ps.
        rbind (wr (out s) (dout s) p) (\<lambda>out'.
        rbind (rd inbuf (din s + 2)) (\<lambda>b2.
        rbind (wr (dindex s) ch (sint b2)) (\<lambda>is.
        rbind (rd inbuf (din s + 3)) (\<lambda>b3.
        let s1 = s\<lparr>dpcm := ps, dindex := is, out := out', dout := dout s + 1\<rparr> in
        if sint b2 < 0 \<or> sint b2 > 88 \<or> b3 \<noteq> 0 then Inr (s1, False)
        else Inr (s1\<lparr>din := din s + 4\<rparr>, True)))))))))"

text \<open>The number of composite samples and the output buffer.\<close>

definition adpcm_decode_block :: "int list \<Rightarrow> u8 list \<Rightarrow> nat \<Rightarrow> nat \<Rightarrow> (nat \<times> int list) res" where
  "adpcm_decode_block buf inbuf inbufsize nch =
     (if inbufsize < nch * 4 then Inr (0, buf)
      else
        rbind (for_list (decode_header inbuf) [0..<nch]
                 (\<lparr>dpcm = [0, 0], dindex = [0, 0], out = buf, dout = 0, din = 0\<rparr>, True)) (\<lambda>(s, ok).
        if \<not> ok then Inr (0, out s)
        else if nch = 0 then Inl DivZero
        else
          let chunks = (inbufsize - nch * 4) div (nch * 4) in
          rbind (decode_chunks inbuf nch chunks s) (\<lambda>s'. Inr (1 + chunks * 8, out s'))))"

section \<open>Ranges\<close>

definition pcm_ok :: "int \<Rightarrow> bool" where
  "pcm_ok p \<longleftrightarrow> -32768 \<le> p \<and> p \<le> 32767"

definition index_ok :: "int \<Rightarrow> bool" where
  "index_ok i \<longleftrightarrow> 0 \<le> i \<and> i \<le> 88"

lemma CLIP_range [simp]: "lo \<le> hi \<Longrightarrow> lo \<le> CLIP x lo hi" "lo \<le> hi \<Longrightarrow> CLIP x lo hi \<le> hi"
  by (simp_all add: CLIP_def)

lemma length_step_table [simp]: "length step_table = 89"
  by (simp add: step_table_def)

lemma step_at_ok: "index_ok i \<Longrightarrow> step_at i = Inr (step_table ! nat i)"
  by (simp add: step_at_def index_ok_def nat_less_iff)

lemma step_table_pos: "list_all (\<lambda>s. 7 \<le> s \<and> s \<le> 32767) step_table"
  by (simp add: step_table_def)

lemma step_pos: "index_ok i \<Longrightarrow> 0 < step_table ! nat i"
proof -
  assume "index_ok i"
  then have "nat i < length step_table" by (simp add: index_ok_def nat_less_iff)
  with step_table_pos have "7 \<le> step_table ! nat i" unfolding list_all_length by blast
  then show ?thesis by simp
qed

definition chan_ok :: "adpcm_channel \<Rightarrow> bool" where
  "chan_ok c \<longleftrightarrow> pcm_ok (pcmdata c) \<and> index_ok (chan_index c)"

lemma trial_ok: "pcm_ok (trial_pcm c step n)" "index_ok (moved_index c n)"
  by (simp_all add: pcm_ok_def index_ok_def trial_pcm_def moved_index_def)

lemma first_nibble_range: "0 < step \<Longrightarrow> first_nibble delta step < 16"
  by (auto simp: first_nibble_def Let_def nat_less_iff)

text \<open>The same guess in the 32-bit arithmetic of the code, whose division truncates.\<close>

definition first_nibble32 :: "int \<Rightarrow> int \<Rightarrow> int" where
  "first_nibble32 delta step =
     (if delta < 0
      then let mag = cdiv (i32 (i32 (- delta) * 4)) step in 8 OR (if mag > 7 then 7 else mag)
      else let mag = cdiv (i32 (delta * 4)) step in if mag > 7 then 7 else mag)"

lemma i32_id: "- (2 ^ 31) \<le> x \<Longrightarrow> x < 2 ^ 31 \<Longrightarrow> i32 x = x"
  unfolding i32_def by (rule signed_take_bit_int_eq_self)

lemma or_eight: "0 \<le> m \<Longrightarrow> m \<le> 7 \<Longrightarrow> 8 OR m = 8 + (m :: int)"
proof -
  assume "0 \<le> m" "m \<le> 7"
  then have "m \<in> {0, 1, 2, 3, 4, 5, 6, 7}" by auto
  then show ?thesis by auto
qed

lemma first_nibble_32:
  assumes "\<bar>delta\<bar> < 2 ^ 29" and "0 < step"
  shows "first_nibble32 delta step = int (first_nibble delta step)"
proof (cases "delta < 0")
  case True
  then have "i32 (- delta) = - delta" "i32 (- delta * 4) = - delta * 4"
    using assms(1) by (intro i32_id; simp)+
  moreover have "0 \<le> (- delta * 4) div step"
    using True assms(2) by (simp add: pos_imp_zdiv_nonneg_iff)
  ultimately show ?thesis
    using True assms(2) or_eight [of "(- delta * 4) div step"] or_eight [of 7]
    by (simp add: first_nibble32_def first_nibble_def Let_def cdiv_nonneg)
next
  case False
  then have "i32 (delta * 4) = delta * 4" using assms(1) by (intro i32_id) simp_all
  moreover have "0 \<le> (delta * 4) div step"
    using False assms(2) by (simp add: pos_imp_zdiv_nonneg_iff)
  ultimately show ?thesis
    using False assms(2) by (simp add: first_nibble32_def first_nibble_def Let_def cdiv_nonneg)
qed

lemma sample_difference:
  assumes "noise_shaping c = 0" and "pcm_ok s" and "chan_ok chan"
  shows "\<bar>fst (shape_sample c chan s) - pcmdata (snd (shape_sample c chan s))\<bar> < 2 ^ 29"
  using assms by (auto simp: shape_sample_def chan_ok_def pcm_ok_def)

section \<open>The search returns a nibble no worse than the first one\<close>

lemma search_loop:
  fixes look :: "nat \<Rightarrow> (int \<times> nat) res"
  assumes "\<And>n2. n2 \<in> set ns \<Longrightarrow> \<exists>e m. look n2 = Inr (e, m) \<and> 0 \<le> e"
    and "\<forall>n2 \<in> set ns. n2 < 16" and "best < 16" and "0 \<le> e0" and "\<And>n2. 0 \<le> sq n2"
  shows "\<exists>e b. for_list (\<lambda>n2 (min_error, best).
         if n2 = n then Inr (min_error, best)
         else if sq n2 < min_error then
             rbind (look n2) (\<lambda>(e2, _).
             if sq n2 + e2 < min_error then Inr (sq n2 + e2, n2) else Inr (min_error, best))
           else Inr (min_error, best)) ns (e0, best) = Inr (e, b) \<and> b < 16 \<and> 0 \<le> e \<and> e \<le> e0"
  using assms
proof (induction ns arbitrary: e0 best)
  case (Cons n2 ns)
  obtain e2 m where look: "look n2 = Inr (e2, m)" "0 \<le> e2" using Cons.prems(1) [of n2] by auto
  have ih: "\<exists>e b. for_list (\<lambda>n2 (min_error, best).
         if n2 = n then Inr (min_error, best)
         else if sq n2 < min_error then
             rbind (look n2) (\<lambda>(e2, _).
             if sq n2 + e2 < min_error then Inr (sq n2 + e2, n2) else Inr (min_error, best))
           else Inr (min_error, best)) ns (e1, b1) = Inr (e, b) \<and> b < 16 \<and> 0 \<le> e \<and> e \<le> e1"
    if "b1 < 16" "0 \<le> e1" for e1 b1
    using Cons.prems that by (intro Cons.IH) auto
  show ?case
  proof (cases "n2 \<noteq> n \<and> sq n2 < e0 \<and> sq n2 + e2 < e0")
    case True
    have "0 \<le> sq n2 + e2" using look(2) Cons.prems(5) [of n2] by simp
    then show ?thesis using True look ih [of n2 "sq n2 + e2"] Cons.prems(2) by fastforce
  next
    case False
    then show ?thesis using look ih [of best e0] Cons.prems(3,4) by auto
  qed
qed simp

lemma minimum_error_total:
  assumes "chan_ok chan" and "pos + nch * depth < length smp"
  shows "\<exists>e n. minimum_error chan nch csample smp pos depth = Inr (e, n) \<and> n < 16 \<and> 0 \<le> e"
  using assms
proof (induction depth arbitrary: chan csample pos)
  case 0
  have "step_at (chan_index chan) = Inr (step_table ! nat (chan_index chan))"
    "0 < step_table ! nat (chan_index chan)"
    using 0 by (auto simp: chan_ok_def step_at_ok step_pos)
  then show ?case using first_nibble_range by (simp add: Let_def square_error_def)
next
  case (Suc depth)
  let ?step = "step_table ! nat (chan_index chan)"
  have step: "step_at (chan_index chan) = Inr ?step" "0 < ?step"
    using Suc.prems by (auto simp: chan_ok_def step_at_ok step_pos)
  let ?n = "first_nibble (csample - pcmdata chan) ?step"
  let ?look = "\<lambda>n. rbind (rd smp (pos + nch)) (\<lambda>s.
      minimum_error (chan\<lparr>pcmdata := trial_pcm chan ?step n, chan_index := moved_index chan n\<rparr>)
        nch s smp (pos + nch) depth)"
  have "pos + nch + nch * depth < length smp" using Suc.prems(2) by (simp add: algebra_simps)
  then have look: "\<exists>e m. ?look n = Inr (e, m) \<and> 0 \<le> e" for n
    using Suc.IH [of "chan\<lparr>pcmdata := trial_pcm chan ?step n, chan_index := moved_index chan n\<rparr>"
        "pos + nch" "smp ! (pos + nch)"] trial_ok by (auto simp: chan_ok_def)
  obtain e m where e: "?look ?n = Inr (e, m)" "0 \<le> e" using look by blast
  have sq: "0 \<le> square_error (trial_pcm chan ?step n) csample" for n by (simp add: square_error_def)
  show ?case
    unfolding minimum_error.simps step rbind_simps Let_def e prod.case
    using search_loop [of "[0..<16]" ?look ?n "square_error (trial_pcm chan ?step ?n) csample + e"
        "\<lambda>n. square_error (trial_pcm chan ?step n) csample" ?n]
      look first_nibble_range [OF step(2)] e sq by fastforce
qed

section \<open>One nibble moves encoder and decoder the same way\<close>

definition nibble_step :: "int \<times> int \<Rightarrow> nat \<Rightarrow> int \<times> int" where
  "nibble_step st n = (case st of (p, i) \<Rightarrow>
     (CLIP (p + nibble_delta (step_table ! nat i) n) (-32768) 32767,
      CLIP (i + index_table ! (n mod 8)) 0 88))"

definition chan_view :: "adpcm_channel \<Rightarrow> int \<times> int" where
  "chan_view c = (pcmdata c, chan_index c)"

lemma nibble_and_7: "n < 16 \<Longrightarrow> unat ((word_of_nat n :: u8) AND 7) = n mod 8"
proof -
  assume n: "n < 16"
  have "list_all (\<lambda>n. unat ((word_of_nat n :: u8) AND 7) = n mod 8) [0..<16]" by code_simp
  with n show ?thesis by (simp add: list_all_iff)
qed

lemma code_nibble_view:
  "n < 16 \<Longrightarrow> chan_view (code_nibble c (step_table ! nat (chan_index c)) n) = nibble_step (chan_view c) n"
  by (simp add: chan_view_def code_nibble_def nibble_step_def trial_pcm_def moved_index_def nibble_and_7)

lemma nibble_step_ok: "pcm_ok (fst (nibble_step st n))" "index_ok (snd (nibble_step st n))"
  by (simp_all add: nibble_step_def pcm_ok_def index_ok_def split: prod.split)

definition ctx_ok :: "adpcm_context \<Rightarrow> bool" where
  "ctx_ok c \<longleftrightarrow> length (channels c) = 2 \<and> num_channels c \<le> 2 \<and> list_all chan_ok (channels c)"

definition same_parameters :: "adpcm_context \<Rightarrow> adpcm_context \<Rightarrow> bool" where
  "same_parameters c c' \<longleftrightarrow> num_channels c' = num_channels c \<and> lookahead c' = lookahead c \<and>
     noise_shaping c' = noise_shaping c"

definition view :: "adpcm_context \<Rightarrow> (int \<times> int) list" where
  "view c = map chan_view (channels c)"

lemma shape_view: "chan_view (snd (shape_sample c chan s)) = chan_view chan"
  by (simp add: shape_sample_def shape_dynamic_def chan_view_def Let_def)

lemma encode_sample_step:
  assumes "ctx_ok c" and "ch < num_channels c" and "0 < k"
    and "pos + num_channels c * (k - 1) < length smp"
  shows "\<exists>c' n. encode_sample c ch smp pos k = Inr (c', n) \<and> n < 16 \<and> ctx_ok c' \<and>
    same_parameters c c' \<and> view c' = (view c)[ch := nibble_step (view c ! ch) n]"
proof -
  have ch: "ch < length (channels c)" using assms by (simp add: ctx_ok_def)
  define chan where "chan = channels c ! ch"
  have ok: "chan_ok chan" using assms(1) ch by (simp add: ctx_ok_def list_all_length chan_def)
  obtain cs chan1 where sh: "shape_sample c chan (smp ! pos) = (cs, chan1)" by fastforce
  have v1: "chan_view chan1 = chan_view chan" using shape_view [of c chan "smp ! pos"] sh by simp
  then have ok1: "chan_ok chan1" and idx: "chan_index chan1 = chan_index chan"
    using ok by (auto simp: chan_view_def chan_ok_def)
  define depth where "depth = (if k - 1 > lookahead c then lookahead c else k - 1)"
  have "num_channels c * depth \<le> num_channels c * (k - 1)" by (intro mult_le_mono2) (simp add: depth_def)
  then have "pos + num_channels c * depth < length smp" using assms(4) by linarith
  from minimum_error_total [OF ok1 this] obtain e n where
    me: "minimum_error chan1 (num_channels c) cs smp pos depth = Inr (e, n)" "n < 16" by blast
  define step where "step = step_table ! nat (chan_index chan)"
  have step: "step_at (chan_index chan) = Inr step"
    using ok by (simp add: chan_ok_def step_at_ok step_def)
  define chan3 where "chan3 = (if noise_shaping c \<noteq> 0
      then (code_nibble chan1 step n)\<lparr>chan_error := i32 (chan_error (code_nibble chan1 step n) +
             pcmdata (code_nibble chan1 step n))\<rparr>
      else code_nibble chan1 step n)"
  have "chan_view chan3 = chan_view (code_nibble chan1 step n)"
    by (simp add: chan3_def chan_view_def)
  also have "\<dots> = nibble_step (chan_view chan) n"
    using code_nibble_view [OF me(2), of chan1] v1 by (simp add: idx step_def)
  finally have v3: "chan_view chan3 = nibble_step (chan_view chan) n" .
  then have ok3: "chan_ok chan3"
    using nibble_step_ok [of "chan_view chan" n] by (metis chan_ok_def chan_view_def fst_conv snd_conv)
  have "encode_sample c ch smp pos k = Inr (c\<lparr>channels := (channels c)[ch := chan3]\<rparr>, n)"
    using ch assms(4) sh step me
    by (auto simp: encode_sample_def Let_def chan3_def depth_def simp flip: chan_def split: if_splits)
  moreover have "ctx_ok (c\<lparr>channels := (channels c)[ch := chan3]\<rparr>)"
    using assms(1) ok3 by (auto simp: ctx_ok_def list_all_iff dest!: set_update_subset_insert [THEN subsetD])
  moreover have "view (c\<lparr>channels := (channels c)[ch := chan3]\<rparr>) =
      (view c)[ch := nibble_step (view c ! ch) n]"
    using ch v3 by (simp add: view_def map_update chan_def)
  ultimately show ?thesis using me(2) by (auto simp: same_parameters_def)
qed

section \<open>One byte\<close>

definition byte_step :: "u8 \<Rightarrow> int \<times> int \<Rightarrow> int \<times> int" where
  "byte_step b st = nibble_step (nibble_step st (unat b mod 16)) (unat b div 16)"

definition states_step :: "(int \<times> int) list \<Rightarrow> nat \<times> u8 \<Rightarrow> (int \<times> int) list" where
  "states_step sts cb = (case cb of (ch, b) \<Rightarrow> sts[ch := byte_step b (sts ! ch)])"

definition join_nibbles :: "nat \<Rightarrow> nat \<Rightarrow> u8" where
  "join_nibbles n1 n2 = word_of_nat n1 OR push_bit 4 (word_of_nat n2)"

lemma join_nibbles_parts:
  assumes "n1 < 16" and "n2 < 16"
  shows "unat (join_nibbles n1 n2) mod 16 = n1" and "unat (join_nibbles n1 n2) div 16 = n2"
proof -
  have "list_all (\<lambda>n1. list_all (\<lambda>n2. unat (join_nibbles n1 n2) mod 16 = n1 \<and>
      unat (join_nibbles n1 n2) div 16 = n2) [0..<16]) [0..<16]"
    by code_simp
  with assms show "unat (join_nibbles n1 n2) mod 16 = n1" "unat (join_nibbles n1 n2) div 16 = n2"
    by (simp_all add: list_all_iff)
qed

text \<open>Writing a block of values.\<close>

definition write_at :: "'a list \<Rightarrow> nat \<Rightarrow> 'a list \<Rightarrow> 'a list" where
  "write_at xs p bs = take p xs @ bs @ drop (p + length bs) xs"

lemma write_at_Nil [simp]: "write_at xs p [] = xs"
  by (simp add: write_at_def)

lemma length_write_at [simp]: "p + length bs \<le> length xs \<Longrightarrow> length (write_at xs p bs) = length xs"
  by (simp add: write_at_def)

lemma write_at_one: "p < length xs \<Longrightarrow> xs[p := b] = write_at xs p [b]"
  by (simp add: write_at_def upd_conv_take_nth_drop)

lemma write_at_append:
  "p + length bs \<le> length xs \<Longrightarrow>
   write_at (write_at xs p bs) (p + length bs) cs = write_at xs p (bs @ cs)"
  by (auto simp: write_at_def ac_simps min_def)

lemma wr_run_write_at:
  "p + length vs \<le> length xs \<Longrightarrow> wr_run xs p vs = Inr (write_at xs p vs, p + length vs)"
proof (induction vs arbitrary: xs p)
  case (Cons v vs)
  have "wr_run xs p (v # vs) = wr_run (write_at xs p [v]) (p + length [v]) vs"
    using Cons.prems by (simp add: write_at_one)
  also have "\<dots> = Inr (write_at (write_at xs p [v]) (p + length [v]) vs, p + length [v] + length vs)"
    using Cons.prems by (intro Cons.IH) simp
  finally show ?case using Cons.prems write_at_append [of p "[v]" xs vs] by simp
qed simp

text \<open>What the encoder has done after coding bytes for the channels \<open>chs\<close>, in this order.\<close>

definition enc_adv :: "nat list \<Rightarrow> encoder \<Rightarrow> encoder \<Rightarrow> bool" where
  "enc_adv chs s s' \<longleftrightarrow> ctx_ok (ctx s') \<and> same_parameters (ctx s) (ctx s') \<and>
     (\<exists>bs. length bs = length chs \<and> outbuf s' = write_at (outbuf s) (outpos s) bs \<and>
        outpos s' = outpos s + length bs \<and>
        view (ctx s') = foldl states_step (view (ctx s)) (zip chs bs))"

lemma enc_adv_refl: "ctx_ok (ctx s) \<Longrightarrow> enc_adv [] s s"
  by (simp add: enc_adv_def same_parameters_def)

lemma enc_adv_trans:
  assumes "enc_adv chs s s'" and "enc_adv chs' s' s''" and "outpos s + length chs \<le> length (outbuf s)"
  shows "enc_adv (chs @ chs') s s''"
proof -
  obtain bs where bs: "length bs = length chs" "outbuf s' = write_at (outbuf s) (outpos s) bs"
    "outpos s' = outpos s + length bs" "view (ctx s') = foldl states_step (view (ctx s)) (zip chs bs)"
    using assms(1) by (auto simp: enc_adv_def)
  obtain cs where cs: "length cs = length chs'" "outbuf s'' = write_at (outbuf s') (outpos s') cs"
    "outpos s'' = outpos s' + length cs" "view (ctx s'') = foldl states_step (view (ctx s')) (zip chs' cs)"
    using assms(2) by (auto simp: enc_adv_def)
  have "outbuf s'' = write_at (outbuf s) (outpos s) (bs @ cs)"
    using bs cs assms(3) write_at_append [of "outpos s" bs "outbuf s" cs] by simp
  moreover have "view (ctx s'') = foldl states_step (view (ctx s)) (zip (chs @ chs') (bs @ cs))"
    using bs cs by simp
  moreover have "same_parameters (ctx s) (ctx s'')"
    using assms(1,2) by (auto simp: enc_adv_def same_parameters_def)
  ultimately show ?thesis
    using assms(2) bs cs unfolding enc_adv_def by (intro conjI exI [of _ "bs @ cs"]) auto
qed

lemma view_length: "ctx_ok c \<Longrightarrow> length (view c) = 2"
  by (simp add: ctx_ok_def view_def)

lemma encode_byte_step:
  assumes "ctx_ok (ctx s)" and "ch < num_channels (ctx s)" and "i < 4"
    and "inpos + 8 * num_channels (ctx s) * (chunks + 1) \<le> length smp"
    and "outpos s < length (outbuf s)"
  shows "\<exists>s'. encode_byte smp inpos chunks ch i s = Inr s' \<and> enc_adv [ch] s s'"
proof -
  let ?nch = "num_channels (ctx s)" and ?p = "inpos + ch + 2 * i * num_channels (ctx s)"
  have total: "?p + ?nch * (chunks * 8 + (3 - i) * 2 + 1) < length smp"
  proof -
    have "2 * i + (chunks * 8 + (3 - i) * 2 + 1) = 8 * chunks + 7" using assms(3) by simp
    then have "?nch * (2 * i) + ?nch * (chunks * 8 + (3 - i) * 2 + 1) = ?nch * (8 * chunks + 7)"
      by (metis distrib_left)
    moreover have "?nch * (8 * chunks + 7) + ?nch = 8 * ?nch * (chunks + 1)" by (simp add: algebra_simps)
    ultimately show ?thesis using assms(2,4) by (simp add: mult.commute mult.left_commute)
  qed
  obtain c1 n1 where c1: "encode_sample (ctx s) ch smp ?p (chunks * 8 + (3 - i) * 2 + 2) = Inr (c1, n1)"
    "n1 < 16" "ctx_ok c1" "same_parameters (ctx s) c1"
    "view c1 = (view (ctx s))[ch := nibble_step (view (ctx s) ! ch) n1]"
    using encode_sample_step [OF assms(1,2), of "chunks * 8 + (3 - i) * 2 + 2" ?p smp] total by auto
  have nch1: "num_channels c1 = ?nch" using c1(4) by (simp add: same_parameters_def)
  have "?p + ?nch + num_channels c1 * (chunks * 8 + (3 - i) * 2 + 1 - 1) < length smp"
    using total unfolding nch1 by (simp add: algebra_simps)
  then obtain c2 n2 where c2: "encode_sample c1 ch smp (?p + ?nch) (chunks * 8 + (3 - i) * 2 + 1) = Inr (c2, n2)"
    "n2 < 16" "ctx_ok c2" "same_parameters c1 c2"
    "view c2 = (view c1)[ch := nibble_step (view c1 ! ch) n2]"
    using encode_sample_step [OF c1(3), of ch "chunks * 8 + (3 - i) * 2 + 1" "?p + ?nch" smp] assms(2) nch1
    by auto
  let ?b = "join_nibbles n1 n2"
  have run: "encode_byte smp inpos chunks ch i s =
      Inr \<lparr>ctx = c2, outbuf = write_at (outbuf s) (outpos s) [?b], outpos = outpos s + 1\<rparr>"
    unfolding encode_byte_def Let_def c1(1) rbind_simps prod.case
    using c2(1) assms(5) by (simp add: join_nibbles_def flip: write_at_one)
  have ch: "ch < length (view (ctx s))" using assms(1,2) by (simp add: view_length ctx_ok_def)
  have "view c2 = states_step (view (ctx s)) (ch, ?b)"
    using c1(5) c2(5) ch join_nibbles_parts [OF c1(2) c2(2)] by (simp add: states_step_def byte_step_def)
  then have "enc_adv [ch] s \<lparr>ctx = c2, outbuf = write_at (outbuf s) (outpos s) [?b], outpos = outpos s + 1\<rparr>"
    using c1(4) c2(3,4) unfolding enc_adv_def
    by (intro conjI exI [of _ "[?b]"]) (auto simp: same_parameters_def)
  with run show ?thesis by blast
qed

section \<open>Chunks and blocks\<close>

text \<open>The channels of the bytes of a block, in order: 4 bytes for each channel, per chunk.\<close>

definition chunk_order :: "nat \<Rightarrow> nat list" where
  "chunk_order nch = concat (map (replicate 4) [0..<nch])"

definition block_order :: "nat \<Rightarrow> nat \<Rightarrow> nat list" where
  "block_order nch chunks = concat (replicate chunks (chunk_order nch))"

lemma length_chunk_order [simp]: "length (chunk_order nch) = 4 * nch"
  by (induction nch) (simp_all add: chunk_order_def)

lemma length_block_order [simp]: "length (block_order nch chunks) = chunks * (4 * nch)"
  by (induction chunks) (simp_all add: block_order_def)

lemma chunk_order_less: "ch \<in> set (chunk_order nch) \<Longrightarrow> ch < nch"
  by (auto simp: chunk_order_def)

lemma block_order_less: "ch \<in> set (block_order nch chunks) \<Longrightarrow> ch < nch"
  by (auto simp: block_order_def chunk_order_less split: if_splits)

lemma enc_loop:
  assumes "\<And>i s. i \<in> set is \<Longrightarrow> ctx_ok (ctx s) \<Longrightarrow> num_channels (ctx s) = n \<Longrightarrow>
      outpos s + length (g i) \<le> length (outbuf s) \<Longrightarrow> \<exists>s'. f i s = Inr s' \<and> enc_adv (g i) s s'"
    and "ctx_ok (ctx s)" and "num_channels (ctx s) = n"
    and "outpos s + length (concat (map g is)) \<le> length (outbuf s)"
  shows "\<exists>s'. for_list f is s = Inr s' \<and> enc_adv (concat (map g is)) s s'"
  using assms
proof (induction "is" arbitrary: s)
  case Nil
  then show ?case by (simp add: enc_adv_refl)
next
  case (Cons i "is")
  have "outpos s + length (g i) \<le> length (outbuf s)" using Cons.prems(4) by simp
  then obtain s1 where s1: "f i s = Inr s1" "enc_adv (g i) s s1"
    using Cons.prems(1) [of i s] Cons.prems(2,3) by auto
  then have props: "ctx_ok (ctx s1)" "num_channels (ctx s1) = n"
      "outpos s1 = outpos s + length (g i)" "length (outbuf s1) = length (outbuf s)"
    using Cons.prems(3,4) by (auto simp: enc_adv_def same_parameters_def)
  have "outpos s1 + length (concat (map g is)) \<le> length (outbuf s1)"
    using Cons.prems(4) props(3,4) by simp
  with Cons.IH [of s1] Cons.prems(1) props obtain s2 where
    s2: "for_list f is s1 = Inr s2" "enc_adv (concat (map g is)) s1 s2" by auto
  have "enc_adv (g i @ concat (map g is)) s s2"
    using s1(2) s2(2) Cons.prems(4) by (intro enc_adv_trans) auto
  then show ?case using s1(1) s2(1) by auto
qed

lemma encode_chunk_step:
  assumes "ctx_ok (ctx s)" and "num_channels (ctx s) = nch"
    and "inpos + 8 * nch * (chunks + 1) \<le> length smp"
    and "outpos s + 4 * nch \<le> length (outbuf s)"
  shows "\<exists>s'. encode_chunk smp inpos chunks s = Inr s' \<and> enc_adv (chunk_order nch) s s'"
proof -
  have byte: "\<exists>s'. encode_byte smp inpos chunks ch i s = Inr s' \<and> enc_adv [ch] s s'"
    if "ch < nch" "i < 4" "ctx_ok (ctx s)" "num_channels (ctx s) = nch"
      "outpos s < length (outbuf s)" for ch i s
    using that assms(3) encode_byte_step [of s ch i inpos chunks smp] by simp
  have four: "\<exists>s'. for_list (encode_byte smp inpos chunks ch) [0..<4] s = Inr s' \<and>
      enc_adv (replicate 4 ch) s s'"
    if "ch < nch" "ctx_ok (ctx s)" "num_channels (ctx s) = nch" "outpos s + 4 \<le> length (outbuf s)" for ch s
  proof -
    have "concat (map (\<lambda>_. [ch]) [0..<4]) = replicate 4 ch" by (simp add: upt_rec numeral_eq_Suc)
    then show ?thesis
      using enc_loop [of "[0..<4]" nch "\<lambda>_. [ch]" "encode_byte smp inpos chunks ch" s] that byte by simp
  qed
  have "outpos s + length (concat (map (replicate 4) [0..<nch])) \<le> length (outbuf s)"
    using assms(4) length_chunk_order [of nch] unfolding chunk_order_def by simp
  then show ?thesis
    unfolding encode_chunk_def assms(2) chunk_order_def
    using four assms(1,2) by (intro enc_loop [where n = nch]) auto
qed

lemma encode_chunks_step:
  assumes "ctx_ok (ctx s)" and "num_channels (ctx s) = nch"
    and "inpos + 8 * nch * chunks \<le> length smp"
    and "outpos s + chunks * (4 * nch) \<le> length (outbuf s)"
  shows "\<exists>s'. encode_chunks smp inpos chunks s = Inr s' \<and> enc_adv (block_order nch chunks) s s'"
  using assms
proof (induction chunks arbitrary: inpos s)
  case 0
  then show ?case by (simp add: block_order_def enc_adv_refl)
next
  case (Suc chunks)
  obtain s1 where s1: "encode_chunk smp inpos chunks s = Inr s1" "enc_adv (chunk_order nch) s s1"
    using encode_chunk_step [of s nch inpos chunks smp] Suc.prems by auto
  then have props: "ctx_ok (ctx s1)" "num_channels (ctx s1) = nch"
      "outpos s1 = outpos s + 4 * nch" "length (outbuf s1) = length (outbuf s)"
    using Suc.prems(2,4) by (auto simp: enc_adv_def same_parameters_def)
  obtain s2 where s2: "encode_chunks smp (inpos + 8 * nch) chunks s1 = Inr s2"
    "enc_adv (block_order nch chunks) s1 s2"
    using Suc.IH [of s1 "inpos + 8 * nch"] props Suc.prems(3,4) by (auto simp: algebra_simps)
  have "enc_adv (chunk_order nch @ block_order nch chunks) s s2"
    using s1(2) s2(2) Suc.prems(4) by (intro enc_adv_trans) auto
  then show ?case using s1(1) s2(1) Suc.prems(2) by (auto simp: block_order_def)
qed

section \<open>The decoder runs the same steps\<close>

definition dec_ok :: "decoder \<Rightarrow> bool" where
  "dec_ok s \<longleftrightarrow> length (dpcm s) = 2 \<and> length (dindex s) = 2 \<and> list_all index_ok (dindex s) \<and>
     list_all pcm_ok (out s)"

definition dview :: "decoder \<Rightarrow> (int \<times> int) list" where
  "dview s = zip (dpcm s) (dindex s)"

lemma nibble_bits:
  "bit (unat (b :: u8) mod 16) k \<longleftrightarrow> k < 4 \<and> bit b k"
  "bit (unat b div 16) k \<longleftrightarrow> bit b (4 + k)"
proof -
  have "unat b mod 16 = take_bit 4 (unat b)" by (simp add: take_bit_eq_mod)
  then show "bit (unat b mod 16) k \<longleftrightarrow> k < 4 \<and> bit b k" by (simp add: bit_take_bit_iff bit_unsigned_iff)
  have "unat b div 16 = drop_bit 4 (unat b)" by (simp add: drop_bit_eq_div)
  then show "bit (unat b div 16) k \<longleftrightarrow> bit b (4 + k)" by (simp add: bit_drop_bit_eq bit_unsigned_iff)
qed

lemma byte_entries:
  "unat ((b :: u8) AND 7) = unat b mod 16 mod 8"
  "unat (drop_bit 4 b AND 7) = unat b div 16 mod 8"
proof -
  have 7: "c AND 7 = take_bit 3 c" for c :: u8
    by (simp add: take_bit_eq_mask mask_eq_exp_minus_1)
  have "unat b < 2 ^ LENGTH(8)" by (rule unsigned_less)
  then have ub: "unat b mod 256 = unat b" by simp
  have 8: "n mod 16 mod 8 = n mod 8" for n :: nat by (simp add: mod_mod_cancel)
  show "unat (b AND 7) = unat b mod 16 mod 8" "unat (drop_bit 4 b AND 7) = unat b div 16 mod 8"
    unfolding 7 8 using ub
    by (simp_all only: unsigned_take_bit_eq unsigned_drop_bit_eq)
      (simp_all add: take_bit_eq_mod drop_bit_eq_div)
qed

lemma nibble_delta_byte:
  "nibble_delta step (unat (b :: u8) mod 16) = delta_bits step (bit b 0) (bit b 1) (bit b 2) (bit b 3)"
  "nibble_delta step (unat b div 16) = delta_bits step (bit b 4) (bit b 5) (bit b 6) (bit b 7)"
  unfolding nibble_delta_def nibble_bits by simp_all

lemma dview_update:
  "ch < length (dpcm s) \<Longrightarrow> length (dpcm s) = length (dindex s) \<Longrightarrow>
   dview (s\<lparr>dpcm := (dpcm s)[ch := p], dindex := (dindex s)[ch := i], out := o'\<rparr>) =
     (dview s)[ch := (p, i)]"
  by (simp add: dview_def update_zip)

lemma decode_nibble_step:
  assumes "dec_ok s" and "ch < 2" and "pos < length (out s)"
    and "nibble_delta (step_table ! nat (dindex s ! ch)) n =
      delta_bits (step_table ! nat (dindex s ! ch)) b0 b1 b2 b3" and "entry = n mod 8"
  shows "\<exists>s'. decode_nibble ch b0 b1 b2 b3 entry pos s = Inr s' \<and> dec_ok s' \<and>
    dview s' = (dview s)[ch := nibble_step (dview s ! ch) n] \<and>
    out s' = (out s)[pos := fst (nibble_step (dview s ! ch) n)] \<and> dout s' = dout s \<and> din s' = din s"
proof -
  let ?idx = "dindex s ! ch" and ?p = "dpcm s ! ch"
  have len: "length (dpcm s) = 2" "length (dindex s) = 2" using assms(1) by (simp_all add: dec_ok_def)
  have "index_ok ?idx" using assms(1,2) by (simp add: dec_ok_def list_all_length)
  note step = step_at_ok [OF this]
  have v: "dview s ! ch = (?p, ?idx)" using len assms(2) by (simp add: dview_def)
  let ?p' = "CLIP (?p + nibble_delta (step_table ! nat ?idx) n) (-32768) 32767"
  let ?i' = "CLIP (?idx + index_table ! (n mod 8)) 0 88"
  let ?s = "s\<lparr>dpcm := (dpcm s)[ch := ?p'], dindex := (dindex s)[ch := ?i'], out := (out s)[pos := ?p']\<rparr>"
  have "decode_nibble ch b0 b1 b2 b3 entry pos s = Inr ?s"
    using assms len step by (simp add: decode_nibble_def Let_def)
  moreover have "dec_ok ?s"
    using assms(1) by (auto simp: dec_ok_def list_all_iff index_ok_def pcm_ok_def
        dest!: set_update_subset_insert [THEN subsetD])
  moreover have "dview ?s = (dview s)[ch := nibble_step (dview s ! ch) n]"
    using len assms(2) by (simp add: dview_update v nibble_step_def)
  ultimately show ?thesis by (auto simp: v nibble_step_def)
qed

lemma decode_byte_step:
  assumes "dec_ok s" and "ch < nch" and "nch \<le> 2" and "din s < length inbuf" and "i < 4"
    and "dout s + 7 * nch < length (out s)"
  defines "b \<equiv> inbuf ! din s" and "st \<equiv> dview s ! ch"
  shows "\<exists>s'. decode_byte inbuf nch ch i s = Inr s' \<and> dec_ok s' \<and> din s' = din s + 1 \<and> dout s' = dout s \<and>
    dview s' = states_step (dview s) (ch, b) \<and>
    out s' = (out s)[dout s + i * 2 * nch := fst (nibble_step st (unat b mod 16)),
       dout s + (i * 2 + 1) * nch := fst (byte_step b st)]"
proof -
  have ch: "ch < 2" using assms(2,3) by simp
  have l: "ch < length (dview s)" using assms(1) ch by (simp add: dec_ok_def dview_def)
  have pos: "(i * 2 + 1) * nch \<le> 7 * nch" using assms(5) by (intro mult_le_mono1) simp
  have "i * 2 * nch \<le> 7 * nch" using assms(5) by (intro mult_le_mono1) simp
  then have p1: "dout s + i * 2 * nch < length (out s)" using assms(6) by linarith
  obtain s1 where s1: "decode_nibble ch (bit b 0) (bit b 1) (bit b 2) (bit b 3) (unat (b AND 7))
      (dout s + i * 2 * nch) s = Inr s1" "dec_ok s1"
      "dview s1 = (dview s)[ch := nibble_step st (unat b mod 16)]"
      "out s1 = (out s)[dout s + i * 2 * nch := fst (nibble_step st (unat b mod 16))]"
      "dout s1 = dout s" "din s1 = din s"
    using decode_nibble_step [OF assms(1) ch p1 nibble_delta_byte(1) byte_entries(1)] st_def by blast
  have "dout s + (i * 2 + 1) * nch < length (out s)" using pos assms(6) by linarith
  then have p2: "dout s + (i * 2 + 1) * nch < length (out s1)" by (simp only: s1(4) length_list_update)
  obtain s2 where s2: "decode_nibble ch (bit b 4) (bit b 5) (bit b 6) (bit b 7)
      (unat (drop_bit 4 b AND 7)) (dout s + (i * 2 + 1) * nch) s1 = Inr s2" "dec_ok s2"
      "dview s2 = (dview s1)[ch := nibble_step (dview s1 ! ch) (unat b div 16)]"
      "out s2 = (out s1)[dout s + (i * 2 + 1) * nch := fst (nibble_step (dview s1 ! ch) (unat b div 16))]"
      "dout s2 = dout s1" "din s2 = din s1"
    using decode_nibble_step [OF s1(2) ch p2 nibble_delta_byte(2) byte_entries(2)] by blast
  have v1: "dview s1 ! ch = nibble_step st (unat b mod 16)" using s1(3) l by simp
  have "decode_byte inbuf nch ch i s = Inr (s2\<lparr>din := din s + 1\<rparr>)"
    using assms(4) s1(1,5) s2(1) by (simp add: decode_byte_def flip: b_def)
  moreover have "dview (s2\<lparr>din := din s + 1\<rparr>) = states_step (dview s) (ch, b)"
    using s1(3) s2(3) v1 l by (simp add: dview_def states_step_def byte_step_def st_def)
  moreover have "dec_ok (s2\<lparr>din := din s + 1\<rparr>)" using s2(2) by (simp add: dec_ok_def)
  ultimately show ?thesis using s1 s2 v1 by (auto simp: byte_step_def)
qed

text \<open>What the decoder has done after the bytes \<open>bs\<close> of the channels \<open>chs\<close>.\<close>

definition dec_adv :: "u8 list \<Rightarrow> nat list \<Rightarrow> decoder \<Rightarrow> decoder \<Rightarrow> bool" where
  "dec_adv inbuf chs s s' \<longleftrightarrow> dec_ok s' \<and> length (out s') = length (out s) \<and>
     din s' = din s + length chs \<and>
     dview s' = foldl states_step (dview s) (zip chs (drop (din s) inbuf))"

lemma zip_take_left: "zip xs (take (length xs) ys) = zip xs ys"
proof (induction xs arbitrary: ys)
  case (Cons x xs)
  then show ?case by (cases ys) simp_all
qed simp

lemma dec_adv_trans:
  assumes "dec_adv inbuf chs s s'" and "dec_adv inbuf chs' s' s''"
  shows "dec_adv inbuf (chs @ chs') s s''"
proof -
  have "zip (chs @ chs') (drop (din s) inbuf) =
      zip chs (drop (din s) inbuf) @ zip chs' (drop (din s + length chs) inbuf)"
    by (simp add: zip_append1 zip_take_left ac_simps)
  then show ?thesis using assms(1,2) by (simp add: dec_adv_def)
qed

text \<open>The samples a channel puts out for its bytes.\<close>

definition bytes_state :: "int \<times> int \<Rightarrow> u8 list \<Rightarrow> int \<times> int" where
  "bytes_state st bs = foldl (\<lambda>st b. byte_step b st) st bs"

fun samples :: "int \<times> int \<Rightarrow> u8 list \<Rightarrow> int list" where
  "samples st [] = []"
| "samples st (b # bs) =
     fst (nibble_step st (unat b mod 16)) # fst (byte_step b st) # samples (byte_step b st) bs"

lemma bytes_state_append: "bytes_state st (bs @ cs) = bytes_state (bytes_state st bs) cs"
  by (simp add: bytes_state_def)

lemma samples_append: "samples st (bs @ cs) = samples st bs @ samples (bytes_state st bs) cs"
  by (induction bs arbitrary: st) (simp_all add: bytes_state_def)

lemma length_samples [simp]: "length (samples st bs) = 2 * length bs"
  by (induction bs arbitrary: st) simp_all

lemma last_samples: "bs \<noteq> [] \<Longrightarrow> last (samples st bs) = fst (bytes_state st bs)"
proof (induction bs arbitrary: st)
  case (Cons b bs)
  then show ?case by (cases bs) (simp_all add: bytes_state_def)
qed simp

lemma states_fold:
  "ch < length sts \<Longrightarrow> length bs = k \<Longrightarrow>
   foldl states_step sts (zip (replicate k ch) bs) = sts[ch := bytes_state (sts ! ch) bs]"
proof (induction k arbitrary: sts bs)
  case (Suc k)
  then obtain b cs where "bs = b # cs" "length cs = k" by (cases bs) auto
  with Suc show ?case by (simp add: states_step_def bytes_state_def)
qed (simp add: bytes_state_def)

lemma length_dview: "dec_ok s \<Longrightarrow> length (dview s) = 2"
  by (simp add: dec_ok_def dview_def)

lemma dec_adv_refl: "dec_ok s \<Longrightarrow> dec_adv inbuf [] s s"
  by (simp add: dec_adv_def)

lemma decode_bytes_step:
  assumes "dec_ok s" and "ch < nch" and "nch \<le> 2" and "k \<le> 4" and "din s + k \<le> length inbuf"
    and "dout s + 7 * nch < length (out s)"
  shows "\<exists>s'. for_list (decode_byte inbuf nch ch) [0..<k] s = Inr s' \<and> dec_adv inbuf (replicate k ch) s s' \<and>
    dout s' = dout s \<and>
    (nch = 1 \<longrightarrow> out s' = write_at (out s) (dout s) (samples (dview s ! ch) (take k (drop (din s) inbuf))))"
  using assms(4,5)
proof (induction k)
  case 0
  then show ?case using assms(1) by (simp add: dec_adv_refl)
next
  case (Suc k)
  then obtain s1 where s1: "for_list (decode_byte inbuf nch ch) [0..<k] s = Inr s1"
    "dec_adv inbuf (replicate k ch) s s1" "dout s1 = dout s"
    "nch = 1 \<longrightarrow> out s1 = write_at (out s) (dout s) (samples (dview s ! ch) (take k (drop (din s) inbuf)))"
    by auto
  have ok1: "dec_ok s1" "length (out s1) = length (out s)" "din s1 = din s + k"
    using s1(2) by (simp_all add: dec_adv_def)
  let ?b = "inbuf ! din s1" and ?bs = "take k (drop (din s) inbuf)"
  obtain s2 where s2: "decode_byte inbuf nch ch k s1 = Inr s2" "dec_ok s2" "din s2 = din s1 + 1"
    "dout s2 = dout s1" "dview s2 = states_step (dview s1) (ch, ?b)"
    "out s2 = (out s1)[dout s1 + k * 2 * nch := fst (nibble_step (dview s1 ! ch) (unat ?b mod 16)),
       dout s1 + (k * 2 + 1) * nch := fst (byte_step ?b (dview s1 ! ch))]"
    using decode_byte_step [OF ok1(1) assms(2,3), of inbuf k] Suc.prems assms(6) ok1 s1(3) by auto
  have in_s: "din s + k < length inbuf" using Suc.prems by simp
  have "dec_adv inbuf [ch] s1 s2"
    using s2 ok1 in_s by (simp add: dec_adv_def Cons_nth_drop_Suc [symmetric])
  then have adv: "dec_adv inbuf (replicate (Suc k) ch) s s2"
    using dec_adv_trans [OF s1(2), of "[ch]" s2] by (simp add: replicate_append_same)
  have bs: "take (Suc k) (drop (din s) inbuf) = ?bs @ [?b]" "length ?bs = k"
    using in_s by (simp_all add: take_Suc_conv_app_nth ok1(3))
  have st: "dview s1 ! ch = bytes_state (dview s ! ch) ?bs"
  proof -
    have ch: "ch < length (dview s)" using assms(1-3) by (simp add: length_dview)
    have "zip (replicate k ch) (drop (din s) inbuf) = zip (replicate k ch) ?bs"
      using zip_take_left [of "replicate k ch" "drop (din s) inbuf"] by simp
    then show ?thesis
      using s1(2) states_fold [OF ch bs(2)] ch by (simp add: dec_adv_def)
  qed
  have "out s2 = write_at (out s) (dout s) (samples (dview s ! ch) (?bs @ [?b]))" if "nch = 1"
  proof -
    let ?a = "fst (nibble_step (dview s1 ! ch) (unat ?b mod 16))" and ?c = "fst (byte_step ?b (dview s1 ! ch))"
    have room: "dout s + length (samples (dview s ! ch) ?bs) + 2 \<le> length (out s)"
      using assms(6) that bs(2) Suc.prems(1) by simp
    have "out s2 = write_at (write_at (out s1) (dout s + 2 * k) [?a]) (dout s + 2 * k + 1) [?c]"
      using s2(6) that s1(3) ok1(2) room bs(2) by (simp add: write_at_one mult.commute)
    also have "\<dots> = write_at (out s1) (dout s + 2 * k) [?a, ?c]"
      using room bs(2) ok1(2) write_at_append [of "dout s + 2 * k" "[?a]" "out s1" "[?c]"] by simp
    also have "\<dots> = write_at (out s) (dout s) (samples (dview s ! ch) ?bs @ [?a, ?c])"
      using room bs(2) s1(4) that write_at_append [of "dout s" "samples (dview s ! ch) ?bs" "out s" "[?a, ?c]"]
      by simp
    finally show ?thesis by (simp add: samples_append flip: st)
  qed
  then show ?case using s1 s2 adv bs by (auto simp: for_list_append)
qed

lemma dec_adv_shift:
  "dec_adv inbuf chs s (s'\<lparr>dout := x\<rparr>) = dec_adv inbuf chs s s'"
  "dec_adv inbuf chs (s\<lparr>dout := x\<rparr>) s' = dec_adv inbuf chs s s'"
  by (simp_all add: dec_adv_def dec_ok_def dview_def)

lemma decode_channels_step:
  assumes "dec_ok s" and "k \<le> nch" and "nch \<le> 2" and "din s + 4 * nch \<le> length inbuf"
    and "dout s + 8 * nch \<le> length (out s)"
  shows "\<exists>s'. for_list (\<lambda>ch s.
        rbind (for_list (decode_byte inbuf nch ch) [0..<4] s) (\<lambda>s'. Inr (s'\<lparr>dout := dout s' + 1\<rparr>)))
      [0..<k] s = Inr s' \<and> dec_adv inbuf (chunk_order k) s s' \<and> dout s' = dout s + k \<and>
    (nch = 1 \<and> k = 1 \<longrightarrow>
      out s' = write_at (out s) (dout s) (samples (dview s ! 0) (take 4 (drop (din s) inbuf))))"
  using assms(2)
proof (induction k)
  case 0
  then show ?case using assms(1) by (simp add: dec_adv_refl chunk_order_def)
next
  case (Suc k)
  then obtain s1 where s1: "for_list (\<lambda>ch s.
        rbind (for_list (decode_byte inbuf nch ch) [0..<4] s) (\<lambda>s'. Inr (s'\<lparr>dout := dout s' + 1\<rparr>)))
      [0..<k] s = Inr s1" "dec_adv inbuf (chunk_order k) s s1" "dout s1 = dout s + k"
    by auto
  have ok1: "dec_ok s1" "length (out s1) = length (out s)" "din s1 = din s + 4 * k"
    using s1(2) by (simp_all add: dec_adv_def)
  have room: "k < nch" "din s1 + 4 \<le> length inbuf" "dout s1 + 7 * nch < length (out s1)"
    using Suc.prems assms(4,5) ok1 s1(3) by simp_all
  obtain s2 where s2: "for_list (decode_byte inbuf nch k) [0..<4] s1 = Inr s2"
    "dec_adv inbuf (replicate 4 k) s1 s2" "dout s2 = dout s1"
    "nch = 1 \<longrightarrow> out s2 = write_at (out s1) (dout s1) (samples (dview s1 ! k) (take 4 (drop (din s1) inbuf)))"
    using decode_bytes_step [OF ok1(1) room(1) assms(3) order_refl room(2,3)] by blast
  have adv: "dec_adv inbuf (chunk_order (Suc k)) s (s2\<lparr>dout := dout s2 + 1\<rparr>)"
    using dec_adv_trans [OF s1(2) s2(2)] by (simp add: dec_adv_shift chunk_order_def)
  have "nch = 1 \<and> Suc k = 1 \<Longrightarrow> s1 = s" using s1(1) by simp
  then show ?case
    using s1 s2 adv by (auto simp: for_list_append)
qed

lemma decode_chunk_step:
  assumes "dec_ok s" and "nch \<le> 2" and "din s + 4 * nch \<le> length inbuf"
    and "dout s + 8 * nch \<le> length (out s)"
  shows "\<exists>s'. decode_chunk inbuf nch s = Inr s' \<and> dec_adv inbuf (chunk_order nch) s s' \<and>
    dout s' = dout s + 8 * nch \<and>
    (nch = 1 \<longrightarrow> out s' = write_at (out s) (dout s) (samples (dview s ! 0) (take 4 (drop (din s) inbuf))))"
  using decode_channels_step [OF assms(1) order_refl assms(2-4)]
  unfolding decode_chunk_def by (auto simp: dec_adv_shift)

lemma decode_chunks_step:
  assumes "dec_ok s" and "nch \<le> 2" and "din s + chunks * (4 * nch) \<le> length inbuf"
    and "dout s + chunks * (8 * nch) \<le> length (out s)"
  shows "\<exists>s'. decode_chunks inbuf nch chunks s = Inr s' \<and> dec_adv inbuf (block_order nch chunks) s s' \<and>
    (nch = 1 \<longrightarrow> out s' = write_at (out s) (dout s)
       (samples (dview s ! 0) (take (4 * chunks) (drop (din s) inbuf))))"
  using assms
proof (induction chunks arbitrary: s)
  case 0
  then show ?case by (simp add: block_order_def dec_adv_refl)
next
  case (Suc chunks)
  have room: "din s + 4 * nch \<le> length inbuf" "dout s + 8 * nch \<le> length (out s)"
    using Suc.prems(3,4) by simp_all
  obtain s1 where s1: "decode_chunk inbuf nch s = Inr s1" "dec_adv inbuf (chunk_order nch) s s1"
    "dout s1 = dout s + 8 * nch"
    "nch = 1 \<longrightarrow> out s1 = write_at (out s) (dout s) (samples (dview s ! 0) (take 4 (drop (din s) inbuf)))"
    using decode_chunk_step [OF Suc.prems(1,2) room] by blast
  have ok1: "dec_ok s1" "length (out s1) = length (out s)" "din s1 = din s + 4 * nch"
    using s1(2) by (simp_all add: dec_adv_def)
  have "din s1 + chunks * (4 * nch) \<le> length inbuf" "dout s1 + chunks * (8 * nch) \<le> length (out s1)"
    using Suc.prems(3,4) ok1 s1(3) by simp_all
  from Suc.IH [OF ok1(1) Suc.prems(2) this] obtain s2 where s2:
    "decode_chunks inbuf nch chunks s1 = Inr s2" "dec_adv inbuf (block_order nch chunks) s1 s2"
    "nch = 1 \<longrightarrow> out s2 = write_at (out s1) (dout s1)
       (samples (dview s1 ! 0) (take (4 * chunks) (drop (din s1) inbuf)))" by blast
  have adv: "dec_adv inbuf (block_order nch (Suc chunks)) s s2"
    using dec_adv_trans [OF s1(2) s2(2)] by (simp add: block_order_def)
  have "out s2 = write_at (out s) (dout s) (samples (dview s ! 0) (take (4 * Suc chunks) (drop (din s) inbuf)))"
    if "nch = 1"
  proof -
    let ?b1 = "take 4 (drop (din s) inbuf)" and ?b2 = "take (4 * chunks) (drop (din s1) inbuf)"
    have l1: "length ?b1 = 4" using room that by simp
    have "chunk_order nch = replicate 4 0" using that by (simp add: chunk_order_def)
    then have "dview s1 = foldl states_step (dview s) (zip (replicate 4 0) ?b1)"
      using s1(2) zip_take_left [of "replicate 4 (0 :: nat)" "drop (din s) inbuf"] by (simp add: dec_adv_def)
    then have v1: "dview s1 ! 0 = bytes_state (dview s ! 0) ?b1"
      using states_fold [of 0 "dview s" ?b1 4] l1 Suc.prems(1) by (simp add: length_dview)
    have "take (4 * Suc chunks) (drop (din s) inbuf) = ?b1 @ ?b2"
      using that by (simp add: ok1(3) take_add ac_simps)
    then show ?thesis
      using s1(3,4) s2(3) that l1 room(2) v1
        write_at_append [of "dout s" "samples (dview s ! 0) ?b1" "out s" "samples (dview s1 ! 0) ?b2"]
      by (simp add: samples_append)
  qed
  then show ?case using s1(1) s2(1) adv by auto
qed

section \<open>Headers and whole blocks\<close>

definition header_bytes :: "int \<Rightarrow> int \<Rightarrow> u8 list" where
  "header_bytes p i = [word_of_int p, word_of_int (drop_bit 8 p), word_of_int i, 0]"

lemma length_header_bytes [simp]: "length (header_bytes p i) = 4"
  by (simp add: header_bytes_def)

text \<open>The state a block starts from: the first sample of each channel and its index.\<close>

definition block_start :: "adpcm_context \<Rightarrow> int list \<Rightarrow> (int \<times> int) list" where
  "block_start c smp = map (\<lambda>ch. if ch < num_channels c then (smp ! ch, snd (view c ! ch)) else view c ! ch) [0..<2]"

definition block_header :: "adpcm_context \<Rightarrow> int list \<Rightarrow> u8 list" where
  "block_header c smp = concat (map (\<lambda>ch. header_bytes (smp ! ch) (snd (view c ! ch))) [0..<num_channels c])"

lemma length_block_header [simp]: "length (block_header c smp) = 4 * num_channels c"
proof -
  have "length (concat (map (\<lambda>ch. header_bytes (f ch) (g ch)) [0..<n])) = 4 * n" for f g n
    by (induction n) simp_all
  then show ?thesis by (simp add: block_header_def)
qed

lemma encode_header_step:
  assumes "ch < length smp" and "ch < length ps" and "ch < length init_index" and "pos + 4 \<le> length buf"
  shows "encode_header smp init_index ch (ps, buf, pos) =
    Inr (ps[ch := smp ! ch], write_at buf pos (header_bytes (smp ! ch) (init_index ! ch)), pos + 4)"
  using assms by (simp add: encode_header_def header_bytes_def wr_run_write_at del: wr_run.simps)

lemma encode_setup:
  assumes "ctx_ok c" and "num_channels c \<le> length smp" and "list_all pcm_ok smp"
    and "4 * num_channels c \<le> length buf"
  shows "\<exists>init_pcm init_index ps c'.
    get_decode_parameters c [0, 0] [0, 0] = Inr (init_pcm, init_index) \<and>
    for_list (encode_header smp init_index) [0..<num_channels c] (init_pcm, buf, 0) =
      Inr (ps, write_at buf 0 (block_header c smp), 4 * num_channels c) \<and>
    set_decode_parameters c ps init_index = Inr c' \<and> ctx_ok c' \<and> same_parameters c c' \<and>
    view c' = block_start c smp"
proof -
  obtain a b where ab: "channels c = [a, b]"
    using assms(1) by (auto simp: ctx_ok_def numeral_2_eq_2 length_Suc_conv)
  have ok: "chan_ok a" "chan_ok b" using assms(1) by (simp_all add: ctx_ok_def ab)
  have v: "view c = [(pcmdata a, chan_index a), (pcmdata b, chan_index b)]"
    by (simp add: view_def ab chan_view_def)
  have "num_channels c \<le> 2" using assms(1) by (simp add: ctx_ok_def)
  then consider "num_channels c = 0" | "num_channels c = 1" | "num_channels c = 2" by linarith
  then show ?thesis
  proof cases
    case 1
    then show ?thesis
      using assms(1)
      by (simp add: get_decode_parameters_def set_decode_parameters_def block_header_def block_start_def
          same_parameters_def v upt_rec)
  next
    case 2
    have "0 < length smp" using assms(2) 2 by linarith
    then have "pcm_ok (smp ! 0)" using assms(3) by (auto simp: list_all_length)
    moreover have "smp \<noteq> []" using \<open>0 < length smp\<close> by simp
    ultimately show ?thesis
      using assms ok 2
      by (simp add: get_decode_parameters_def set_decode_parameters_def block_header_def block_start_def
          same_parameters_def v ab encode_header_step upt_rec)
        (simp add: ctx_ok_def chan_ok_def view_def chan_view_def)
  next
    case 3
    have l: "smp \<noteq> []" "Suc 0 < length smp" using assms(2) 3 by auto
    then have p: "pcm_ok (smp ! 0)" "pcm_ok (smp ! 1)" using assms(3) by (auto simp: list_all_length)
    have u: "[0..<2] = [0, 1 :: nat]" by (simp add: upt_rec)
    have sp: "write_at (write_at buf 0 (header_bytes p i)) 4 (header_bytes q j) =
        write_at buf 0 (header_bytes p i @ header_bytes q j)" for p i q j
      using write_at_append [of 0 "header_bytes p i" buf "header_bytes q j"] assms(4) 3 by simp
    from p 3 l show ?thesis
      using assms ok
      by (simp add: get_decode_parameters_def set_decode_parameters_def block_header_def block_start_def
          same_parameters_def v ab encode_header_step u sp)
        (simp add: ctx_ok_def chan_ok_def view_def chan_view_def)
  qed
qed

lemma encode_block_run:
  assumes "ctx_ok c" and "0 < n" and "n * num_channels c \<le> length smp" and "list_all pcm_ok smp"
    and "(1 + (n - 1) div 8) * (4 * num_channels c) \<le> length buf"
  shows "\<exists>c' bs. adpcm_encode_block c buf smp n =
      Inr (c', write_at buf 0 (block_header c smp @ bs), (1 + (n - 1) div 8) * (4 * num_channels c)) \<and>
    ctx_ok c' \<and> same_parameters c c' \<and> length bs = (n - 1) div 8 * (4 * num_channels c) \<and>
    view c' = foldl states_step (block_start c smp) (zip (block_order (num_channels c) ((n - 1) div 8)) bs)"
proof -
  let ?nch = "num_channels c" and ?chunks = "(n - 1) div 8"
  have "?chunks * 8 \<le> n - 1" by simp
  then have "8 * ?chunks + 1 \<le> n" using assms(2) by simp
  then have "(8 * ?chunks + 1) * ?nch \<le> n * ?nch" by (rule mult_le_mono1)
  then have smp: "?nch + 8 * ?nch * ?chunks \<le> length smp"
    using assms(3) by (simp add: algebra_simps)
  have buf: "4 * ?nch \<le> length buf" using assms(5) by simp
  obtain init_pcm init_index ps c1 where su:
    "get_decode_parameters c [0, 0] [0, 0] = Inr (init_pcm, init_index)"
    "for_list (encode_header smp init_index) [0..<?nch] (init_pcm, buf, 0) =
      Inr (ps, write_at buf 0 (block_header c smp), 4 * ?nch)"
    "set_decode_parameters c ps init_index = Inr c1" "ctx_ok c1" "same_parameters c c1"
    "view c1 = block_start c smp"
    using encode_setup [OF assms(1) _ assms(4) buf] smp by auto
  let ?s = "\<lparr>ctx = c1, outbuf = write_at buf 0 (block_header c smp), outpos = 4 * ?nch\<rparr>"
  have "\<exists>s'. encode_chunks smp ?nch ?chunks ?s = Inr s' \<and> enc_adv (block_order ?nch ?chunks) ?s s'"
    using su(4,5) smp assms(5) by (intro encode_chunks_step) (simp_all add: same_parameters_def)
  then obtain s' bs where s': "encode_chunks smp ?nch ?chunks ?s = Inr s'" "ctx_ok (ctx s')"
    "same_parameters c1 (ctx s')" "length bs = ?chunks * (4 * ?nch)"
    "outbuf s' = write_at (write_at buf 0 (block_header c smp)) (4 * ?nch) bs"
    "view (ctx s') = foldl states_step (block_start c smp) (zip (block_order ?nch ?chunks) bs)"
    using su(6) by (auto simp: enc_adv_def)
  have "outbuf s' = write_at buf 0 (block_header c smp @ bs)"
    using s'(5) buf write_at_append [of 0 "block_header c smp" buf bs] by simp
  moreover have "same_parameters c (ctx s')" using su(5) s'(3) by (simp add: same_parameters_def)
  ultimately show ?thesis
    using s'(2,4,6)
    unfolding adpcm_encode_block_def su(1) su(2) su(3) Let_def rbind_simps prod.case s'(1)
    using assms(2) by (intro exI [of _ "ctx s'"] exI [of _ bs]) (simp add: mult.assoc)
qed

text \<open>The header of one channel, read back.\<close>

lemma header_sample:
  assumes "pcm_ok p"
  shows "sint (ucast (word_of_int p :: u8) OR push_bit 8 (ucast (word_of_int (drop_bit 8 p) :: u8)) :: u16) = p"
proof -
  have "(ucast (word_of_int p :: u8) OR push_bit 8 (ucast (word_of_int (drop_bit 8 p) :: u8)) :: u16) =
      word_of_int p"
    by (rule bit_word_eqI) (auto simp: bit_simps)
  then show ?thesis
    using assms by (simp add: pcm_ok_def signed_of_int signed_take_bit_int_eq_self)
qed

lemma header_index: "index_ok i \<Longrightarrow> sint (word_of_int i :: u8) = i"
  by (simp add: index_ok_def signed_of_int signed_take_bit_int_eq_self)

lemma pcm_ok_update:
  "list_all pcm_ok xs \<Longrightarrow> pcm_ok p \<Longrightarrow> list_all pcm_ok (xs[i := p])"
  by (auto simp: list_all_iff dest!: set_update_subset_insert [THEN subsetD])

lemma sint_u16_ok: "pcm_ok (sint (w :: u16))"
  using sint_range_size [of w] by (simp add: pcm_ok_def word_size)

lemma decode_header_step:
  assumes "dec_ok s" and "ch < 2" and "din s + 4 \<le> length inbuf" and "dout s < length (out s)"
  shows "\<exists>s' ok. decode_header inbuf ch (s, True) = Inr (s', ok) \<and> length (out s') = length (out s) \<and>
    list_all pcm_ok (out s') \<and> (ok \<longrightarrow> dec_ok s' \<and> din s' = din s + 4 \<and> dout s' = dout s + 1)"
proof -
  let ?p = "sint (ucast (inbuf ! din s) OR push_bit 8 (ucast (inbuf ! (din s + 1))) :: u16)"
  let ?i = "sint (inbuf ! (din s + 2))"
  let ?s = "s\<lparr>dpcm := (dpcm s)[ch := ?p], dindex := (dindex s)[ch := ?i],
      out := (out s)[dout s := ?p], dout := dout s + 1\<rparr>"
  let ?bad = "?i < 0 \<or> ?i > 88 \<or> inbuf ! (din s + 3) \<noteq> 0"
  have run: "decode_header inbuf ch (s, True) =
      (if ?bad then Inr (?s, False) else Inr (?s\<lparr>din := din s + 4\<rparr>, True))"
    using assms by (simp add: decode_header_def Let_def dec_ok_def)
  have "list_all pcm_ok (out s)" using assms(1) by (simp add: dec_ok_def)
  from pcm_ok_update [OF this sint_u16_ok] have out: "list_all pcm_ok (out ?s)" by simp
  have "dec_ok (?s\<lparr>din := din s + 4\<rparr>)" if "\<not> ?bad"
    using assms(1) out that by (auto simp: dec_ok_def list_all_iff index_ok_def
        dest!: set_update_subset_insert [THEN subsetD])
  with run out show ?thesis by (cases ?bad) auto
qed

lemma decode_headers_step:
  assumes "dec_ok s" and "k \<le> 2" and "din s + 4 * k \<le> length inbuf" and "dout s + k \<le> length (out s)"
  shows "\<exists>s' ok. for_list (decode_header inbuf) [0..<k] (s, True) = Inr (s', ok) \<and>
    length (out s') = length (out s) \<and> list_all pcm_ok (out s') \<and>
    (ok \<longrightarrow> dec_ok s' \<and> din s' = din s + 4 * k \<and> dout s' = dout s + k)"
  using assms(2-4)
proof (induction k)
  case 0
  then show ?case using assms(1) by (auto simp: dec_ok_def)
next
  case (Suc k)
  then obtain s1 ok where s1: "for_list (decode_header inbuf) [0..<k] (s, True) = Inr (s1, ok)"
    "length (out s1) = length (out s)" "list_all pcm_ok (out s1)"
    "ok \<longrightarrow> dec_ok s1 \<and> din s1 = din s + 4 * k \<and> dout s1 = dout s + k" by auto
  show ?case
  proof (cases ok)
    case False
    have "decode_header inbuf k (s1, False) = Inr (s1, False)" by (simp add: decode_header_def)
    with False show ?thesis using s1 by (auto simp: for_list_append)
  next
    case True
    then obtain s2 ok2 where "decode_header inbuf k (s1, True) = Inr (s2, ok2)"
      "length (out s2) = length (out s1)" "list_all pcm_ok (out s2)"
      "ok2 \<longrightarrow> dec_ok s2 \<and> din s2 = din s1 + 4 \<and> dout s2 = dout s1 + 1"
      using decode_header_step [of s1 k inbuf] s1 Suc.prems by auto
    with True s1 show ?thesis by (auto simp: for_list_append)
  qed
qed

definition dec_start :: "int list \<Rightarrow> decoder" where
  "dec_start buf = \<lparr>dpcm = [0, 0], dindex = [0, 0], out = buf, dout = 0, din = 0\<rparr>"

lemma dec_start_ok: "list_all pcm_ok buf \<Longrightarrow> dec_ok (dec_start buf)"
  by (simp add: dec_start_def dec_ok_def index_ok_def)

lemma decode_block_safe_run:
  assumes "0 < nch" and "nch \<le> 2" and "inbufsize \<le> length inbuf" and "list_all pcm_ok buf"
    and "nch * (1 + (inbufsize - nch * 4) div (nch * 4) * 8) \<le> length buf"
  shows "\<exists>n out. adpcm_decode_block buf inbuf inbufsize nch = Inr (n, out) \<and> length out = length buf \<and>
    list_all pcm_ok out \<and> (n = 0 \<or> n = 1 + (inbufsize - nch * 4) div (nch * 4) * 8)"
proof (cases "inbufsize < nch * 4")
  case True
  then show ?thesis using assms(4) by (simp add: adpcm_decode_block_def)
next
  case False
  let ?chunks = "(inbufsize - nch * 4) div (nch * 4)"
  have out1: "nch \<le> length buf" using assms(5) by (simp add: algebra_simps)
  have ds: "din (dec_start buf) = 0" "dout (dec_start buf) = 0" "out (dec_start buf) = buf"
    by (simp_all add: dec_start_def)
  have size: "4 * nch \<le> length inbuf" using False assms(3) by simp
  obtain s ok where s: "for_list (decode_header inbuf) [0..<nch] (dec_start buf, True) = Inr (s, ok)"
    "length (out s) = length buf" "list_all pcm_ok (out s)"
    "ok \<longrightarrow> dec_ok s \<and> din s = 4 * nch \<and> dout s = nch"
    using decode_headers_step [OF dec_start_ok [OF assms(4)] assms(2), of inbuf] size out1 ds by auto
  show ?thesis
  proof (cases ok)
    case False
    then show ?thesis
      using s assms(1) \<open>\<not> inbufsize < nch * 4\<close> by (simp add: adpcm_decode_block_def flip: dec_start_def)
  next
    case True
    have "?chunks * (nch * 4) \<le> inbufsize - nch * 4" by simp
    moreover have "?chunks * (4 * nch) = ?chunks * (nch * 4)" by (simp only: mult.commute)
    ultimately have room: "din s + ?chunks * (4 * nch) \<le> length inbuf"
      using s(4) True \<open>\<not> inbufsize < nch * 4\<close> assms(3) by linarith
    have "dout s + ?chunks * (8 * nch) \<le> length (out s)"
      using s True assms(5) by (simp add: algebra_simps)
    with decode_chunks_step [of s nch ?chunks inbuf] s True assms(2) room obtain s' where
      "decode_chunks inbuf nch ?chunks s = Inr s'" "dec_adv inbuf (block_order nch ?chunks) s s'" by blast
    then show ?thesis
      using s True \<open>\<not> inbufsize < nch * 4\<close> assms(1)
      by (simp add: adpcm_decode_block_def Let_def dec_adv_def dec_ok_def flip: dec_start_def)
  qed
qed

lemma take_write_at_start: "length bs \<le> length xs \<Longrightarrow> n = length bs \<Longrightarrow> take n (write_at xs 0 bs) = bs"
  by (simp add: write_at_def)

text \<open>A mono block read back: the header's sample, then the samples of its bytes.\<close>

lemma decode_block_mono:
  assumes "pcm_ok p" and "index_ok i" and "list_all pcm_ok buf"
    and "length bs = 4 * chunks" and "1 + 8 * chunks \<le> length buf"
  shows "adpcm_decode_block buf (header_bytes p i @ bs @ rest) (4 + 4 * chunks) 1 =
    Inr (1 + 8 * chunks, write_at buf 0 (p # samples (p, i) bs))"
proof -
  let ?in = "header_bytes p i @ bs @ rest"
  let ?s = "\<lparr>dpcm = [p, 0], dindex = [i, 0], out = write_at buf 0 [p], dout = 1, din = 4\<rparr>"
  have b: "buf \<noteq> []" using assms(5) by auto
  have i: "0 \<le> i" "i \<le> 88" using assms(2) by (simp_all add: index_ok_def)
  have "decode_header ?in 0 (dec_start buf, True) = Inr (?s, True)"
    using b i header_sample [OF assms(1)] header_index [OF assms(2)]
    by (simp add: decode_header_def dec_start_def header_bytes_def Let_def write_at_one numeral_2_eq_2
        numeral_3_eq_3)
  then have head: "for_list (decode_header ?in) [0..<1] (dec_start buf, True) = Inr (?s, True)" by simp
  have ok: "dec_ok ?s"
    using assms(1-3) b pcm_ok_update [OF assms(3,1), of 0]
    by (simp add: dec_ok_def index_ok_def write_at_one)
  have "take (4 * chunks) (drop (din ?s) ?in) = bs" using assms(4) by simp
  moreover have "dview ?s ! 0 = (p, i)" by (simp add: dview_def)
  ultimately obtain s' where "decode_chunks ?in 1 chunks ?s = Inr s'"
    "out s' = write_at (write_at buf 0 [p]) 1 (samples (p, i) bs)"
    using decode_chunks_step [OF ok, of 1 chunks ?in] assms(4,5) b by auto
  then show ?thesis
    using head b assms(4,5) write_at_append [of 0 "[p]" buf "samples (p, i) bs"]
    by (simp add: adpcm_decode_block_def Let_def flip: dec_start_def)
qed

section \<open>The search is optimal\<close>

text \<open>The error of choosing a nibble first: its own, and what the search finds behind it.\<close>

definition path_error :: "adpcm_channel \<Rightarrow> nat \<Rightarrow> int \<Rightarrow> int list \<Rightarrow> nat \<Rightarrow> nat \<Rightarrow> nat \<Rightarrow> int" where
  "path_error chan nch csample smp pos depth n =
     (let next_chan = code_nibble chan (step_table ! nat (chan_index chan)) n in
      square_error (pcmdata next_chan) csample +
      (case minimum_error next_chan nch (smp ! (pos + nch)) smp (pos + nch) depth of
         Inr (e, _) \<Rightarrow> e | Inl _ \<Rightarrow> 0))"

lemma search_loop_optimal:
  fixes look :: "nat \<Rightarrow> (int \<times> nat) res" and cost :: "nat \<Rightarrow> int"
  assumes "\<And>n2. n2 \<in> set ns \<Longrightarrow> \<exists>m. look n2 = Inr (cost n2 - sq n2, m) \<and> sq n2 \<le> cost n2"
    and "e0 = cost best" and "e0 \<le> cost n"
  shows "\<exists>b. for_list (\<lambda>n2 (min_error, best).
         if n2 = n then Inr (min_error, best)
         else if sq n2 < min_error then
             rbind (look n2) (\<lambda>(e2, _).
             if sq n2 + e2 < min_error then Inr (sq n2 + e2, n2) else Inr (min_error, best))
           else Inr (min_error, best)) ns (e0, best) = Inr (cost b, b) \<and>
     (b = best \<or> b \<in> set ns) \<and> cost b \<le> e0 \<and> (\<forall>n2 \<in> set ns. cost b \<le> cost n2)"
  using assms
proof (induction ns arbitrary: e0 best)
  case (Cons n2 ns)
  let ?f = "\<lambda>n2 (min_error, best).
         if n2 = n then Inr (min_error, best)
         else if sq n2 < min_error then
             rbind (look n2) (\<lambda>(e2, _).
             if sq n2 + e2 < min_error then Inr (sq n2 + e2, n2) else Inr (min_error, best))
           else Inr (min_error, best)"
  obtain m where look: "look n2 = Inr (cost n2 - sq n2, m)" "sq n2 \<le> cost n2"
    using Cons.prems(1) [of n2] by auto
  have ih: "\<exists>b. for_list ?f ns (cost b1, b1) = Inr (cost b, b) \<and> (b = b1 \<or> b \<in> set ns) \<and>
      cost b \<le> cost b1 \<and> (\<forall>n2 \<in> set ns. cost b \<le> cost n2)" if "cost b1 \<le> cost n" for b1
    using Cons.prems(1) that by (intro Cons.IH) auto
  show ?case
  proof (cases "n2 \<noteq> n \<and> cost n2 < e0")
    case True
    then have "?f n2 (e0, best) = Inr (cost n2, n2)" using look by auto
    moreover obtain b where b: "for_list ?f ns (cost n2, n2) = Inr (cost b, b)" "b = n2 \<or> b \<in> set ns"
      "cost b \<le> cost n2" "\<forall>n2 \<in> set ns. cost b \<le> cost n2"
      using ih [of n2] True Cons.prems(3) by auto
    ultimately show ?thesis using True by (intro exI [of _ b]) (auto simp del: split_paired_All)
  next
    case False
    then have "?f n2 (e0, best) = Inr (e0, best)" using look by auto
    moreover obtain b where b: "for_list ?f ns (cost best, best) = Inr (cost b, b)" "b = best \<or> b \<in> set ns"
      "cost b \<le> cost best" "\<forall>n2 \<in> set ns. cost b \<le> cost n2"
      using ih [of best] Cons.prems(2,3) by auto
    moreover have "e0 \<le> cost n2" using False Cons.prems(3) by auto
    ultimately show ?thesis using Cons.prems(2) by (intro exI [of _ b]) auto
  qed
qed auto

lemma list_all_replicate_iff [simp]: "list_all P (replicate n x) \<longleftrightarrow> n = 0 \<or> P x"
  by (induction n) auto

section \<open>Properties\<close>

text \<open>C3. Encoder and decoder stay in step: a mono block the encoder writes from samples of 16
  bits decodes to one sample more than 8 per chunk, of which the first is the first sample
  coded, and the last is the value the encoder holds in \<open>pcmdata\<close> for the next block.\<close>

theorem adpcm_roundtrip:
  assumes "ctx_ok c" and "num_channels c = 1" and "0 < n" and "n \<le> length smp"
    and "list_all pcm_ok smp" and "4 + 4 * ((n - 1) div 8) \<le> length buf"
    and "list_all pcm_ok obuf" and "length obuf = 1 + 8 * ((n - 1) div 8)"
  shows "\<exists>c' bytes samples. adpcm_encode_block c buf smp n = Inr (c', bytes, 4 + 4 * ((n - 1) div 8)) \<and>
    adpcm_decode_block obuf bytes (4 + 4 * ((n - 1) div 8)) 1 = Inr (1 + 8 * ((n - 1) div 8), samples) \<and>
    length samples = length obuf \<and> hd samples = smp ! 0 \<and> last samples = pcmdata (channels c' ! 0) \<and>
    ctx_ok c'"
proof -
  let ?chunks = "(n - 1) div 8"
  define i where "i = snd (view c ! 0)"
  define p where "p = smp ! 0"
  have len: "0 < length smp" using assms(3,4) by linarith
  have p: "pcm_ok p" using assms(5) len by (simp add: list_all_length p_def)
  have "chan_ok (channels c ! 0)" using assms(1) by (simp add: ctx_ok_def list_all_length)
  then have i: "index_ok i" using assms(1) by (simp add: i_def view_def ctx_ok_def chan_ok_def chan_view_def)
  obtain c' bs where enc: "adpcm_encode_block c buf smp n =
      Inr (c', write_at buf 0 (block_header c smp @ bs), (1 + ?chunks) * 4)"
    "ctx_ok c'" "length bs = ?chunks * 4"
    "view c' = foldl states_step (block_start c smp) (zip (block_order 1 ?chunks) bs)"
    using encode_block_run [OF assms(1,3) _ assms(5), of buf] assms(2,4,6) by auto
  have bh: "block_header c smp = header_bytes p i" by (simp add: block_header_def assms(2) p_def i_def)
  have bytes: "write_at buf 0 (block_header c smp @ bs) = header_bytes p i @ bs @ drop (4 + 4 * ?chunks) buf"
    using enc(3) by (simp add: write_at_def bh mult.commute)
  have dec: "adpcm_decode_block obuf (header_bytes p i @ bs @ drop (4 + 4 * ?chunks) buf) (4 + 4 * ?chunks) 1 =
      Inr (1 + 8 * ?chunks, write_at obuf 0 (p # samples (p, i) bs))"
    using enc(3) assms(8) by (intro decode_block_mono [OF p i assms(7)]) simp_all
  have out: "write_at obuf 0 (p # samples (p, i) bs) = p # samples (p, i) bs"
    using enc(3) assms(8) by (simp add: write_at_def)
  have order: "block_order 1 ?chunks = replicate (?chunks * 4) 0"
    by (rule replicate_eqI) (auto dest: block_order_less)
  have start: "block_start c smp ! 0 = (p, i)" "0 < length (block_start c smp)"
    by (simp_all add: block_start_def assms(2) p_def i_def)
  have "view c' ! 0 = bytes_state (p, i) bs"
    unfolding enc(4) order using states_fold [OF start(2) enc(3)] start by simp
  then have "pcmdata (channels c' ! 0) = fst (bytes_state (p, i) bs)"
    using enc(2) by (simp add: view_def ctx_ok_def chan_view_def prod_eq_iff)
  moreover have "samples (p, i) bs \<noteq> []" if "bs \<noteq> []" using that by (cases bs) simp_all
  ultimately have "last (p # samples (p, i) bs) = pcmdata (channels c' ! 0)"
    using last_samples [of bs "(p, i)"] by (cases "bs = []") (simp_all add: bytes_state_def)
  then show ?thesis
    using enc(1,2) dec out bytes enc(3) assms(8)
    by (intro exI [of _ c'] exI [of _ "write_at buf 0 (block_header c smp @ bs)"]
        exI [of _ "p # samples (p, i) bs"]) (simp add: p_def)
qed

theorem adpcm_roundtrip_witness:
  "\<exists>c' bytes samples. adpcm_encode_block
       \<lparr>channels = [zero_channel, zero_channel], num_channels = 1, lookahead = 3, noise_shaping = 2\<rparr>
       (replicate 8 0) [0, 100, 200, 300, 400, 300, 200, 100, 0] 9 = Inr (c', bytes, 8) \<and>
    adpcm_decode_block (replicate 9 0) bytes 8 1 = Inr (9, samples) \<and> length samples = 9 \<and>
    hd samples = 0 \<and> last samples = pcmdata (channels c' ! 0)"
  using adpcm_roundtrip [of "\<lparr>channels = [zero_channel, zero_channel], num_channels = 1, lookahead = 3,
      noise_shaping = 2\<rparr>" 9 "[0, 100, 200, 300, 400, 300, 200, 100, 0]" "replicate 8 0" "replicate 9 0"]
  by (auto simp: ctx_ok_def zero_channel_def chan_ok_def pcm_ok_def index_ok_def)

text \<open>C20. The decoder is safe on any input: whatever the bytes of the block, with one or two
  channels and room for the samples of its whole chunks, it reads only the block, writes only
  the buffer, and leaves samples of 16 bits; the count is 0 for a bad header.\<close>

theorem adpcm_decode_safe:
  assumes "0 < nch" and "nch \<le> 2" and "inbufsize \<le> length inbuf" and "list_all pcm_ok buf"
    and "nch * (1 + (inbufsize - nch * 4) div (nch * 4) * 8) \<le> length buf"
  shows "\<exists>n out. adpcm_decode_block buf inbuf inbufsize nch = Inr (n, out) \<and> length out = length buf \<and>
    list_all pcm_ok out \<and> (n = 0 \<or> n = 1 + (inbufsize - nch * 4) div (nch * 4) * 8)"
  using assms by (rule decode_block_safe_run)

theorem adpcm_decode_safe_witness:
  "\<exists>n out. adpcm_decode_block (replicate 18 0) (replicate 16 255) 16 2 = Inr (n, out) \<and>
     length out = length (replicate 18 (0 :: int)) \<and>
    list_all pcm_ok out \<and> (n = 0 \<or> n = 1 + (16 - 2 * 4) div (2 * 4) * 8)"
  by (rule adpcm_decode_safe) (simp_all add: pcm_ok_def)

text \<open>C21. The encoder is safe, with any lookahead and noise shaping: for up to two channels it
  reads no sample outside the buffer, also in the lookahead, writes exactly the block's bytes,
  reports their number, and keeps every channel's value in 16 bits and its index in the table.\<close>

theorem adpcm_encode_safe:
  assumes "ctx_ok c" and "0 < n" and "n * num_channels c \<le> length smp" and "list_all pcm_ok smp"
    and "(1 + (n - 1) div 8) * (4 * num_channels c) \<le> length buf"
  shows "\<exists>c' out. adpcm_encode_block c buf smp n =
      Inr (c', out, (1 + (n - 1) div 8) * (4 * num_channels c)) \<and> ctx_ok c' \<and>
    num_channels c' = num_channels c \<and> length out = length buf \<and>
    drop ((1 + (n - 1) div 8) * (4 * num_channels c)) out =
      drop ((1 + (n - 1) div 8) * (4 * num_channels c)) buf"
proof -
  obtain c' bs where r: "adpcm_encode_block c buf smp n =
      Inr (c', write_at buf 0 (block_header c smp @ bs), (1 + (n - 1) div 8) * (4 * num_channels c))"
    "ctx_ok c'" "same_parameters c c'" "length bs = (n - 1) div 8 * (4 * num_channels c)"
    using encode_block_run [OF assms] by blast
  have l: "length (block_header c smp @ bs) = (1 + (n - 1) div 8) * (4 * num_channels c)"
    by (simp add: r(4))
  then have "length (write_at buf 0 (block_header c smp @ bs)) = length buf"
    using assms(5) by (intro length_write_at) (simp only: add_0)
  moreover have "drop (length (block_header c smp @ bs)) (write_at buf 0 (block_header c smp @ bs)) =
      drop (length (block_header c smp @ bs)) buf"
    unfolding write_at_def take_0 append_Nil add_0 by (metis append_eq_conv_conj)
  ultimately show ?thesis using r unfolding l by (auto simp: same_parameters_def)
qed

theorem adpcm_encode_safe_witness:
  "\<exists>c' out. adpcm_encode_block
       \<lparr>channels = [zero_channel, zero_channel], num_channels = 2, lookahead = 5, noise_shaping = 1\<rparr>
       (replicate 20 7) (replicate 18 1000) 9 = Inr (c', out, 16) \<and> ctx_ok c' \<and> length out = 20"
  using adpcm_encode_safe [of "\<lparr>channels = [zero_channel, zero_channel], num_channels = 2, lookahead = 5,
      noise_shaping = 1\<rparr>" 9 "replicate 18 1000" "replicate 20 7"]
  by (auto simp: ctx_ok_def zero_channel_def chan_ok_def pcm_ok_def index_ok_def)

text \<open>The search with lookahead is optimal one level down: although it skips the nibbles whose
  own error is no better than the best sum so far, the nibble it returns has the least sum of
  its own error and the error found behind it, among all 16.\<close>

theorem minimum_error_optimal:
  assumes "chan_ok chan" and "pos + nch * Suc depth < length smp"
  shows "\<exists>e b. minimum_error chan nch csample smp pos (Suc depth) = Inr (e, b) \<and> b < 16 \<and>
    e = path_error chan nch csample smp pos depth b \<and>
    (\<forall>n < 16. e \<le> path_error chan nch csample smp pos depth n)"
proof -
  let ?step = "step_table ! nat (chan_index chan)"
  let ?n = "first_nibble (csample - pcmdata chan) ?step"
  let ?sq = "\<lambda>n. square_error (trial_pcm chan ?step n) csample"
  let ?cost = "path_error chan nch csample smp pos depth"
  let ?look = "\<lambda>n. rbind (rd smp (pos + nch)) (\<lambda>s.
      minimum_error (chan\<lparr>pcmdata := trial_pcm chan ?step n, chan_index := moved_index chan n\<rparr>)
        nch s smp (pos + nch) depth)"
  have step: "step_at (chan_index chan) = Inr ?step" "0 < ?step"
    using assms(1) by (auto simp: chan_ok_def step_at_ok step_pos)
  have room: "pos + nch + nch * depth < length smp" using assms(2) by (simp add: algebra_simps)
  have look: "\<exists>m. ?look n = Inr (?cost n - ?sq n, m) \<and> ?sq n \<le> ?cost n" for n
  proof -
    have "chan_ok (code_nibble chan ?step n)" using trial_ok by (simp add: chan_ok_def code_nibble_def)
    from minimum_error_total [OF this room] obtain e m where
      e: "minimum_error (code_nibble chan ?step n) nch (smp ! (pos + nch)) smp (pos + nch) depth = Inr (e, m)"
      "0 \<le> e" by blast
    then have "?cost n = ?sq n + e" by (simp add: path_error_def Let_def code_nibble_def)
    with e room show ?thesis by (simp add: code_nibble_def)
  qed
  then obtain m where first: "?look ?n = Inr (?cost ?n - ?sq ?n, m)" by blast
  have n: "?n < 16" by (rule first_nibble_range [OF step(2)])
  obtain b where b: "for_list (\<lambda>n2 (min_error, best).
         if n2 = ?n then Inr (min_error, best)
         else if ?sq n2 < min_error then
             rbind (?look n2) (\<lambda>(e2, _).
             if ?sq n2 + e2 < min_error then Inr (?sq n2 + e2, n2) else Inr (min_error, best))
           else Inr (min_error, best)) [0..<16] (?cost ?n, ?n) = Inr (?cost b, b)"
    "b = ?n \<or> b \<in> set [0..<16]" "\<forall>n2 \<in> set [0..<16]. ?cost b \<le> ?cost n2"
    using search_loop_optimal [of "[0..<16]" ?look ?cost ?sq "?cost ?n" ?n ?n, OF look refl order_refl] by blast
  have "minimum_error chan nch csample smp pos (Suc depth) = Inr (?cost b, b)"
    using b(1) unfolding minimum_error.simps step rbind_simps Let_def first prod.case by simp
  moreover have "b < 16" using b(2) n by auto
  ultimately show ?thesis using b(3) by auto
qed

theorem minimum_error_optimal_witness:
  "\<exists>e b. minimum_error zero_channel 1 100 [100, 120, 90] 0 (Suc 1) = Inr (e, b) \<and> b < 16 \<and>
    e = path_error zero_channel 1 100 [100, 120, 90] 0 1 b \<and>
    (\<forall>n < 16. e \<le> path_error zero_channel 1 100 [100, 120, 90] 0 1 n)"
  by (rule minimum_error_optimal) (simp_all add: zero_channel_def chan_ok_def pcm_ok_def index_ok_def)

text \<open>A created context has its channels at rest, with the first index whose midpoint to the
  next step lies above the given delta; so every context a program gets is well formed.\<close>

theorem create_context_ok:
  assumes "n \<le> 2" and "length deltas = 2"
  shows "\<exists>c. adpcm_create_context True n look shaping deltas = Inr c \<and> ctx_ok c \<and> num_channels c = n \<and>
    (\<forall>ch < n. pcmdata (channels c ! ch) = 0 \<and>
       (let i = nat (chan_index (channels c ! ch)) in
        (i = 88 \<or> deltas ! ch < (step_table ! i + step_table ! (i + 1)) div 2) \<and>
        (\<forall>j < i. (step_table ! j + step_table ! (j + 1)) div 2 \<le> deltas ! ch)))"
proof -
  have c: "index_ok (closest_index d) \<and> (let i = nat (closest_index d) in
      (i = 88 \<or> d < (step_table ! i + step_table ! (i + 1)) div 2) \<and>
      (\<forall>j < i. (step_table ! j + step_table ! (j + 1)) div 2 \<le> d))" for d
  proof -
    let ?P = "\<lambda>i. i = 88 \<or> d < (step_table ! i + step_table ! (i + 1)) div 2"
    have "find ?P [0..<89] \<noteq> None"
    proof
      assume "find ?P [0..<89] = None"
      then have "\<forall>i < 89. \<not> ?P i" by (simp add: find_None_iff)
      then show False by (metis lessI eval_nat_numeral(3) numeral_eq_Suc)
    qed
    then obtain i where i: "find ?P [0..<89] = Some i" by blast
    then have "i < 89" "?P i" "\<forall>j < i. \<not> ?P j" by (auto simp: find_Some_iff)
    moreover have "closest_index d = int i" using i by (simp add: closest_index_def)
    ultimately show ?thesis by (auto simp: index_ok_def Let_def not_less)
  qed
  obtain a b where d: "deltas = [a, b]" using assms(2) by (auto simp: numeral_2_eq_2 length_Suc_conv)
  have z: "chan_ok zero_channel" "pcmdata zero_channel = 0"
    by (simp_all add: chan_ok_def zero_channel_def pcm_ok_def index_ok_def)
  have zc: "chan_ok (zero_channel\<lparr>chan_index := closest_index x\<rparr>)" for x
    using z c [of x] by (simp add: chan_ok_def)
  consider "n = 0" | "n = 1" | "n = 2" using assms(1) by linarith
  then show ?thesis
  proof cases
    case 1
    then show ?thesis by (simp add: adpcm_create_context_def ctx_ok_def z)
  next
    case 2
    then show ?thesis using c [of a] by (simp add: adpcm_create_context_def d ctx_ok_def z zc)
  next
    case 3
    have u: "[0..<2] = [0, 1 :: nat]" by (simp add: upt_rec)
    show ?thesis unfolding 3
      using c [of a] c [of b]
      by (simp add: adpcm_create_context_def d ctx_ok_def z zc u less_2_cases_iff all_conj_distrib)
  qed
qed

theorem create_context_ok_witness:
  "\<exists>c. adpcm_create_context True 1 0 0 [20, 0] = Inr c \<and> ctx_ok c \<and> num_channels c = 1"
  using create_context_ok [of 1 "[20, 0]" 0 0] by auto

end
