(* ===== verification/Interrupt.thy ===== *)
theory Interrupt
  imports Prelude
begin

unbundle bit_operations_syntax

text \<open>
  The interrupt controller \<open>drivers/interrupt.c\<close> (the same file in both trees): routing and
  trigger modes of the two banks of 32 lines, the table of handlers, and the service routine
  with its loop over the pending lines. The banks' enable and disable registers set and clear
  bits of the bank's mask. \<open>__rt_ffs\<close> and the timer's handler are kernel functions and stay
  parameters. Line numbers are those of the header, below 64.
\<close>

section \<open>State\<close>

datatype pin_irq_mode =
    PIN_IRQ_MODE_RISING
  | PIN_IRQ_MODE_FALLING
  | PIN_IRQ_MODE_HIGH_LEVEL
  | PIN_IRQ_MODE_LOW_LEVEL
  | PIN_IRQ_MODE_OTHER

record liointc =
  route :: "u8 list"
  en_mask :: u32
  pol :: u32
  edge :: u32
  intisr :: u32       \<comment> \<open>the pending lines, read by the service routine\<close>

text \<open>A handler gets the line and its parameter and works on the rest of the system.\<close>

type_synonym ('p, 's) isr_handler = "nat \<Rightarrow> 'p option \<Rightarrow> 's \<Rightarrow> 's res"

record ('p, 's) irq_desc =
  handler :: "('p, 's) isr_handler option"
  param :: "'p option"

record ('p, 's) intc =
  bank0 :: liointc
  bank1 :: liointc
  irq_handle_table :: "('p, 's) irq_desc list"
  cpu_unmasked :: "nat list"      \<comment> \<open>the lines passed to \<open>mips_unmask_cpu_irq\<close>, last first\<close>

abbreviation (input) MAX_INTR :: nat where "MAX_INTR \<equiv> 64"

definition write_enable :: "u32 \<Rightarrow> liointc \<Rightarrow> liointc" where
  "write_enable v b = b\<lparr>en_mask := en_mask b OR v\<rparr>"

definition write_disable :: "u32 \<Rightarrow> liointc \<Rightarrow> liointc" where
  "write_disable v b = b\<lparr>en_mask := en_mask b AND NOT v\<rparr>"

section \<open>Set-up\<close>

definition LIOINTC_COREx_INTy :: "nat \<Rightarrow> nat \<Rightarrow> u8" where
  "LIOINTC_COREx_INTy x y = push_bit x 1 OR push_bit (y + 4) 1"

definition liointc_init :: "('p, 's) intc \<Rightarrow> ('p, 's) intc" where
  "liointc_init s =
     (let b0 = (bank0 s)\<lparr>route := replicate 32 (LIOINTC_COREx_INTy 0 0)\<rparr>;
          b1 = (bank1 s)\<lparr>route := replicate 32 (LIOINTC_COREx_INTy 0 1)\<rparr>;
          b0 = write_disable 0xffffffff b0;
          b1 = write_disable 0xffffffff b1;
          b0 = b0\<lparr>pol := 0, edge := 0\<rparr>;
          b1 = b1\<lparr>pol := 0, edge := 0\<rparr>
      in s\<lparr>bank0 := b0, bank1 := b1\<rparr>)"

definition rt_hw_interrupt_handler :: "('p, 's) isr_handler" where
  "rt_hw_interrupt_handler vector p s = Inr s"

definition rt_hw_interrupt_init :: "('p, 's) intc \<Rightarrow> ('p, 's) intc" where
  "rt_hw_interrupt_init s =
     liointc_init (s\<lparr>irq_handle_table :=
       replicate MAX_INTR \<lparr>handler = Some rt_hw_interrupt_handler, param = None\<rparr>\<rparr>)"

text \<open>The two lines of each mode: bits or-ed into the polarity and the edge register.\<close>

definition mode_bits :: "pin_irq_mode \<Rightarrow> nat \<Rightarrow> u32 \<times> u32" where
  "mode_bits mode n =
     (case mode of
        PIN_IRQ_MODE_RISING \<Rightarrow> (push_bit n 0, push_bit n 1)
      | PIN_IRQ_MODE_FALLING \<Rightarrow> (push_bit n 1, push_bit n 1)
      | PIN_IRQ_MODE_HIGH_LEVEL \<Rightarrow> (push_bit n 1, push_bit n 0)
      | PIN_IRQ_MODE_LOW_LEVEL \<Rightarrow> (push_bit n 0, push_bit n 0)
      | PIN_IRQ_MODE_OTHER \<Rightarrow> (push_bit n 1, push_bit n 1))"

definition or_mode :: "pin_irq_mode \<Rightarrow> nat \<Rightarrow> liointc \<Rightarrow> liointc" where
  "or_mode mode n b =
     (case mode_bits mode n of (p, e) \<Rightarrow> b\<lparr>pol := pol b OR p, edge := edge b OR e\<rparr>)"

definition liointc_set_irq_mode :: "nat \<Rightarrow> pin_irq_mode \<Rightarrow> ('p, 's) intc \<Rightarrow> ('p, 's) intc" where
  "liointc_set_irq_mode irq mode s =
     (if irq < 32 then s\<lparr>bank0 := or_mode mode irq (bank0 s)\<rparr>
      else s\<lparr>bank1 := or_mode mode (irq - 32) (bank1 s)\<rparr>)"

text \<open>The previous handler, \<open>None\<close> for a vector outside the table.\<close>

definition rt_hw_interrupt_install ::
  "int \<Rightarrow> ('p, 's) isr_handler option \<Rightarrow> 'p option \<Rightarrow> ('p, 's) intc \<Rightarrow>
   ('p, 's) isr_handler option \<times> ('p, 's) intc" where
  "rt_hw_interrupt_install vector h p s =
     (let ok = 0 \<le> vector \<and> vector < int MAX_INTR;
          old = (if ok then handler (irq_handle_table s ! nat vector) else None);
          s1 = (if ok then s\<lparr>irq_handle_table :=
                  (irq_handle_table s)[nat vector := \<lparr>handler = h, param = p\<rparr>]\<rparr> else s);
          ip = (if vector \<le> 32 then 2 else 3)
      in (old, s1\<lparr>cpu_unmasked := ip # cpu_unmasked s1\<rparr>))"

definition rt_hw_interrupt_umask :: "nat \<Rightarrow> ('p, 's) intc \<Rightarrow> ('p, 's) intc" where
  "rt_hw_interrupt_umask irq s =
     (if irq < 32 then s\<lparr>bank0 := write_enable (push_bit irq 1) (bank0 s)\<rparr>
      else if irq < 64 then s\<lparr>bank1 := write_enable (push_bit (irq - 32) 1) (bank1 s)\<rparr>
      else s)"

definition rt_hw_interrupt_mask :: "nat \<Rightarrow> ('p, 's) intc \<Rightarrow> ('p, 's) intc" where
  "rt_hw_interrupt_mask irq s =
     (if irq < 32 then s\<lparr>bank0 := write_disable (push_bit irq 1) (bank0 s)\<rparr>
      else if irq < 64 then s\<lparr>bank1 := write_disable (push_bit (irq - 32) 1) (bank1 s)\<rparr>
      else s)"

section \<open>Service\<close>

text \<open>\<open>while (tmp)\<close>: \<open>None\<close> is a loop that does not end.\<close>

partial_function (option) isr_loop ::
  "(u32 \<Rightarrow> nat) \<Rightarrow> ('p, 's) irq_desc list \<Rightarrow> nat \<Rightarrow> u32 \<Rightarrow> u32 \<Rightarrow> 's \<Rightarrow> 's res option" where
  "isr_loop ffs table irq_base isr tmp s =
     (if tmp = 0 then Some (Inr s)
      else
        let intx = ffs isr - 1;
            tmp' = tmp AND NOT (push_bit intx 1);
            irq = intx + irq_base in
        case rbind (rd table irq) (\<lambda>d.
               case handler d of None \<Rightarrow> Inl NullPtr | Some f \<Rightarrow> f irq (param d) s) of
          Inl e \<Rightarrow> Some (Inl e)
        | Inr s' \<Rightarrow> isr_loop ffs table irq_base isr tmp' s')"

text \<open>The result: the rest of the system, and the bank with the lines enabled again.\<close>

definition liointc_isr ::
  "(u32 \<Rightarrow> nat) \<Rightarrow> ('p, 's) irq_desc list \<Rightarrow> liointc \<Rightarrow> nat \<Rightarrow> 's \<Rightarrow> ('s \<times> liointc) res option" where
  "liointc_isr ffs table b irq_base s =
     (case isr_loop ffs table irq_base (intisr b) (intisr b) s of
        None \<Rightarrow> None
      | Some (Inl e) \<Rightarrow> Some (Inl e)
      | Some (Inr s') \<Rightarrow> Some (Inr (s', write_enable (intisr b) b)))"

definition rt_do_mips_cpu_irq ::
  "(u32 \<Rightarrow> nat) \<Rightarrow> ('s \<Rightarrow> 's res) \<Rightarrow> nat \<Rightarrow> ('p, 's) intc \<Rightarrow> 's \<Rightarrow> ('s \<times> ('p, 's) intc) res option" where
  "rt_do_mips_cpu_irq ffs timer ip c s =
     (if ip = 7 then Some (rbind (timer s) (\<lambda>s'. Inr (s', c)))
      else if ip = 2 then
        map_option (\<lambda>r. rbind r (\<lambda>(s', b). Inr (s', c\<lparr>bank0 := b\<rparr>)))
          (liointc_isr ffs (irq_handle_table c) (bank0 c) 0 s)
      else if ip = 3 then
        map_option (\<lambda>r. rbind r (\<lambda>(s', b). Inr (s', c\<lparr>bank1 := b\<rparr>)))
          (liointc_isr ffs (irq_handle_table c) (bank1 c) 32 s)
      else Some (Inr (s, c)))"

section \<open>The kernel's search for the first set bit\<close>

lemma push_bit_nonzero: "k < 32 \<Longrightarrow> push_bit k (1 :: u32) \<noteq> 0"
proof
  assume "k < 32" and "push_bit k (1 :: u32) = 0"
  moreover from \<open>k < 32\<close> have "bit (push_bit k (1 :: u32)) k" by (simp add: bit_simps)
  ultimately show False by simp
qed

text \<open>Two pending lines: the loop clears the bit of the first of them again and again.\<close>

definition runs_through :: "('p, 's) irq_desc list \<Rightarrow> nat \<Rightarrow> bool" where
  "runs_through table irq \<longleftrightarrow> irq < length table \<and>
     (\<exists>f. handler (table ! irq) = Some f \<and> (\<forall>s. \<exists>s'. f irq (param (table ! irq)) s = Inr s'))"

lemma isr_stuck:
  fixes table :: "('a, 'b) irq_desc list" and s :: 'b
  assumes "isr_loop ffs table base isr tmp s = Some r" and "ffs isr = Suc k"
    and "runs_through table (k + base)" and "tmp AND NOT (push_bit k 1) \<noteq> 0"
  shows False
proof -
  let ?P = "\<lambda>ffs table base isr tmp s r. ffs isr = Suc k \<longrightarrow> runs_through table (k + base) \<longrightarrow>
      tmp AND NOT (push_bit k 1) \<noteq> 0 \<longrightarrow> False"
  have "?P ffs table base isr tmp s r"
  proof (rule isr_loop.raw_induct [where P = ?P, OF _ assms(1)])
    fix loop :: "(u32 \<Rightarrow> nat) \<Rightarrow> ('a, 'b) irq_desc list \<Rightarrow> nat \<Rightarrow> u32 \<Rightarrow> u32 \<Rightarrow> 'b \<Rightarrow> 'b res option"
      and ffs :: "u32 \<Rightarrow> nat" and table :: "('a, 'b) irq_desc list" 
      and base :: nat and isr tmp :: u32 and s :: 'b and y :: "'b res"
    assume ih: "\<And>ffs table base isr tmp s y. loop ffs table base isr tmp s = Some y \<Longrightarrow>
        ?P ffs table base isr tmp s y"
      and step: "(if tmp = 0 then Some (Inr s)
      else let intx = ffs isr - 1; tmp' = tmp AND NOT (push_bit intx 1); irq = intx + base in
           case rbind (rd table irq)
                  (\<lambda>d. case handler d of None \<Rightarrow> Inl NullPtr | Some f \<Rightarrow> f irq (param d) s) of
             Inl e \<Rightarrow> Some (Inl e)
           | Inr s' \<Rightarrow> loop ffs table base isr tmp' s') = Some y"
    show "?P ffs table base isr tmp s y"
    proof (intro impI)
      assume k: "ffs isr = Suc k" and run: "runs_through table (k + base)"
        and two: "tmp AND NOT (push_bit k 1) \<noteq> 0"
      obtain f where f: "handler (table ! (k + base)) = Some f" "k + base < length table"
        "\<And>s. \<exists>s'. f (k + base) (param (table ! (k + base))) s = Inr s'"
        using run by (auto simp: runs_through_def)
      obtain s' where s': "f (k + base) (param (table ! (k + base))) s = Inr s'" using f(3) by blast
      have "tmp \<noteq> 0" using two by auto
      then have "loop ffs table base isr (tmp AND NOT (push_bit k 1)) s' = Some y"
        using step k f s' by (simp add: Let_def)
      from ih [OF this] k run two show False by (simp add: and.assoc)
    qed
  qed
  with assms(2-4) show False by blast
qed

definition rt_ffs :: "u32 \<Rightarrow> nat" where
  "rt_ffs w = (case find (bit w) [0..<32] of None \<Rightarrow> 0 | Some i \<Rightarrow> i + 1)"

lemma rt_ffs_zero: "rt_ffs 0 = 0"
proof -
  have "find (bit (0 :: u32)) xs = None" for xs by (simp add: find_None_iff)
  then show ?thesis by (simp add: rt_ffs_def)
qed

lemma rt_ffs_bit:
  assumes "w \<noteq> 0"
  shows "0 < rt_ffs w \<and> bit w (rt_ffs w - 1) \<and> (\<forall>i < rt_ffs w - 1. \<not> bit w i)"
proof -
  obtain n where n: "bit w n" using assms by (auto simp: bit_eq_iff)
  then have "n < 32" using bit_imp_le_length [of w n] by simp
  with n have "find (bit w) [0..<32] \<noteq> None" by (auto simp: find_None_iff)
  then obtain i where i: "find (bit w) [0..<32] = Some i" by blast
  then have "bit w i" "\<forall>j < i. \<not> bit w j" by (auto simp: find_Some_iff)
  moreover have "rt_ffs w = i + 1" by (simp add: rt_ffs_def i)
  ultimately show ?thesis by simp
qed

locale first_set_bit =
  fixes ffs :: "u32 \<Rightarrow> nat"
  assumes ffs_zero: "ffs 0 = 0"
    and ffs_bit: "w \<noteq> 0 \<Longrightarrow> 0 < ffs w \<and> bit w (ffs w - 1) \<and> (\<forall>i < ffs w - 1. \<not> bit w i)"
begin

lemma ffs_one: "k < 32 \<Longrightarrow> ffs (push_bit k 1) = k + 1"
proof -
  assume k: "k < 32"
  then have "push_bit k (1 :: u32) \<noteq> 0" by (rule push_bit_nonzero)
  then have "0 < ffs (push_bit k 1)" "bit (push_bit k (1 :: u32)) (ffs (push_bit k 1) - 1)"
    using ffs_bit by blast+
  then show "ffs (push_bit k 1) = k + 1" by (auto simp: bit_simps)
qed

text \<open>One pending line: its handler runs once.\<close>

lemma isr_one:
  assumes "k < 32" and "k + base < length table" and "handler (table ! (k + base)) = Some f"
  shows "isr_loop ffs table base (push_bit k 1) (push_bit k 1) s = Some (f (k + base) (param (table ! (k + base))) s)"
proof -
  have nz: "push_bit k (1 :: u32) \<noteq> 0" using assms(1) by (rule push_bit_nonzero)
  have z: "push_bit k (1 :: u32) AND NOT (push_bit k 1) = 0" by simp
  have fin: "isr_loop ffs table base isr 0 s' = Some (Inr s')" for isr s'
    by (simp add: isr_loop.simps)
  show ?thesis
    unfolding isr_loop.simps [of ffs table base "push_bit k 1" "push_bit k 1"] ffs_one [OF assms(1)]
    using nz assms(2,3)
    by (simp only: Let_def diff_add_inverse2 z fin if_False) (simp add: fin split: sum.split)
qed

end

interpretation kernel: first_set_bit rt_ffs
  using rt_ffs_bit by unfold_locales (simp add: rt_ffs_zero, blast)

section \<open>Properties\<close>

definition bank_of :: "nat \<Rightarrow> ('p, 's) intc \<Rightarrow> liointc" where
  "bank_of irq s = (if irq < 32 then bank0 s else bank1 s)"

definition mode_pol :: "pin_irq_mode \<Rightarrow> bool" where
  "mode_pol m \<longleftrightarrow> m \<noteq> PIN_IRQ_MODE_RISING \<and> m \<noteq> PIN_IRQ_MODE_LOW_LEVEL"

definition mode_edge :: "pin_irq_mode \<Rightarrow> bool" where
  "mode_edge m \<longleftrightarrow> m \<noteq> PIN_IRQ_MODE_HIGH_LEVEL \<and> m \<noteq> PIN_IRQ_MODE_LOW_LEVEL"

lemma or_mode_bits [bit_fields]:
  "n < 32 \<Longrightarrow> bit (pol (or_mode m n b)) i \<longleftrightarrow> bit (pol b) i \<or> (i = n \<and> mode_pol m)"
  "n < 32 \<Longrightarrow> bit (edge (or_mode m n b)) i \<longleftrightarrow> bit (edge b) i \<or> (i = n \<and> mode_edge m)"
  by (cases m; auto simp: or_mode_def mode_bits_def mode_pol_def mode_edge_def bit_simps)+

lemma set_mode_bits [bit_fields]:
  "irq < 64 \<Longrightarrow> bit (pol (bank_of irq (liointc_set_irq_mode irq m s))) (irq mod 32) \<longleftrightarrow>
     bit (pol (bank_of irq s)) (irq mod 32) \<or> mode_pol m"
  "irq < 64 \<Longrightarrow> bit (edge (bank_of irq (liointc_set_irq_mode irq m s))) (irq mod 32) \<longleftrightarrow>
     bit (edge (bank_of irq s)) (irq mod 32) \<or> mode_edge m"
  by (auto simp: liointc_set_irq_mode_def bank_of_def or_mode_bits le_mod_geq not_less)

lemma init_modes:
  "pol (bank_of irq (rt_hw_interrupt_init s)) = 0" "edge (bank_of irq (rt_hw_interrupt_init s)) = 0"
  by (simp_all add: rt_hw_interrupt_init_def liointc_init_def bank_of_def Let_def write_disable_def)

lemma isr_one_bank:
  assumes "first_set_bit ffs" and "k < 32" and "intisr b = push_bit k 1" and "k + base < length table"
    and "handler (table ! (k + base)) = Some f"
  shows "liointc_isr ffs table b base s =
    Some (rbind (f (k + base) (param (table ! (k + base))) s)
            (\<lambda>s'. Inr (s', b\<lparr>en_mask := en_mask b OR push_bit k 1\<rparr>)))"
  using first_set_bit.isr_one [OF assms(1,2,4,5)] assms(3)
  by (simp add: liointc_isr_def write_enable_def split: sum.split)

lemma isr_stuck_bank:
  assumes "first_set_bit ffs" and "bit (intisr b) k" and "bit (intisr b) j" and "k < j"
    and "\<forall>i < k. \<not> bit (intisr b) i" and "runs_through table (k + base)"
  shows "liointc_isr ffs table b base s = None"
proof -
  let ?w = "intisr b"
  have "?w \<noteq> 0" using assms(2) by auto
  then have f: "0 < ffs ?w" "bit ?w (ffs ?w - 1)" "\<forall>i < ffs ?w - 1. \<not> bit ?w i"
    using first_set_bit.ffs_bit [OF assms(1)] by auto
  then have "ffs ?w - 1 = k" using assms(2,5) by (metis linorder_neqE_nat)
  then have k: "ffs ?w = Suc k" using f(1) by simp
  have "bit (?w AND NOT (push_bit k 1)) j"
    using assms(3,4) bit_imp_le_length [OF assms(3)] by (simp add: bit_simps)
  then have two: "?w AND NOT (push_bit k 1) \<noteq> 0" by auto
  have "isr_loop ffs table base ?w ?w s = None"
    using isr_stuck [of ffs table base ?w ?w s _ k] k assms(6) two
    by (cases "isr_loop ffs table base ?w ?w s") auto
  then show ?thesis by (simp add: liointc_isr_def)
qed

text \<open>With one line pending on bank 0 or 1 the service routine calls that line's handler once,
  with the line's number and parameter, and then enables the line again.\<close>

theorem isr_serves_one_line:
  assumes "first_set_bit ffs" and "bank = 0 \<or> bank = 1" and "k < 32"
    and "intisr (bank_of (32 * bank) c) = push_bit k 1"
    and "length (irq_handle_table c) = 64"
    and "handler (irq_handle_table c ! (k + 32 * bank)) = Some f"
  shows "rt_do_mips_cpu_irq ffs timer (2 + bank) c s =
    Some (rbind (f (k + 32 * bank) (param (irq_handle_table c ! (k + 32 * bank))) s) (\<lambda>s'.
      Inr (s', if bank = 0
        then c\<lparr>bank0 := (bank0 c)\<lparr>en_mask := en_mask (bank0 c) OR push_bit k 1\<rparr>\<rparr>
        else c\<lparr>bank1 := (bank1 c)\<lparr>en_mask := en_mask (bank1 c) OR push_bit k 1\<rparr>\<rparr>)))"
  using assms(2)
proof
  assume b: "bank = 0"
  show ?thesis
    using isr_one_bank [OF assms(1,3), of "bank0 c" 0 "irq_handle_table c" f s] assms(3-6)
    by (simp add: b rt_do_mips_cpu_irq_def bank_of_def rbind_assoc)
next
  assume b: "bank = 1"
  show ?thesis
    using isr_one_bank [OF assms(1,3), of "bank1 c" 32 "irq_handle_table c" f s] assms(3-6)
    by (simp add: b rt_do_mips_cpu_irq_def bank_of_def rbind_assoc)
qed

definition sample_intc :: "u32 \<Rightarrow> (nat, nat list) intc" where
  "sample_intc w = \<lparr>bank0 = \<lparr>route = [], en_mask = 0, pol = 0, edge = 0, intisr = w\<rparr>,
     bank1 = \<lparr>route = [], en_mask = 0, pol = 0, edge = 0, intisr = w\<rparr>,
     irq_handle_table = replicate 64 \<lparr>handler = Some (\<lambda>irq p s. Inr (irq # s)), param = None\<rparr>,
     cpu_unmasked = []\<rparr>"

theorem isr_serves_one_line_witness:
  "rt_do_mips_cpu_irq rt_ffs Inr 3 (sample_intc (push_bit 28 1)) [] =
     Some (Inr ([60], (sample_intc (push_bit 28 1))\<lparr>bank1 :=
       (bank1 (sample_intc (push_bit 28 1)))\<lparr>en_mask := 0 OR push_bit 28 1\<rparr>\<rparr>))"
  using isr_serves_one_line [OF kernel.first_set_bit_axioms, of 1 28 "sample_intc (push_bit 28 1)"
      "\<lambda>irq p s. Inr (irq # s)" Inr "[]"]
  by (simp add: sample_intc_def bank_of_def)

text \<open>With two or more lines of a bank pending, the service routine never returns when the
  handler of the lowest does: the loop looks for the first bit of the unchanged \<open>isr\<close>, so it
  calls that handler for ever and the other lines never.\<close>

theorem isr_two_lines_never_returns:
  assumes "first_set_bit ffs" and "bank = 0 \<or> bank = 1"
    and "bit (intisr (bank_of (32 * bank) c)) k" and "bit (intisr (bank_of (32 * bank) c)) j" and "k < j"
    and "\<forall>i < k. \<not> bit (intisr (bank_of (32 * bank) c)) i"
    and "runs_through (irq_handle_table c) (k + 32 * bank)"
  shows "rt_do_mips_cpu_irq ffs timer (2 + bank) c s = None"
  using assms(2)
proof
  assume b: "bank = 0"
  show ?thesis
    using isr_stuck_bank [OF assms(1), of "bank0 c" k j "irq_handle_table c" 0 s] assms(3-7)
    by (simp add: b rt_do_mips_cpu_irq_def bank_of_def)
next
  assume b: "bank = 1"
  show ?thesis
    using isr_stuck_bank [OF assms(1), of "bank1 c" k j "irq_handle_table c" 32 s] assms(3-7)
    by (simp add: b rt_do_mips_cpu_irq_def bank_of_def)
qed

theorem isr_two_lines_never_returns_witness:
  "rt_do_mips_cpu_irq rt_ffs Inr 2 (sample_intc 6) [] = None"
proof -
  have b: "bit (6 :: u32) 1" "bit (6 :: u32) 2" "\<not> bit (6 :: u32) 0" by simp_all
  have "rt_do_mips_cpu_irq rt_ffs Inr (2 + 0) (sample_intc 6) [] = None"
    by (rule isr_two_lines_never_returns [OF kernel.first_set_bit_axioms, where k = 1 and j = 2])
      (use b in \<open>simp_all add: sample_intc_def bank_of_def runs_through_def\<close>)
  then show ?thesis by simp
qed

text \<open>After initialisation the first mode set for a line is the one asked for, but a second
  mode is only or-ed to the first: from a falling edge there is no way back to a rising one.\<close>

theorem irq_modes_accumulate:
  assumes "irq < 64"
  shows "let s1 = liointc_set_irq_mode irq m (rt_hw_interrupt_init s); s2 = liointc_set_irq_mode irq m' s1 in
    (bit (pol (bank_of irq s1)) (irq mod 32) \<longleftrightarrow> mode_pol m) \<and>
    (bit (edge (bank_of irq s1)) (irq mod 32) \<longleftrightarrow> mode_edge m) \<and>
    (bit (pol (bank_of irq s2)) (irq mod 32) \<longleftrightarrow> mode_pol m \<or> mode_pol m') \<and>
    (bit (edge (bank_of irq s2)) (irq mod 32) \<longleftrightarrow> mode_edge m \<or> mode_edge m')"
  using assms by (simp add: Let_def set_mode_bits init_modes)

theorem irq_modes_accumulate_witness:
  "bit (pol (bank_of 60 (liointc_set_irq_mode 60 PIN_IRQ_MODE_RISING
     (liointc_set_irq_mode 60 PIN_IRQ_MODE_FALLING (rt_hw_interrupt_init (sample_intc 0)))))) 28"
  using irq_modes_accumulate [of 60 PIN_IRQ_MODE_FALLING "sample_intc 0" PIN_IRQ_MODE_RISING]
  by (simp add: Let_def mode_pol_def)

text \<open>Installing a handler returns the old one, changes no other entry, and opens the CPU line
  of the vector's bank, except that vector 32, the first of bank 1, opens the line of bank 0.\<close>

theorem interrupt_install_correct:
  assumes "0 \<le> vector" and "vector < 64" and "length (irq_handle_table s) = 64"
  shows "\<exists>s'. rt_hw_interrupt_install vector h p s = (handler (irq_handle_table s ! nat vector), s') \<and>
    irq_handle_table s' ! nat vector = \<lparr>handler = h, param = p\<rparr> \<and>
    (\<forall>i. i \<noteq> nat vector \<longrightarrow> irq_handle_table s' ! i = irq_handle_table s ! i) \<and>
    hd (cpu_unmasked s') = (if vector = 32 then 2 else 2 + nat vector div 32)"
proof -
  have "nat vector < 64" using assms(1,2) by (simp add: nat_less_iff)
  moreover have "(if vector \<le> 32 then 2 else 3) = (if vector = 32 then 2 else 2 + nat vector div 32)"
    using assms(1,2) by auto
  ultimately show ?thesis
    using assms by (simp add: rt_hw_interrupt_install_def Let_def)
qed

theorem interrupt_install_correct_witness:
  "\<exists>s'. rt_hw_interrupt_install 32 None (Some 7) (sample_intc 0) =
     (handler (irq_handle_table (sample_intc 0) ! 32), s') \<and> hd (cpu_unmasked s') = 2"
  using interrupt_install_correct [of 32 "sample_intc 0" None "Some 7"]
  by (auto simp: sample_intc_def)

end
