(* ===== verification/Gpio.thy ===== *)
theory Gpio
  imports Interrupt
begin

unbundle bit_operations_syntax

text \<open>
  The GPIO driver \<open>drivers/drv_gpio.c\<close>: pin modes, output and input, and the table of pin
  interrupts over the interrupt controller. The two trees differ in the bound of
  \<open>pin_write\<close> and in the register \<open>pin_read\<close> reads; both are modelled. A callback is a value of
  a type of its own, and the interrupt handler returns the list of callbacks called. The
  handler never initialises \<open>value\<close>: what the stack held there is its parameter \<open>garbage\<close>.
\<close>

section \<open>State\<close>

record loongson_gpio =
  GPIO0_OEN :: u64
  GPIO0_O :: u64
  GPIO0_I :: u64
  GPIO1_I :: u64
  GPIO0_INTEN :: u64

text \<open>Each array of \<open>gpio_irq_def\<close> has 32 entries; a null pointer is \<open>None\<close>.\<close>

record ('h, 'a) gpio_irq_def =
  irq_arg :: "'a option list"
  irq_cb :: "'h option list"
  irq_type :: "pin_irq_mode option list"
  irq_state :: "bool list"

record ('h, 'a, 'p, 's) gpio_sys =
  gpio :: loongson_gpio
  irq_tbl :: "('h, 'a) gpio_irq_def list"
  intc :: "('p, 's) intc"

datatype pin_mode =
    PIN_MODE_OUTPUT
  | PIN_MODE_INPUT
  | PIN_MODE_INPUT_PULLUP
  | PIN_MODE_INPUT_PULLDOWN
  | PIN_MODE_OUTPUT_OD
  | PIN_MODE_UNKNOWN

text \<open>\<open>(rt_uint64_t) 1 << pin\<close>\<close>

definition pin_bit :: "nat \<Rightarrow> u64" where
  "pin_bit pin = push_bit pin 1"

section \<open>Modes and levels\<close>

definition loongson_pin_mode :: "nat \<Rightarrow> pin_mode \<Rightarrow> loongson_gpio \<Rightarrow> loongson_gpio" where
  "loongson_pin_mode pin mode g =
     (case mode of
        PIN_MODE_OUTPUT \<Rightarrow> g\<lparr>GPIO0_OEN := GPIO0_OEN g AND NOT (pin_bit pin)\<rparr>
      | PIN_MODE_INPUT \<Rightarrow> g\<lparr>GPIO0_OEN := GPIO0_OEN g OR pin_bit pin\<rparr>
      | PIN_MODE_INPUT_PULLUP \<Rightarrow> g\<lparr>GPIO0_OEN := GPIO0_OEN g OR pin_bit pin\<rparr>
      | PIN_MODE_INPUT_PULLDOWN \<Rightarrow> g\<lparr>GPIO0_OEN := GPIO0_OEN g OR pin_bit pin\<rparr>
      | PIN_MODE_OUTPUT_OD \<Rightarrow> g\<lparr>GPIO0_OEN := GPIO0_OEN g AND NOT (pin_bit pin)\<rparr>
      | PIN_MODE_UNKNOWN \<Rightarrow> g)"

text \<open>The player's driver rejects pins from 60 on, the recorder's negative pins only.\<close>

definition set_level :: "nat \<Rightarrow> bool \<Rightarrow> loongson_gpio \<Rightarrow> loongson_gpio" where
  "set_level pin value g =
     (if value then g\<lparr>GPIO0_O := GPIO0_O g OR pin_bit pin\<rparr>
      else g\<lparr>GPIO0_O := GPIO0_O g AND NOT (pin_bit pin)\<rparr>)"

definition loongson_pin_write :: "int \<Rightarrow> bool \<Rightarrow> loongson_gpio \<Rightarrow> loongson_gpio" where
  "loongson_pin_write pin value g =
     (if pin < 0 \<or> pin \<ge> 60 then g else set_level (nat pin) value g)"

definition record_pin_write :: "int \<Rightarrow> bool \<Rightarrow> loongson_gpio \<Rightarrow> loongson_gpio" where
  "record_pin_write pin value g =
     (if pin < 0 then g else set_level (nat pin) value g)"

definition loongson_pin_read :: "nat \<Rightarrow> loongson_gpio \<Rightarrow> int" where
  "loongson_pin_read pin g = (if GPIO1_I g AND pin_bit pin \<noteq> 0 then 1 else 0)"

definition record_pin_read :: "nat \<Rightarrow> loongson_gpio \<Rightarrow> int" where
  "record_pin_read pin g = (if GPIO0_I g AND pin_bit pin \<noteq> 0 then 1 else 0)"

section \<open>Pin interrupts\<close>

definition irq_table_index :: "nat \<Rightarrow> nat" where
  "irq_table_index pin = (if pin < 4 then pin else if pin < 32 then 5 else 6)"

definition loongson_pin_attach_irq ::
  "nat \<Rightarrow> pin_irq_mode \<Rightarrow> 'h option \<Rightarrow> 'a option \<Rightarrow> ('h, 'a, 'p, 's) gpio_sys \<Rightarrow>
   ('h, 'a, 'p, 's) gpio_sys res" where
  "loongson_pin_attach_irq pin mode hdr args s =
     (let index = irq_table_index pin in
      rbind (rd (irq_tbl s) index) (\<lambda>t.
      rbind (wr (irq_cb t) pin hdr) (\<lambda>cb.
      rbind (wr (irq_arg t) pin args) (\<lambda>arg.
      rbind (wr (irq_type t) pin (Some mode)) (\<lambda>ty.
      Inr (s\<lparr>irq_tbl := (irq_tbl s)[index := t\<lparr>irq_cb := cb, irq_arg := arg, irq_type := ty\<rparr>],
             intc := liointc_set_irq_mode index mode (intc s),
             gpio := (gpio s)\<lparr>GPIO0_INTEN := GPIO0_INTEN (gpio s) OR pin_bit pin\<rparr>\<rparr>))))))"

definition loongson_pin_detach_irq ::
  "nat \<Rightarrow> ('h, 'a, 'p, 's) gpio_sys \<Rightarrow> ('h, 'a, 'p, 's) gpio_sys res" where
  "loongson_pin_detach_irq pin s =
     (let index = irq_table_index pin in
      rbind (rd (irq_tbl s) index) (\<lambda>t.
      rbind (wr (irq_cb t) pin None) (\<lambda>cb.
      rbind (wr (irq_arg t) pin None) (\<lambda>arg.
      rbind (wr (irq_type t) pin None) (\<lambda>ty.
      rbind (wr (irq_state t) pin False) (\<lambda>st.
      Inr (s\<lparr>irq_tbl := (irq_tbl s)[index :=
        t\<lparr>irq_cb := cb, irq_arg := arg, irq_type := ty, irq_state := st\<rparr>]\<rparr>)))))))"

definition loongson_pin_irq_enable ::
  "nat \<Rightarrow> bool \<Rightarrow> ('h, 'a, 'p, 's) gpio_sys \<Rightarrow> ('h, 'a, 'p, 's) gpio_sys res" where
  "loongson_pin_irq_enable pin enabled s =
     (let index = irq_table_index pin in
      rbind (rd (irq_tbl s) index) (\<lambda>t.
      rbind (wr (irq_state t) pin enabled) (\<lambda>st.
      Inr (s\<lparr>irq_tbl := (irq_tbl s)[index := t\<lparr>irq_state := st\<rparr>]\<rparr>))))"

abbreviation (input) LS2K_GPIO_INTLO_IRQ :: nat where "LS2K_GPIO_INTLO_IRQ \<equiv> 58"
abbreviation (input) LS2K_GPIO_INTHI_IRQ :: nat where "LS2K_GPIO_INTHI_IRQ \<equiv> 59"
abbreviation (input) LS2K_GPIO0_INT_IRQ :: nat where "LS2K_GPIO0_INT_IRQ \<equiv> 60"

definition first_pin :: "nat \<Rightarrow> nat" where
  "first_pin irq =
     (if irq = LS2K_GPIO0_INT_IRQ then 0 else if irq = 61 then 1 else if irq = 62 then 2
      else if irq = 63 then 3 else if irq = LS2K_GPIO_INTLO_IRQ then 4 else 32)"

text \<open>\<open>while (value)\<close>, with the callbacks called so far.\<close>

function irq_scan ::
  "('h, 'a) gpio_irq_def \<Rightarrow> nat \<Rightarrow> u32 \<Rightarrow> ('h \<times> 'a option) list \<Rightarrow> ('h \<times> 'a option) list res" where
  "irq_scan t pin value calls =
     (if value = 0 then Inr calls
      else
        rbind (if bit value 0 then rd (irq_cb t) pin else Inr None) (\<lambda>cb.
        rbind (case cb of
                 None \<Rightarrow> Inr calls
               | Some h \<Rightarrow>
                   rbind (rd (irq_state t) pin) (\<lambda>on.
                   if on then rbind (rd (irq_arg t) pin) (\<lambda>a. Inr (calls @ [(h, a)]))
                   else Inr calls))
          (\<lambda>calls'. irq_scan t (pin + 1) (drop_bit 1 value) calls')))"
  by pat_completeness auto
termination
proof (relation "measure (\<lambda>(t, pin, v, calls). unat v)", goal_cases)
  case (2 t pin v calls cb calls')
  then have "0 < unat v" by (simp add: unat_gt_0)
  moreover have "unat (drop_bit 1 v) = unat v div 2"
    by (simp add: drop_bit_eq_div unat_div)
  ultimately show ?case by simp
qed simp

declare irq_scan.simps [simp del]

definition gpio_irq_handler ::
  "u32 \<Rightarrow> nat \<Rightarrow> ('h, 'a) gpio_irq_def \<Rightarrow> ('h \<times> 'a option) list res" where
  "gpio_irq_handler garbage irq irq_def = irq_scan irq_def (first_pin irq) garbage []"

text \<open>The table entry \<open>loongson_pin_init\<close> installs the handler of a line with.\<close>

definition installed_table :: "nat \<Rightarrow> nat" where
  "installed_table irq =
     (if irq = LS2K_GPIO_INTLO_IRQ then 4 else if irq = LS2K_GPIO_INTHI_IRQ then 5 else irq - 60)"

definition loongson_pin_init ::
  "(nat \<Rightarrow> ('p, 's) isr_handler) \<Rightarrow> (nat \<Rightarrow> 'p) \<Rightarrow> ('p, 's) intc \<Rightarrow> ('p, 's) intc" where
  "loongson_pin_init gpio_handler tbl_addr c =
     foldl (\<lambda>c irq. rt_hw_interrupt_umask irq
         (snd (rt_hw_interrupt_install (int irq) (Some (gpio_handler irq))
                 (Some (tbl_addr (installed_table irq))) c)))
       c [60, 61, 62, 63, LS2K_GPIO_INTLO_IRQ, LS2K_GPIO_INTHI_IRQ]"

section \<open>Well-formed tables\<close>

definition table_ok :: "('h, 'a) gpio_irq_def \<Rightarrow> bool" where
  "table_ok t \<longleftrightarrow> length (irq_arg t) = 32 \<and> length (irq_cb t) = 32 \<and> length (irq_type t) = 32 \<and>
     length (irq_state t) = 32"

definition tables_ok :: "('h, 'a, 'p, 's) gpio_sys \<Rightarrow> bool" where
  "tables_ok s \<longleftrightarrow> length (irq_tbl s) = 64 \<and> list_all table_ok (irq_tbl s)"

definition silent_table :: "('h, 'a) gpio_irq_def \<Rightarrow> bool" where
  "silent_table t \<longleftrightarrow> table_ok t \<and> (\<forall>p < 32. irq_cb t ! p = None)"

lemma index_less: "irq_table_index pin < 64"
  by (simp add: irq_table_index_def)

lemma table_at: "tables_ok s \<Longrightarrow> i < 64 \<Longrightarrow> table_ok (irq_tbl s ! i)"
  by (simp add: tables_ok_def list_all_length)

definition attached :: "nat \<Rightarrow> pin_irq_mode \<Rightarrow> 'h option \<Rightarrow> 'a option \<Rightarrow> ('h, 'a) gpio_irq_def \<Rightarrow> ('h, 'a) gpio_irq_def" where
  "attached pin mode h a t = t\<lparr>irq_cb := (irq_cb t)[pin := h], irq_arg := (irq_arg t)[pin := a],
     irq_type := (irq_type t)[pin := Some mode]\<rparr>"

lemma attach_run:
  assumes "tables_ok s"
  shows "loongson_pin_attach_irq pin mode h a s =
    (if pin < 32 then Inr (s\<lparr>irq_tbl := (irq_tbl s)[irq_table_index pin :=
         attached pin mode h a (irq_tbl s ! irq_table_index pin)],
       intc := liointc_set_irq_mode (irq_table_index pin) mode (intc s),
       gpio := (gpio s)\<lparr>GPIO0_INTEN := GPIO0_INTEN (gpio s) OR pin_bit pin\<rparr>\<rparr>)
     else Inl OobWrite)"
  using assms table_at [OF assms index_less, of pin] index_less [of pin]
  by (simp add: loongson_pin_attach_irq_def Let_def tables_ok_def table_ok_def attached_def)

lemma enable_run:
  assumes "tables_ok s" and "pin < 32"
  shows "loongson_pin_irq_enable pin e s =
    Inr (s\<lparr>irq_tbl := (irq_tbl s)[irq_table_index pin :=
       (irq_tbl s ! irq_table_index pin)\<lparr>irq_state := (irq_state (irq_tbl s ! irq_table_index pin))[pin := e]\<rparr>]\<rparr>)"
  using assms table_at [OF assms(1) index_less, of pin] index_less [of pin]
  by (simp add: loongson_pin_irq_enable_def Let_def tables_ok_def table_ok_def)

lemma attached_ok: "table_ok t \<Longrightarrow> table_ok (attached pin mode h a t)"
  by (simp add: table_ok_def attached_def)

lemma tables_ok_update: "tables_ok s \<Longrightarrow> table_ok t \<Longrightarrow> irq_tbl s' = (irq_tbl s)[i := t] \<Longrightarrow> tables_ok s'"
  by (auto simp: tables_ok_def list_all_iff dest!: set_update_subset_insert [THEN subsetD])

text \<open>A scan over empty slots calls nothing.\<close>

lemma irq_scan_empty:
  assumes "unat v < 2 ^ n" and "pin + n \<le> 32" and "table_ok t"
    and "\<And>p. pin \<le> p \<Longrightarrow> p < 32 \<Longrightarrow> irq_cb t ! p = None"
  shows "irq_scan t pin v calls = Inr calls"
  using assms(1,2,4)
proof (induction n arbitrary: pin v)
  case 0
  then have "v = 0" by (simp add: unat_eq_zero)
  then show ?case by (simp add: irq_scan.simps)
next
  case (Suc n)
  have d: "unat (drop_bit 1 v) < 2 ^ n"
    using Suc.prems(1) by (simp add: drop_bit_eq_div unat_div)
  have "irq_scan t (pin + 1) (drop_bit 1 v) calls = Inr calls"
    using Suc.IH [OF d, of "pin + 1"] Suc.prems by simp
  moreover have "rd (irq_cb t) pin = Inr None"
    using assms(3) Suc.prems(2,3) by (simp add: table_ok_def)
  ultimately show ?case by (subst irq_scan.simps) simp
qed

text \<open>What a scan calls in general. A set bit beyond the last slot is a read outside the arrays;
  without one, the slots whose bit is set are called in order, if they hold a callback and are
  enabled.\<close>

definition called_at :: "('h, 'a) gpio_irq_def \<Rightarrow> bool \<Rightarrow> nat \<Rightarrow> ('h \<times> 'a option) list" where
  "called_at t b p =
     (case irq_cb t ! p of
        None \<Rightarrow> []
      | Some h \<Rightarrow> if b \<and> irq_state t ! p then [(h, irq_arg t ! p)] else [])"

definition called_from :: "('h, 'a) gpio_irq_def \<Rightarrow> nat \<Rightarrow> u32 \<Rightarrow> ('h \<times> 'a option) list" where
  "called_from t pin v = concat (map (\<lambda>p. called_at t (bit v (p - pin)) p) [pin..<32])"

lemma called_from_Suc:
  assumes "pin < 32"
  shows "called_from t pin v = called_at t (bit v 0) pin @ called_from t (pin + 1) (drop_bit 1 v)"
proof -
  have "map (\<lambda>p. called_at t (bit v (p - pin)) p) [Suc pin..<32] =
      map (\<lambda>p. called_at t (bit (drop_bit 1 v) (p - (pin + 1))) p) [Suc pin..<32]"
    by (rule map_cong) (simp_all add: bit_drop_bit_eq Suc_diff_Suc)
  from arg_cong [OF this, of concat] show ?thesis
    unfolding called_from_def upt_conv_Cons [OF assms] list.map concat.simps diff_self_eq_0
    by (simp only: Suc_eq_plus1)
qed

lemma irq_scan_beyond:
  assumes "table_ok t" and "32 \<le> pin" and "v \<noteq> 0"
  shows "irq_scan t pin v calls = Inl OobRead"
  using assms(2,3)
proof (induction "unat v" arbitrary: pin v rule: less_induct)
  case less
  show ?case
  proof (cases "bit v 0")
    case True
    then show ?thesis
      using less.prems assms(1) by (subst irq_scan.simps) (simp add: table_ok_def rd_def)
  next
    case False
    have u: "unat (drop_bit 1 v) = unat v div 2" by (simp add: drop_bit_eq_div unat_div)
    have "drop_bit 1 v \<noteq> 0"
    proof
      assume z: "drop_bit 1 v = 0"
      have "v = 0"
      proof (rule bit_word_eqI)
        fix n assume "n < LENGTH(32)"
        show "bit v n = bit (0 :: u32) n"
          using False arg_cong [OF z, of "\<lambda>w. bit w (n - 1)"] by (cases n) (simp_all add: bit_drop_bit_eq)
      qed
      with less.prems(2) show False by simp
    qed
    moreover have "unat (drop_bit 1 v) < unat v"
      using less.prems(2) u by (simp add: unat_gt_0)
    ultimately have "irq_scan t (pin + 1) (drop_bit 1 v) calls = Inl OobRead"
      using less.hyps [of "drop_bit 1 v" "pin + 1"] less.prems(1) by simp
    then show ?thesis using False less.prems(2) by (subst irq_scan.simps) simp
  qed
qed

lemma irq_scan_runs:
  assumes "table_ok t" and "pin \<le> 32"
  shows "irq_scan t pin v calls =
    (if drop_bit (32 - pin) v \<noteq> 0 then Inl OobRead else Inr (calls @ called_from t pin v))"
  using assms(2)
proof (induction "32 - pin" arbitrary: pin v calls)
  case 0
  then have "pin = 32" by simp
  then show ?case
    using irq_scan_beyond [OF assms(1), of pin v] by (cases "v = 0") (simp_all add: irq_scan.simps called_from_def)
next
  case (Suc n)
  have pin: "pin < 32" using Suc.hyps(2) by simp
  have d: "drop_bit (32 - (pin + 1)) (drop_bit 1 v) = drop_bit (32 - pin) v"
  proof -
    have "32 - (pin + 1) + 1 = 32 - pin" using pin by simp
    then show ?thesis by (simp only: drop_bit_drop_bit)
  qed
  have next_slot: "irq_scan t (pin + 1) (drop_bit 1 v) cs =
      (if drop_bit (32 - pin) v \<noteq> 0 then Inl OobRead
       else Inr (cs @ called_from t (pin + 1) (drop_bit 1 v)))" for cs
    using Suc.hyps(1) [of "pin + 1" "drop_bit 1 v" cs] Suc.hyps(2) pin d by simp
  have "called_from t pin 0 = []" by (simp add: called_from_def called_at_def split: option.splits)
  moreover have "rd (irq_cb t) pin = Inr (irq_cb t ! pin)" "rd (irq_state t) pin = Inr (irq_state t ! pin)"
    "rd (irq_arg t) pin = Inr (irq_arg t ! pin)"
    using assms(1) pin by (simp_all add: table_ok_def)
  ultimately show ?case
    by (subst irq_scan.simps)
      (simp add: next_slot [unfolded One_nat_def add_Suc_right add_0_right] called_from_Suc [OF pin]
        called_at_def split: option.splits)
qed

section \<open>Properties\<close>

text \<open>C40. The interrupt of one of the pins 0 to 3, after its callback was attached and enabled, on
  any well-formed tables and whatever the stack left in the handler's uninitialised \<open>value\<close>: the
  handler of the pin's own line, called with the table installed for it, takes \<open>value\<close> for the
  pending pins. If one of the top \<open>pin\<close> bits is set (bit 31 for pin 1, bits 29 to 31 for pin 3) it
  reads outside the 32 slots. Otherwise it calls the pin's callback, once and with its own argument,
  if and only if bit 0 happens to be set, and after it the enabled callbacks left in the slots above
  the pin whose bits are set; the register of the controller plays no part.\<close>

theorem gpio_low_pin_dispatch:
  assumes "tables_ok s" and "pin < 4"
  shows "\<exists>s1 s2. loongson_pin_attach_irq pin mode (Some h) a s = Inr s1 \<and>
    loongson_pin_irq_enable pin True s1 = Inr s2 \<and>
    (\<forall>garbage. gpio_irq_handler garbage (60 + pin) (irq_tbl s2 ! installed_table (60 + pin)) =
      (if drop_bit (32 - pin) garbage \<noteq> 0 then Inl OobRead
       else Inr ((if bit garbage 0 then [(h, a)] else []) @
                 called_from (irq_tbl s ! pin) (pin + 1) (drop_bit 1 garbage))))"
proof -
  let ?t = "attached pin mode (Some h) a (irq_tbl s ! pin)"
  let ?s1 = "s\<lparr>irq_tbl := (irq_tbl s)[pin := ?t], intc := liointc_set_irq_mode pin mode (intc s),
       gpio := (gpio s)\<lparr>GPIO0_INTEN := GPIO0_INTEN (gpio s) OR pin_bit pin\<rparr>\<rparr>"
  have i: "irq_table_index pin = pin" using assms(2) by (simp add: irq_table_index_def)
  have len: "pin < length (irq_tbl s)" using assms by (simp add: tables_ok_def)
  have ok: "table_ok (irq_tbl s ! pin)" using table_at [OF assms(1), of pin] assms(2) by simp
  have a: "loongson_pin_attach_irq pin mode (Some h) a s = Inr ?s1"
    using attach_run [OF assms(1), of pin mode "Some h" a] assms(2) i by simp
  have ok1: "tables_ok ?s1" by (rule tables_ok_update [OF assms(1) attached_ok [OF ok]]) simp
  let ?u = "?t\<lparr>irq_state := (irq_state ?t)[pin := True]\<rparr>"
  obtain s2 where e: "loongson_pin_irq_enable pin True ?s1 = Inr s2" "irq_tbl s2 ! pin = ?u"
    using enable_run [OF ok1, of pin True] assms(2) i len by auto
  have u: "table_ok ?u" using attached_ok [OF ok, of pin mode "Some h" a] by (simp add: table_ok_def)
  have "called_at ?u b pin = (if b then [(h, a)] else [])" for b
    using ok assms(2) by (simp add: called_at_def attached_def table_ok_def)
  moreover have "called_from ?u (pin + 1) v = called_from (irq_tbl s ! pin) (pin + 1) v" for v
    unfolding called_from_def by (rule arg_cong [of _ _ concat]) (auto simp: called_at_def attached_def split: option.splits)
  ultimately have "called_from ?u pin garbage = (if bit garbage 0 then [(h, a)] else []) @
      called_from (irq_tbl s ! pin) (pin + 1) (drop_bit 1 garbage)" for garbage
    using called_from_Suc [of pin ?u garbage] assms(2) by simp
  then have "irq_scan ?u pin garbage [] =
      (if drop_bit (32 - pin) garbage \<noteq> 0 then Inl OobRead
       else Inr ((if bit garbage 0 then [(h, a)] else []) @
                 called_from (irq_tbl s ! pin) (pin + 1) (drop_bit 1 garbage)))" for garbage
    using irq_scan_runs [OF u, of pin garbage "[]"] assms(2) by simp
  moreover have "first_pin (60 + pin) = pin"
    using assms(2) by (auto simp: first_pin_def)
  moreover have "installed_table (60 + pin) = pin" by (simp add: installed_table_def)
  ultimately show ?thesis using a e by (simp add: gpio_irq_handler_def)
qed

definition empty_table :: "(nat, nat) gpio_irq_def" where
  "empty_table = \<lparr>irq_arg = replicate 32 None, irq_cb = replicate 32 None,
     irq_type = replicate 32 None, irq_state = replicate 32 False\<rparr>"

definition sample_gpio :: "(nat, nat, nat, nat list) gpio_sys" where
  "sample_gpio = \<lparr>gpio = \<lparr>GPIO0_OEN = 0, GPIO0_O = 0, GPIO0_I = 0, GPIO1_I = 0, GPIO0_INTEN = 0\<rparr>,
     irq_tbl = replicate 64 empty_table, intc = sample_intc 0\<rparr>"

lemma sample_ok: "tables_ok sample_gpio" "silent_table empty_table"
  by (simp_all add: tables_ok_def sample_gpio_def silent_table_def table_ok_def empty_table_def
      list_all_length)

text \<open>One and the same interrupt of pin 2, with three contents of the stack.\<close>

theorem gpio_low_pin_dispatch_witness:
  "\<exists>s1 s2. loongson_pin_attach_irq 2 PIN_IRQ_MODE_FALLING (Some 11) (Some 5) sample_gpio = Inr s1 \<and>
    loongson_pin_irq_enable 2 True s1 = Inr s2 \<and>
    gpio_irq_handler 1 (60 + 2) (irq_tbl s2 ! installed_table (60 + 2)) = Inr [(11, Some 5)] \<and>
    gpio_irq_handler 0 (60 + 2) (irq_tbl s2 ! installed_table (60 + 2)) = Inr [] \<and>
    gpio_irq_handler 0x40000001 (60 + 2) (irq_tbl s2 ! installed_table (60 + 2)) = Inl OobRead"
proof -
  have none: "called_from empty_table n v = []" for n v
    by (simp add: called_from_def called_at_def empty_table_def)
  obtain s1 s2 where "loongson_pin_attach_irq 2 PIN_IRQ_MODE_FALLING (Some 11) (Some 5) sample_gpio = Inr s1"
    "loongson_pin_irq_enable 2 True s1 = Inr s2"
    "\<And>g. gpio_irq_handler g (60 + 2) (irq_tbl s2 ! installed_table (60 + 2)) =
      (if drop_bit 30 g \<noteq> 0 then Inl OobRead else Inr (if bit g 0 then [(11, Some 5)] else []))"
    using gpio_low_pin_dispatch [OF sample_ok(1), of 2 PIN_IRQ_MODE_FALLING 11 "Some 5"] none
    by (auto simp: sample_gpio_def)
  then show ?thesis by (intro exI [of _ s1] exI [of _ s2] conjI) simp_all
qed

text \<open>For the pins 4 to 31 callbacks are stored in table 5 but the line they share is served
  with table 4: attaching and enabling one leaves table 4 as it was, and the handler of the
  line calls nothing.\<close>

theorem gpio_bank_pin_not_delivered:
  assumes "tables_ok s" and "4 \<le> pin" and "pin < 32" and "silent_table (irq_tbl s ! 4)"
    and "unat garbage < 2 ^ 28"
  shows "\<exists>s1 s2. loongson_pin_attach_irq pin mode (Some h) a s = Inr s1 \<and>
    loongson_pin_irq_enable pin True s1 = Inr s2 \<and>
    irq_cb (irq_tbl s2 ! 5) ! pin = Some h \<and>
    gpio_irq_handler garbage 58 (irq_tbl s2 ! installed_table 58) = Inr []"
proof -
  have i: "irq_table_index pin = 5" using assms(2,3) by (simp add: irq_table_index_def)
  have len: "length (irq_tbl s) = 64" using assms(1) by (simp add: tables_ok_def)
  have ok5: "table_ok (irq_tbl s ! 5)" by (rule table_at [OF assms(1)]) simp
  let ?t = "attached pin mode (Some h) a (irq_tbl s ! 5)"
  let ?s1 = "s\<lparr>irq_tbl := (irq_tbl s)[5 := ?t], intc := liointc_set_irq_mode 5 mode (intc s),
       gpio := (gpio s)\<lparr>GPIO0_INTEN := GPIO0_INTEN (gpio s) OR pin_bit pin\<rparr>\<rparr>"
  have a: "loongson_pin_attach_irq pin mode (Some h) a s = Inr ?s1"
    using attach_run [OF assms(1), of pin mode "Some h" a] assms(3) i by simp
  have ok1: "tables_ok ?s1" by (rule tables_ok_update [OF assms(1) attached_ok [OF ok5]]) simp
  obtain s2 where e: "loongson_pin_irq_enable pin True ?s1 = Inr s2" "irq_tbl s2 ! 4 = irq_tbl s ! 4"
    "irq_cb (irq_tbl s2 ! 5) = irq_cb ?t"
    using enable_run [OF ok1 assms(3), of True] i len by simp
  have "irq_scan (irq_tbl s ! 4) 4 garbage [] = Inr []"
    using irq_scan_empty [OF assms(5), of 4 "irq_tbl s ! 4"] assms(4) by (simp add: silent_table_def)
  moreover have "irq_cb ?t ! pin = Some h" using ok5 assms(3) by (simp add: attached_def table_ok_def)
  ultimately show ?thesis
    using a e by (simp add: gpio_irq_handler_def installed_table_def first_pin_def)
qed

theorem gpio_bank_pin_not_delivered_witness:
  "\<exists>s1 s2. loongson_pin_attach_irq 10 PIN_IRQ_MODE_RISING (Some 3) None sample_gpio = Inr s1 \<and>
    loongson_pin_irq_enable 10 True s1 = Inr s2 \<and> irq_cb (irq_tbl s2 ! 5) ! 10 = Some 3 \<and>
    gpio_irq_handler 64 58 (irq_tbl s2 ! installed_table 58) = Inr []"
  using gpio_bank_pin_not_delivered [OF sample_ok(1), of 10 64 PIN_IRQ_MODE_RISING 3 None] sample_ok(2)
  by (simp add: sample_gpio_def)

text \<open>Attaching sets the mode of one of the lines 0 to 6 of the interrupt controller, those of
  the UARTs and their neighbours: the lines of the GPIO pins, all in bank 1, keep theirs. A pin
  from 32 on is written outside the arrays of 32 entries.\<close>

theorem gpio_attach_mode_line:
  assumes "tables_ok s"
  shows "case loongson_pin_attach_irq pin mode h a s of
      Inl e \<Rightarrow> 32 \<le> pin \<and> e = OobWrite
    | Inr s' \<Rightarrow> pin < 32 \<and> bank1 (intc s') = bank1 (intc s) \<and>
        bank0 (intc s') = or_mode mode (irq_table_index pin) (bank0 (intc s)) \<and> tables_ok s' \<and>
        GPIO0_INTEN (gpio s') = GPIO0_INTEN (gpio s) OR pin_bit pin"
proof (cases "pin < 32")
  case True
  let ?t = "attached pin mode h a (irq_tbl s ! irq_table_index pin)"
  have "irq_table_index pin < 32" by (simp add: irq_table_index_def)
  moreover have "table_ok ?t" by (rule attached_ok [OF table_at [OF assms index_less]])
  moreover define s' where "s' = s\<lparr>irq_tbl := (irq_tbl s)[irq_table_index pin := ?t],
    intc := liointc_set_irq_mode (irq_table_index pin) mode (intc s),
    gpio := (gpio s)\<lparr>GPIO0_INTEN := GPIO0_INTEN (gpio s) OR pin_bit pin\<rparr>\<rparr>"
  then have s': "loongson_pin_attach_irq pin mode h a s = Inr s'"
    "irq_tbl s' = (irq_tbl s)[irq_table_index pin := ?t]"
    "intc s' = liointc_set_irq_mode (irq_table_index pin) mode (intc s)"
    "gpio s' = (gpio s)\<lparr>GPIO0_INTEN := GPIO0_INTEN (gpio s) OR pin_bit pin\<rparr>"
    using attach_run [OF assms, of pin mode h a] True by simp_all
  ultimately have "tables_ok s'" using tables_ok_update [OF assms] by blast
  with s' \<open>irq_table_index pin < 32\<close> True show ?thesis by (simp add: liointc_set_irq_mode_def)
next
  case False
  then show ?thesis using attach_run [OF assms, of pin mode h a] by simp
qed

theorem gpio_attach_mode_line_witness:
  "loongson_pin_attach_irq 40 PIN_IRQ_MODE_RISING (Some 3) None sample_gpio = Inl OobWrite"
  using gpio_attach_mode_line [OF sample_ok(1), of 40 PIN_IRQ_MODE_RISING "Some 3" None]
  by (auto split: sum.splits)

text \<open>Output: for a pin below 60 the player's \<open>pin_write\<close> sets exactly the level bit of the
  pin, for other pins it changes nothing; the direction register is changed by \<open>pin_mode\<close> only,
  in the pin's bit. The player reads levels from the register the header reserves, so an input
  level in \<open>GPIO0_I\<close> is never seen, unlike in the recorder's driver.\<close>

theorem gpio_levels:
  "(\<forall>i < 64. bit (GPIO0_O (loongson_pin_write pin v g)) i \<longleftrightarrow>
      (if int i = pin \<and> pin < 60 then v else bit (GPIO0_O g) i)) \<and>
   GPIO0_OEN (loongson_pin_write pin v g) = GPIO0_OEN g \<and>
   (\<forall>i < 64. bit (GPIO0_OEN (loongson_pin_mode p mode g)) i \<longleftrightarrow>
      (if i = p \<and> mode \<noteq> PIN_MODE_UNKNOWN
       then mode \<noteq> PIN_MODE_OUTPUT \<and> mode \<noteq> PIN_MODE_OUTPUT_OD else bit (GPIO0_OEN g) i)) \<and>
   (p < 64 \<longrightarrow> record_pin_read p g = of_bool (bit (GPIO0_I g) p)) \<and>
   (p < 64 \<longrightarrow> loongson_pin_read p g = of_bool (bit (GPIO1_I g) p))"
proof -
  have lt64: "n < 64" if "bit (x :: u64) n" for x n using bit_imp_le_length [OF that] by simp
  have nz: "w AND pin_bit p \<noteq> 0 \<longleftrightarrow> bit w p" if "p < 64" for w
  proof -
    have "w AND pin_bit p \<noteq> 0 \<longleftrightarrow> (\<exists>n. bit (w AND pin_bit p) n)" using lt64 by (auto simp: bit_eq_iff)
    then show ?thesis using that by (auto simp: pin_bit_def bit_simps)
  qed
  have out: "bit (GPIO0_O (loongson_pin_write pin v g)) i \<longleftrightarrow>
      (if int i = pin \<and> pin < 60 then v else bit (GPIO0_O g) i)" if "i < 64" for i
    using that by (auto simp: loongson_pin_write_def set_level_def pin_bit_def bit_simps)
  have oen: "bit (GPIO0_OEN (loongson_pin_mode p mode g)) i \<longleftrightarrow>
      (if i = p \<and> mode \<noteq> PIN_MODE_UNKNOWN
       then mode \<noteq> PIN_MODE_OUTPUT \<and> mode \<noteq> PIN_MODE_OUTPUT_OD else bit (GPIO0_OEN g) i)"
    if "i < 64" for i
    using that by (cases mode) (auto simp: loongson_pin_mode_def pin_bit_def bit_simps)
  have "GPIO0_OEN (loongson_pin_write pin v g) = GPIO0_OEN g"
    by (simp add: loongson_pin_write_def set_level_def)
  with out oen nz show ?thesis by (simp add: record_pin_read_def loongson_pin_read_def)
qed

theorem gpio_levels_witness:
  "record_pin_read 7 \<lparr>GPIO0_OEN = 0, GPIO0_O = 0, GPIO0_I = 128, GPIO1_I = 0, GPIO0_INTEN = 0\<rparr> = 1 \<and>
   loongson_pin_read 7 \<lparr>GPIO0_OEN = 0, GPIO0_O = 0, GPIO0_I = 128, GPIO1_I = 0, GPIO0_INTEN = 0\<rparr> = 0"
  using gpio_levels [of 0 True "\<lparr>GPIO0_OEN = 0, GPIO0_O = 0, GPIO0_I = 128, GPIO1_I = 0, GPIO0_INTEN = 0\<rparr>"
      7 PIN_MODE_INPUT] by simp

end
