(* ===== verification/Rtc.thy ===== *)
theory Rtc
  imports Prelude
begin

text \<open>
  The real-time clock driver (\<open>ls2kdev_record/drivers/drv_rtc.c\<close>; the play tree has the
  same code): the bit fields of the time-of-year counter, the conversions between its two
  registers and a \<open>struct tm\<close>, and the device's control operation. The C library's
  \<open>localtime\<close> and \<open>mktime\<close> are arguments of the definitions.
\<close>

section \<open>Registers and bit fields\<close>

record loongson_rtc =
  sys_toytrim :: u32
  sys_toywrite0 :: u32
  sys_toywrite1 :: u32
  hw_toyread0 :: u32
  hw_toyread1 :: u32
  sys_toymatch0 :: u32
  sys_toymatch1 :: u32
  sys_toymatch2 :: u32
  sys_rtcctrl :: u32
  pad4 :: "u32 list"
  pad5 :: "u32 list"
  sys_rtctrim :: u32
  sys_rtcwrite0 :: u32
  hw_rtcread0 :: u32
  sys_rtcmatch0 :: u32
  sys_rtcmatch1 :: u32
  sys_rtcmatch2 :: u32

text \<open>\<open>M\<close>, \<open>RBF\<close> and \<open>BF1\<close> are the macros \<open>__M\<close>, \<open>__RBF\<close> and \<open>__BF\<close>.\<close>

definition M :: "nat \<Rightarrow> u32" where
  "M n = NOT (push_bit n (NOT 0))"

definition RBF :: "u32 \<Rightarrow> nat \<Rightarrow> u32" where
  "RBF number n = number AND M n"

definition BF1 :: "u32 \<Rightarrow> nat \<Rightarrow> nat \<Rightarrow> u32" where
  "BF1 number n m = RBF (drop_bit m number) (n - m + 1)"

definition BF :: "u32 \<Rightarrow> nat \<Rightarrow> nat \<Rightarrow> u32" where
  "BF number n m = (if m < n then BF1 number n m else BF1 number m n)"

text \<open>The members of \<open>struct tm\<close>.\<close>

record tm =
  tm_sec :: int
  tm_min :: int
  tm_hour :: int
  tm_mday :: int
  tm_mon :: int
  tm_year :: int
  tm_wday :: int
  tm_yday :: int
  tm_isdst :: int

record rtctime =
  sys_toyread0 :: u32
  sys_toyread1 :: u32
  sys_rtcread0 :: u32

section \<open>Conversions\<close>

text \<open>
  The result of \<open>localrtctime\<close> is a static object: the members it does not assign keep
  the zero they were initialised with.
\<close>

definition localrtctime :: "rtctime \<Rightarrow> tm" where
  "localrtctime r =
     \<lparr>tm_sec = uint (BF (sys_toyread0 r) 9 4),
      tm_min = uint (BF (sys_toyread0 r) 15 10),
      tm_hour = uint (BF (sys_toyread0 r) 20 16),
      tm_mday = uint (BF (sys_toyread0 r) 21 25),
      tm_mon = uint (BF (sys_toyread0 r) 26 31) - 1,
      tm_year = sint (sys_toyread1 r),
      tm_wday = 0, tm_yday = 0, tm_isdst = 0\<rparr>"

text \<open>One step of packing: shift the word and or the next field into it.\<close>

definition pack :: "nat \<Rightarrow> int \<Rightarrow> u32 \<Rightarrow> u32" where
  "pack n v w = push_bit n w OR word_of_int v"

text \<open>\<open>g\<close> is what the uninitialised local \<open>rtctm\<close> holds.\<close>

definition mkrtctime :: "rtctime \<Rightarrow> tm \<Rightarrow> rtctime" where
  "mkrtctime g tm =
     g\<lparr>sys_toyread0 :=
         pack (3 - 0 + 1) 0
           (pack (9 - 4 + 1) (tm_sec tm)
             (pack (15 - 10 + 1) (tm_min tm)
               (pack (20 - 16 + 1) (tm_hour tm)
                 (pack (25 - 21 + 1) (tm_mday tm)
                   (pack (31 - 26 + 1) (tm_mon tm + 1) (sys_toyread0 g)))))),
       sys_toyread1 := word_of_int (tm_year tm)\<rparr>"

section \<open>Device operations\<close>

datatype rtc_cmd = RTC_GET_TIME | RTC_SET_TIME | RTC_GET_ALARM | RTC_SET_ALARM | RTC_OTHER nat

definition rt_rtc_open :: "nat \<Rightarrow> int" where
  "rt_rtc_open oflag = 0"

definition rt_rtc_read :: "int \<Rightarrow> nat \<Rightarrow> nat" where
  "rt_rtc_read pos sz = 0"

text \<open>
  The state is the registers and the \<open>time_t\<close> the argument points to; the result code is
  \<open>RT_EOK\<close> whatever the command.
\<close>

definition rt_rtc_ioctl ::
    "(int \<Rightarrow> tm) \<Rightarrow> (tm \<Rightarrow> int) \<Rightarrow> rtctime \<Rightarrow> rtc_cmd \<Rightarrow> loongson_rtc \<times> int
      \<Rightarrow> (loongson_rtc \<times> int) \<times> int" where
  "rt_rtc_ioctl localtime mktime g cmd = (\<lambda>(hw, t).
     let time = localtime t;
         tmptime = localrtctime \<lparr>sys_toyread0 = hw_toyread0 hw, sys_toyread1 = hw_toyread1 hw,
                                 sys_rtcread0 = hw_rtcread0 hw\<rparr>
     in case cmd of
          RTC_GET_TIME \<Rightarrow> ((hw, mktime tmptime), 0)
        | RTC_SET_TIME \<Rightarrow>
            let tmptime = tmptime\<lparr>tm_hour := tm_hour time, tm_min := tm_min time,
                                  tm_sec := tm_sec time, tm_year := tm_year time,
                                  tm_mon := tm_mon time, tm_mday := tm_mday time\<rparr>;
                rtctm = mkrtctime g tmptime
            in ((hw\<lparr>sys_toywrite0 := sys_toyread0 rtctm,
                    sys_toywrite1 := sys_toyread1 rtctm\<rparr>, t), 0)
        | RTC_GET_ALARM \<Rightarrow> ((hw, t), 0)
        | RTC_SET_ALARM \<Rightarrow> ((hw, t), 0)
        | RTC_OTHER c \<Rightarrow> ((hw, t), 0))"

section \<open>Fields and packing\<close>

lemma M_mask: "M n = mask n"
  by (rule bit_word_eqI) (auto simp: M_def bit_simps)

lemma BF_take_bit [bit_fields]:
  "BF w n m = take_bit (max n m - min n m + 1) (drop_bit (min n m) w)"
  by (simp add: BF_def BF1_def RBF_def M_mask take_bit_eq_mask max_def min_def)

lemma take_bit_pack [bit_fields]:
  "n \<le> 32 \<Longrightarrow> 0 \<le> v \<Longrightarrow> v < 2 ^ n \<Longrightarrow> take_bit n (pack n v w) = word_of_int v"
proof (rule bit_word_eqI)
  fix k assume h: "n \<le> 32" "0 \<le> v" "v < 2 ^ n" and k: "k < LENGTH(32)"
  have "\<not> bit v k" if "n \<le> k"
    using h that by (metis bit_take_bit_iff leD take_bit_int_eq_self)
  then show "bit (take_bit n (pack n v w)) k = bit (word_of_int v :: u32) k"
    using k by (auto simp: pack_def bit_take_bit_iff bit_or_iff bit_push_bit_iff bit_word_of_int_iff)
qed

lemma drop_bit_pack [bit_fields]:
  "n \<le> 32 \<Longrightarrow> 0 \<le> v \<Longrightarrow> v < 2 ^ n \<Longrightarrow> drop_bit n (pack n v w) = take_bit (32 - n) w"
proof (rule bit_word_eqI)
  fix k assume h: "n \<le> 32" "0 \<le> v" "v < 2 ^ n" and k: "k < LENGTH(32)"
  have "\<not> bit v (n + k)"
    using h by (metis bit_take_bit_iff le_add1 leD take_bit_int_eq_self)
  then show "bit (drop_bit n (pack n v w)) k = bit (take_bit (32 - n) w) k"
    using h k by (auto simp: pack_def bit_take_bit_iff bit_drop_bit_eq bit_or_iff bit_push_bit_iff
        bit_word_of_int_iff)
qed

lemma mod_pow_uint: "0 \<le> v \<Longrightarrow> v < 2 ^ n \<Longrightarrow> n \<le> 32 \<Longrightarrow> uint (word_of_int v :: u32) = v"
proof -
  assume h: "0 \<le> v" "v < 2 ^ n" "n \<le> 32"
  have "(2::int) ^ n \<le> 2 ^ 32" using h(3) by (intro power_increasing) simp_all
  with h have "v < 2 ^ 32" by linarith
  with h(1) show ?thesis by (simp add: unsigned_of_int take_bit_int_eq_self)
qed

text \<open>The fields of a time that the counter can hold.\<close>

definition rtc_fits :: "tm \<Rightarrow> bool" where
  "rtc_fits tm \<longleftrightarrow> 0 \<le> tm_sec tm \<and> tm_sec tm < 64 \<and> 0 \<le> tm_min tm \<and> tm_min tm < 64 \<and>
     0 \<le> tm_hour tm \<and> tm_hour tm < 32 \<and> 0 \<le> tm_mday tm \<and> tm_mday tm < 32 \<and>
     0 \<le> tm_mon tm + 1 \<and> tm_mon tm + 1 < 64 \<and>
     - (2 ^ 31) \<le> tm_year tm \<and> tm_year tm < 2 ^ 31"

text \<open>
  The date and time of a \<open>struct tm\<close>, without the members derived from them.
\<close>

definition date_of :: "tm \<Rightarrow> tm" where
  "date_of tm = tm\<lparr>tm_wday := 0, tm_yday := 0, tm_isdst := 0\<rparr>"

lemma field_of_pack [bit_fields]:
  assumes "k \<le> m" "n + m \<le> 32" "0 \<le> v" "v < 2 ^ k"
  shows "take_bit n (drop_bit m (pack k v w)) = take_bit n (drop_bit (m - k) w)"
proof (rule bit_word_eqI)
  fix j assume j: "j < LENGTH(32)"
  have "\<not> bit v (m + j)"
    using assms by (metis bit_take_bit_iff le_add1 order.trans leD take_bit_int_eq_self)
  then show "bit (take_bit n (drop_bit m (pack k v w))) j = bit (take_bit n (drop_bit (m - k) w)) j"
    using assms(1,2) j
    by (auto simp: pack_def bit_take_bit_iff bit_drop_bit_eq bit_or_iff bit_push_bit_iff
        bit_word_of_int_iff)
qed

lemma toyread0_fields:
  assumes "rtc_fits tm"
  shows "BF (sys_toyread0 (mkrtctime g tm)) 9 4 = word_of_int (tm_sec tm)"
    and "BF (sys_toyread0 (mkrtctime g tm)) 15 10 = word_of_int (tm_min tm)"
    and "BF (sys_toyread0 (mkrtctime g tm)) 20 16 = word_of_int (tm_hour tm)"
    and "BF (sys_toyread0 (mkrtctime g tm)) 21 25 = word_of_int (tm_mday tm)"
    and "BF (sys_toyread0 (mkrtctime g tm)) 26 31 = word_of_int (tm_mon tm + 1)"
  using assms by (simp_all add: rtc_fits_def BF_take_bit mkrtctime_def field_of_pack take_bit_pack)

lemma localrtctime_mkrtctime:
  assumes "rtc_fits tm"
  shows "localrtctime (mkrtctime g tm) = date_of tm"
proof -
  note f = assms [unfolded rtc_fits_def]
  have "sint (word_of_int (tm_year tm) :: u32) = tm_year tm"
    using f by (simp add: signed_of_int signed_take_bit_int_eq_self)
  moreover have "sys_toyread1 (mkrtctime g tm) = word_of_int (tm_year tm)"
    by (simp add: mkrtctime_def)
  ultimately show ?thesis
    using f mod_pow_uint [of "tm_sec tm" 6] mod_pow_uint [of "tm_min tm" 6]
      mod_pow_uint [of "tm_hour tm" 5] mod_pow_uint [of "tm_mday tm" 5]
      mod_pow_uint [of "tm_mon tm + 1" 6]
    by (simp add: localrtctime_def toyread0_fields [OF assms] date_of_def)
qed

text \<open>Conversely only the tenths of a second are lost.\<close>

lemma mkrtctime_localrtctime:
  "sys_toyread0 (mkrtctime g (localrtctime r)) = sys_toyread0 r AND NOT 15"
  "sys_toyread1 (mkrtctime g (localrtctime r)) = sys_toyread1 r"
proof -
  have m: "(15 :: u32) = mask 4" by (simp add: mask_eq_exp_minus_1)
  show "sys_toyread0 (mkrtctime g (localrtctime r)) = sys_toyread0 r AND NOT 15"
    unfolding m
  proof (rule bit_word_eqI)
    fix n assume n: "n < LENGTH(32)"
    consider "n < 4" | "4 \<le> n" "n < 10" | "10 \<le> n" "n < 16" | "16 \<le> n" "n < 21"
      | "21 \<le> n" "n < 26" | "26 \<le> n" by linarith
    then show "bit (sys_toyread0 (mkrtctime g (localrtctime r))) n
        = bit (sys_toyread0 r AND NOT (mask 4)) n"
      using n
      by cases (auto simp: mkrtctime_def localrtctime_def BF_take_bit pack_def bit_simps)
  qed
  show "sys_toyread1 (mkrtctime g (localrtctime r)) = sys_toyread1 r"
    by (simp add: mkrtctime_def localrtctime_def)
qed

text \<open>The uninitialised word is shifted out completely.\<close>

lemma mkrtctime_garbage:
  "sys_toyread0 (mkrtctime g tm) = sys_toyread0 (mkrtctime g' tm)"
proof (rule bit_word_eqI)
  fix n assume "n < LENGTH(32)"
  then show "bit (sys_toyread0 (mkrtctime g tm)) n = bit (sys_toyread0 (mkrtctime g' tm)) n"
    by (auto simp: mkrtctime_def pack_def bit_simps)
qed

section \<open>Properties\<close>

text \<open>C38. The two conversions of the clock driver are inverse: converting a time whose fields
  are in the range of the counter to the registers and back gives its date and time (whatever
  the stack held in the uninitialised local), and converting the registers to a time and back
  clears the tenths of a second in the low four bits and changes nothing else.\<close>

theorem rtc_conversions_roundtrip:
  "(\<forall>tm. rtc_fits tm \<longrightarrow> localrtctime (mkrtctime g tm) = date_of tm)
   \<and> sys_toyread0 (mkrtctime g (localrtctime r)) = sys_toyread0 r AND NOT 15
   \<and> sys_toyread1 (mkrtctime g (localrtctime r)) = sys_toyread1 r
   \<and> sys_toyread0 (mkrtctime g tm') = sys_toyread0 (mkrtctime g' tm')"
  by (metis localrtctime_mkrtctime mkrtctime_localrtctime mkrtctime_garbage)

text \<open>A time, a garbage word and a register file for the witnesses.\<close>

definition sample_tm :: tm where
  "sample_tm = \<lparr>tm_sec = 59, tm_min = 58, tm_hour = 23, tm_mday = 31, tm_mon = 11, tm_year = 120,
     tm_wday = 4, tm_yday = 365, tm_isdst = 0\<rparr>"

definition sample_garbage :: rtctime where
  "sample_garbage = \<lparr>sys_toyread0 = 0xDEADBEEF, sys_toyread1 = 7, sys_rtcread0 = 9\<rparr>"

definition sample_rtc :: loongson_rtc where
  "sample_rtc = \<lparr>sys_toytrim = 0, sys_toywrite0 = 0, sys_toywrite1 = 0, hw_toyread0 = 0x12345678,
     hw_toyread1 = 70, sys_toymatch0 = 0, sys_toymatch1 = 0, sys_toymatch2 = 0, sys_rtcctrl = 0,
     pad4 = replicate 3 0, pad5 = replicate 4 0, sys_rtctrim = 0, sys_rtcwrite0 = 0,
     hw_rtcread0 = 0, sys_rtcmatch0 = 0, sys_rtcmatch1 = 0, sys_rtcmatch2 = 0\<rparr>"

theorem rtc_conversions_roundtrip_witness:
  "localrtctime (mkrtctime sample_garbage sample_tm) = date_of sample_tm
   \<and> tm_hour (localrtctime (mkrtctime sample_garbage sample_tm)) = 23"
  using rtc_conversions_roundtrip [of sample_garbage sample_garbage sample_tm sample_garbage]
  by (simp add: rtc_fits_def sample_tm_def date_of_def)

text \<open>Setting the clock writes the two write registers and nothing else, and reading it back
  while the counter still shows what was written gives the time that was set, if its fields fit
  the counter and the C library's \<open>mktime\<close> inverts \<open>localtime\<close> on that date.\<close>

theorem rtc_set_then_get:
  assumes "rt_rtc_ioctl localtime mktime g RTC_SET_TIME (hw, t) = ((hw1, t1), e1)"
    and "hw_toyread0 hw2 = sys_toywrite0 hw1" and "hw_toyread1 hw2 = sys_toywrite1 hw1"
    and "rtc_fits (localtime t)"
    and "mktime (date_of (localtime t)) = t"
  shows "hw1 = hw\<lparr>sys_toywrite0 := sys_toywrite0 hw1, sys_toywrite1 := sys_toywrite1 hw1\<rparr>
    \<and> t1 = t \<and> e1 = 0
    \<and> rt_rtc_ioctl localtime mktime g' RTC_GET_TIME (hw2, u) = ((hw2, t), 0)"
proof -
  let ?tm = "(localrtctime \<lparr>sys_toyread0 = hw_toyread0 hw, sys_toyread1 = hw_toyread1 hw,
      sys_rtcread0 = hw_rtcread0 hw\<rparr>)\<lparr>tm_hour := tm_hour (localtime t),
      tm_min := tm_min (localtime t), tm_sec := tm_sec (localtime t),
      tm_year := tm_year (localtime t), tm_mon := tm_mon (localtime t),
      tm_mday := tm_mday (localtime t)\<rparr>"
  have s: "hw1 = hw\<lparr>sys_toywrite0 := sys_toyread0 (mkrtctime g ?tm),
      sys_toywrite1 := sys_toyread1 (mkrtctime g ?tm)\<rparr>" "t1 = t" "e1 = 0"
    using assms(1) by (auto simp: rt_rtc_ioctl_def Let_def)
  have "rtc_fits ?tm" using assms(4) by (simp add: rtc_fits_def)
  then have "localrtctime (mkrtctime g ?tm) = date_of ?tm" by (rule localrtctime_mkrtctime)
  also have "\<dots> = date_of (localtime t)"
    by (simp add: date_of_def localrtctime_def)
  finally have trip: "localrtctime (mkrtctime g ?tm) = date_of (localtime t)" .
  have "localrtctime \<lparr>sys_toyread0 = hw_toyread0 hw2, sys_toyread1 = hw_toyread1 hw2,
      sys_rtcread0 = hw_rtcread0 hw2\<rparr> = localrtctime (mkrtctime g ?tm)"
    using assms(2,3) s(1) by (simp add: localrtctime_def)
  with trip s assms(5) show ?thesis by (simp add: rt_rtc_ioctl_def)
qed

theorem rtc_set_then_get_witness:
  "\<exists>hw1. fst (fst (rt_rtc_ioctl (\<lambda>t. sample_tm) (\<lambda>tm. 1609459138) sample_garbage RTC_SET_TIME
        (sample_rtc, 1609459138))) = hw1
    \<and> rt_rtc_ioctl (\<lambda>t. sample_tm) (\<lambda>tm. 1609459138) sample_garbage RTC_GET_TIME
        (hw1\<lparr>hw_toyread0 := sys_toywrite0 hw1, hw_toyread1 := sys_toywrite1 hw1\<rparr>, 0)
      = ((hw1\<lparr>hw_toyread0 := sys_toywrite0 hw1, hw_toyread1 := sys_toywrite1 hw1\<rparr>, 1609459138), 0)"
proof -
  let ?r = "rt_rtc_ioctl (\<lambda>t. sample_tm) (\<lambda>tm. 1609459138) sample_garbage RTC_SET_TIME
        (sample_rtc, 1609459138)"
  have r: "?r = ((fst (fst ?r), snd (fst ?r)), snd ?r)" by simp
  show ?thesis
    using rtc_set_then_get [OF r, of "(fst (fst ?r))\<lparr>hw_toyread0 := sys_toywrite0 (fst (fst ?r)),
        hw_toyread1 := sys_toywrite1 (fst (fst ?r))\<rparr>" sample_garbage 0]
    by (simp add: rtc_fits_def sample_tm_def)
qed

end
