(* ===== verification/Mmio.thy ===== *)
theory Mmio
  imports Prelude
begin

text \<open>
  Byte-wide device registers, as the I2C, EEPROM and SPI drivers use them, and 32-bit registers, as
  the Ethernet driver uses them. The device is not
  part of the program: it is an argument of the drivers, a pair of functions on a device state
  of any type, because a read of a status or data register can change the device. The busy-wait
  loops of the drivers are one partial function over it, which has no result when the device
  never becomes ready.
\<close>

record 's mmio =
  read8 :: "u64 \<Rightarrow> 's \<Rightarrow> u8 \<times> 's"
  write8 :: "u64 \<Rightarrow> u8 \<Rightarrow> 's \<Rightarrow> 's"

record 's mmio32 =
  read32 :: "u64 \<Rightarrow> 's \<Rightarrow> u32 \<times> 's"
  write32 :: "u64 \<Rightarrow> u32 \<Rightarrow> 's \<Rightarrow> 's"

text \<open>\<open>while (readb (a) & mask);\<close>\<close>

partial_function (option) poll :: "'s mmio \<Rightarrow> u64 \<Rightarrow> u8 \<Rightarrow> 's \<Rightarrow> 's option" where
  "poll d a m s =
     (case read8 d a s of
        (v, s') \<Rightarrow> if v AND m \<noteq> 0 then poll d a m s' else Some s')"

text \<open>A result that may never come, as a value of the result type.\<close>

definition returning :: "'a option \<Rightarrow> 'a res" where
  "returning r = (case r of None \<Rightarrow> Inl NoReturn | Some x \<Rightarrow> Inr x)"

lemma returning_simps [simp, res_simps]:
  "returning None = Inl NoReturn" "returning (Some x) = Inr x"
  by (simp_all add: returning_def)

text \<open>
  A register whose busy bits clear: every read that shows one of them brings the device closer
  to one that does not.
\<close>

definition settles :: "'s mmio \<Rightarrow> u64 \<Rightarrow> u8 \<Rightarrow> ('s \<Rightarrow> nat) \<Rightarrow> bool" where
  "settles d a m rank \<longleftrightarrow>
     (\<forall>s. fst (read8 d a s) AND m \<noteq> 0 \<longrightarrow> rank (snd (read8 d a s)) < rank s)"

text \<open>
  The wait then ends, in a state reached by reads of the register of which the last showed none
  of the bits.
\<close>

lemma poll_returns:
  assumes "settles d a m rank"
    and inv: "\<And>s. P s \<Longrightarrow> P (snd (read8 d a s))"
    and "P s"
  shows "\<exists>s1. P s1 \<and> fst (read8 d a s1) AND m = 0 \<and> poll d a m s = Some (snd (read8 d a s1))"
  using assms(3)
proof (induction "rank s" arbitrary: s rule: less_induct)
  case less
  show ?case
  proof (cases "fst (read8 d a s) AND m = 0")
    case True
    then have "poll d a m s = Some (snd (read8 d a s))"
      by (subst poll.simps) (simp add: split_beta)
    with True less.prems show ?thesis by blast
  next
    case False
    then have "rank (snd (read8 d a s)) < rank s" using assms(1) by (simp add: settles_def)
    from less.hyps [OF this inv [OF less.prems]]
    obtain s1 where "P s1" "fst (read8 d a s1) AND m = 0"
      "poll d a m (snd (read8 d a s)) = Some (snd (read8 d a s1))" by blast
    moreover have "poll d a m s = poll d a m (snd (read8 d a s))"
      using False by (subst poll.simps) (simp add: split_beta)
    ultimately show ?thesis by auto
  qed
qed

end
