(* ===== verification/I2c.thy ===== *)
theory I2c
  imports Mmio
begin

text \<open>
  The I2C bus driver \<open>ls2kdev_record/drivers/drv_i2c.c\<close>: start condition with retries, byte
  reads and writes, transfers of a list of messages, the register reads and writes built on
  them, and the three console commands. Debug output is left out. The global
  \<open>LS2K_I2C_BASE\<close> is an argument; the buffers of messages are lists, checked at every access.
\<close>

section \<open>Registers\<close>

abbreviation (input) PRER_LO_REG :: u32 where "PRER_LO_REG \<equiv> 0"
abbreviation (input) PRER_HI_REG :: u32 where "PRER_HI_REG \<equiv> 1"
abbreviation (input) CTR_REG :: u32 where "CTR_REG \<equiv> 2"
abbreviation (input) TXR_REG :: u32 where "TXR_REG \<equiv> 3"
abbreviation (input) RXR_REG :: u32 where "RXR_REG \<equiv> 3"
abbreviation (input) CR_REG :: u32 where "CR_REG \<equiv> 4"
abbreviation (input) SR_REG :: u32 where "SR_REG \<equiv> 4"

definition CR_START :: u8 where "CR_START = 0x80"
definition CR_STOP :: u8 where "CR_STOP = 0x40"
definition CR_READ :: u8 where "CR_READ = 0x20"
definition CR_WRITE :: u8 where "CR_WRITE = 0x10"
definition CR_ACK :: u8 where "CR_ACK = 0x8"
definition SR_NOACK :: u8 where "SR_NOACK = 0x80"
definition SR_BUSY :: u8 where "SR_BUSY = 0x40"
definition SR_TIP :: u8 where "SR_TIP = 0x2"

text \<open>\<open>LS2K_I2C_BASE + addr\<close>, an \<open>int\<close> converted to an address.\<close>

definition i2c_addr :: "u32 \<Rightarrow> u32 \<Rightarrow> u64" where
  "i2c_addr base r = scast (base + r)"

definition ls2k_i2c_writeb :: "'s mmio \<Rightarrow> u32 \<Rightarrow> u8 \<Rightarrow> u32 \<Rightarrow> 's \<Rightarrow> 's" where
  "ls2k_i2c_writeb d base v r s = write8 d (i2c_addr base r) v s"

definition ls2k_i2c_readb :: "'s mmio \<Rightarrow> u32 \<Rightarrow> u32 \<Rightarrow> 's \<Rightarrow> u8 \<times> 's" where
  "ls2k_i2c_readb d base r s = read8 d (i2c_addr base r) s"

definition wait_tip :: "'s mmio \<Rightarrow> u32 \<Rightarrow> 's \<Rightarrow> 's res" where
  "wait_tip d base s = returning (poll d (i2c_addr base SR_REG) SR_TIP s)"

section \<open>Start, stop, bytes\<close>

text \<open>The stop command is written again as long as the bus is busy.\<close>

partial_function (option) stop_loop :: "'s mmio \<Rightarrow> u64 \<Rightarrow> u64 \<Rightarrow> 's \<Rightarrow> 's option" where
  "stop_loop d cr sr s =
     (let s1 = write8 d cr CR_STOP s;
          s2 = snd (read8 d sr s1) in
      case read8 d sr s2 of
        (v, s3) \<Rightarrow> if v AND SR_BUSY \<noteq> 0 then stop_loop d cr sr s3 else Some s3)"

definition ls2k_i2c_stop :: "'s mmio \<Rightarrow> u32 \<Rightarrow> 's \<Rightarrow> 's res" where
  "ls2k_i2c_stop d base s =
     returning (stop_loop d (i2c_addr base CR_REG) (i2c_addr base SR_REG) s)"

text \<open>\<open>retry\<close> counts the attempts that are left.\<close>

fun start_try :: "'s mmio \<Rightarrow> u32 \<Rightarrow> u8 \<Rightarrow> nat \<Rightarrow> 's \<Rightarrow> (int \<times> 's) res" where
  "start_try d base addr retry s =
     rbind (wait_tip d base
       (ls2k_i2c_writeb d base (CR_START OR CR_WRITE) CR_REG
         (ls2k_i2c_writeb d base addr TXR_REG s))) (\<lambda>s.
     case ls2k_i2c_readb d base SR_REG s of
       (v, s) \<Rightarrow>
         if v AND SR_NOACK \<noteq> 0 then
           rbind (ls2k_i2c_stop d base s) (\<lambda>s.
             case retry of
               0 \<Rightarrow> Inr (0, s)
             | Suc retry' \<Rightarrow> start_try d base addr retry' s)
         else Inr (1, s))"

definition ls2k_i2c_start :: "'s mmio \<Rightarrow> u32 \<Rightarrow> u16 \<Rightarrow> u16 \<Rightarrow> 's \<Rightarrow> (int \<times> 's) res" where
  "ls2k_i2c_start d base dev_addr flags s = start_try d base (ucast dev_addr) 5 s"

text \<open>\<open>for (i = 0; i < count; i++)\<close> over the indices still to read.\<close>

fun read_loop :: "'s mmio \<Rightarrow> u32 \<Rightarrow> nat \<Rightarrow> nat list \<Rightarrow> u8 list \<Rightarrow> 's \<Rightarrow> (u8 list \<times> 's) res" where
  "read_loop d base count [] buf s = Inr (buf, s)"
| "read_loop d base count (i # is) buf s =
     rbind (wait_tip d base
       (ls2k_i2c_writeb d base (if i = count - 1 then CR_READ OR CR_ACK else CR_READ) CR_REG s)) (\<lambda>s.
     case ls2k_i2c_readb d base RXR_REG s of
       (v, s) \<Rightarrow> rbind (wr buf i v) (\<lambda>buf. read_loop d base count is buf s))"

definition ls2k_i2c_read :: "'s mmio \<Rightarrow> u32 \<Rightarrow> u8 list \<Rightarrow> nat \<Rightarrow> 's \<Rightarrow> (nat \<times> u8 list \<times> 's) res" where
  "ls2k_i2c_read d base buf count s =
     rbind (read_loop d base count [0..<count] buf s) (\<lambda>(buf, s). Inr (count, buf, s))"

fun write_loop :: "'s mmio \<Rightarrow> u32 \<Rightarrow> nat \<Rightarrow> nat list \<Rightarrow> u8 list \<Rightarrow> 's \<Rightarrow> (nat \<times> 's) res" where
  "write_loop d base count [] buf s = Inr (count, s)"
| "write_loop d base count (i # is) buf s =
     rbind (rd buf i) (\<lambda>v.
     rbind (wait_tip d base
       (ls2k_i2c_writeb d base CR_WRITE CR_REG (ls2k_i2c_writeb d base v TXR_REG s))) (\<lambda>s.
     case ls2k_i2c_readb d base SR_REG s of
       (v, s) \<Rightarrow>
         if v AND SR_NOACK \<noteq> 0 then rbind (ls2k_i2c_stop d base s) (\<lambda>s. Inr (0, s))
         else write_loop d base count is buf s))"

definition ls2k_i2c_write :: "'s mmio \<Rightarrow> u32 \<Rightarrow> u8 list \<Rightarrow> nat \<Rightarrow> 's \<Rightarrow> (nat \<times> 's) res" where
  "ls2k_i2c_write d base buf count s = write_loop d base count [0..<count] buf s"

section \<open>Transfers\<close>

record i2c_msg =
  msg_addr :: u16
  msg_flags :: u16
  msg_len :: u16
  msg_buf :: "u8 list"

definition I2C_M_RD :: u16 where "I2C_M_RD = 0x0001"
definition I2C_M_NOSTART :: u16 where "I2C_M_NOSTART = 0x4000"

text \<open>
  The loop over the messages from the \<open>i\<close>-th on; the result is the return value and the
  messages with their buffers. The results of the byte transfers are ignored.
\<close>

fun transfer_loop :: "'s mmio \<Rightarrow> u32 \<Rightarrow> nat \<Rightarrow> i2c_msg list \<Rightarrow> 's \<Rightarrow> (nat \<times> i2c_msg list \<times> 's) res" where
  "transfer_loop d base i [] s =
     rbind (ls2k_i2c_stop d base s) (\<lambda>s. Inr (i, [], s))"
| "transfer_loop d base i (m # ms) s =
     rbind (if msg_flags m AND I2C_M_NOSTART = 0
            then ls2k_i2c_start d base (msg_addr m) (msg_flags m) s else Inr (1, s)) (\<lambda>(ok, s).
     if ok = 0 then Inr (0, m # ms, s)
     else
       rbind (if msg_flags m AND I2C_M_RD \<noteq> 0
              then rbind (ls2k_i2c_read d base (msg_buf m) (unat (msg_len m)) s) (\<lambda>(n, b, s).
                     Inr (m\<lparr>msg_buf := b\<rparr>, s))
              else rbind (ls2k_i2c_write d base (msg_buf m) (unat (msg_len m)) s) (\<lambda>(n, s).
                     Inr (m, s))) (\<lambda>(m, s).
       rbind (transfer_loop d base (Suc i) ms s) (\<lambda>(r, ms, s). Inr (r, m # ms, s))))"

definition i2c_transfer :: "'s mmio \<Rightarrow> u32 \<Rightarrow> i2c_msg list \<Rightarrow> 's \<Rightarrow> (nat \<times> i2c_msg list \<times> 's) res" where
  "i2c_transfer d base msgs s = transfer_loop d base 0 msgs s"

section \<open>Interface functions\<close>

text \<open>The new base and device state.\<close>

definition ls2k_i2c_init :: "'s mmio \<Rightarrow> int \<Rightarrow> u32 \<Rightarrow> u32 \<Rightarrow> 's \<Rightarrow> u32 \<times> 's" where
  "ls2k_i2c_init d speed slaveaddr base s =
     (let base = (if slaveaddr \<noteq> 0 then slaveaddr else base);
          s = ls2k_i2c_writeb d base 0 CTR_REG s;
          s = ls2k_i2c_writeb d base 0x71 PRER_LO_REG s;
          s = ls2k_i2c_writeb d base 0x2 PRER_HI_REG s;
          s = ls2k_i2c_writeb d base 0x80 CTR_REG s
      in (base, s))"

text \<open>The bytes of an \<open>unsigned int\<close>, in the little-endian order of the processor.\<close>

definition uint_bytes :: "u32 \<Rightarrow> u8 list" where
  "uint_bytes a = [ucast a, ucast (drop_bit 8 a), ucast (drop_bit 16 a), ucast (drop_bit 24 a)]"

text \<open>The result code, the buffer and the device.\<close>

definition i2c_read :: "'s mmio \<Rightarrow> u32 \<Rightarrow> u8 \<Rightarrow> u32 \<Rightarrow> int \<Rightarrow> u8 list \<Rightarrow> int \<Rightarrow> 's
    \<Rightarrow> (int \<times> u8 list \<times> 's) res" where
  "i2c_read d base chip addr alen buffer len s =
     rbind (i2c_transfer d base
       [\<lparr>msg_addr = ucast chip, msg_flags = 0, msg_len = word_of_int alen, msg_buf = uint_bytes addr\<rparr>,
        \<lparr>msg_addr = ucast chip, msg_flags = I2C_M_RD, msg_len = word_of_int len, msg_buf = buffer\<rparr>] s)
       (\<lambda>(r, msgs, s). Inr (0, msg_buf (last msgs), s))"

definition i2c_write :: "'s mmio \<Rightarrow> u32 \<Rightarrow> u8 \<Rightarrow> u32 \<Rightarrow> int \<Rightarrow> u8 list \<Rightarrow> int \<Rightarrow> 's
    \<Rightarrow> (int \<times> 's) res" where
  "i2c_write d base chip addr alen buffer len s =
     rbind (i2c_transfer d base
       [\<lparr>msg_addr = ucast chip, msg_flags = 0, msg_len = word_of_int alen, msg_buf = uint_bytes addr\<rparr>,
        \<lparr>msg_addr = ucast chip, msg_flags = I2C_M_NOSTART, msg_len = word_of_int len,
          msg_buf = buffer\<rparr>] s)
       (\<lambda>(r, msgs, s). Inr (0, s))"

section \<open>Console commands\<close>

definition msh_i2c_init :: "'s mmio \<Rightarrow> string list \<Rightarrow> u32 \<Rightarrow> 's \<Rightarrow> (u32 \<times> 's) res" where
  "msh_i2c_init d argv base s =
     rbind (rd argv 1) (\<lambda>a.
       Inr (ls2k_i2c_init d 0 (0xbfe01000 + word_of_int (to_int32 (strtoul0 a)) * 0x800) base s))"

text \<open>\<open>for (int i = 0; i < count; i++) printf ("%02X ", buf[i])\<close>: the bytes printed.\<close>

definition print_buf :: "u8 list \<Rightarrow> int \<Rightarrow> u8 list res" where
  "print_buf buf count =
     for_list (\<lambda>i out. rbind (rd buf i) (\<lambda>v. Inr (out @ [v]))) [0..<nat count] []"

text \<open>
  \<open>stack\<close> is what the 32 bytes of \<open>buf\<close> hold before. \<open>None\<close> is the usage message.
\<close>

definition msh_i2c_read :: "'s mmio \<Rightarrow> u8 list \<Rightarrow> string list \<Rightarrow> u32 \<Rightarrow> 's
    \<Rightarrow> (u8 list option \<times> 's) res" where
  "msh_i2c_read d stack argv base s =
     (if length argv = 5 then
        let chip_addr = word_of_nat (strtoul0 (argv ! 1)) :: u8;
            addr_len = to_int32 (strtoul0 (argv ! 2));
            reg_addr = word_of_nat (strtoul0 (argv ! 3)) :: u8;
            count = to_int32 (strtoul0 (argv ! 4)) in
        rbind (i2c_read d base chip_addr (ucast reg_addr) addr_len stack count s) (\<lambda>(r, buf, s).
        rbind (print_buf buf count) (\<lambda>out. Inr (Some out, s)))
      else Inr (None, s))"

text \<open>The data are the characters of the last argument and its NUL; what is printed is \<open>buf\<close>,
  which nothing was written to.\<close>

definition msh_i2c_write :: "'s mmio \<Rightarrow> u8 list \<Rightarrow> string list \<Rightarrow> u32 \<Rightarrow> 's
    \<Rightarrow> (u8 list option \<times> 's) res" where
  "msh_i2c_write d stack argv base s =
     (if length argv = 6 then
        let chip_addr = word_of_nat (strtoul0 (argv ! 1)) :: u8;
            addr_len = to_int32 (strtoul0 (argv ! 2));
            reg_addr = word_of_nat (strtoul0 (argv ! 3)) :: u8;
            count = to_int32 (strtoul0 (argv ! 4)) in
        rbind (i2c_write d base chip_addr (ucast reg_addr) addr_len
                 (map of_char (argv ! 5) @ [0]) count s) (\<lambda>(r, s).
        rbind (print_buf stack count) (\<lambda>out. Inr (Some out, s)))
      else Inr (None, s))"

section \<open>What is on the bus\<close>

text \<open>
  The abstract bus carries out start conditions with an address byte, byte writes, byte reads
  (the last one without an acknowledge) and stop conditions, and tells whether the addressed
  device acknowledged.
\<close>

record 'b i2c_bus =
  b_start :: "u8 \<Rightarrow> 'b \<Rightarrow> bool \<times> 'b"
  b_write :: "u8 \<Rightarrow> 'b \<Rightarrow> bool \<times> 'b"
  b_read :: "bool \<Rightarrow> 'b \<Rightarrow> u8 \<times> 'b"
  b_stop :: "'b \<Rightarrow> 'b"

fun bus_start :: "'b i2c_bus \<Rightarrow> u8 \<Rightarrow> nat \<Rightarrow> 'b \<Rightarrow> bool \<times> 'b" where
  "bus_start bus addr retry b =
     (case b_start bus addr b of
        (ack, b) \<Rightarrow>
          if ack then (True, b)
          else case retry of
                 0 \<Rightarrow> (False, b_stop bus b)
               | Suc retry' \<Rightarrow> bus_start bus addr retry' (b_stop bus b))"

fun bus_write :: "'b i2c_bus \<Rightarrow> u8 list \<Rightarrow> 'b \<Rightarrow> bool \<times> 'b" where
  "bus_write bus [] b = (True, b)"
| "bus_write bus (v # vs) b =
     (case b_write bus v b of
        (ack, b) \<Rightarrow> if ack then bus_write bus vs b else (False, b_stop bus b))"

fun bus_read :: "'b i2c_bus \<Rightarrow> nat \<Rightarrow> 'b \<Rightarrow> u8 list \<times> 'b" where
  "bus_read bus 0 b = ([], b)"
| "bus_read bus (Suc n) b =
     (case b_read bus (n = 0) b of
        (v, b) \<Rightarrow> case bus_read bus n b of (vs, b) \<Rightarrow> (v # vs, b))"

text \<open>
  A transfer as it should be seen on the bus: at most six attempts to start, then the bytes of
  the message up to the first one that is not acknowledged.
\<close>

fun bus_transfer :: "'b i2c_bus \<Rightarrow> nat \<Rightarrow> i2c_msg list \<Rightarrow> 'b \<Rightarrow> nat \<times> i2c_msg list \<times> 'b" where
  "bus_transfer bus i [] b = (i, [], b_stop bus b)"
| "bus_transfer bus i (m # ms) b =
     (case (if msg_flags m AND I2C_M_NOSTART = 0
            then bus_start bus (ucast (msg_addr m)) 5 b else (True, b)) of
        (ok, b) \<Rightarrow>
          if \<not> ok then (0, m # ms, b)
          else case (if msg_flags m AND I2C_M_RD \<noteq> 0
                     then (case bus_read bus (unat (msg_len m)) b of
                             (vs, b) \<Rightarrow> (m\<lparr>msg_buf := overwrite vs (msg_buf m)\<rparr>, b))
                     else (m, snd (bus_write bus (take (unat (msg_len m)) (msg_buf m)) b))) of
                 (m, b) \<Rightarrow>
                   (case bus_transfer bus (Suc i) ms b of (r, ms, b) \<Rightarrow> (r, m # ms, b)))"

section \<open>What the drivers rely on of the controller\<close>

text \<open>
  The observations of a controller's state: the bus behind it, the transmit and receive
  registers, whether the last byte was refused, whether the last command is done, and how far
  it is from being done and from leaving the busy state.
\<close>

record ('s, 'b) i2c_view =
  line :: "'s \<Rightarrow> 'b"
  txr :: "'s \<Rightarrow> u8"
  rxr :: "'s \<Rightarrow> u8"
  nak :: "'s \<Rightarrow> bool"
  ready :: "'s \<Rightarrow> bool"
  tip_rank :: "'s \<Rightarrow> nat"
  busy_rank :: "'s \<Rightarrow> nat"

definition command_laws :: "'s mmio \<Rightarrow> u32 \<Rightarrow> 'b i2c_bus \<Rightarrow> ('s, 'b) i2c_view \<Rightarrow> bool" where
  "command_laws d base bus V \<longleftrightarrow>
     (\<forall>s v. line V (ls2k_i2c_writeb d base v TXR_REG s) = line V s
        \<and> txr V (ls2k_i2c_writeb d base v TXR_REG s) = v)
     \<and> (\<forall>s. (\<not> nak V (ls2k_i2c_writeb d base (CR_START OR CR_WRITE) CR_REG s),
            line V (ls2k_i2c_writeb d base (CR_START OR CR_WRITE) CR_REG s))
          = b_start bus (txr V s) (line V s))
     \<and> (\<forall>s. (\<not> nak V (ls2k_i2c_writeb d base CR_WRITE CR_REG s),
            line V (ls2k_i2c_writeb d base CR_WRITE CR_REG s))
          = b_write bus (txr V s) (line V s))
     \<and> (\<forall>s. (rxr V (ls2k_i2c_writeb d base CR_READ CR_REG s),
            line V (ls2k_i2c_writeb d base CR_READ CR_REG s))
          = b_read bus False (line V s))
     \<and> (\<forall>s. (rxr V (ls2k_i2c_writeb d base (CR_READ OR CR_ACK) CR_REG s),
            line V (ls2k_i2c_writeb d base (CR_READ OR CR_ACK) CR_REG s))
          = b_read bus True (line V s))
     \<and> (\<forall>s. line V (ls2k_i2c_writeb d base CR_STOP CR_REG s) = b_stop bus (line V s))"

definition status_laws :: "'s mmio \<Rightarrow> u32 \<Rightarrow> 'b i2c_bus \<Rightarrow> ('s, 'b) i2c_view \<Rightarrow> bool" where
  "status_laws d base bus V \<longleftrightarrow>
     (\<forall>s. line V (snd (ls2k_i2c_readb d base SR_REG s)) = line V s
        \<and> nak V (snd (ls2k_i2c_readb d base SR_REG s)) = nak V s
        \<and> rxr V (snd (ls2k_i2c_readb d base SR_REG s)) = rxr V s)
     \<and> (\<forall>s. fst (ls2k_i2c_readb d base SR_REG s) AND SR_TIP = 0
          \<longrightarrow> ready V (snd (ls2k_i2c_readb d base SR_REG s)))
     \<and> (\<forall>s. ready V s \<longrightarrow> (fst (ls2k_i2c_readb d base SR_REG s) AND SR_NOACK \<noteq> 0) = nak V s)
     \<and> (\<forall>s. fst (ls2k_i2c_readb d base RXR_REG s) = rxr V s
        \<and> line V (snd (ls2k_i2c_readb d base RXR_REG s)) = line V s)"

text \<open>Transfers and stop conditions end, and a second stop changes nothing.\<close>

definition progress_laws :: "'s mmio \<Rightarrow> u32 \<Rightarrow> 'b i2c_bus \<Rightarrow> ('s, 'b) i2c_view \<Rightarrow> bool" where
  "progress_laws d base bus V \<longleftrightarrow>
     settles d (i2c_addr base SR_REG) SR_TIP (tip_rank V)
     \<and> (\<forall>s. let r = ls2k_i2c_readb d base SR_REG
                  (snd (ls2k_i2c_readb d base SR_REG (ls2k_i2c_writeb d base CR_STOP CR_REG s))) in
            fst r AND SR_BUSY \<noteq> 0 \<longrightarrow> busy_rank V (snd r) < busy_rank V s)
     \<and> (\<forall>b. b_stop bus (b_stop bus b) = b_stop bus b)"

definition i2c_contract :: "'s mmio \<Rightarrow> u32 \<Rightarrow> 'b i2c_bus \<Rightarrow> ('s, 'b) i2c_view \<Rightarrow> bool" where
  "i2c_contract d base bus V \<longleftrightarrow>
     command_laws d base bus V \<and> status_laws d base bus V \<and> progress_laws d base bus V"

named_theorems i2c_steps \<open>each driver routine returns, with its effect on the bus\<close>

lemma wait_tip_returns [i2c_steps]:
  assumes "i2c_contract d base bus V"
  shows "\<exists>s'. wait_tip d base s = Inr s' \<and> line V s' = line V s \<and> nak V s' = nak V s
    \<and> rxr V s' = rxr V s \<and> ready V s'"
proof -
  have st: "status_laws d base bus V" and
    se: "settles d (i2c_addr base SR_REG) SR_TIP (tip_rank V)"
    using assms by (simp_all add: i2c_contract_def progress_laws_def)
  let ?P = "\<lambda>s'. line V s' = line V s \<and> nak V s' = nak V s \<and> rxr V s' = rxr V s"
  have inv: "?P (snd (read8 d (i2c_addr base SR_REG) x))" if "?P x" for x
    using st that by (simp add: status_laws_def ls2k_i2c_readb_def)
  obtain s1 where s1: "?P s1" "fst (read8 d (i2c_addr base SR_REG) s1) AND SR_TIP = 0"
    "poll d (i2c_addr base SR_REG) SR_TIP s = Some (snd (read8 d (i2c_addr base SR_REG) s1))"
    using poll_returns [OF se, of ?P, OF inv] by blast
  have "ready V (snd (read8 d (i2c_addr base SR_REG) s1))"
    using st s1(2) by (simp add: status_laws_def ls2k_i2c_readb_def)
  with s1(3) inv [OF s1(1)] show ?thesis by (simp add: wait_tip_def)
qed

lemma stop_returns [i2c_steps]:
  assumes "i2c_contract d base bus V"
  shows "\<exists>s'. ls2k_i2c_stop d base s = Inr s' \<and> line V s' = b_stop bus (line V s)"
proof (induction "busy_rank V s" arbitrary: s rule: less_induct)
  case less
  define s2 where "s2 = snd (ls2k_i2c_readb d base SR_REG (ls2k_i2c_writeb d base CR_STOP CR_REG s))"
  define r where "r = ls2k_i2c_readb d base SR_REG s2"
  have l: "line V (snd r) = b_stop bus (line V s)"
    using assms by (simp add: r_def s2_def i2c_contract_def command_laws_def status_laws_def)
  have step: "ls2k_i2c_stop d base s =
      (if fst r AND SR_BUSY \<noteq> 0 then ls2k_i2c_stop d base (snd r) else Inr (snd r))"
    unfolding ls2k_i2c_stop_def r_def s2_def ls2k_i2c_readb_def ls2k_i2c_writeb_def
    by (subst stop_loop.simps) (simp add: Let_def split_beta)
  show ?case
  proof (cases "fst r AND SR_BUSY = 0")
    case True
    with step l show ?thesis by simp
  next
    case False
    then have "busy_rank V (snd r) < busy_rank V s"
      using assms by (simp add: i2c_contract_def progress_laws_def r_def s2_def Let_def)
    from less.hyps [OF this] obtain s' where "ls2k_i2c_stop d base (snd r) = Inr s'"
      "line V s' = b_stop bus (line V (snd r))" by blast
    moreover have "b_stop bus (b_stop bus b) = b_stop bus b" for b
      using assms by (simp add: i2c_contract_def progress_laws_def)
    ultimately show ?thesis using False step l by simp
  qed
qed

text \<open>The laws of the contract in the form the proofs use them.\<close>

lemma contract_tx:
  "i2c_contract d base bus V \<Longrightarrow> line V (ls2k_i2c_writeb d base v TXR_REG s) = line V s"
  "i2c_contract d base bus V \<Longrightarrow> txr V (ls2k_i2c_writeb d base v TXR_REG s) = v"
  by (simp_all add: i2c_contract_def command_laws_def)

lemma contract_start:
  assumes "i2c_contract d base bus V" and "b_start bus a (line V s) = (ack, b)"
  defines "s0 \<equiv> ls2k_i2c_writeb d base (CR_START OR CR_WRITE) CR_REG
      (ls2k_i2c_writeb d base a TXR_REG s)"
  shows "nak V s0 = (\<not> ack)" and "line V s0 = b"
proof -
  have "(\<not> nak V s0, line V s0) = (ack, b)"
    using assms by (simp add: i2c_contract_def command_laws_def)
  then show "nak V s0 = (\<not> ack)" "line V s0 = b" by auto
qed

lemma contract_write:
  assumes "i2c_contract d base bus V" and "b_write bus a (line V s) = (ack, b)"
  defines "s0 \<equiv> ls2k_i2c_writeb d base CR_WRITE CR_REG (ls2k_i2c_writeb d base a TXR_REG s)"
  shows "nak V s0 = (\<not> ack)" and "line V s0 = b"
proof -
  have "(\<not> nak V s0, line V s0) = (ack, b)"
    using assms by (simp add: i2c_contract_def command_laws_def)
  then show "nak V s0 = (\<not> ack)" "line V s0 = b" by auto
qed

lemma contract_read:
  assumes "i2c_contract d base bus V" and "b_read bus final (line V s) = (v, b)"
  defines "s0 \<equiv> ls2k_i2c_writeb d base (if final then CR_READ OR CR_ACK else CR_READ) CR_REG s"
  shows "rxr V s0 = v" and "line V s0 = b"
proof -
  have "(rxr V s0, line V s0) = (v, b)"
    using assms by (cases final) (simp_all add: i2c_contract_def command_laws_def)
  then show "rxr V s0 = v" "line V s0 = b" by auto
qed

lemma contract_data:
  "i2c_contract d base bus V \<Longrightarrow> fst (ls2k_i2c_readb d base RXR_REG s) = rxr V s"
  "i2c_contract d base bus V \<Longrightarrow> line V (snd (ls2k_i2c_readb d base RXR_REG s)) = line V s"
  by (simp_all add: i2c_contract_def status_laws_def)

lemma contract_status:
  "i2c_contract d base bus V \<Longrightarrow> line V (snd (ls2k_i2c_readb d base SR_REG s)) = line V s"
  "i2c_contract d base bus V \<Longrightarrow> ready V s
    \<Longrightarrow> (fst (ls2k_i2c_readb d base SR_REG s) AND SR_NOACK \<noteq> 0) = nak V s"
  unfolding i2c_contract_def status_laws_def by blast+

text \<open>One byte out: command, wait, look at the acknowledge.\<close>

lemma byte_out:
  assumes "i2c_contract d base bus V"
    and "nak V s = (\<not> ack)" "line V s = b"
  shows "\<exists>s1. wait_tip d base s = Inr s1 \<and>
    (fst (ls2k_i2c_readb d base SR_REG s1) AND SR_NOACK \<noteq> 0) = (\<not> ack) \<and>
    line V (snd (ls2k_i2c_readb d base SR_REG s1)) = b"
proof -
  obtain s1 where "wait_tip d base s = Inr s1" "line V s1 = line V s" "nak V s1 = nak V s"
    "ready V s1"
    using wait_tip_returns [OF assms(1)] by blast
  with assms contract_status [OF assms(1), of s1] show ?thesis by (intro exI [of _ s1]) simp
qed

lemma start_returns [i2c_steps]:
  assumes "i2c_contract d base bus V"
  shows "\<exists>s'. start_try d base addr k s
      = Inr (if fst (bus_start bus addr k (line V s)) then 1 else 0, s')
    \<and> line V s' = snd (bus_start bus addr k (line V s))"
proof (induction k arbitrary: s)
  case 0
  define s0 where "s0 = ls2k_i2c_writeb d base (CR_START OR CR_WRITE) CR_REG
      (ls2k_i2c_writeb d base addr TXR_REG s)"
  obtain ack b where ab: "b_start bus addr (line V s) = (ack, b)" by fastforce
  from byte_out [OF assms contract_start [OF assms ab], folded s0_def] obtain s1 where s1: "wait_tip d base s0 = Inr s1"
    "(fst (ls2k_i2c_readb d base SR_REG s1) AND SR_NOACK \<noteq> 0) = (\<not> ack)"
    "line V (snd (ls2k_i2c_readb d base SR_REG s1)) = b" by blast
  show ?case
    using s1 stop_returns [OF assms, of "snd (ls2k_i2c_readb d base SR_REG s1)"] ab
    by (cases ack) (auto simp: s0_def [symmetric] split_beta)
next
  case (Suc k)
  define s0 where "s0 = ls2k_i2c_writeb d base (CR_START OR CR_WRITE) CR_REG
      (ls2k_i2c_writeb d base addr TXR_REG s)"
  obtain ack b where ab: "b_start bus addr (line V s) = (ack, b)" by fastforce
  from byte_out [OF assms contract_start [OF assms ab], folded s0_def] obtain s1 where s1: "wait_tip d base s0 = Inr s1"
    "(fst (ls2k_i2c_readb d base SR_REG s1) AND SR_NOACK \<noteq> 0) = (\<not> ack)"
    "line V (snd (ls2k_i2c_readb d base SR_REG s1)) = b" by blast
  obtain s2 where s2: "ls2k_i2c_stop d base (snd (ls2k_i2c_readb d base SR_REG s1)) = Inr s2"
    "line V s2 = b_stop bus b"
    using stop_returns [OF assms] s1(3) by blast
  show ?case
    using s1 s2 Suc [of s2] ab
    by (cases ack) (auto simp: s0_def [symmetric] split_beta)
qed

lemma write_returns [i2c_steps]:
  assumes "i2c_contract d base bus V" and "n \<le> length buf" and "i \<le> n"
  shows "\<exists>s'. write_loop d base n [i..<n] buf s
      = Inr (if fst (bus_write bus (drop i (take n buf)) (line V s)) then n else 0, s')
    \<and> line V s' = snd (bus_write bus (drop i (take n buf)) (line V s))"
  using assms(3)
proof (induction "n - i" arbitrary: i s)
  case 0
  then show ?case by simp
next
  case (Suc k)
  then have i: "i < n" by simp
  define s0 where "s0 = ls2k_i2c_writeb d base CR_WRITE CR_REG
      (ls2k_i2c_writeb d base (buf ! i) TXR_REG s)"
  obtain ack b where ab: "b_write bus (buf ! i) (line V s) = (ack, b)" by fastforce
  from byte_out [OF assms(1) contract_write [OF assms(1) ab], folded s0_def] obtain s1 where s1: "wait_tip d base s0 = Inr s1"
    "(fst (ls2k_i2c_readb d base SR_REG s1) AND SR_NOACK \<noteq> 0) = (\<not> ack)"
    "line V (snd (ls2k_i2c_readb d base SR_REG s1)) = b" by blast
  have up: "[i..<n] = i # [Suc i..<n]" using i by (rule upt_conv_Cons)
  have dr: "drop i (take n buf) = buf ! i # drop (Suc i) (take n buf)"
    using i assms(2) by (subst Cons_nth_drop_Suc [symmetric]) simp_all
  have rd_i: "rd buf i = Inr (buf ! i)" using i assms(2) by simp
  show ?case
  proof (cases ack)
    case True
    have "k = n - Suc i" "Suc i \<le> n" using Suc.hyps(2) i by simp_all
    from Suc.hyps(1) [OF this, of "snd (ls2k_i2c_readb d base SR_REG s1)"] show ?thesis
      using True s1 ab rd_i by (simp add: up dr s0_def [symmetric] split_beta)
  next
    case False
    obtain s2 where "ls2k_i2c_stop d base (snd (ls2k_i2c_readb d base SR_REG s1)) = Inr s2"
      "line V s2 = b_stop bus b"
      using stop_returns [OF assms(1)] s1(3) by blast
    then show ?thesis
      using False s1 ab rd_i by (simp add: up dr s0_def [symmetric] split_beta)
  qed
qed

lemma length_bus_read [simp]: "length (fst (bus_read bus n b)) = n"
  by (induction n arbitrary: b) (simp_all add: split_beta)

lemma read_returns [i2c_steps]:
  assumes "i2c_contract d base bus V" and "n \<le> length buf" and "i \<le> n"
  shows "\<exists>s'. read_loop d base n [i..<n] buf s
      = Inr (take i buf @ fst (bus_read bus (n - i) (line V s)) @ drop n buf, s')
    \<and> line V s' = snd (bus_read bus (n - i) (line V s))"
  using assms(2,3)
proof (induction "n - i" arbitrary: i s buf)
  case 0
  then show ?case by simp
next
  case (Suc k)
  then have i: "i < n" by simp
  have flag: "(i = n - 1) = (k = 0)" using Suc.hyps(2) i by auto
  define s0 where "s0 = ls2k_i2c_writeb d base (if i = n - 1 then CR_READ OR CR_ACK else CR_READ)
      CR_REG s"
  obtain v b where vb: "b_read bus (k = 0) (line V s) = (v, b)" by fastforce
  have l0: "rxr V s0 = v" "line V s0 = b"
    using contract_read [OF assms(1) vb] flag by (simp_all add: s0_def)
  obtain s1 where s1: "wait_tip d base s0 = Inr s1" "line V s1 = b" "rxr V s1 = v"
    using wait_tip_returns [OF assms(1), of s0] l0 by auto
  define s2 where "s2 = snd (ls2k_i2c_readb d base RXR_REG s1)"
  have s2: "fst (ls2k_i2c_readb d base RXR_REG s1) = v" "line V s2 = b"
    using contract_data [OF assms(1)] s1 by (simp_all add: s2_def)
  have up: "[i..<n] = i # [Suc i..<n]" using i by (rule upt_conv_Cons)
  have w: "wr buf i v = Inr (buf[i := v])" using i Suc.prems by simp
  have "k = n - Suc i" "n \<le> length (buf[i := v])" "Suc i \<le> n"
    using Suc.hyps(2) Suc.prems i by simp_all
  from Suc.hyps(1) [OF this, of s2] obtain s' where s':
    "read_loop d base n [Suc i..<n] (buf[i := v]) s2 = Inr (take (Suc i) (buf[i := v])
        @ fst (bus_read bus (n - Suc i) b) @ drop n (buf[i := v]), s')"
    "line V s' = snd (bus_read bus (n - Suc i) b)"
    using s2 by auto
  have k: "n - i = Suc (n - Suc i)" "k = n - Suc i" using i Suc.hyps(2) by simp_all
  have "take (Suc i) (buf[i := v]) = take i buf @ [v]"
    using i Suc.prems by (simp add: take_Suc_conv_app_nth)
  moreover have "drop n (buf[i := v]) = drop n buf" using i by (simp add: drop_update_cancel)
  moreover have "read_loop d base n [i..<n] buf s = read_loop d base n [Suc i..<n] (buf[i := v]) s2"
    using s1(1) s2(1) w
    unfolding up read_loop.simps s0_def [symmetric] by (simp add: s2_def split_beta)
  moreover have "bus_read bus (n - i) (line V s)
      = (v # fst (bus_read bus (n - Suc i) b), snd (bus_read bus (n - Suc i) b))"
    using vb unfolding k(1) k(2) by (simp add: split_beta)
  ultimately show ?case using s' by simp
qed

text \<open>Whole transfers.\<close>

lemma ls2k_i2c_start_returns:
  assumes "i2c_contract d base bus V"
  shows "\<exists>s'. ls2k_i2c_start d base a f s
      = Inr (if fst (bus_start bus (ucast a) 5 (line V s)) then 1 else 0, s')
    \<and> line V s' = snd (bus_start bus (ucast a) 5 (line V s))"
  unfolding ls2k_i2c_start_def by (rule start_returns [OF assms])

lemma ls2k_i2c_write_returns:
  assumes "i2c_contract d base bus V" and "n \<le> length buf"
  shows "\<exists>s'. ls2k_i2c_write d base buf n s
      = Inr (if fst (bus_write bus (take n buf) (line V s)) then n else 0, s')
    \<and> line V s' = snd (bus_write bus (take n buf) (line V s))"
  unfolding ls2k_i2c_write_def using write_returns [OF assms, of 0] by simp

lemma ls2k_i2c_read_returns:
  assumes "i2c_contract d base bus V" and "n \<le> length buf"
  shows "\<exists>s'. ls2k_i2c_read d base buf n s
      = Inr (n, overwrite (fst (bus_read bus n (line V s))) buf, s')
    \<and> line V s' = snd (bus_read bus n (line V s))"
proof -
  obtain s' where "read_loop d base n [0..<n] buf s
      = Inr (fst (bus_read bus n (line V s)) @ drop n buf, s')"
    "line V s' = snd (bus_read bus n (line V s))"
    using read_returns [OF assms, of 0] by auto
  then show ?thesis by (simp add: ls2k_i2c_read_def overwrite_def)
qed

lemma transfer_returns:
  assumes c: "i2c_contract d base bus V"
    and "\<forall>m\<in>set ms. unat (msg_len m) \<le> length (msg_buf m)"
  shows "\<exists>s'. transfer_loop d base i ms s
      = Inr (fst (bus_transfer bus i ms (line V s)), fst (snd (bus_transfer bus i ms (line V s))), s')
    \<and> line V s' = snd (snd (bus_transfer bus i ms (line V s)))"
  using assms(2)
proof (induction ms arbitrary: i s)
  case Nil
  then show ?case using stop_returns [OF c, of s] by auto
next
  case (Cons m ms)
  define st where "st = (if msg_flags m AND I2C_M_NOSTART = 0
      then bus_start bus (ucast (msg_addr m)) 5 (line V s) else (True, line V s))"
  obtain s1 where s1: "(if msg_flags m AND I2C_M_NOSTART = 0
        then ls2k_i2c_start d base (msg_addr m) (msg_flags m) s else Inr (1, s))
      = Inr (if fst st then 1 else 0, s1)" "line V s1 = snd st"
    using ls2k_i2c_start_returns [OF c, of "msg_addr m" "msg_flags m" s]
    by (cases "msg_flags m AND I2C_M_NOSTART = 0") (auto simp: st_def)
  show ?case
  proof (cases "fst st")
    case False
    with s1 show ?thesis
      unfolding transfer_loop.simps bus_transfer.simps st_def [symmetric] s1(1)
      by (auto simp: split_beta)
  next
    case True
    define bd where "bd = (if msg_flags m AND I2C_M_RD \<noteq> 0
        then (case bus_read bus (unat (msg_len m)) (snd st) of
                (vs, b) \<Rightarrow> (m\<lparr>msg_buf := overwrite vs (msg_buf m)\<rparr>, b))
        else (m, snd (bus_write bus (take (unat (msg_len m)) (msg_buf m)) (snd st))))"
    have len: "unat (msg_len m) \<le> length (msg_buf m)" using Cons.prems by simp
    obtain s2 where s2: "(if msg_flags m AND I2C_M_RD \<noteq> 0
        then rbind (ls2k_i2c_read d base (msg_buf m) (unat (msg_len m)) s1) (\<lambda>(n, b, s).
               Inr (m\<lparr>msg_buf := b\<rparr>, s))
        else rbind (ls2k_i2c_write d base (msg_buf m) (unat (msg_len m)) s1) (\<lambda>(n, s).
               Inr (m, s))) = (Inr (fst bd, s2) :: (i2c_msg \<times> 'a) res)" "line V s2 = snd bd"
      using ls2k_i2c_read_returns [OF c len, of s1] ls2k_i2c_write_returns [OF c len, of s1] s1(2)
      by (cases "msg_flags m AND I2C_M_RD = 0") (auto simp: bd_def split_beta)
    obtain s3 where s3: "transfer_loop d base (Suc i) ms s2
      = Inr (fst (bus_transfer bus (Suc i) ms (snd bd)),
          fst (snd (bus_transfer bus (Suc i) ms (snd bd))), s3)"
      "line V s3 = snd (snd (bus_transfer bus (Suc i) ms (snd bd)))"
      using Cons.IH [of "Suc i" s2] Cons.prems s2(2) by auto
    have "transfer_loop d base i (m # ms) s = Inr (fst (bus_transfer bus (Suc i) ms (snd bd)),
        fst bd # fst (snd (bus_transfer bus (Suc i) ms (snd bd))), s3)"
      unfolding transfer_loop.simps s1(1) using True s2(1) s3(1) by simp
    moreover have "bus_transfer bus i (m # ms) (line V s)
        = (fst (bus_transfer bus (Suc i) ms (snd bd)),
           fst bd # fst (snd (bus_transfer bus (Suc i) ms (snd bd))),
           snd (snd (bus_transfer bus (Suc i) ms (snd bd))))"
      unfolding bus_transfer.simps st_def [symmetric] using True
      by (simp add: split_beta bd_def)
    ultimately show ?thesis using s3(2) by simp
  qed
qed

declare bus_start.simps [simp del] start_try.simps [simp del]

lemma bus_start_ack [simp]:
  "fst (b_start bus addr b) \<Longrightarrow> bus_start bus addr k b = b_start bus addr b"
  by (subst bus_start.simps) (auto simp: split_beta prod_eq_iff)

lemma bus_read_2:
  "bus_read bus 2 b = (let r = b_read bus False b; r' = b_read bus True (snd r) in
     ([fst r, fst r'], snd r'))"
  by (simp add: numeral_2_eq_2 Let_def split_beta)

section \<open>A controller that keeps the contract\<close>

text \<open>
  For the witnesses: a controller in front of any bus, which is busy for two reads of the status
  register after a command, and for two stop commands after a start.
\<close>

record 'b sim =
  sim_line :: 'b
  sim_txr :: u8
  sim_rxr :: u8
  sim_nak :: bool
  sim_wait :: nat
  sim_busy :: nat

definition sim_write :: "u32 \<Rightarrow> 'b i2c_bus \<Rightarrow> u64 \<Rightarrow> u8 \<Rightarrow> 'b sim \<Rightarrow> 'b sim" where
  "sim_write base bus a v s =
     (if a = i2c_addr base TXR_REG then s\<lparr>sim_txr := v\<rparr>
      else if a = i2c_addr base CR_REG then
        (if v = CR_START OR CR_WRITE then
           (case b_start bus (sim_txr s) (sim_line s) of
              (ack, b) \<Rightarrow> s\<lparr>sim_line := b, sim_nak := \<not> ack, sim_wait := 2, sim_busy := 2\<rparr>)
         else if v = CR_WRITE then
           (case b_write bus (sim_txr s) (sim_line s) of
              (ack, b) \<Rightarrow> s\<lparr>sim_line := b, sim_nak := \<not> ack, sim_wait := 2\<rparr>)
         else if v = CR_READ \<or> v = CR_READ OR CR_ACK then
           (case b_read bus (v = CR_READ OR CR_ACK) (sim_line s) of
              (r, b) \<Rightarrow> s\<lparr>sim_line := b, sim_rxr := r, sim_wait := 2\<rparr>)
         else if v = CR_STOP then s\<lparr>sim_line := b_stop bus (sim_line s), sim_busy := sim_busy s - 1\<rparr>
         else s)
      else s)"

definition sim_read :: "u32 \<Rightarrow> u64 \<Rightarrow> 'b sim \<Rightarrow> u8 \<times> 'b sim" where
  "sim_read base a s =
     (if a = i2c_addr base RXR_REG then (sim_rxr s, s)
      else if a = i2c_addr base SR_REG then
        ((if sim_wait s > 0 then SR_TIP else 0) OR (if sim_nak s then SR_NOACK else 0)
           OR (if sim_busy s > 0 then SR_BUSY else 0), s\<lparr>sim_wait := sim_wait s - 1\<rparr>)
      else (0, s))"

definition sim_mmio :: "u32 \<Rightarrow> 'b i2c_bus \<Rightarrow> 'b sim mmio" where
  "sim_mmio base bus = \<lparr>read8 = sim_read base, write8 = sim_write base bus\<rparr>"

definition sim_view :: "('b sim, 'b) i2c_view" where
  "sim_view = \<lparr>line = sim_line, txr = sim_txr, rxr = sim_rxr, nak = sim_nak,
     ready = (\<lambda>s. sim_wait s = 0), tip_rank = sim_wait, busy_rank = sim_busy\<rparr>"

definition sim_of :: "'b \<Rightarrow> 'b sim" where
  "sim_of b = \<lparr>sim_line = b, sim_txr = 0, sim_rxr = 0, sim_nak = False, sim_wait = 0, sim_busy = 0\<rparr>"

lemmas command_codes = CR_START_def CR_STOP_def CR_READ_def CR_WRITE_def CR_ACK_def
lemmas status_codes = SR_TIP_def SR_NOACK_def SR_BUSY_def

lemma sim_contract:
  assumes "i2c_addr base TXR_REG \<noteq> i2c_addr base CR_REG"
    and "\<And>b. b_stop bus (b_stop bus b) = b_stop bus b"
  shows "i2c_contract (sim_mmio base bus) base bus sim_view"
proof -
  note d = sim_mmio_def sim_view_def ls2k_i2c_writeb_def ls2k_i2c_readb_def
  have "command_laws (sim_mmio base bus) base bus sim_view"
    unfolding command_laws_def using assms(1)
    by (auto simp: d sim_write_def command_codes split: prod.splits)
  moreover have "status_laws (sim_mmio base bus) base bus sim_view"
    unfolding status_laws_def using assms(1)
    by (auto simp: d sim_read_def status_codes)
  moreover have "progress_laws (sim_mmio base bus) base bus sim_view"
    unfolding progress_laws_def settles_def using assms
    by (auto simp: d sim_read_def sim_write_def status_codes command_codes Let_def)
  ultimately show ?thesis by (simp add: i2c_contract_def)
qed

text \<open>A bus with one device, which keeps the bytes written and reads as its register count.\<close>

definition demo_bus :: "(nat \<times> u8 list) i2c_bus" where
  "demo_bus = \<lparr>b_start = (\<lambda>a b. (a = 0x90, b)), b_write = (\<lambda>v (n, vs). (True, n, vs @ [v])),
     b_read = (\<lambda>final (n, vs). (word_of_nat n, Suc n, vs)), b_stop = id\<rparr>"

abbreviation (input) demo_base :: u32 where "demo_base \<equiv> 0xbfe01800"

lemma demo_contract: "i2c_contract (sim_mmio demo_base demo_bus) demo_base demo_bus sim_view"
  by (rule sim_contract) (simp_all add: i2c_addr_def demo_bus_def)

section \<open>Properties\<close>

text \<open>C9. On a controller that carries out its commands and whose busy bits clear, a transfer of
  messages whose lengths fit their buffers returns, stays inside the buffers, and does on the bus
  what the abstract transfer says: up to six start attempts per message, the bytes of each message
  up to the first refused one, one stop; the buffers of read messages start with the bytes read.\<close>

theorem i2c_transfer_refines:
  assumes "i2c_contract d base bus V"
    and "\<forall>m\<in>set msgs. unat (msg_len m) \<le> length (msg_buf m)"
  shows "\<exists>r ms s'. i2c_transfer d base msgs s = Inr (r, ms, s')
    \<and> bus_transfer bus 0 msgs (line V s) = (r, ms, line V s')"
  using transfer_returns [OF assms, of 0 s] unfolding i2c_transfer_def by (metis prod.collapse)

theorem i2c_transfer_refines_witness:
  "\<exists>r ms s'. i2c_transfer (sim_mmio demo_base demo_bus) demo_base
      [\<lparr>msg_addr = 0x90, msg_flags = 0, msg_len = 2, msg_buf = [7, 8]\<rparr>,
       \<lparr>msg_addr = 0x90, msg_flags = I2C_M_RD, msg_len = 2, msg_buf = [0, 0, 0]\<rparr>] (sim_of (5, []))
      = Inr (r, ms, s')
    \<and> r = 2 \<and> msg_buf (last ms) = [5, 6, 0] \<and> line sim_view s' = (7, [7, 8])"
proof -
  let ?ms = "[\<lparr>msg_addr = 0x90, msg_flags = 0, msg_len = 2, msg_buf = [7, 8]\<rparr>,
       \<lparr>msg_addr = 0x90, msg_flags = I2C_M_RD, msg_len = 2, msg_buf = [0, 0, 0]\<rparr>]"
  have "bus_transfer demo_bus 0 ?ms (5, []) = (2, [?ms ! 0, (?ms ! 1)\<lparr>msg_buf := [5, 6, 0]\<rparr>], 7, [7, 8])"
    by (simp add: demo_bus_def I2C_M_RD_def I2C_M_NOSTART_def overwrite_def bus_read_2)
  then have b: "bus_transfer demo_bus 0 ?ms (line sim_view (sim_of (5, [])))
      = (2, [?ms ! 0, (?ms ! 1)\<lparr>msg_buf := [5, 6, 0]\<rparr>], 7, [7, 8])"
    by (simp add: sim_view_def sim_of_def)
  obtain r ms s' where "i2c_transfer (sim_mmio demo_base demo_bus) demo_base ?ms (sim_of (5, []))
      = Inr (r, ms, s')"
    "bus_transfer demo_bus 0 ?ms (line sim_view (sim_of (5, []))) = (r, ms, line sim_view s')"
    using i2c_transfer_refines [OF demo_contract, of ?ms "sim_of (5, [])"] by (simp add: I2C_M_RD_def) blast
  then show ?thesis unfolding b by (intro exI [of _ r] exI [of _ ms] exI [of _ s']) auto
qed

text \<open>The register functions report success whatever happens: with no device at the address
  they give up after the first message, leave the buffer as it was, and return 0.\<close>

theorem i2c_absent_device:
  assumes "i2c_contract d base bus V" and "0 \<le> alen" "alen \<le> 4"
    and "0 \<le> len" "len \<le> int (length buffer)" "len < 2 ^ 16"
    and "\<And>b. \<not> fst (b_start bus chip b)"
  shows "(\<exists>s'. i2c_read d base chip addr alen buffer len s = Inr (0, buffer, s'))
    \<and> (\<exists>s'. i2c_write d base chip addr alen buffer len s = Inr (0, s'))"
proof -
  have l: "unat (word_of_int alen :: u16) \<le> 4" "unat (word_of_int len :: u16) \<le> length buffer"
    using assms(2-6)
    by (simp_all add: unat_eq_nat_uint unsigned_of_int nat_le_iff take_bit_int_eq_self)
  have no: "\<not> fst (bus_start bus chip k b)" for k b
    using assms(7) by (induction k arbitrary: b) (subst bus_start.simps, simp add: split_beta)+
  have c: "ucast (ucast chip :: u16) = chip" by (rule bit_word_eqI) (simp add: bit_simps)
  let ?m = "\<lambda>f. [\<lparr>msg_addr = ucast chip, msg_flags = 0, msg_len = word_of_int alen,
      msg_buf = uint_bytes addr\<rparr>, \<lparr>msg_addr = ucast chip, msg_flags = f, msg_len = word_of_int len,
      msg_buf = buffer\<rparr>]"
  have "\<exists>s' b. i2c_transfer d base (?m f) s = Inr (0, ?m f, s')" for f
  proof -
    have "\<forall>m\<in>set (?m f). unat (msg_len m) \<le> length (msg_buf m)"
      using l by (simp add: uint_bytes_def)
    from transfer_returns [OF assms(1) this, of 0 s] show ?thesis
      using no [of 5 "line V s"] unfolding i2c_transfer_def by (auto simp: split_beta c)
  qed
  from this [of I2C_M_RD] this [of I2C_M_NOSTART] show ?thesis
    unfolding i2c_read_def i2c_write_def by auto
qed

theorem i2c_absent_device_witness:
  "(\<exists>s'. i2c_read (sim_mmio demo_base demo_bus) demo_base 0xA0 5 1 [1, 2, 3] 3 (sim_of (0, []))
      = Inr (0, [1, 2, 3], s'))
   \<and> (\<exists>s'. i2c_write (sim_mmio demo_base demo_bus) demo_base 0xA0 5 1 [1, 2, 3] 3 (sim_of (0, []))
      = Inr (0, s'))"
  by (rule i2c_absent_device [OF demo_contract]) (simp_all add: demo_bus_def)

end
