(* ===== verification/Eeprom.thy ===== *)
theory Eeprom
  imports I2c
begin

text \<open>
  The EEPROM driver \<open>ls2kdev_record/drivers/eeprom.c\<close>: its own byte-level I2C routines on the
  first controller, the write and read operations of the chip and the two console commands.
  \<open>gethex\<close> works on characters; console output is the list of address and byte pairs printed.
\<close>

section \<open>Registers\<close>

abbreviation (input) LS2K_I2C0_REG_BASE :: u64 where "LS2K_I2C0_REG_BASE \<equiv> 0xffffffffbfe01000"

definition CAT24C16_ADDR :: u8 where "CAT24C16_ADDR = 0xa0"

definition ee_outb :: "'s mmio \<Rightarrow> u64 \<Rightarrow> u8 \<Rightarrow> 's \<Rightarrow> 's" where
  "ee_outb d reg v s = write8 d (LS2K_I2C0_REG_BASE + reg) v s"

definition ee_inb :: "'s mmio \<Rightarrow> u64 \<Rightarrow> 's \<Rightarrow> u8 \<times> 's" where
  "ee_inb d reg s = read8 d (LS2K_I2C0_REG_BASE + reg) s"

section \<open>Bytes on the bus\<close>

definition ee_i2c_stop :: "'s mmio \<Rightarrow> 's \<Rightarrow> 's res" where
  "ee_i2c_stop d s = returning (stop_loop d (LS2K_I2C0_REG_BASE + 4) (LS2K_I2C0_REG_BASE + 4) s)"

definition ee_wait :: "'s mmio \<Rightarrow> 's \<Rightarrow> 's res" where
  "ee_wait d s = returning (poll d (LS2K_I2C0_REG_BASE + 4) SR_TIP s)"

definition i2c_init :: "'s mmio \<Rightarrow> 's \<Rightarrow> 's" where
  "i2c_init d s =
     ee_outb d 2 0x80 (ee_outb d 1 0x2 (ee_outb d 0 0x71 (ee_outb d 2 0x0 s)))"

definition i2c_tx_byte :: "'s mmio \<Rightarrow> u8 \<Rightarrow> u8 \<Rightarrow> 's \<Rightarrow> (int \<times> 's) res" where
  "i2c_tx_byte d data opt s =
     rbind (ee_wait d (ee_outb d 4 opt (ee_outb d 3 data s))) (\<lambda>s.
     case ee_inb d 4 s of
       (v, s) \<Rightarrow>
         if v AND SR_NOACK \<noteq> 0 then rbind (ee_i2c_stop d s) (\<lambda>s. Inr (-1, s))
         else Inr (0, s))"

definition i2c_send_addr :: "'s mmio \<Rightarrow> u8 \<Rightarrow> 's \<Rightarrow> (int \<times> 's) res" where
  "i2c_send_addr d data_addr s =
     rbind (i2c_tx_byte d CAT24C16_ADDR (CR_START OR CR_WRITE) s) (\<lambda>(r, s).
     if r < 0 then Inr (0, s)
     else
       rbind (i2c_tx_byte d (data_addr AND 0xff) CR_WRITE s) (\<lambda>(r, s).
       if r < 0 then Inr (0, s) else Inr (1, s)))"

section \<open>Writing\<close>

definition ls2k_eeprom_write_byte :: "'s mmio \<Rightarrow> u8 \<Rightarrow> u8 list \<Rightarrow> 's \<Rightarrow> (int \<times> 's) res" where
  "ls2k_eeprom_write_byte d data_addr buf s =
     rbind (i2c_send_addr d data_addr s) (\<lambda>(ok, s).
     if ok = 0 then Inr (0, s)
     else
       rbind (rd buf 0) (\<lambda>v.
       rbind (i2c_tx_byte d (v AND 0xff) CR_WRITE s) (\<lambda>(r, s).
       if r < 0 then Inr (0, s)
       else rbind (ee_i2c_stop d s) (\<lambda>s. Inr (1, s)))))"

text \<open>The loop over the bytes; its result is whether it ran to its end.\<close>

fun ee_write_loop :: "'s mmio \<Rightarrow> u8 list \<Rightarrow> nat list \<Rightarrow> 's \<Rightarrow> (bool \<times> 's) res" where
  "ee_write_loop d buf [] s = Inr (True, s)"
| "ee_write_loop d buf (i # is) s =
     rbind (rd buf i) (\<lambda>v.
     rbind (i2c_tx_byte d (v AND 0xff) CR_WRITE s) (\<lambda>(r, s).
     if r < 0 then Inr (False, s) else ee_write_loop d buf is s))"

definition ls2k_eeprom_write_page :: "'s mmio \<Rightarrow> u8 \<Rightarrow> u8 list \<Rightarrow> int \<Rightarrow> 's \<Rightarrow> (int \<times> 's) res" where
  "ls2k_eeprom_write_page d data_addr buf count s =
     rbind (i2c_send_addr d data_addr s) (\<lambda>(ok, s).
     if ok = 0 then Inr (0, s)
     else
       rbind (ee_write_loop d buf [0..<nat count] s) (\<lambda>(ok, s).
       if \<not> ok then Inr (0, s)
       else rbind (ee_i2c_stop d s) (\<lambda>s. Inr (int (nat count), s))))"

definition mac_write :: "'s mmio \<Rightarrow> u8 \<Rightarrow> u8 list \<Rightarrow> int \<Rightarrow> 's \<Rightarrow> (int \<times> 's) res" where
  "mac_write d data_addr buf count s = ls2k_eeprom_write_page d data_addr buf count s"

section \<open>Reading\<close>

text \<open>The result, the buffer and the device.\<close>

definition ls2k_eeprom_read_cur :: "'s mmio \<Rightarrow> u8 list \<Rightarrow> 's \<Rightarrow> (int \<times> u8 list \<times> 's) res" where
  "ls2k_eeprom_read_cur d buf s =
     rbind (i2c_tx_byte d (CAT24C16_ADDR OR 0x1) (CR_START OR CR_WRITE) s) (\<lambda>(r, s).
     if r < 0 then Inr (0, buf, s)
     else
       rbind (ee_wait d (ee_outb d 4 CR_READ s)) (\<lambda>s.
       case ee_inb d 3 s of
         (v, s) \<Rightarrow>
           rbind (wr buf 0 v) (\<lambda>buf.
           rbind (ee_i2c_stop d s) (\<lambda>s. Inr (1, buf, s)))))"

text \<open>
  The \<open>if\<close> on the result of the read has an empty statement: \<open>return 0\<close> follows in any case.
\<close>

definition ls2k_eeprom_read_rand :: "'s mmio \<Rightarrow> u8 \<Rightarrow> u8 list \<Rightarrow> 's \<Rightarrow> (int \<times> u8 list \<times> 's) res" where
  "ls2k_eeprom_read_rand d data_addr buf s =
     rbind (i2c_send_addr d data_addr s) (\<lambda>(ok, s).
     if ok = 0 then Inr (0, buf, s)
     else rbind (ls2k_eeprom_read_cur d buf s) (\<lambda>(r, buf, s). Inr (0, buf, s)))"

fun ee_read_loop :: "'s mmio \<Rightarrow> int \<Rightarrow> nat list \<Rightarrow> u8 list \<Rightarrow> 's \<Rightarrow> (u8 list \<times> 's) res" where
  "ee_read_loop d count [] buf s = Inr (buf, s)"
| "ee_read_loop d count (i # is) buf s =
     rbind (ee_wait d (ee_outb d 4 (if int i = count - 1 then CR_READ OR CR_ACK else CR_READ) s)) (\<lambda>s.
     case ee_inb d 3 s of
       (v, s) \<Rightarrow> rbind (wr buf i v) (\<lambda>buf. ee_read_loop d count is buf s))"

definition i2c_read_seq_cur :: "'s mmio \<Rightarrow> u8 list \<Rightarrow> int \<Rightarrow> 's \<Rightarrow> (int \<times> u8 list \<times> 's) res" where
  "i2c_read_seq_cur d buf count s =
     rbind (i2c_tx_byte d (CAT24C16_ADDR OR 0x1) (CR_START OR CR_WRITE) s) (\<lambda>(r, s).
     if r < 0 then Inr (0, buf, s)
     else
       rbind (ee_read_loop d count [0..<nat count] buf s) (\<lambda>(buf, s).
       rbind (ee_i2c_stop d s) (\<lambda>s. Inr (int (nat count), buf, s))))"

definition i2c_read_seq_rand :: "'s mmio \<Rightarrow> u8 \<Rightarrow> u8 list \<Rightarrow> int \<Rightarrow> 's \<Rightarrow> (int \<times> u8 list \<times> 's) res" where
  "i2c_read_seq_rand d data_addr buf count s =
     rbind (i2c_send_addr d data_addr s) (\<lambda>(ok, s).
     if ok = 0 then Inr (0, buf, s) else i2c_read_seq_cur d buf count s)"

definition ls2k_eeprom_read_seq :: "'s mmio \<Rightarrow> u8 \<Rightarrow> u8 list \<Rightarrow> int \<Rightarrow> 's \<Rightarrow> (int \<times> u8 list \<times> 's) res" where
  "ls2k_eeprom_read_seq d data_addr buf count s = i2c_read_seq_rand d data_addr buf count s"

section \<open>Hexadecimal numbers\<close>

definition gethex_digit :: "char \<Rightarrow> nat option" where
  "gethex_digit c = (let p = of_char c :: nat in
     if 48 \<le> p \<and> p \<le> 57 then Some (p - 48)
     else if 97 \<le> p \<and> p \<le> 102 then Some (p - 97 + 10)
     else if 65 \<le> p \<and> p \<le> 70 then Some (p - 65 + 10)
     else None)"

text \<open>
  \<open>gethex (&v, p, n)\<close> on the string from \<open>p\<close> on (its end stands for the NUL): \<open>None\<close> is the
  result 0, which leaves \<open>v\<close> as it was.
\<close>

fun gethex :: "u64 \<Rightarrow> string \<Rightarrow> nat \<Rightarrow> u32 option" where
  "gethex v p 0 = Some (ucast v)"
| "gethex v [] (Suc n) = None"
| "gethex v (c # cs) (Suc n) =
     (if c = CHR 0x00 then None
      else case gethex_digit c of
             None \<Rightarrow> None
           | Some digit \<Rightarrow> gethex (push_bit 4 v OR word_of_nat digit) cs n)"

section \<open>Console commands\<close>

text \<open>The pairs printed by \<open>printf ("%4x: ...", data_addr + i, buf[i])\<close>.\<close>

definition print_bytes :: "u8 \<Rightarrow> u8 list \<Rightarrow> int \<Rightarrow> (int \<times> u8) list res" where
  "print_bytes data_addr buf count =
     for_list (\<lambda>i out. rbind (rd buf i) (\<lambda>v. Inr (out @ [(uint data_addr + int i, v)])))
       [0..<nat count] []"

datatype ee_output = Printed "(int \<times> u8) list" | ReadError | WriteError | Usage

text \<open>\<open>stack\<close> is what the 32 bytes of \<open>buf\<close> hold before.\<close>

definition cmd_eeprom_read :: "'s mmio \<Rightarrow> u8 list \<Rightarrow> string list \<Rightarrow> 's \<Rightarrow> (ee_output \<times> 's) res" where
  "cmd_eeprom_read d stack av s =
     (if length av = 2 then
        let data_addr = word_of_nat (strtoul0 (av ! 1)) :: u8 in
        rbind (ls2k_eeprom_read_rand d data_addr stack s) (\<lambda>(r, buf, s).
        if r \<noteq> 0 then rbind (rd buf 0) (\<lambda>v. Inr (Printed [(uint data_addr, v)], s))
        else Inr (ReadError, s))
      else if length av = 3 then
        let data_addr = word_of_nat (strtoul0 (av ! 1)) :: u8;
            count = to_int32 (strtoul0 (av ! 2)) in
        rbind (ls2k_eeprom_read_seq d data_addr stack count s) (\<lambda>(r, buf, s).
        if r = count then rbind (print_bytes data_addr buf count) (\<lambda>out. Inr (Printed out, s))
        else Inr (ReadError, s))
      else Inr (Usage, s))"

text \<open>
  The bytes of the argument of \<open>eepwrite\<close>: every third character starts a number of two digits.
  A number that does not parse leaves \<open>v\<close> alone, which has no value before the first one.
\<close>

fun parse_bytes :: "string \<Rightarrow> nat list \<Rightarrow> u32 option \<Rightarrow> u8 list \<Rightarrow> u8 list res" where
  "parse_bytes t [] v buf = Inr buf"
| "parse_bytes t (i # is) v buf =
     (let v' = (case gethex 0 (drop (3 * i) t) 2 of Some x \<Rightarrow> Some x | None \<Rightarrow> v) in
      case v' of
        None \<Rightarrow> Inl Uninit
      | Some x \<Rightarrow> rbind (wr buf i (ucast x)) (\<lambda>buf. parse_bytes t is v' buf))"

text \<open>\<open>av[2]\<close> is the null pointer that ends the array when only the address is given.\<close>

definition cmd_eeprom_write :: "'s mmio \<Rightarrow> u8 list \<Rightarrow> string list \<Rightarrow> 's \<Rightarrow> (ee_output \<times> 's) res" where
  "cmd_eeprom_write d stack av s =
     (if length av < 2 then Inl NullPtr
      else if length av = 2 then Inr (Usage, s)
      else
        let data_addr = word_of_nat (strtoul0 (av ! 1)) :: u8;
            t = av ! 2;
            count = length t div 3 + 1 in
        rbind (parse_bytes t [0..<count] None stack) (\<lambda>buf.
        rbind (ls2k_eeprom_write_page d data_addr buf (int count) s) (\<lambda>(r, s).
        if r = int count
        then rbind (print_bytes data_addr buf (int count)) (\<lambda>out. Inr (Printed out, s))
        else Inr (WriteError, s))))"

section \<open>The driver on a controller that keeps the contract\<close>

abbreviation (input) EE_BASE :: u32 where "EE_BASE \<equiv> 0xbfe01000"

text \<open>The registers are those of the bus driver at this base address.\<close>

lemma ee_registers:
  "ee_outb d 3 v s = ls2k_i2c_writeb d EE_BASE v TXR_REG s"
  "ee_outb d 4 v s = ls2k_i2c_writeb d EE_BASE v CR_REG s"
  "ee_inb d 3 s = ls2k_i2c_readb d EE_BASE RXR_REG s"
  "ee_inb d 4 s = ls2k_i2c_readb d EE_BASE SR_REG s"
  "ee_wait d s = wait_tip d EE_BASE s"
  "ee_i2c_stop d s = ls2k_i2c_stop d EE_BASE s"
proof -
  have a: "i2c_addr EE_BASE 3 = LS2K_I2C0_REG_BASE + 3" "i2c_addr EE_BASE 4 = LS2K_I2C0_REG_BASE + 4"
    by code_simp+
  show "ee_outb d 3 v s = ls2k_i2c_writeb d EE_BASE v TXR_REG s"
    "ee_outb d 4 v s = ls2k_i2c_writeb d EE_BASE v CR_REG s"
    "ee_inb d 3 s = ls2k_i2c_readb d EE_BASE RXR_REG s"
    "ee_inb d 4 s = ls2k_i2c_readb d EE_BASE SR_REG s"
    "ee_wait d s = wait_tip d EE_BASE s"
    "ee_i2c_stop d s = ls2k_i2c_stop d EE_BASE s"
    by (simp_all only: ee_outb_def ee_inb_def ee_wait_def ee_i2c_stop_def ls2k_i2c_writeb_def
      ls2k_i2c_readb_def wait_tip_def ls2k_i2c_stop_def a)
qed

text \<open>What the routines do on the bus: one attempt to start, and a stop after a refused byte.\<close>

definition bus_begin :: "'b i2c_bus \<Rightarrow> u8 \<Rightarrow> 'b \<Rightarrow> bool \<times> 'b" where
  "bus_begin bus v b =
     (case b_start bus v b of (ack, b) \<Rightarrow> if ack then (True, b) else (False, b_stop bus b))"

definition bus_send_addr :: "'b i2c_bus \<Rightarrow> u8 \<Rightarrow> 'b \<Rightarrow> bool \<times> 'b" where
  "bus_send_addr bus a b =
     (case bus_begin bus CAT24C16_ADDR b of
        (ok, b) \<Rightarrow> if ok then bus_write bus [a] b else (False, b))"

definition bus_write_page :: "'b i2c_bus \<Rightarrow> u8 \<Rightarrow> u8 list \<Rightarrow> 'b \<Rightarrow> bool \<times> 'b" where
  "bus_write_page bus a vs b =
     (case bus_send_addr bus a b of
        (ok, b) \<Rightarrow>
          if ok then (case bus_write bus vs b of
                        (ok, b) \<Rightarrow> if ok then (True, b_stop bus b) else (False, b))
          else (False, b))"

definition bus_read_seq :: "'b i2c_bus \<Rightarrow> u8 \<Rightarrow> nat \<Rightarrow> 'b \<Rightarrow> u8 list option \<times> 'b" where
  "bus_read_seq bus a n b =
     (case bus_send_addr bus a b of
        (ok, b) \<Rightarrow>
          if ok then
            (case bus_begin bus (CAT24C16_ADDR OR 1) b of
               (ok, b) \<Rightarrow>
                 if ok then (case bus_read bus n b of (vs, b) \<Rightarrow> (Some vs, b_stop bus b))
                 else (None, b))
          else (None, b))"

definition tx_result :: "bool \<Rightarrow> int" where
  "tx_result ok = (if ok then 0 else -1)"

lemma tx_result_neg [simp]: "tx_result ok < 0 \<longleftrightarrow> \<not> ok"
  by (simp add: tx_result_def)

lemma and_ff [simp]: "(v :: u8) AND 0xff = v"
proof -
  have "(0xff :: u8) = -1" by simp
  then show ?thesis by (simp only: and.right_neutral)
qed

lemma tx_byte_after:
  assumes c: "i2c_contract d EE_BASE bus V"
    and "nak V (ee_outb d 4 opt (ee_outb d 3 v s)) = (\<not> ack)"
    and "line V (ee_outb d 4 opt (ee_outb d 3 v s)) = b"
  shows "\<exists>s'. i2c_tx_byte d v opt s = Inr (tx_result ack, s')
    \<and> line V s' = (if ack then b else b_stop bus b)"
proof -
  obtain s1 where s1: "wait_tip d EE_BASE (ee_outb d 4 opt (ee_outb d 3 v s)) = Inr s1"
    "(fst (ls2k_i2c_readb d EE_BASE SR_REG s1) AND SR_NOACK \<noteq> 0) = (\<not> ack)"
    "line V (snd (ls2k_i2c_readb d EE_BASE SR_REG s1)) = b"
    using byte_out [OF assms] by blast
  obtain s2 where s2: "ls2k_i2c_stop d EE_BASE (snd (ls2k_i2c_readb d EE_BASE SR_REG s1)) = Inr s2"
    "line V s2 = b_stop bus b"
    using stop_returns [OF c] s1(3) by blast
  have st: "i2c_tx_byte d v opt s =
      (if fst (ls2k_i2c_readb d EE_BASE SR_REG s1) AND SR_NOACK \<noteq> 0
       then Inr (-1, s2) else Inr (0, snd (ls2k_i2c_readb d EE_BASE SR_REG s1)))"
    using s1(1) s2(1) unfolding i2c_tx_byte_def ee_registers(5) [of d]
    by (simp add: ee_registers(4,6) split_beta)
  show ?thesis
    using s1(2,3) s2(2) unfolding st by (cases ack) (simp_all add: tx_result_def)
qed

lemma tx_start_returns:
  assumes "i2c_contract d EE_BASE bus V"
  shows "\<exists>s'. i2c_tx_byte d v (CR_START OR CR_WRITE) s = Inr (tx_result (fst (bus_begin bus v (line V s))), s')
    \<and> line V s' = snd (bus_begin bus v (line V s))"
proof -
  obtain ack b where ab: "b_start bus v (line V s) = (ack, b)" by fastforce
  from tx_byte_after [OF assms, unfolded ee_registers, OF contract_start [OF assms ab]]
  show ?thesis by (cases ack) (simp_all add: bus_begin_def ab)
qed

lemma tx_write_returns:
  assumes "i2c_contract d EE_BASE bus V"
  shows "\<exists>s'. i2c_tx_byte d v CR_WRITE s = Inr (tx_result (fst (bus_write bus [v] (line V s))), s')
    \<and> line V s' = snd (bus_write bus [v] (line V s))"
proof -
  obtain ack b where ab: "b_write bus v (line V s) = (ack, b)" by fastforce
  from tx_byte_after [OF assms, unfolded ee_registers, OF contract_write [OF assms ab]]
  show ?thesis by (cases ack) (simp_all add: ab)
qed

lemma send_addr_returns:
  assumes "i2c_contract d EE_BASE bus V"
  shows "\<exists>s'. i2c_send_addr d a s = Inr (if fst (bus_send_addr bus a (line V s)) then 1 else 0, s')
    \<and> line V s' = snd (bus_send_addr bus a (line V s))"
proof -
  obtain s1 where s1: "i2c_tx_byte d CAT24C16_ADDR (CR_START OR CR_WRITE) s
      = Inr (tx_result (fst (bus_begin bus CAT24C16_ADDR (line V s))), s1)"
    "line V s1 = snd (bus_begin bus CAT24C16_ADDR (line V s))"
    using tx_start_returns [OF assms] by blast
  obtain s2 where s2: "i2c_tx_byte d a CR_WRITE s1
      = Inr (tx_result (fst (bus_write bus [a] (line V s1))), s2)"
    "line V s2 = snd (bus_write bus [a] (line V s1))"
    using tx_write_returns [OF assms] by blast
  show ?thesis
    using s1 s2 by (auto simp: i2c_send_addr_def bus_send_addr_def split_beta simp del: bus_write.simps)
qed

lemma ee_write_returns:
  assumes "i2c_contract d EE_BASE bus V" and "n \<le> length buf" and "i \<le> n"
  shows "\<exists>s'. ee_write_loop d buf [i..<n] s
      = Inr (fst (bus_write bus (drop i (take n buf)) (line V s)), s')
    \<and> line V s' = snd (bus_write bus (drop i (take n buf)) (line V s))"
  using assms(3)
proof (induction "n - i" arbitrary: i s)
  case 0
  then show ?case by simp
next
  case (Suc k)
  then have i: "i < n" by simp
  obtain s1 where s1: "i2c_tx_byte d (buf ! i) CR_WRITE s
      = Inr (tx_result (fst (bus_write bus [buf ! i] (line V s))), s1)"
    "line V s1 = snd (bus_write bus [buf ! i] (line V s))"
    using tx_write_returns [OF assms(1)] by blast
  have up: "[i..<n] = i # [Suc i..<n]" using i by (rule upt_conv_Cons)
  have dr: "drop i (take n buf) = buf ! i # drop (Suc i) (take n buf)"
    using i assms(2) by (subst Cons_nth_drop_Suc [symmetric]) simp_all
  have rd_i: "rd buf i = Inr (buf ! i)" using i assms(2) by simp
  have "k = n - Suc i" "Suc i \<le> n" using Suc.hyps(2) i by simp_all
  from Suc.hyps(1) [OF this, of s1] s1 rd_i show ?case
    by (cases "fst (b_write bus (buf ! i) (line V s))") (auto simp: up dr split_beta)
qed

lemma write_page_returns:
  assumes c: "i2c_contract d EE_BASE bus V" and "n \<le> length buf"
  shows "\<exists>s'. ls2k_eeprom_write_page d a buf (int n) s
      = Inr (if fst (bus_write_page bus a (take n buf) (line V s)) then int n else 0, s')
    \<and> line V s' = snd (bus_write_page bus a (take n buf) (line V s))"
proof -
  obtain s1 where s1: "i2c_send_addr d a s
      = Inr (if fst (bus_send_addr bus a (line V s)) then 1 else 0, s1)"
    "line V s1 = snd (bus_send_addr bus a (line V s))"
    using send_addr_returns [OF c] by blast
  obtain s2 where s2: "ee_write_loop d buf [0..<n] s1
      = Inr (fst (bus_write bus (take n buf) (line V s1)), s2)"
    "line V s2 = snd (bus_write bus (take n buf) (line V s1))"
    using ee_write_returns [OF assms, of 0 s1] by auto
  obtain s3 where s3: "ee_i2c_stop d s2 = Inr s3" "line V s3 = b_stop bus (line V s2)"
    using stop_returns [OF c] unfolding ee_registers by blast
  show ?thesis
    using s1 s2 s3 by (auto simp: ls2k_eeprom_write_page_def bus_write_page_def split_beta)
qed

lemma ee_read_returns:
  assumes "i2c_contract d EE_BASE bus V" and "n \<le> length buf"
  shows "\<exists>s'. ee_read_loop d (int n) [0..<n] buf s
      = Inr (overwrite (fst (bus_read bus n (line V s))) buf, s')
    \<and> line V s' = snd (bus_read bus n (line V s))"
proof -
  have "ee_read_loop d (int n) is buf s = read_loop d EE_BASE n is buf s" if "set is \<subseteq> {..<n}" for "is"
    using that
  proof (induction "is" arbitrary: buf s)
    case (Cons i "is")
    have "(int i = int n - 1) = (i = n - 1)" using Cons.prems by auto
    with Cons show ?case by (simp add: ee_registers split_beta)
  qed simp
  moreover obtain s' where "read_loop d EE_BASE n [0..<n] buf s
      = Inr (fst (bus_read bus n (line V s)) @ drop n buf, s')"
    "line V s' = snd (bus_read bus n (line V s))"
    using read_returns [OF assms, of 0] by auto
  moreover have "set [0..<n] \<subseteq> {..<n}" by auto
  ultimately show ?thesis by (simp add: overwrite_def)
qed

text \<open>A sequential read gives the number of bytes and the buffer.\<close>

lemma read_seq_returns:
  assumes c: "i2c_contract d EE_BASE bus V" and "n \<le> length buf"
  shows "\<exists>s'. ls2k_eeprom_read_seq d a buf (int n) s
      = Inr (case fst (bus_read_seq bus a n (line V s)) of
               None \<Rightarrow> (0, buf, s') | Some vs \<Rightarrow> (int n, overwrite vs buf, s'))
    \<and> line V s' = snd (bus_read_seq bus a n (line V s))"
proof -
  obtain s1 where s1: "i2c_send_addr d a s
      = Inr (if fst (bus_send_addr bus a (line V s)) then 1 else 0, s1)"
    "line V s1 = snd (bus_send_addr bus a (line V s))"
    using send_addr_returns [OF c] by blast
  obtain s2 where s2: "i2c_tx_byte d (CAT24C16_ADDR OR 1) (CR_START OR CR_WRITE) s1
      = Inr (tx_result (fst (bus_begin bus (CAT24C16_ADDR OR 1) (line V s1))), s2)"
    "line V s2 = snd (bus_begin bus (CAT24C16_ADDR OR 1) (line V s1))"
    using tx_start_returns [OF c] by blast
  obtain s3 where s3: "ee_read_loop d (int n) [0..<n] buf s2
      = Inr (overwrite (fst (bus_read bus n (line V s2))) buf, s3)"
    "line V s3 = snd (bus_read bus n (line V s2))"
    using ee_read_returns [OF assms, of s2] by blast
  obtain s4 where s4: "ee_i2c_stop d s3 = Inr s4" "line V s4 = b_stop bus (line V s3)"
    using stop_returns [OF c] unfolding ee_registers by blast
  show ?thesis
    using s1 s2 s3 s4
    by (auto simp: ls2k_eeprom_read_seq_def i2c_read_seq_rand_def i2c_read_seq_cur_def
        bus_read_seq_def split_beta)
qed

section \<open>The chip\<close>

text \<open>
  The memory chip as the comments of the driver describe it: the first byte written after the
  device address loads the address counter, the following ones are stored and advance the counter
  within a page of \<open>2 ^ k\<close> bytes, and sequential reads go on from the counter over the whole memory.
\<close>

datatype chip_phase = Off | Selected | Loaded | Sending

record chip =
  phase :: chip_phase
  counter :: u8
  cells :: "u8 \<Rightarrow> u8"

definition page_next :: "nat \<Rightarrow> u8 \<Rightarrow> u8" where
  "page_next k p = word_of_nat (unat p div 2 ^ k * 2 ^ k + (unat p + 1) mod 2 ^ k)"

definition chip_bus :: "nat \<Rightarrow> chip i2c_bus" where
  "chip_bus k =
     \<lparr>b_start = (\<lambda>a c. if a = CAT24C16_ADDR then (True, c\<lparr>phase := Selected\<rparr>)
                       else if a = CAT24C16_ADDR OR 1 then (True, c\<lparr>phase := Sending\<rparr>)
                       else (False, c\<lparr>phase := Off\<rparr>)),
      b_write = (\<lambda>v c. case phase c of
          Selected \<Rightarrow> (True, c\<lparr>phase := Loaded, counter := v\<rparr>)
        | Loaded \<Rightarrow> (True, c\<lparr>cells := (cells c)(counter c := v), counter := page_next k (counter c)\<rparr>)
        | _ \<Rightarrow> (False, c)),
      b_read = (\<lambda>final c. if phase c = Sending
          then (cells c (counter c), c\<lparr>counter := counter c + 1\<rparr>) else (0xff, c)),
      b_stop = (\<lambda>c. c\<lparr>phase := Off\<rparr>)\<rparr>"

text \<open>Storing a block, and the block read from an address.\<close>

fun store :: "(u8 \<Rightarrow> u8) \<Rightarrow> u8 \<Rightarrow> u8 list \<Rightarrow> u8 \<Rightarrow> u8" where
  "store m a [] = m"
| "store m a (v # vs) = store (m(a := v)) (a + 1) vs"

fun block :: "(u8 \<Rightarrow> u8) \<Rightarrow> u8 \<Rightarrow> nat \<Rightarrow> u8 list" where
  "block m a 0 = []"
| "block m a (Suc n) = m a # block m (a + 1) n"

lemma store_other:
  "x \<notin> {a + word_of_nat i |i. i < length vs} \<Longrightarrow> store m a vs x = m x"
proof (induction vs arbitrary: m a)
  case (Cons v vs)
  have "x \<noteq> a" using Cons.prems by force
  moreover have "x \<notin> {a + 1 + word_of_nat i |i. i < length vs}"
  proof
    assume "x \<in> {a + 1 + word_of_nat i |i. i < length vs}"
    then obtain i where "i < length vs" "x = a + word_of_nat (Suc i)" by (auto simp: ac_simps)
    with Cons.prems show False by (metis (mono_tags, lifting) Suc_less_eq length_Cons mem_Collect_eq)
  qed
  ultimately have "store (m(a := v)) (a + 1) vs x = (m(a := v)) x" "x \<noteq> a"
    by (blast intro: Cons.IH)+
  then show ?case by (simp only: store.simps fun_upd_apply if_False)
qed simp

lemma block_store: "length vs \<le> 256 \<Longrightarrow> block (store m a vs) a (length vs) = vs"
proof (induction vs arbitrary: m a)
  case (Cons v vs)
  have "a \<notin> {a + 1 + word_of_nat i |i. i < length vs}"
  proof
    assume "a \<in> {a + 1 + word_of_nat i |i. i < length vs}"
    then obtain i where i: "i < length vs" and "a + 0 = a + word_of_nat (Suc i)"
      by (auto simp: ac_simps)
    then have "word_of_nat (Suc i) = (0 :: u8)" by (simp only: add_left_cancel)
    then have "256 dvd Suc i" by (simp only: word_of_nat_eq_0_iff) simp
    moreover have "Suc i < 256" using i Cons.prems by simp
    ultimately show False using nat_dvd_not_less by blast
  qed
  then have "store (m(a := v)) (a + 1) vs a = v" by (subst store_other) simp_all
  with Cons show ?case by simp
qed simp

lemma page_next_inside:
  "unat p mod 2 ^ k + 1 < 2 ^ k \<Longrightarrow> page_next k p = p + 1"
proof -
  assume h: "unat p mod 2 ^ k + 1 < 2 ^ k"
  then have "(unat p + 1) mod 2 ^ k = unat p mod 2 ^ k + 1"
    by (metis mod_add_left_eq mod_less)
  then have "unat p div 2 ^ k * 2 ^ k + (unat p + 1) mod 2 ^ k = unat p + 1"
    using div_mult_mod_eq [of "unat p" "2 ^ k"] by simp
  then show ?thesis by (simp add: page_next_def)
qed

lemma unat_next_mod:
  assumes "unat (p :: u8) mod 2 ^ k + 1 < 2 ^ k" and "k \<le> 8"
  shows "unat (p + 1) mod 2 ^ k = unat p mod 2 ^ k + 1"
proof -
  have "unat (p + 1) mod 2 ^ k = (unat p + 1) mod 2 ^ k"
  proof -
    have "(2 :: nat) ^ k dvd 256"
      using assms(2) le_imp_power_dvd [of k 8 "2 :: nat"] by simp
    then show ?thesis by (simp add: unat_word_ariths mod_mod_cancel)
  qed
  also have "\<dots> = unat p mod 2 ^ k + 1"
    using assms(1) by (metis mod_add_left_eq mod_less)
  finally show ?thesis .
qed

lemma chip_write:
  assumes "phase c = Loaded" and "unat (counter c) mod 2 ^ k + length vs \<le> 2 ^ k" and "k \<le> 8"
  shows "\<exists>p. bus_write (chip_bus k) vs c
      = (True, c\<lparr>cells := store (cells c) (counter c) vs, counter := p\<rparr>)"
  using assms(1,2)
proof (induction vs arbitrary: c)
  case Nil
  have "c = c\<lparr>cells := store (cells c) (counter c) [], counter := counter c\<rparr>" by simp
  then show ?case by (metis bus_write.simps(1))
next
  case (Cons v vs)
  let ?c = "c\<lparr>cells := (cells c)(counter c := v), counter := page_next k (counter c)\<rparr>"
  have w: "bus_write (chip_bus k) (v # vs) c = bus_write (chip_bus k) vs ?c"
    using Cons.prems(1) by (simp add: chip_bus_def)
  show ?case
  proof (cases vs)
    case Nil
    then show ?thesis unfolding w
      by (intro exI [of _ "page_next k (counter c)"]) (simp add: fun_upd_def)
  next
    case (Cons v' vs')
    then have "unat (counter c) mod 2 ^ k + 1 < 2 ^ k" using Cons.prems(2) by simp
    note nx = page_next_inside [OF this] unat_next_mod [OF this assms(3)]
    have "phase ?c = Loaded" "unat (counter ?c) mod 2 ^ k + length vs \<le> 2 ^ k"
      using Cons.prems nx by simp_all
    from Cons.IH [OF this] show ?thesis unfolding w by (auto simp: nx fun_upd_def)
  qed
qed

lemma chip_read:
  "phase c = Sending \<Longrightarrow> bus_read (chip_bus k) n c
     = (block (cells c) (counter c) n, c\<lparr>counter := counter c + word_of_nat n\<rparr>)"
proof (induction n arbitrary: c)
  case (Suc n)
  then show ?case by (simp add: chip_bus_def ac_simps)
qed simp

lemma chip_codes [simp]: "CAT24C16_ADDR OR 1 \<noteq> CAT24C16_ADDR"
  by (simp add: CAT24C16_ADDR_def)

lemma chip_send_addr:
  "bus_send_addr (chip_bus k) a c = (True, c\<lparr>phase := Loaded, counter := a\<rparr>)"
  by (simp add: bus_send_addr_def bus_begin_def chip_bus_def)

lemma chip_write_page:
  assumes "unat a mod 2 ^ k + length vs \<le> 2 ^ k" and "k \<le> 8"
  shows "fst (bus_write_page (chip_bus k) a vs c)
    \<and> cells (snd (bus_write_page (chip_bus k) a vs c)) = store (cells c) a vs"
proof -
  obtain p where "bus_write (chip_bus k) vs (c\<lparr>phase := Loaded, counter := a\<rparr>)
      = (True, c\<lparr>phase := Loaded, cells := store (cells c) a vs, counter := p\<rparr>)"
    using chip_write [of "c\<lparr>phase := Loaded, counter := a\<rparr>" k vs] assms by auto
  then show ?thesis by (simp add: bus_write_page_def chip_send_addr) (simp add: chip_bus_def)
qed

lemma chip_read_seq:
  "fst (bus_read_seq (chip_bus k) a n c) = Some (block (cells c) a n)"
proof -
  have "bus_begin (chip_bus k) (CAT24C16_ADDR OR 1) (c\<lparr>phase := Loaded, counter := a\<rparr>)
      = (True, c\<lparr>phase := Sending, counter := a\<rparr>)"
    by (simp add: bus_begin_def chip_bus_def)
  then show ?thesis by (simp add: bus_read_seq_def chip_send_addr chip_read)
qed

text \<open>A single byte: the random read does the sequence of a sequential read of one byte.\<close>

lemma chip_read_rand:
  assumes c: "i2c_contract d EE_BASE (chip_bus k) V" and "buf \<noteq> []"
  shows "\<exists>s'. ls2k_eeprom_read_rand d a buf s = Inr (0, buf[0 := cells (line V s) a], s')"
proof -
  let ?c = "(line V s)\<lparr>phase := Loaded, counter := a\<rparr>"
  obtain s1 where s1: "i2c_send_addr d a s = Inr (1, s1)" "line V s1 = ?c"
    using send_addr_returns [OF c, of a s] by (auto simp: chip_send_addr)
  have b: "bus_begin (chip_bus k) (CAT24C16_ADDR OR 1) ?c = (True, ?c\<lparr>phase := Sending\<rparr>)"
    by (simp add: bus_begin_def chip_bus_def)
  obtain s2 where s2: "i2c_tx_byte d (CAT24C16_ADDR OR 1) (CR_START OR CR_WRITE) s1 = Inr (0, s2)"
    "line V s2 = ?c\<lparr>phase := Sending\<rparr>"
    using tx_start_returns [OF c, of "CAT24C16_ADDR OR 1" s1] s1(2) b by (auto simp: tx_result_def)
  let ?w = "ls2k_i2c_writeb d EE_BASE CR_READ CR_REG s2"
  have "b_read (chip_bus k) False (line V s2)
      = (cells (line V s) a, (line V s2)\<lparr>counter := a + 1\<rparr>)"
    using s2(2) by (simp add: chip_bus_def)
  from contract_read [OF c this] have w: "rxr V ?w = cells (line V s) a" by simp
  obtain s3 where s3: "wait_tip d EE_BASE ?w = Inr s3" "rxr V s3 = rxr V ?w"
    using wait_tip_returns [OF c] by blast
  let ?r = "ls2k_i2c_readb d EE_BASE RXR_REG s3"
  have r: "fst ?r = cells (line V s) a" using contract_data(1) [OF c] s3(2) w by simp
  obtain s4 where s4: "ls2k_i2c_stop d EE_BASE (snd ?r) = Inr s4" using stop_returns [OF c] by blast
  have "ls2k_eeprom_read_cur d buf s1 = Inr (1, buf[0 := cells (line V s) a], s4)"
    using s2(1) s3(1) s4 r assms(2) by (simp add: ls2k_eeprom_read_cur_def ee_registers split_beta)
  with s1(1) show ?thesis by (simp add: ls2k_eeprom_read_rand_def)
qed

section \<open>The text of the write command\<close>

text \<open>Two hexadecimal digits per byte, separated by blanks, as the usage message shows.\<close>

definition hex_digit :: "nat \<Rightarrow> char" where
  "hex_digit n = char_of (if n < 10 then 48 + n else 87 + n)"

definition hex_byte :: "u8 \<Rightarrow> string" where
  "hex_byte v = [hex_digit (unat v div 16), hex_digit (unat v mod 16)]"

fun hex_text :: "u8 list \<Rightarrow> string" where
  "hex_text [] = []"
| "hex_text [v] = hex_byte v"
| "hex_text (v # w # vs) = hex_byte v @ '' '' @ hex_text (w # vs)"

lemma length_hex_text: "vs \<noteq> [] \<Longrightarrow> length (hex_text vs) + 1 = 3 * length vs"
  by (induction vs rule: hex_text.induct) (auto simp: hex_byte_def)

lemma drop_hex_text: "i < length vs \<Longrightarrow> drop (3 * i) (hex_text vs) = hex_text (drop i vs)"
proof (induction vs arbitrary: i rule: hex_text.induct)
  case (3 v w vs)
  then show ?case by (cases i) (auto simp: hex_byte_def numeral_3_eq_3)
qed auto

lemma of_char_digit: "n < 16 \<Longrightarrow> of_char (hex_digit n) = (if n < 10 then 48 + n else 87 + n)"
  by (simp add: hex_digit_def)

lemma digits: "n < 16 \<Longrightarrow> gethex_digit (hex_digit n) = Some n \<and> hex_digit n \<noteq> CHR 0x00"
proof
  assume n: "n < 16"
  show "gethex_digit (hex_digit n) = Some n"
    unfolding gethex_digit_def Let_def of_char_digit [OF n] using n by simp
  show "hex_digit n \<noteq> CHR 0x00"
  proof
    assume "hex_digit n = CHR 0x00"
    then have "of_char (hex_digit n) = (0 :: nat)" by simp
    with of_char_digit [OF n] show False by (simp split: if_splits)
  qed
qed

lemma two_digits:
  "h < 16 \<Longrightarrow> l < 16 \<Longrightarrow>
   push_bit 4 (word_of_nat h) OR word_of_nat l = (word_of_nat (16 * h + l) :: u64)"
proof -
  have "\<forall>h \<in> set [0..<16]. \<forall>l \<in> set [0..<16].
      push_bit 4 (word_of_nat h) OR word_of_nat l = (word_of_nat (16 * h + l) :: u64)"
    by code_simp
  then show "h < 16 \<Longrightarrow> l < 16 \<Longrightarrow> ?thesis" by simp
qed

lemma gethex_byte: "map_option ucast (gethex 0 (hex_byte v @ r) 2) = Some v"
proof -
  have v: "unat v < 256" using unsigned_less [of v] by simp
  then have h: "unat v div 16 < 16" and l: "unat v mod 16 < 16" by auto
  have "gethex 0 (hex_byte v @ r) 2 = Some (ucast (word_of_nat (unat v) :: u64))"
    using digits [OF h] digits [OF l] two_digits [OF h l] div_mult_mod_eq [of "unat v" 16]
    by (simp only: hex_byte_def numeral_2_eq_2 append.simps gethex.simps option.case if_False
        push_bit_of_0 or.left_neutral mult.commute [of 16])
  moreover have "ucast (ucast (word_of_nat (unat v) :: u64) :: u32) = v"
    by (rule bit_word_eqI) (simp add: bit_simps)
  ultimately show ?thesis by simp
qed

lemma gethex_text:
  assumes "i < length vs"
  shows "\<exists>x. gethex 0 (drop (3 * i) (hex_text vs)) 2 = Some x \<and> ucast x = vs ! i"
proof -
  obtain r where "hex_text (drop i vs) = hex_byte (vs ! i) @ r"
    using assms by (cases "drop (Suc i) vs") (auto simp: Cons_nth_drop_Suc [symmetric])
  with gethex_byte [of "vs ! i" r] show ?thesis
    by (cases "gethex 0 (drop (3 * i) (hex_text vs)) 2") (auto simp: drop_hex_text [OF assms])
qed

lemma parse_text:
  assumes "length vs \<le> length buf" and "i \<le> length vs" and "take i buf = take i vs"
  shows "parse_bytes (hex_text vs) [i..<length vs] v buf = Inr (overwrite vs buf)"
  using assms
proof (induction "length vs - i" arbitrary: i v buf)
  case 0
  then show ?case by (simp add: overwrite_def) (metis append_take_drop_id)
next
  case (Suc k)
  then have i: "i < length vs" by simp
  obtain x where x: "gethex 0 (drop (3 * i) (hex_text vs)) 2 = Some x" "ucast x = vs ! i"
    using gethex_text [OF i] by blast
  have up: "[i..<length vs] = i # [Suc i..<length vs]" using i by (rule upt_conv_Cons)
  have t: "take (Suc i) (buf[i := vs ! i]) = take (Suc i) vs"
    using i Suc.prems by (simp add: take_Suc_conv_app_nth)
  have "parse_bytes (hex_text vs) [Suc i..<length vs] (Some x) (buf[i := vs ! i])
      = Inr (overwrite vs (buf[i := vs ! i]))"
    using Suc.hyps(2) Suc.prems i t by (intro Suc.hyps(1)) simp_all
  moreover have "overwrite vs (buf[i := vs ! i]) = overwrite vs buf"
    using i by (simp add: overwrite_def drop_update_cancel)
  ultimately show ?case using x i Suc.prems by (simp add: up Let_def)
qed

lemma print_bytes_all:
  assumes "n \<le> length buf"
  shows "print_bytes a buf (int n) = Inr (map (\<lambda>i. (uint a + int i, buf ! i)) [0..<n])"
proof -
  have "for_list (\<lambda>i out. rbind (rd buf i) (\<lambda>v. Inr (out @ [(uint a + int i, v)]))) is out
      = Inr (out @ map (\<lambda>i. (uint a + int i, buf ! i)) is)" if "set is \<subseteq> {..<n}" for "is" out
    using that assms by (induction "is" arbitrary: out) auto
  moreover have "set [0..<n] \<subseteq> {..<n}" by auto
  ultimately show ?thesis by (simp add: print_bytes_def)
qed

section \<open>Properties\<close>

text \<open>A memory on a controller that keeps the contract, for the witnesses.\<close>

definition blank_chip :: chip where
  "blank_chip = \<lparr>phase = Off, counter = 0, cells = (\<lambda>a. 0xff)\<rparr>"

lemma chip_contract: "i2c_contract (sim_mmio EE_BASE (chip_bus k)) EE_BASE (chip_bus k) sim_view"
  by (rule sim_contract) (code_simp, simp add: chip_bus_def)

text \<open>C15. What is written to a page of the memory is read back: with a controller that keeps its
  contract and the chip behind it, a write inside one page returns its count and changes exactly
  the cells of the block, and a sequential read of the same range, from any later state in which
  the cells are the same, returns the bytes in the first part of the buffer.\<close>

theorem eeprom_roundtrip:
  assumes "i2c_contract d EE_BASE (chip_bus k) V" and "k \<le> 8"
    and "unat a mod 2 ^ k + length vs \<le> 2 ^ k" and "length vs \<le> length buf"
  shows "\<exists>s1. ls2k_eeprom_write_page d a vs (int (length vs)) s = Inr (int (length vs), s1)
    \<and> cells (line V s1) = store (cells (line V s)) a vs
    \<and> (\<forall>s2. cells (line V s2) = cells (line V s1) \<longrightarrow>
         (\<exists>s3. ls2k_eeprom_read_seq d a buf (int (length vs)) s2
            = Inr (int (length vs), overwrite vs buf, s3)))"
proof -
  have "(2 :: nat) ^ k \<le> 2 ^ 8" using assms(2) by (intro power_increasing) simp_all
  then have len: "length vs \<le> 256" using assms(3) by simp
  obtain s1 where s1: "ls2k_eeprom_write_page d a vs (int (length vs)) s = Inr (int (length vs), s1)"
    "cells (line V s1) = store (cells (line V s)) a vs"
    using write_page_returns [OF assms(1), of "length vs" vs a s]
      chip_write_page [OF assms(3,2), of "line V s"] by auto
  have "\<exists>s3. ls2k_eeprom_read_seq d a buf (int (length vs)) s2
      = Inr (int (length vs), overwrite vs buf, s3)" if "cells (line V s2) = cells (line V s1)" for s2
    using read_seq_returns [OF assms(1,4), of a s2]
    by (auto simp: chip_read_seq that s1(2) block_store [OF len])
  with s1 show ?thesis by blast
qed

theorem eeprom_roundtrip_witness:
  "\<exists>s1. ls2k_eeprom_write_page (sim_mmio EE_BASE (chip_bus 4)) 0x21 [1, 2, 3] 3 (sim_of blank_chip)
      = Inr (3, s1)
    \<and> (\<exists>s3. ls2k_eeprom_read_seq (sim_mmio EE_BASE (chip_bus 4)) 0x21 [9, 9, 9, 9] 3 s1
      = Inr (3, [1, 2, 3, 9], s3))"
  using eeprom_roundtrip [OF chip_contract, of 4 "0x21" "[1, 2, 3]" "[9, 9, 9, 9]" "sim_of blank_chip"]
  by (simp add: overwrite_def) blast

text \<open>Reading one byte always fails: the transfer is carried out and the byte of the memory is
  stored, but the result is 0, so that the console command prints an error for every address.\<close>

theorem eeprom_read_rand_fails:
  assumes "i2c_contract d EE_BASE (chip_bus k) V" and "buf \<noteq> []"
  shows "(\<exists>s'. ls2k_eeprom_read_rand d a buf s = Inr (0, buf[0 := cells (line V s) a], s'))
    \<and> (\<exists>s'. cmd_eeprom_read d buf [c, t] s = Inr (ReadError, s'))"
proof -
  have r: "\<exists>s'. ls2k_eeprom_read_rand d a buf s = Inr (0, buf[0 := cells (line V s) a], s')" for a
    by (rule chip_read_rand [OF assms])
  from r [of "word_of_nat (strtoul0 t)"]
  have "\<exists>s'. cmd_eeprom_read d buf [c, t] s = Inr (ReadError, s')"
    by (auto simp: cmd_eeprom_read_def Let_def)
  with r show ?thesis by blast
qed

theorem eeprom_read_rand_fails_witness:
  "(\<exists>s'. ls2k_eeprom_read_rand (sim_mmio EE_BASE (chip_bus 4)) 5 [0] (sim_of blank_chip)
      = Inr (0, [0xff], s'))
   \<and> (\<exists>s'. cmd_eeprom_read (sim_mmio EE_BASE (chip_bus 4)) [0] [''eepread'', ''5''] (sim_of blank_chip)
      = Inr (ReadError, s'))"
  using eeprom_read_rand_fails [OF chip_contract, of "[0]" 4 5 "sim_of blank_chip" "''eepread''" "''5''"]
  by (simp add: sim_view_def sim_of_def blank_chip_def)

text \<open>The write command stores what its argument says: for a text of one to 32 bytes in two
  hexadecimal digits each, separated by blanks, that fit one page of the memory, it parses exactly
  these bytes, writes them from the address on and prints them with their addresses.\<close>

theorem eeprom_write_command:
  assumes "i2c_contract d EE_BASE (chip_bus k) V" and "k \<le> 8" and "length stack = 32"
    and "vs \<noteq> []" and "length vs \<le> 32"
    and "unat (word_of_nat (strtoul0 t) :: u8) mod 2 ^ k + length vs \<le> 2 ^ k"
  shows "\<exists>s'. cmd_eeprom_write d stack [c, t, hex_text vs] s
      = Inr (Printed (map (\<lambda>i. (uint (word_of_nat (strtoul0 t) :: u8) + int i, vs ! i))
          [0..<length vs]), s')
    \<and> cells (line V s') = store (cells (line V s)) (word_of_nat (strtoul0 t)) vs"
proof -
  let ?a = "word_of_nat (strtoul0 t) :: u8"
  let ?b = "overwrite vs stack"
  have n: "length (hex_text vs) div 3 + 1 = length vs"
    using length_hex_text [OF assms(4)] by linarith
  have p: "parse_bytes (hex_text vs) [0..<length vs] None stack = Inr ?b"
    using assms(3,5) by (intro parse_text) simp_all
  have b: "take (length vs) ?b = vs" "length vs \<le> length ?b" by (simp_all add: overwrite_def)
  obtain s1 where s1: "ls2k_eeprom_write_page d ?a ?b (int (length vs)) s = Inr (int (length vs), s1)"
    "cells (line V s1) = store (cells (line V s)) ?a vs"
    using write_page_returns [OF assms(1) b(2), of ?a s] chip_write_page [OF assms(6,2), of "line V s"]
    by (auto simp: b)
  have "print_bytes ?a ?b (int (length vs)) = Inr (map (\<lambda>i. (uint ?a + int i, vs ! i)) [0..<length vs])"
    using b(2) by (simp add: print_bytes_all) (simp add: overwrite_def nth_append)
  with n p s1 show ?thesis unfolding cmd_eeprom_write_def Let_def by simp
qed

theorem eeprom_write_command_witness:
  "\<exists>s'. cmd_eeprom_write (sim_mmio EE_BASE (chip_bus 4)) (replicate 32 0)
      [''eepwrite'', ''0x20'', ''00 11 af''] (sim_of blank_chip)
    = Inr (Printed [(0x20, 0x00), (0x21, 0x11), (0x22, 0xaf)], s')"
proof -
  have t: "hex_text [0x00, 0x11, 0xaf] = ''00 11 af''" by (simp add: hex_byte_def hex_digit_def) code_simp
  have a: "strtoul0 ''0x20'' = 0x20"
    by (simp add: strtoul0_def strtoul_unsigned_def c_isspace_def digit_of_def)
  show ?thesis
    using eeprom_write_command [OF chip_contract, of 4 "replicate 32 0" "[0x00, 0x11, 0xaf]"
        "''0x20''" "''eepwrite''" "sim_of blank_chip"]
    unfolding t a by (auto simp: upt_rec)
qed

end
