(* ===== verification/Gmac_Desc.thy ===== *)
theory Gmac_Desc
  imports Prelude
begin

unbundle bit_operations_syntax

text \<open>
  The DMA descriptors of the Ethernet controller (\<open>ls2kdev_record/drivers/net/synopGMAC_Dev.c\<close>
  and the setup functions of \<open>synopGMAC.c\<close>), as compiled: \<open>ENH_DESC\<close> is defined and
  \<open>ENH_DESC_8W\<close> is not. Descriptors live in a memory from addresses to descriptors, of 32 bytes
  each, so that the pointers of the device structure and the chain pointers in \<open>data2\<close> are plain
  addresses; using one that is not a descriptor is a fault. An output argument is an option, the
  null pointer being \<open>None\<close>.
\<close>

section \<open>Descriptors\<close>

record DmaDesc =
  status :: u32
  desc_length :: u32
  buffer1 :: u32
  buffer2 :: u32
  data1 :: u64
  data2 :: u64

type_synonym desc_mem = "u64 \<Rightarrow> DmaDesc option"

definition desc_at :: "u64 \<Rightarrow> nat \<Rightarrow> u64" where
  "desc_at p i = p + 32 * word_of_nat i"

definition ld :: "desc_mem \<Rightarrow> u64 \<Rightarrow> DmaDesc res" where
  "ld m p = (case m p of None \<Rightarrow> Inl OobRead | Some d \<Rightarrow> Inr d)"

definition st :: "desc_mem \<Rightarrow> u64 \<Rightarrow> DmaDesc \<Rightarrow> desc_mem res" where
  "st m p d = (case m p of None \<Rightarrow> Inl OobWrite | Some _ \<Rightarrow> Inr (m(p \<mapsto> d)))"

text \<open>Bits of the two control words.\<close>

definition DescOwnByDma :: u32 where "DescOwnByDma = 0x80000000"
definition DescDAFilterFail :: u32 where "DescDAFilterFail = 0x40000000"
definition DescFrameLengthMask :: u32 where "DescFrameLengthMask = 0x3FFF0000"
definition DescError :: u32 where "DescError = 0x00008000"
definition DescSAFilterFail :: u32 where "DescSAFilterFail = 0x00002000"
definition DescRxLengthError :: u32 where "DescRxLengthError = 0x00001000"
definition DescRxDamaged :: u32 where "DescRxDamaged = 0x00000800"
definition DescRxFirst :: u32 where "DescRxFirst = 0x00000200"
definition DescRxLast :: u32 where "DescRxLast = 0x00000100"
definition DescRxCollision :: u32 where "DescRxCollision = 0x00000040"
definition DescRxDribbling :: u32 where "DescRxDribbling = 0x00000004"
definition DescRxCrc :: u32 where "DescRxCrc = 0x00000002"
definition DescTxIntEnable :: u32 where "DescTxIntEnable = 0x40000000"
definition DescTxLast :: u32 where "DescTxLast = 0x20000000"
definition DescTxFirst :: u32 where "DescTxFirst = 0x10000000"
definition DescTxCisMask :: u32 where "DescTxCisMask = 0x00c00000"
definition DescTxCisIpv4HdrCs :: u32 where "DescTxCisIpv4HdrCs = 0x00400000"
definition DescTxCisTcpOnlyCs :: u32 where "DescTxCisTcpOnlyCs = 0x00800000"
definition DescTxCisTcpPseudoCs :: u32 where "DescTxCisTcpPseudoCs = 0x00c00000"
definition TxDescEndOfRing :: u32 where "TxDescEndOfRing = 0x00200000"
definition TxDescChain :: u32 where "TxDescChain = 0x00100000"
definition DescTxLostCarrier :: u32 where "DescTxLostCarrier = 0x00000800"
definition DescTxNoCarrier :: u32 where "DescTxNoCarrier = 0x00000400"
definition DescTxLateCollision :: u32 where "DescTxLateCollision = 0x00000200"
definition DescTxExcCollisions :: u32 where "DescTxExcCollisions = 0x00000100"
definition DescTxCollMask :: u32 where "DescTxCollMask = 0x00000078"
definition DescTxIpv4ChkError :: u32 where "DescTxIpv4ChkError = 0x00010000"
definition DescTxPayChkError :: u32 where "DescTxPayChkError = 0x00001000"
definition RxDisIntCompl :: u32 where "RxDisIntCompl = 0x80000000"
definition RxDescEndOfRing :: u32 where "RxDescEndOfRing = 0x00008000"
definition RxDescChain :: u32 where "RxDescChain = 0x00004000"
definition DescSize2Mask :: u32 where "DescSize2Mask = 0x1FFF0000"
definition DescSize1Mask :: u32 where "DescSize1Mask = 0x00001FFF"
abbreviation (input) DescSize2Shift :: nat where "DescSize2Shift \<equiv> 16"
abbreviation (input) DescSize1Shift :: nat where "DescSize1Shift \<equiv> 0"
abbreviation (input) DescFrameLengthShift :: nat where "DescFrameLengthShift \<equiv> 16"
abbreviation (input) DescTxCollShift :: nat where "DescTxCollShift \<equiv> 3"
abbreviation (input) MODULO_INTERRUPT :: u32 where "MODULO_INTERRUPT \<equiv> 1"

lemmas desc_bits = DescOwnByDma_def DescTxIntEnable_def DescTxLast_def DescTxFirst_def
  DescTxCisMask_def DescTxCisIpv4HdrCs_def DescTxCisTcpOnlyCs_def DescTxCisTcpPseudoCs_def
  TxDescEndOfRing_def TxDescChain_def RxDisIntCompl_def RxDescEndOfRing_def RxDescChain_def
  DescSize2Mask_def DescSize1Mask_def

section \<open>Initialisation of a descriptor\<close>

definition synopGMAC_rx_desc_init_ring :: "bool \<Rightarrow> DmaDesc \<Rightarrow> DmaDesc" where
  "synopGMAC_rx_desc_init_ring final d =
     d\<lparr>desc_length := (if final then RxDescEndOfRing else 0), status := 0, buffer1 := 0,
       buffer2 := 0, data1 := 0, data2 := 0\<rparr>"

definition synopGMAC_rx_desc_recycle :: "bool \<Rightarrow> DmaDesc \<Rightarrow> DmaDesc" where
  "synopGMAC_rx_desc_recycle final d =
     d\<lparr>status := DescOwnByDma, desc_length := (if final then RxDescEndOfRing else 0)\<rparr>"

definition synopGMAC_tx_desc_init_ring :: "bool \<Rightarrow> DmaDesc \<Rightarrow> DmaDesc" where
  "synopGMAC_tx_desc_init_ring final d =
     d\<lparr>status := (if final then TxDescEndOfRing else 0), desc_length := 0, buffer1 := 0,
       buffer2 := 0, data1 := 0, data2 := 0\<rparr>"

definition synopGMAC_rx_desc_init_chain :: "DmaDesc \<Rightarrow> DmaDesc" where
  "synopGMAC_rx_desc_init_chain d =
     d\<lparr>status := 0, desc_length := RxDescChain, buffer1 := 0, data1 := 0\<rparr>"

definition synopGMAC_tx_desc_init_chain :: "DmaDesc \<Rightarrow> DmaDesc" where
  "synopGMAC_tx_desc_init_chain d =
     d\<lparr>status := TxDescChain, desc_length := 0, buffer1 := 0, data1 := 0\<rparr>"

section \<open>Bits of a descriptor\<close>

definition synopGMAC_set_owner_dma :: "DmaDesc \<Rightarrow> DmaDesc" where
  "synopGMAC_set_owner_dma d = d\<lparr>status := status d OR DescOwnByDma\<rparr>"

definition synopGMAC_set_desc_sof :: "DmaDesc \<Rightarrow> DmaDesc" where
  "synopGMAC_set_desc_sof d = d\<lparr>status := status d OR DescTxFirst\<rparr>"

definition synopGMAC_set_desc_eof :: "DmaDesc \<Rightarrow> DmaDesc" where
  "synopGMAC_set_desc_eof d = d\<lparr>status := status d OR DescTxLast\<rparr>"

definition synopGMAC_is_sof_in_rx_desc :: "DmaDesc \<Rightarrow> bool" where
  "synopGMAC_is_sof_in_rx_desc d \<longleftrightarrow> status d AND DescRxFirst = DescRxFirst"

definition synopGMAC_is_eof_in_rx_desc :: "DmaDesc \<Rightarrow> bool" where
  "synopGMAC_is_eof_in_rx_desc d \<longleftrightarrow> status d AND DescRxLast = DescRxLast"

definition synopGMAC_is_da_filter_failed :: "DmaDesc \<Rightarrow> bool" where
  "synopGMAC_is_da_filter_failed d \<longleftrightarrow> status d AND DescDAFilterFail = DescDAFilterFail"

definition synopGMAC_is_sa_filter_failed :: "DmaDesc \<Rightarrow> bool" where
  "synopGMAC_is_sa_filter_failed d \<longleftrightarrow> status d AND DescSAFilterFail = DescSAFilterFail"

definition synopGMAC_is_desc_owned_by_dma :: "DmaDesc \<Rightarrow> bool" where
  "synopGMAC_is_desc_owned_by_dma d \<longleftrightarrow> status d AND DescOwnByDma = DescOwnByDma"

definition synopGMAC_get_rx_desc_frame_length :: "u32 \<Rightarrow> u32" where
  "synopGMAC_get_rx_desc_frame_length s = drop_bit DescFrameLengthShift (s AND DescFrameLengthMask)"

definition synopGMAC_is_desc_valid :: "u32 \<Rightarrow> bool" where
  "synopGMAC_is_desc_valid s \<longleftrightarrow> s AND DescError = 0"

definition synopGMAC_is_desc_empty :: "DmaDesc \<Rightarrow> bool" where
  "synopGMAC_is_desc_empty d \<longleftrightarrow>
     desc_length d AND DescSize1Mask = 0 \<and> desc_length d AND DescSize2Mask = 0"

definition synopGMAC_is_rx_desc_valid :: "u32 \<Rightarrow> bool" where
  "synopGMAC_is_rx_desc_valid s \<longleftrightarrow>
     s AND DescError = 0 \<and> s AND DescRxFirst = DescRxFirst \<and> s AND DescRxLast = DescRxLast"

definition synopGMAC_is_tx_aborted :: "u32 \<Rightarrow> bool" where
  "synopGMAC_is_tx_aborted s \<longleftrightarrow>
     s AND DescTxLateCollision = DescTxLateCollision \<or> s AND DescTxExcCollisions = DescTxExcCollisions"

definition synopGMAC_is_tx_carrier_error :: "u32 \<Rightarrow> bool" where
  "synopGMAC_is_tx_carrier_error s \<longleftrightarrow>
     s AND DescTxLostCarrier = DescTxLostCarrier \<or> s AND DescTxNoCarrier = DescTxNoCarrier"

definition synopGMAC_get_tx_collision_count :: "u32 \<Rightarrow> u32" where
  "synopGMAC_get_tx_collision_count s = drop_bit DescTxCollShift (s AND DescTxCollMask)"

definition synopGMAC_is_exc_tx_collisions :: "u32 \<Rightarrow> bool" where
  "synopGMAC_is_exc_tx_collisions s \<longleftrightarrow> s AND DescTxExcCollisions = DescTxExcCollisions"

definition synopGMAC_is_rx_frame_damaged :: "u32 \<Rightarrow> bool" where
  "synopGMAC_is_rx_frame_damaged s \<longleftrightarrow>
     s AND DescRxDamaged = DescRxDamaged \<or> s AND DescRxCollision = DescRxCollision"

definition synopGMAC_is_rx_frame_collision :: "u32 \<Rightarrow> bool" where
  "synopGMAC_is_rx_frame_collision s \<longleftrightarrow> s AND DescRxCollision = DescRxCollision"

definition synopGMAC_is_rx_crc :: "u32 \<Rightarrow> bool" where
  "synopGMAC_is_rx_crc s \<longleftrightarrow> s AND DescRxCrc = DescRxCrc"

definition synopGMAC_is_frame_dribbling_errors :: "u32 \<Rightarrow> bool" where
  "synopGMAC_is_frame_dribbling_errors s \<longleftrightarrow> s AND DescRxDribbling = DescRxDribbling"

definition synopGMAC_is_rx_frame_length_errors :: "u32 \<Rightarrow> bool" where
  "synopGMAC_is_rx_frame_length_errors s \<longleftrightarrow> s AND DescRxLengthError = DescRxLengthError"

definition synopGMAC_is_tx_ipv4header_checksum_error :: "u32 \<Rightarrow> bool" where
  "synopGMAC_is_tx_ipv4header_checksum_error s \<longleftrightarrow> s AND DescTxIpv4ChkError = DescTxIpv4ChkError"

definition synopGMAC_is_tx_payload_checksum_error :: "u32 \<Rightarrow> bool" where
  "synopGMAC_is_tx_payload_checksum_error s \<longleftrightarrow> s AND DescTxPayChkError = DescTxPayChkError"

text \<open>Two of the four checksum settings start from the wrong word, as in the source.\<close>

definition synopGMAC_tx_checksum_offload_bypass :: "DmaDesc \<Rightarrow> DmaDesc" where
  "synopGMAC_tx_checksum_offload_bypass d = d\<lparr>status := desc_length d AND NOT DescTxCisMask\<rparr>"

definition synopGMAC_tx_checksum_offload_ipv4hdr :: "DmaDesc \<Rightarrow> DmaDesc" where
  "synopGMAC_tx_checksum_offload_ipv4hdr d =
     d\<lparr>status := (status d AND NOT DescTxCisMask) OR DescTxCisIpv4HdrCs\<rparr>"

definition synopGMAC_tx_checksum_offload_tcponly :: "DmaDesc \<Rightarrow> DmaDesc" where
  "synopGMAC_tx_checksum_offload_tcponly d =
     d\<lparr>status := (status d AND NOT DescTxCisMask) OR DescTxCisTcpOnlyCs\<rparr>"

definition synopGMAC_tx_checksum_offload_tcp_pseudo :: "DmaDesc \<Rightarrow> DmaDesc" where
  "synopGMAC_tx_checksum_offload_tcp_pseudo d =
     d\<lparr>status := (desc_length d AND NOT DescTxCisMask) OR DescTxCisTcpPseudoCs\<rparr>"

definition synopGMAC_take_desc_ownership :: "DmaDesc \<Rightarrow> DmaDesc" where
  "synopGMAC_take_desc_ownership d = d\<lparr>status := status d AND NOT DescOwnByDma\<rparr>"

section \<open>The device structure\<close>

record synopGMACdevice =
  MacBase :: u64
  DmaBase :: u64
  PhyBase :: u64
  Version :: u32
  TxDescDma :: u32
  RxDescDma :: u32
  TxDesc :: u64
  RxDesc :: u64
  BusyTxDesc :: u32
  BusyRxDesc :: u32
  RxDescCount :: u32
  TxDescCount :: u32
  TxBusy :: u32
  TxNext :: u32
  RxBusy :: u32
  RxNext :: u32
  TxBusyDesc :: u64
  TxNextDesc :: u64
  RxBusyDesc :: u64
  RxNextDesc :: u64
  ClockDivMdc :: u32
  LinkState0 :: u32
  LinkState :: u32
  DuplexMode :: u32
  Speed :: u32
  LoopBackMode :: u32

definition synopGMAC_is_last_rx_desc :: "synopGMACdevice \<Rightarrow> DmaDesc \<Rightarrow> bool" where
  "synopGMAC_is_last_rx_desc dev d \<longleftrightarrow>
     desc_length d AND RxDescEndOfRing = RxDescEndOfRing \<or> RxDesc dev = data2 d"

definition synopGMAC_is_last_tx_desc :: "synopGMACdevice \<Rightarrow> DmaDesc \<Rightarrow> bool" where
  "synopGMAC_is_last_tx_desc dev d \<longleftrightarrow>
     status d AND TxDescEndOfRing = TxDescEndOfRing \<or> TxDesc dev = data2 d"

definition synopGMAC_is_rx_desc_chained :: "DmaDesc \<Rightarrow> bool" where
  "synopGMAC_is_rx_desc_chained d \<longleftrightarrow> desc_length d AND RxDescChain = RxDescChain"

definition synopGMAC_is_tx_desc_chained :: "DmaDesc \<Rightarrow> bool" where
  "synopGMAC_is_tx_desc_chained d \<longleftrightarrow> status d AND TxDescChain = TxDescChain"

text \<open>\<open>for (i = 0; i < count; i++) init (base + i, i == count - 1)\<close>\<close>

definition init_ring :: "(bool \<Rightarrow> DmaDesc \<Rightarrow> DmaDesc) \<Rightarrow> u64 \<Rightarrow> u32 \<Rightarrow> desc_mem \<Rightarrow> desc_mem res" where
  "init_ring f p count m =
     for_list (\<lambda>i m. rbind (ld m (desc_at p i)) (\<lambda>d.
         st m (desc_at p i) (f (word_of_nat i = count - 1) d))) [0..<unat count] m"

text \<open>
  The reset of both queues: the indices start again at 0, the descriptor pointers and the counts
  of busy descriptors are left alone.
\<close>

definition synopGMAC_init_tx_rx_desc_queue ::
    "synopGMACdevice \<Rightarrow> desc_mem \<Rightarrow> (int \<times> synopGMACdevice \<times> desc_mem) res" where
  "synopGMAC_init_tx_rx_desc_queue dev m =
     rbind (init_ring synopGMAC_tx_desc_init_ring (TxDesc dev) (TxDescCount dev) m) (\<lambda>m.
     rbind (init_ring synopGMAC_rx_desc_init_ring (RxDesc dev) (RxDescCount dev) m) (\<lambda>m.
     Inr (0, dev\<lparr>TxNext := 0, TxBusy := 0, RxNext := 0, RxBusy := 0\<rparr>, m)))"

text \<open>
  The setup of a queue. The allocation is an argument: the address of the descriptors and their
  DMA address, or \<open>None\<close>; the memory it is applied to contains them.
\<close>

definition synopGMAC_setup_tx_desc_queue ::
    "(u64 \<times> u32) option \<Rightarrow> u32 \<Rightarrow> synopGMACdevice \<Rightarrow> desc_mem \<Rightarrow> (int \<times> synopGMACdevice \<times> desc_mem) res" where
  "synopGMAC_setup_tx_desc_queue alloc no_of_desc dev m =
     (let dev = dev\<lparr>TxDescCount := 0\<rparr> in
      case alloc of
        None \<Rightarrow> Inr (-1, dev, m)
      | Some (first_desc, dma_addr) \<Rightarrow>
          let dev = dev\<lparr>TxDescCount := no_of_desc, TxDesc := first_desc, TxDescDma := dma_addr\<rparr> in
          rbind (init_ring synopGMAC_tx_desc_init_ring first_desc no_of_desc m) (\<lambda>m.
          Inr (0, dev\<lparr>TxNext := 0, TxBusy := 0, TxNextDesc := first_desc, TxBusyDesc := first_desc,
                      BusyTxDesc := 0\<rparr>, m)))"

definition synopGMAC_setup_rx_desc_queue ::
    "(u64 \<times> u32) option \<Rightarrow> u32 \<Rightarrow> synopGMACdevice \<Rightarrow> desc_mem \<Rightarrow> (int \<times> synopGMACdevice \<times> desc_mem) res" where
  "synopGMAC_setup_rx_desc_queue alloc no_of_desc dev m =
     (let dev = dev\<lparr>RxDescCount := 0\<rparr> in
      case alloc of
        None \<Rightarrow> Inr (-1, dev, m)
      | Some (first_desc, dma_addr) \<Rightarrow>
          let dev = dev\<lparr>RxDescCount := no_of_desc, RxDesc := first_desc, RxDescDma := dma_addr\<rparr> in
          rbind (init_ring synopGMAC_rx_desc_init_ring first_desc no_of_desc m) (\<lambda>m.
          Inr (0, dev\<lparr>RxNext := 0, RxBusy := 0, RxNextDesc := first_desc, RxBusyDesc := first_desc,
                      BusyRxDesc := 0\<rparr>, m)))"

text \<open>
  Taking every descriptor back from the DMA: along the chain when the current descriptor is
  chained, by index from the current base otherwise.
\<close>

fun take_loop :: "(DmaDesc \<Rightarrow> bool) \<Rightarrow> nat list \<Rightarrow> u64 \<Rightarrow> desc_mem \<Rightarrow> desc_mem res" where
  "take_loop chained [] p m = Inr m"
| "take_loop chained (i # is) p m =
     rbind (ld m p) (\<lambda>d.
     if chained d then
       rbind (st m p (synopGMAC_take_desc_ownership d)) (\<lambda>m. take_loop chained is (data2 d) m)
     else
       rbind (ld m (desc_at p i)) (\<lambda>d.
       rbind (st m (desc_at p i) (synopGMAC_take_desc_ownership d)) (\<lambda>m. take_loop chained is p m)))"

definition synopGMAC_take_desc_ownership_rx :: "synopGMACdevice \<Rightarrow> desc_mem \<Rightarrow> desc_mem res" where
  "synopGMAC_take_desc_ownership_rx dev m =
     take_loop synopGMAC_is_rx_desc_chained [0..<unat (RxDescCount dev)] (RxDesc dev) m"

definition synopGMAC_take_desc_ownership_tx :: "synopGMACdevice \<Rightarrow> desc_mem \<Rightarrow> desc_mem res" where
  "synopGMAC_take_desc_ownership_tx dev m =
     take_loop synopGMAC_is_tx_desc_chained [0..<unat (TxDescCount dev)] (TxDesc dev) m"

section \<open>Queue operations\<close>

text \<open>The output arguments of the queue operations, each possibly a null pointer.\<close>

record qptr_out =
  o_status :: "u32 option"
  o_buffer1 :: "u32 option"
  o_length1 :: "u32 option"
  o_data1 :: "u64 option"
  o_buffer2 :: "u32 option"
  o_length2 :: "u32 option"
  o_data2 :: "u64 option"

definition out :: "'a \<Rightarrow> 'a option \<Rightarrow> 'a option" where
  "out v p = map_option (\<lambda>_. v) p"

definition size1 :: "DmaDesc \<Rightarrow> u32" where
  "size1 d = drop_bit DescSize1Shift (desc_length d AND DescSize1Mask)"

definition size2 :: "DmaDesc \<Rightarrow> u32" where
  "size2 d = drop_bit DescSize2Shift (desc_length d AND DescSize2Mask)"

definition synopGMAC_get_desc_data :: "DmaDesc \<Rightarrow> qptr_out \<Rightarrow> qptr_out" where
  "synopGMAC_get_desc_data d w =
     \<lparr>o_status = out (status d) (o_status w), o_buffer1 = out (buffer1 d) (o_buffer1 w),
      o_length1 = out (size1 d) (o_length1 w), o_data1 = out (data1 d) (o_data1 w),
      o_buffer2 = out (buffer2 d) (o_buffer2 w), o_length2 = out (size2 d) (o_length2 w),
      o_data2 = out (data2 d) (o_data2 w)\<rparr>"

text \<open>The queue operations test \<open>Data1\<close> before they store through \<open>Data2\<close>.\<close>

definition qptr_data :: "DmaDesc \<Rightarrow> qptr_out \<Rightarrow> qptr_out res" where
  "qptr_data d w =
     (if o_data1 w \<noteq> None then
        (if o_data2 w = None then Inl NullPtr else Inr (synopGMAC_get_desc_data d w))
      else Inr ((synopGMAC_get_desc_data d w)\<lparr>o_data2 := o_data2 w\<rparr>))"

definition synopGMAC_get_tx_qptr ::
    "qptr_out \<Rightarrow> synopGMACdevice \<Rightarrow> desc_mem \<Rightarrow> (int \<times> qptr_out \<times> synopGMACdevice \<times> desc_mem) res" where
  "synopGMAC_get_tx_qptr w dev m =
     (let txover = TxBusy dev; p = TxBusyDesc dev in
      rbind (ld m p) (\<lambda>d.
      if synopGMAC_is_desc_owned_by_dma d then Inr (-1, w, dev, m)
      else if synopGMAC_is_desc_empty d then Inr (-1, w, dev, m)
      else
        let dev = dev\<lparr>BusyTxDesc := BusyTxDesc dev - 1\<rparr> in
        rbind (qptr_data d w) (\<lambda>w.
        let dev = dev\<lparr>TxBusy := (if synopGMAC_is_last_tx_desc dev d then 0 else txover + 1)\<rparr> in
        if synopGMAC_is_tx_desc_chained d then
          rbind (st m p (synopGMAC_tx_desc_init_chain d)) (\<lambda>m.
          Inr (sint txover, w, dev\<lparr>TxBusyDesc := data2 d\<rparr>, m))
        else
          rbind (st m p (synopGMAC_tx_desc_init_ring (synopGMAC_is_last_tx_desc dev d) d)) (\<lambda>m.
          Inr (sint txover, w,
               dev\<lparr>TxBusyDesc := (if synopGMAC_is_last_tx_desc dev d then TxDesc dev else p + 32)\<rparr>, m)))))"

text \<open>The result, what is stored through \<open>index\<close>, the device and the memory.\<close>

definition synopGMAC_set_tx_qptr ::
    "u32 \<Rightarrow> u32 \<Rightarrow> u64 \<Rightarrow> u32 \<Rightarrow> u32 \<Rightarrow> u64 \<Rightarrow> u32 \<Rightarrow> synopGMACdevice \<Rightarrow> desc_mem
      \<Rightarrow> (int \<times> u32 \<times> synopGMACdevice \<times> desc_mem) res" where
  "synopGMAC_set_tx_qptr Buffer1 Length1 Data1 Buffer2 Length2 Data2 offload_needed dev m =
     (let txnext = TxNext dev; p = TxNextDesc dev in
      rbind (ld m p) (\<lambda>d.
      if \<not> synopGMAC_is_desc_empty d then Inr (-1, txnext, dev, m)
      else
        let dev = dev\<lparr>BusyTxDesc := BusyTxDesc dev + 1\<rparr>;
            flags = DescTxFirst OR DescTxLast OR DescTxIntEnable;
            offload = (\<lambda>d. if offload_needed \<noteq> 0
              then synopGMAC_tx_checksum_offload_tcponly (synopGMAC_tx_checksum_offload_ipv4hdr d) else d) in
        if synopGMAC_is_tx_desc_chained d then
          let d = d\<lparr>desc_length := desc_length d OR (push_bit DescSize1Shift Length1 AND DescSize1Mask),
                    status := status d OR flags, buffer1 := Buffer1, data1 := Data1\<rparr>;
              d = offload d;
              d = d\<lparr>status := status d OR DescOwnByDma\<rparr> in
          rbind (st m p d) (\<lambda>m.
          Inr (sint txnext, txnext,
               dev\<lparr>TxNext := (if synopGMAC_is_last_tx_desc dev d then 0 else txnext + 1),
                   TxNextDesc := data2 d\<rparr>, m))
        else
          let d = d\<lparr>desc_length := desc_length d OR ((push_bit DescSize1Shift Length1 AND DescSize1Mask)
                        OR (push_bit DescSize2Shift Length2 AND DescSize2Mask)),
                    status := status d OR flags, buffer1 := Buffer1, data1 := Data1,
                    buffer2 := Buffer2, data2 := Data2\<rparr>;
              d = offload d;
              d = d\<lparr>status := status d OR DescOwnByDma\<rparr> in
          rbind (st m p d) (\<lambda>m.
          Inr (sint txnext, txnext,
               dev\<lparr>TxNext := (if synopGMAC_is_last_tx_desc dev d then 0 else txnext + 1),
                   TxNextDesc := (if synopGMAC_is_last_tx_desc dev d then TxDesc dev else p + 32)\<rparr>, m))))"

text \<open>
  Giving a receive descriptor to the DMA, and the variant that leaves it with the driver; they
  differ in the status stored last.
\<close>

definition set_rx_with ::
    "u32 \<Rightarrow> u32 \<Rightarrow> u32 \<Rightarrow> u64 \<Rightarrow> u32 \<Rightarrow> u32 \<Rightarrow> u64 \<Rightarrow> synopGMACdevice \<Rightarrow> desc_mem
      \<Rightarrow> (int \<times> synopGMACdevice \<times> desc_mem) res" where
  "set_rx_with final_status Buffer1 Length1 Data1 Buffer2 Length2 Data2 dev m =
     (let rxnext = RxNext dev; p = RxNextDesc dev in
      rbind (ld m p) (\<lambda>d.
      if \<not> synopGMAC_is_desc_empty d then Inr (-1, dev, m)
      else
        let mark = (\<lambda>d. if rxnext mod MODULO_INTERRUPT \<noteq> 0
              then d\<lparr>desc_length := desc_length d OR RxDisIntCompl\<rparr> else d) in
        if synopGMAC_is_rx_desc_chained d then
          let d = d\<lparr>desc_length := desc_length d OR (push_bit DescSize1Shift Length1 AND DescSize1Mask),
                    buffer1 := Buffer1, data1 := Data1\<rparr>;
              d = (mark d)\<lparr>status := final_status\<rparr> in
          rbind (st m p d) (\<lambda>m.
          Inr (sint rxnext,
               dev\<lparr>RxNext := (if synopGMAC_is_last_rx_desc dev d then 0 else rxnext + 1),
                   RxNextDesc := data2 d, BusyRxDesc := BusyRxDesc dev + 1\<rparr>, m))
        else
          let d = d\<lparr>desc_length := desc_length d OR ((push_bit DescSize1Shift Length1 AND DescSize1Mask)
                        OR (push_bit DescSize2Shift Length2 AND DescSize2Mask)),
                    buffer1 := Buffer1, data1 := Data1, buffer2 := Buffer2, data2 := Data2\<rparr>;
              d = (mark d)\<lparr>status := final_status\<rparr> in
          rbind (st m p d) (\<lambda>m.
          Inr (sint rxnext,
               dev\<lparr>RxNext := (if synopGMAC_is_last_rx_desc dev d then 0 else rxnext + 1),
                   RxNextDesc := (if synopGMAC_is_last_rx_desc dev d then RxDesc dev else p + 32),
                   BusyRxDesc := BusyRxDesc dev + 1\<rparr>, m))))"

definition synopGMAC_set_rx_qptr ::
    "u32 \<Rightarrow> u32 \<Rightarrow> u64 \<Rightarrow> u32 \<Rightarrow> u32 \<Rightarrow> u64 \<Rightarrow> synopGMACdevice \<Rightarrow> desc_mem
      \<Rightarrow> (int \<times> synopGMACdevice \<times> desc_mem) res" where
  "synopGMAC_set_rx_qptr = set_rx_with DescOwnByDma"

definition synopGMAC_set_rx_qptr_init ::
    "u32 \<Rightarrow> u32 \<Rightarrow> u64 \<Rightarrow> u32 \<Rightarrow> u32 \<Rightarrow> u64 \<Rightarrow> synopGMACdevice \<Rightarrow> desc_mem
      \<Rightarrow> (int \<times> synopGMACdevice \<times> desc_mem) res" where
  "synopGMAC_set_rx_qptr_init = set_rx_with 0"

text \<open>The length of the frame is read through \<open>Status\<close>, which may not be null here.\<close>

definition synopGMAC_get_rx_qptr ::
    "qptr_out \<Rightarrow> synopGMACdevice \<Rightarrow> desc_mem \<Rightarrow> (int \<times> qptr_out \<times> synopGMACdevice \<times> desc_mem) res" where
  "synopGMAC_get_rx_qptr w dev m =
     (let rxnext = RxBusy dev; p = RxBusyDesc dev in
      rbind (ld m p) (\<lambda>d.
      if synopGMAC_is_desc_owned_by_dma d then Inr (-1, w, dev, m)
      else if synopGMAC_is_desc_empty d then Inr (-1, w, dev, m)
      else
        rbind (qptr_data d w) (\<lambda>w.
        if o_status w = None then Inl NullPtr
        else
          let dev = dev\<lparr>RxBusy := (if synopGMAC_is_last_rx_desc dev d then 0 else rxnext + 1)\<rparr> in
          if synopGMAC_is_rx_desc_chained d then
            rbind (st m p (synopGMAC_rx_desc_init_chain d)) (\<lambda>m.
            Inr (sint rxnext, w, dev\<lparr>RxBusyDesc := data2 d, BusyRxDesc := BusyRxDesc dev - 1\<rparr>, m))
          else
            rbind (st m p (synopGMAC_rx_desc_init_ring (synopGMAC_is_last_rx_desc dev d) d)) (\<lambda>m.
            Inr (sint rxnext, w,
                 dev\<lparr>RxBusyDesc := (if synopGMAC_is_last_rx_desc dev d then RxDesc dev else p + 32),
                     BusyRxDesc := BusyRxDesc dev - 1\<rparr>, m)))))"

end
