(* ===== verification/Gmac_Regs.thy ===== *)
theory Gmac_Regs
  imports Gmac_Desc Mmio
begin

unbundle bit_operations_syntax

text \<open>
  The registers of the Ethernet controller: the access functions of
  \<open>ls2kdev_record/drivers/net/synopGMAC_plat.h\<close>, the register map and the bits of
  \<open>synopGMAC_Dev.h\<close>, and the configuration functions of \<open>synopGMAC_Dev.c\<close>, one for one. The
  controller is a parameter, as in \<open>Mmio\<close>; a controller whose registers hold what was written to
  them is the contract \<open>plain_regs\<close>.
\<close>

section \<open>Access functions\<close>

definition synopGMACReadReg :: "'s mmio32 \<Rightarrow> u64 \<Rightarrow> u32 \<Rightarrow> 's \<Rightarrow> u32 \<times> 's" where
  "synopGMACReadReg hw RegBase RegOffset = read32 hw (RegBase + ucast RegOffset)"

definition synopGMACWriteReg :: "'s mmio32 \<Rightarrow> u64 \<Rightarrow> u32 \<Rightarrow> u32 \<Rightarrow> 's \<Rightarrow> 's" where
  "synopGMACWriteReg hw RegBase RegOffset RegData = write32 hw (RegBase + ucast RegOffset) RegData"

definition synopGMACSetBits :: "'s mmio32 \<Rightarrow> u64 \<Rightarrow> u32 \<Rightarrow> u32 \<Rightarrow> 's \<Rightarrow> 's" where
  "synopGMACSetBits hw RegBase RegOffset BitPos s =
     (case synopGMACReadReg hw RegBase RegOffset s of
        (data, s) \<Rightarrow> synopGMACWriteReg hw RegBase RegOffset (data OR BitPos) s)"

definition synopGMACClearBits :: "'s mmio32 \<Rightarrow> u64 \<Rightarrow> u32 \<Rightarrow> u32 \<Rightarrow> 's \<Rightarrow> 's" where
  "synopGMACClearBits hw RegBase RegOffset BitPos s =
     (case synopGMACReadReg hw RegBase RegOffset s of
        (data, s) \<Rightarrow> synopGMACWriteReg hw RegBase RegOffset (data AND NOT BitPos) s)"

definition synopGMACCheckBits :: "'s mmio32 \<Rightarrow> u64 \<Rightarrow> u32 \<Rightarrow> u32 \<Rightarrow> 's \<Rightarrow> bool \<times> 's" where
  "synopGMACCheckBits hw RegBase RegOffset BitPos s =
     (case synopGMACReadReg hw RegBase RegOffset s of (data, s) \<Rightarrow> (data AND BitPos \<noteq> 0, s))"

section \<open>Register map and bits\<close>

definition GmacConfig :: u32 where "GmacConfig = 0x0000"
definition GmacWatchdog :: u32 where "GmacWatchdog = 0x00800000"
definition GmacJabber :: u32 where "GmacJabber = 0x00400000"
definition GmacFrameBurst :: u32 where "GmacFrameBurst = 0x00200000"
definition GmacJumboFrame :: u32 where "GmacJumboFrame = 0x00100000"
definition GmacDisableCrs :: u32 where "GmacDisableCrs = 0x00010000"
definition GmacMiiGmii :: u32 where "GmacMiiGmii = 0x00008000"
definition GmacRxOwn :: u32 where "GmacRxOwn = 0x00002000"
definition GmacLoopback :: u32 where "GmacLoopback = 0x00001000"
definition GmacDuplex :: u32 where "GmacDuplex = 0x00000800"
definition GmacRetry :: u32 where "GmacRetry = 0x00000200"
definition GmacPadCrcStrip :: u32 where "GmacPadCrcStrip = 0x00000080"
definition GmacDeferralCheck :: u32 where "GmacDeferralCheck = 0x00000010"
definition GmacRx :: u32 where "GmacRx = 0x00000004"
definition GmacTx :: u32 where "GmacTx = 0x00000008"
definition GmacFrameFilter :: u32 where "GmacFrameFilter = 0x0004"
definition GmacFilter :: u32 where "GmacFilter = 0x80000000"
definition GmacHashPerfectFilter :: u32 where "GmacHashPerfectFilter = 0x00000400"
definition GmacSrcAddrFilter :: u32 where "GmacSrcAddrFilter = 0x00000200"
definition GmacDestAddrFilterInv :: u32 where "GmacDestAddrFilterInv = 0x00000008"
definition GmacBroadcast :: u32 where "GmacBroadcast = 0x00000020"
definition GmacMulticastFilter :: u32 where "GmacMulticastFilter = 0x00000010"
definition GmacMcastHashFilter :: u32 where "GmacMcastHashFilter = 0x00000004"
definition GmacPromiscuousMode :: u32 where "GmacPromiscuousMode = 0x00000001"
definition GmacUcastHashFilter :: u32 where "GmacUcastHashFilter = 0x00000002"
definition GmacFlowControl :: u32 where "GmacFlowControl = 0x0018"
definition GmacUnicastPauseFrame :: u32 where "GmacUnicastPauseFrame = 0x00000008"
definition GmacRxFlowControl :: u32 where "GmacRxFlowControl = 0x00000004"
definition GmacTxFlowControl :: u32 where "GmacTxFlowControl = 0x00000002"
definition DmaInterrupt :: u32 where "DmaInterrupt = 0x001C"
definition GmacHashHigh :: u32 where "GmacHashHigh = 0x0008"
definition GmacHashLow :: u32 where "GmacHashLow = 0x000C"
definition GmacVersion :: u32 where "GmacVersion = 0x0020"
definition GmacAddr0High :: u32 where "GmacAddr0High = 0x0040"
definition GmacAddr0Low :: u32 where "GmacAddr0Low = 0x0044"
definition GmacStatus :: u32 where "GmacStatus = 0x00d8"
definition GmacBackoffLimit :: u32 where "GmacBackoffLimit = 0x00000060"
definition GmacBackoffLimit0 :: u32 where "GmacBackoffLimit0 = 0x00000000"
definition GmacPassControl :: u32 where "GmacPassControl = 0x000000C0"
definition GmacPassControl0 :: u32 where "GmacPassControl0 = 0x00000000"
definition GmacFESpeed100 :: u32 where "GmacFESpeed100 = 0x00004000"
definition GmacFESpeed10 :: u32 where "GmacFESpeed10 = 0x00000000"
definition GmacFlowControlBackPressure :: u32 where "GmacFlowControlBackPressure = 0x00000001"
definition DmaBusMode :: u32 where "DmaBusMode = 0x0000"
definition DmaTxPollDemand :: u32 where "DmaTxPollDemand = 0x0004"
definition DmaRxPollDemand :: u32 where "DmaRxPollDemand = 0x0008"
definition DmaRxBaseAddr :: u32 where "DmaRxBaseAddr = 0x000C"
definition DmaTxBaseAddr :: u32 where "DmaTxBaseAddr = 0x0010"
definition DmaStatus :: u32 where "DmaStatus = 0x0014"
definition DmaControl :: u32 where "DmaControl = 0x0018"
definition DmaResetOn :: u32 where "DmaResetOn = 0x00000001"
definition DmaStoreAndForward :: u32 where "DmaStoreAndForward = 0x02200000"
definition DmaFwdErrorFrames :: u32 where "DmaFwdErrorFrames = 0x00000080"
definition DmaTxStart :: u32 where "DmaTxStart = 0x00002000"
definition DmaRxStart :: u32 where "DmaRxStart = 0x00000002"
definition DmaRxFlowCtrlAct4K :: u32 where "DmaRxFlowCtrlAct4K = 0x00000600"
definition DmaRxFlowCtrlDeact5K :: u32 where "DmaRxFlowCtrlDeact5K = 0x00400000"
definition DmaEnHwFlowCtrl :: u32 where "DmaEnHwFlowCtrl = 0x00000100"
definition DmaIntNormal :: u32 where "DmaIntNormal = 0x00010000"
definition DmaIntAbnormal :: u32 where "DmaIntAbnormal = 0x00008000"
definition DmaIntBusError :: u32 where "DmaIntBusError = 0x00002000"
definition DmaIntRxStopped :: u32 where "DmaIntRxStopped = 0x00000100"
definition DmaIntRxNoBuffer :: u32 where "DmaIntRxNoBuffer = 0x00000080"
definition DmaIntRxCompleted :: u32 where "DmaIntRxCompleted = 0x00000040"
definition DmaIntTxUnderflow :: u32 where "DmaIntTxUnderflow = 0x00000020"
definition DmaIntTxStopped :: u32 where "DmaIntTxStopped = 0x00000002"
definition DmaIntTxCompleted :: u32 where "DmaIntTxCompleted = 0x00000001"

definition DmaIntErrorMask :: u32 where "DmaIntErrorMask = DmaIntBusError"
definition DmaIntRxAbnMask :: u32 where "DmaIntRxAbnMask = DmaIntRxNoBuffer"
definition DmaIntRxNormMask :: u32 where "DmaIntRxNormMask = DmaIntRxCompleted"
definition DmaIntRxStoppedMask :: u32 where "DmaIntRxStoppedMask = DmaIntRxStopped"
definition DmaIntTxAbnMask :: u32 where "DmaIntTxAbnMask = DmaIntTxUnderflow"
definition DmaIntTxNormMask :: u32 where "DmaIntTxNormMask = DmaIntTxCompleted"
definition DmaIntTxStoppedMask :: u32 where "DmaIntTxStoppedMask = DmaIntTxStopped"
definition DmaIntEnable :: u32 where
  "DmaIntEnable = DmaIntNormal OR DmaIntAbnormal OR DmaIntErrorMask
     OR DmaIntRxAbnMask OR DmaIntRxNormMask OR DmaIntRxStoppedMask
     OR DmaIntTxAbnMask OR DmaIntTxNormMask OR DmaIntTxStoppedMask"
definition DmaIntDisable :: u32 where "DmaIntDisable = 0"
definition synopGMACDmaRxNormal :: u32 where "synopGMACDmaRxNormal = 0x01"
definition synopGMACDmaRxAbnormal :: u32 where "synopGMACDmaRxAbnormal = 0x02"
definition synopGMACDmaRxStopped :: u32 where "synopGMACDmaRxStopped = 0x04"
definition synopGMACDmaTxNormal :: u32 where "synopGMACDmaTxNormal = 0x08"
definition synopGMACDmaTxAbnormal :: u32 where "synopGMACDmaTxAbnormal = 0x10"
definition synopGMACDmaTxStopped :: u32 where "synopGMACDmaTxStopped = 0x20"
definition synopGMACDmaError :: u32 where "synopGMACDmaError = 0x80"
definition HALFDUPLEX :: u32 where "HALFDUPLEX = 1"
definition FULLDUPLEX :: u32 where "FULLDUPLEX = 2"
definition SPEED10 :: u32 where "SPEED10 = 1"
definition SPEED100 :: u32 where "SPEED100 = 2"
definition SPEED1000 :: u32 where "SPEED1000 = 3"

lemmas reg_offsets = GmacConfig_def GmacFrameFilter_def GmacFlowControl_def DmaInterrupt_def
  GmacHashHigh_def GmacHashLow_def GmacVersion_def GmacAddr0High_def GmacAddr0Low_def
  GmacStatus_def DmaBusMode_def DmaTxPollDemand_def DmaRxPollDemand_def DmaRxBaseAddr_def
  DmaTxBaseAddr_def DmaStatus_def DmaControl_def

lemmas mac_bits = GmacWatchdog_def GmacJabber_def GmacFrameBurst_def GmacJumboFrame_def
  GmacDisableCrs_def GmacMiiGmii_def GmacRxOwn_def GmacLoopback_def GmacDuplex_def GmacRetry_def
  GmacPadCrcStrip_def GmacDeferralCheck_def GmacRx_def GmacTx_def GmacFilter_def
  GmacHashPerfectFilter_def GmacSrcAddrFilter_def GmacDestAddrFilterInv_def GmacBroadcast_def
  GmacMulticastFilter_def GmacMcastHashFilter_def GmacPromiscuousMode_def GmacUcastHashFilter_def
  GmacUnicastPauseFrame_def GmacRxFlowControl_def GmacTxFlowControl_def GmacBackoffLimit_def
  GmacBackoffLimit0_def GmacPassControl_def GmacPassControl0_def GmacFESpeed100_def
  GmacFESpeed10_def GmacFlowControlBackPressure_def DmaResetOn_def DmaStoreAndForward_def
  DmaFwdErrorFrames_def DmaTxStart_def DmaRxStart_def DmaRxFlowCtrlAct4K_def
  DmaRxFlowCtrlDeact5K_def DmaEnHwFlowCtrl_def

lemmas int_bits = DmaIntNormal_def DmaIntAbnormal_def DmaIntBusError_def DmaIntRxStopped_def
  DmaIntRxNoBuffer_def DmaIntRxCompleted_def DmaIntTxUnderflow_def DmaIntTxStopped_def
  DmaIntTxCompleted_def DmaIntErrorMask_def DmaIntRxAbnMask_def DmaIntRxNormMask_def
  DmaIntRxStoppedMask_def DmaIntTxAbnMask_def DmaIntTxNormMask_def DmaIntTxStoppedMask_def
  synopGMACDmaRxNormal_def synopGMACDmaRxAbnormal_def synopGMACDmaRxStopped_def
  synopGMACDmaTxNormal_def synopGMACDmaTxAbnormal_def synopGMACDmaTxStopped_def
  synopGMACDmaError_def

lemmas link_modes = HALFDUPLEX_def FULLDUPLEX_def SPEED10_def SPEED100_def SPEED1000_def

section \<open>Switches of the configuration registers\<close>

definition synopGMAC_wd_enable :: "'s mmio32 \<Rightarrow> synopGMACdevice \<Rightarrow> 's \<Rightarrow> 's" where
  "synopGMAC_wd_enable hw g = synopGMACClearBits hw (MacBase g) GmacConfig GmacWatchdog"

definition synopGMAC_wd_disable :: "'s mmio32 \<Rightarrow> synopGMACdevice \<Rightarrow> 's \<Rightarrow> 's" where
  "synopGMAC_wd_disable hw g = synopGMACSetBits hw (MacBase g) GmacConfig GmacWatchdog"

definition synopGMAC_jab_enable :: "'s mmio32 \<Rightarrow> synopGMACdevice \<Rightarrow> 's \<Rightarrow> 's" where
  "synopGMAC_jab_enable hw g = synopGMACClearBits hw (MacBase g) GmacConfig GmacJabber"

definition synopGMAC_jab_disable :: "'s mmio32 \<Rightarrow> synopGMACdevice \<Rightarrow> 's \<Rightarrow> 's" where
  "synopGMAC_jab_disable hw g = synopGMACSetBits hw (MacBase g) GmacConfig GmacJabber"

definition synopGMAC_frame_burst_enable :: "'s mmio32 \<Rightarrow> synopGMACdevice \<Rightarrow> 's \<Rightarrow> 's" where
  "synopGMAC_frame_burst_enable hw g = synopGMACSetBits hw (MacBase g) GmacConfig GmacFrameBurst"

definition synopGMAC_frame_burst_disable :: "'s mmio32 \<Rightarrow> synopGMACdevice \<Rightarrow> 's \<Rightarrow> 's" where
  "synopGMAC_frame_burst_disable hw g = synopGMACClearBits hw (MacBase g) GmacConfig GmacFrameBurst"

definition synopGMAC_jumbo_frame_enable :: "'s mmio32 \<Rightarrow> synopGMACdevice \<Rightarrow> 's \<Rightarrow> 's" where
  "synopGMAC_jumbo_frame_enable hw g = synopGMACSetBits hw (MacBase g) GmacConfig GmacJumboFrame"

definition synopGMAC_jumbo_frame_disable :: "'s mmio32 \<Rightarrow> synopGMACdevice \<Rightarrow> 's \<Rightarrow> 's" where
  "synopGMAC_jumbo_frame_disable hw g = synopGMACClearBits hw (MacBase g) GmacConfig GmacJumboFrame"

definition synopGMAC_disable_crs :: "'s mmio32 \<Rightarrow> synopGMACdevice \<Rightarrow> 's \<Rightarrow> 's" where
  "synopGMAC_disable_crs hw g = synopGMACSetBits hw (MacBase g) GmacConfig GmacDisableCrs"

definition synopGMAC_select_gmii :: "'s mmio32 \<Rightarrow> synopGMACdevice \<Rightarrow> 's \<Rightarrow> 's" where
  "synopGMAC_select_gmii hw g = synopGMACClearBits hw (MacBase g) GmacConfig GmacMiiGmii"

definition synopGMAC_select_mii :: "'s mmio32 \<Rightarrow> synopGMACdevice \<Rightarrow> 's \<Rightarrow> 's" where
  "synopGMAC_select_mii hw g = synopGMACSetBits hw (MacBase g) GmacConfig GmacMiiGmii"

definition synopGMAC_rx_own_enable :: "'s mmio32 \<Rightarrow> synopGMACdevice \<Rightarrow> 's \<Rightarrow> 's" where
  "synopGMAC_rx_own_enable hw g = synopGMACClearBits hw (MacBase g) GmacConfig GmacRxOwn"

definition synopGMAC_rx_own_disable :: "'s mmio32 \<Rightarrow> synopGMACdevice \<Rightarrow> 's \<Rightarrow> 's" where
  "synopGMAC_rx_own_disable hw g = synopGMACSetBits hw (MacBase g) GmacConfig GmacRxOwn"

definition synopGMAC_loopback_on :: "'s mmio32 \<Rightarrow> synopGMACdevice \<Rightarrow> 's \<Rightarrow> 's" where
  "synopGMAC_loopback_on hw g = synopGMACSetBits hw (MacBase g) GmacConfig GmacLoopback"

definition synopGMAC_loopback_off :: "'s mmio32 \<Rightarrow> synopGMACdevice \<Rightarrow> 's \<Rightarrow> 's" where
  "synopGMAC_loopback_off hw g = synopGMACClearBits hw (MacBase g) GmacConfig GmacLoopback"

definition synopGMAC_set_full_duplex :: "'s mmio32 \<Rightarrow> synopGMACdevice \<Rightarrow> 's \<Rightarrow> 's" where
  "synopGMAC_set_full_duplex hw g = synopGMACSetBits hw (MacBase g) GmacConfig GmacDuplex"

definition synopGMAC_set_half_duplex :: "'s mmio32 \<Rightarrow> synopGMACdevice \<Rightarrow> 's \<Rightarrow> 's" where
  "synopGMAC_set_half_duplex hw g = synopGMACClearBits hw (MacBase g) GmacConfig GmacDuplex"

definition synopGMAC_retry_enable :: "'s mmio32 \<Rightarrow> synopGMACdevice \<Rightarrow> 's \<Rightarrow> 's" where
  "synopGMAC_retry_enable hw g = synopGMACClearBits hw (MacBase g) GmacConfig GmacRetry"

definition synopGMAC_retry_disable :: "'s mmio32 \<Rightarrow> synopGMACdevice \<Rightarrow> 's \<Rightarrow> 's" where
  "synopGMAC_retry_disable hw g = synopGMACSetBits hw (MacBase g) GmacConfig GmacRetry"

definition synopGMAC_pad_crc_strip_enable :: "'s mmio32 \<Rightarrow> synopGMACdevice \<Rightarrow> 's \<Rightarrow> 's" where
  "synopGMAC_pad_crc_strip_enable hw g = synopGMACSetBits hw (MacBase g) GmacConfig GmacPadCrcStrip"

definition synopGMAC_deferral_check_enable :: "'s mmio32 \<Rightarrow> synopGMACdevice \<Rightarrow> 's \<Rightarrow> 's" where
  "synopGMAC_deferral_check_enable hw g = synopGMACSetBits hw (MacBase g) GmacConfig GmacDeferralCheck"

definition synopGMAC_deferral_check_disable :: "'s mmio32 \<Rightarrow> synopGMACdevice \<Rightarrow> 's \<Rightarrow> 's" where
  "synopGMAC_deferral_check_disable hw g = synopGMACClearBits hw (MacBase g) GmacConfig GmacDeferralCheck"

definition synopGMAC_rx_enable :: "'s mmio32 \<Rightarrow> synopGMACdevice \<Rightarrow> 's \<Rightarrow> 's" where
  "synopGMAC_rx_enable hw g = synopGMACSetBits hw (MacBase g) GmacConfig GmacRx"

definition synopGMAC_rx_disable :: "'s mmio32 \<Rightarrow> synopGMACdevice \<Rightarrow> 's \<Rightarrow> 's" where
  "synopGMAC_rx_disable hw g = synopGMACClearBits hw (MacBase g) GmacConfig GmacRx"

definition synopGMAC_tx_enable :: "'s mmio32 \<Rightarrow> synopGMACdevice \<Rightarrow> 's \<Rightarrow> 's" where
  "synopGMAC_tx_enable hw g = synopGMACSetBits hw (MacBase g) GmacConfig GmacTx"

definition synopGMAC_tx_disable :: "'s mmio32 \<Rightarrow> synopGMACdevice \<Rightarrow> 's \<Rightarrow> 's" where
  "synopGMAC_tx_disable hw g = synopGMACClearBits hw (MacBase g) GmacConfig GmacTx"

definition synopGMAC_frame_filter_enable :: "'s mmio32 \<Rightarrow> synopGMACdevice \<Rightarrow> 's \<Rightarrow> 's" where
  "synopGMAC_frame_filter_enable hw g = synopGMACClearBits hw (MacBase g) GmacFrameFilter GmacFilter"

definition synopGMAC_frame_filter_disable :: "'s mmio32 \<Rightarrow> synopGMACdevice \<Rightarrow> 's \<Rightarrow> 's" where
  "synopGMAC_frame_filter_disable hw g = synopGMACSetBits hw (MacBase g) GmacFrameFilter GmacFilter"

definition synopGMAC_hash_perfect_filter_enable :: "'s mmio32 \<Rightarrow> synopGMACdevice \<Rightarrow> 's \<Rightarrow> 's" where
  "synopGMAC_hash_perfect_filter_enable hw g = synopGMACSetBits hw (MacBase g) GmacFrameFilter GmacHashPerfectFilter"

definition synopGMAC_Hash_filter_only_enable :: "'s mmio32 \<Rightarrow> synopGMACdevice \<Rightarrow> 's \<Rightarrow> 's" where
  "synopGMAC_Hash_filter_only_enable hw g = synopGMACClearBits hw (MacBase g) GmacFrameFilter GmacHashPerfectFilter"

definition synopGMAC_src_addr_filter_enable :: "'s mmio32 \<Rightarrow> synopGMACdevice \<Rightarrow> 's \<Rightarrow> 's" where
  "synopGMAC_src_addr_filter_enable hw g = synopGMACSetBits hw (MacBase g) GmacFrameFilter GmacSrcAddrFilter"

definition synopGMAC_src_addr_filter_disable :: "'s mmio32 \<Rightarrow> synopGMACdevice \<Rightarrow> 's \<Rightarrow> 's" where
  "synopGMAC_src_addr_filter_disable hw g = synopGMACClearBits hw (MacBase g) GmacFrameFilter GmacSrcAddrFilter"

definition synopGMAC_dst_addr_filter_inverse :: "'s mmio32 \<Rightarrow> synopGMACdevice \<Rightarrow> 's \<Rightarrow> 's" where
  "synopGMAC_dst_addr_filter_inverse hw g = synopGMACSetBits hw (MacBase g) GmacFrameFilter GmacDestAddrFilterInv"

definition synopGMAC_dst_addr_filter_normal :: "'s mmio32 \<Rightarrow> synopGMACdevice \<Rightarrow> 's \<Rightarrow> 's" where
  "synopGMAC_dst_addr_filter_normal hw g = synopGMACClearBits hw (MacBase g) GmacFrameFilter GmacDestAddrFilterInv"

definition synopGMAC_broadcast_enable :: "'s mmio32 \<Rightarrow> synopGMACdevice \<Rightarrow> 's \<Rightarrow> 's" where
  "synopGMAC_broadcast_enable hw g = synopGMACClearBits hw (MacBase g) GmacFrameFilter GmacBroadcast"

definition synopGMAC_broadcast_disable :: "'s mmio32 \<Rightarrow> synopGMACdevice \<Rightarrow> 's \<Rightarrow> 's" where
  "synopGMAC_broadcast_disable hw g = synopGMACSetBits hw (MacBase g) GmacFrameFilter GmacBroadcast"

definition synopGMAC_multicast_enable :: "'s mmio32 \<Rightarrow> synopGMACdevice \<Rightarrow> 's \<Rightarrow> 's" where
  "synopGMAC_multicast_enable hw g = synopGMACSetBits hw (MacBase g) GmacFrameFilter GmacMulticastFilter"

definition synopGMAC_multicast_disable :: "'s mmio32 \<Rightarrow> synopGMACdevice \<Rightarrow> 's \<Rightarrow> 's" where
  "synopGMAC_multicast_disable hw g = synopGMACClearBits hw (MacBase g) GmacFrameFilter GmacMulticastFilter"

definition synopGMAC_multicast_hash_filter_enable :: "'s mmio32 \<Rightarrow> synopGMACdevice \<Rightarrow> 's \<Rightarrow> 's" where
  "synopGMAC_multicast_hash_filter_enable hw g = synopGMACSetBits hw (MacBase g) GmacFrameFilter GmacMcastHashFilter"

definition synopGMAC_multicast_hash_filter_disable :: "'s mmio32 \<Rightarrow> synopGMACdevice \<Rightarrow> 's \<Rightarrow> 's" where
  "synopGMAC_multicast_hash_filter_disable hw g = synopGMACClearBits hw (MacBase g) GmacFrameFilter GmacMcastHashFilter"

definition synopGMAC_promisc_enable :: "'s mmio32 \<Rightarrow> synopGMACdevice \<Rightarrow> 's \<Rightarrow> 's" where
  "synopGMAC_promisc_enable hw g = synopGMACSetBits hw (MacBase g) GmacFrameFilter GmacPromiscuousMode"

definition synopGMAC_promisc_disable :: "'s mmio32 \<Rightarrow> synopGMACdevice \<Rightarrow> 's \<Rightarrow> 's" where
  "synopGMAC_promisc_disable hw g = synopGMACClearBits hw (MacBase g) GmacFrameFilter GmacPromiscuousMode"

definition synopGMAC_unicast_hash_filter_enable :: "'s mmio32 \<Rightarrow> synopGMACdevice \<Rightarrow> 's \<Rightarrow> 's" where
  "synopGMAC_unicast_hash_filter_enable hw g = synopGMACSetBits hw (MacBase g) GmacFrameFilter GmacUcastHashFilter"

definition synopGMAC_unicast_hash_filter_disable :: "'s mmio32 \<Rightarrow> synopGMACdevice \<Rightarrow> 's \<Rightarrow> 's" where
  "synopGMAC_unicast_hash_filter_disable hw g = synopGMACClearBits hw (MacBase g) GmacFrameFilter GmacUcastHashFilter"

definition synopGMAC_unicast_pause_frame_detect_enable :: "'s mmio32 \<Rightarrow> synopGMACdevice \<Rightarrow> 's \<Rightarrow> 's" where
  "synopGMAC_unicast_pause_frame_detect_enable hw g = synopGMACSetBits hw (MacBase g) GmacFlowControl GmacUnicastPauseFrame"

definition synopGMAC_unicast_pause_frame_detect_disable :: "'s mmio32 \<Rightarrow> synopGMACdevice \<Rightarrow> 's \<Rightarrow> 's" where
  "synopGMAC_unicast_pause_frame_detect_disable hw g = synopGMACClearBits hw (MacBase g) GmacFlowControl GmacUnicastPauseFrame"

definition synopGMAC_rx_flow_control_enable :: "'s mmio32 \<Rightarrow> synopGMACdevice \<Rightarrow> 's \<Rightarrow> 's" where
  "synopGMAC_rx_flow_control_enable hw g = synopGMACSetBits hw (MacBase g) GmacFlowControl GmacRxFlowControl"

definition synopGMAC_rx_flow_control_disable :: "'s mmio32 \<Rightarrow> synopGMACdevice \<Rightarrow> 's \<Rightarrow> 's" where
  "synopGMAC_rx_flow_control_disable hw g = synopGMACClearBits hw (MacBase g) GmacFlowControl GmacRxFlowControl"

definition synopGMAC_tx_flow_control_enable :: "'s mmio32 \<Rightarrow> synopGMACdevice \<Rightarrow> 's \<Rightarrow> 's" where
  "synopGMAC_tx_flow_control_enable hw g = synopGMACSetBits hw (MacBase g) GmacFlowControl GmacTxFlowControl"

definition synopGMAC_tx_flow_control_disable :: "'s mmio32 \<Rightarrow> synopGMACdevice \<Rightarrow> 's \<Rightarrow> 's" where
  "synopGMAC_tx_flow_control_disable hw g = synopGMACClearBits hw (MacBase g) GmacFlowControl GmacTxFlowControl"

definition synopGMAC_disable_interrupt :: "'s mmio32 \<Rightarrow> synopGMACdevice \<Rightarrow> u32 \<Rightarrow> 's \<Rightarrow> 's" where
  "synopGMAC_disable_interrupt hw g interrupts = synopGMACClearBits hw (DmaBase g) DmaInterrupt interrupts"

lemmas mac_switches = synopGMAC_wd_enable_def synopGMAC_wd_disable_def synopGMAC_jab_enable_def
  synopGMAC_jab_disable_def synopGMAC_frame_burst_enable_def synopGMAC_frame_burst_disable_def
  synopGMAC_jumbo_frame_enable_def synopGMAC_jumbo_frame_disable_def synopGMAC_disable_crs_def
  synopGMAC_select_gmii_def synopGMAC_select_mii_def synopGMAC_rx_own_enable_def
  synopGMAC_rx_own_disable_def synopGMAC_loopback_on_def synopGMAC_loopback_off_def
  synopGMAC_set_full_duplex_def synopGMAC_set_half_duplex_def synopGMAC_retry_enable_def
  synopGMAC_retry_disable_def synopGMAC_pad_crc_strip_enable_def
  synopGMAC_deferral_check_enable_def synopGMAC_deferral_check_disable_def synopGMAC_rx_enable_def
  synopGMAC_rx_disable_def synopGMAC_tx_enable_def synopGMAC_tx_disable_def
  synopGMAC_frame_filter_enable_def synopGMAC_frame_filter_disable_def
  synopGMAC_hash_perfect_filter_enable_def synopGMAC_Hash_filter_only_enable_def
  synopGMAC_src_addr_filter_enable_def synopGMAC_src_addr_filter_disable_def
  synopGMAC_dst_addr_filter_inverse_def synopGMAC_dst_addr_filter_normal_def
  synopGMAC_broadcast_enable_def synopGMAC_broadcast_disable_def synopGMAC_multicast_enable_def
  synopGMAC_multicast_disable_def synopGMAC_multicast_hash_filter_enable_def
  synopGMAC_multicast_hash_filter_disable_def synopGMAC_promisc_enable_def
  synopGMAC_promisc_disable_def synopGMAC_unicast_hash_filter_enable_def
  synopGMAC_unicast_hash_filter_disable_def synopGMAC_unicast_pause_frame_detect_enable_def
  synopGMAC_unicast_pause_frame_detect_disable_def synopGMAC_rx_flow_control_enable_def
  synopGMAC_rx_flow_control_disable_def synopGMAC_tx_flow_control_enable_def
  synopGMAC_tx_flow_control_disable_def synopGMAC_disable_interrupt_def

section \<open>Fields and whole registers\<close>

text \<open>The second read of the register only feeds a debug message, but it is made.\<close>

definition synopGMAC_pad_crc_strip_disable :: "'s mmio32 \<Rightarrow> synopGMACdevice \<Rightarrow> 's \<Rightarrow> 's" where
  "synopGMAC_pad_crc_strip_disable hw g s =
     snd (synopGMACReadReg hw (MacBase g) GmacConfig
       (synopGMACClearBits hw (MacBase g) GmacConfig GmacPadCrcStrip s))"

definition synopGMAC_back_off_limit :: "'s mmio32 \<Rightarrow> synopGMACdevice \<Rightarrow> u32 \<Rightarrow> 's \<Rightarrow> 's" where
  "synopGMAC_back_off_limit hw g v s =
     (case synopGMACReadReg hw (MacBase g) GmacConfig s of
        (data, s) \<Rightarrow> synopGMACWriteReg hw (MacBase g) GmacConfig (data AND NOT GmacBackoffLimit OR v) s)"

definition synopGMAC_set_pass_control :: "'s mmio32 \<Rightarrow> synopGMACdevice \<Rightarrow> u32 \<Rightarrow> 's \<Rightarrow> 's" where
  "synopGMAC_set_pass_control hw g passcontrol s =
     (case synopGMACReadReg hw (MacBase g) GmacFrameFilter s of
        (data, s) \<Rightarrow> synopGMACWriteReg hw (MacBase g) GmacFrameFilter (data AND NOT GmacPassControl OR passcontrol) s)"

definition synopGMAC_write_hash_table_high :: "'s mmio32 \<Rightarrow> synopGMACdevice \<Rightarrow> u32 \<Rightarrow> 's \<Rightarrow> 's" where
  "synopGMAC_write_hash_table_high hw g data s = synopGMACWriteReg hw (MacBase g) GmacHashHigh data s"

definition synopGMAC_write_hash_table_low :: "'s mmio32 \<Rightarrow> synopGMACdevice \<Rightarrow> u32 \<Rightarrow> 's \<Rightarrow> 's" where
  "synopGMAC_write_hash_table_low hw g data s = synopGMACWriteReg hw (MacBase g) GmacHashLow data s"

text \<open>Both flow control functions compare the speed with a duplex mode, as in the source.\<close>

definition synopGMAC_tx_activate_flow_control :: "'s mmio32 \<Rightarrow> synopGMACdevice \<Rightarrow> 's \<Rightarrow> 's" where
  "synopGMAC_tx_activate_flow_control hw g s =
     (if Speed g = FULLDUPLEX then
        (case synopGMACCheckBits hw (MacBase g) GmacFlowControl GmacFlowControlBackPressure s of
           (b, s) \<Rightarrow>
             if \<not> b then synopGMACSetBits hw (MacBase g) GmacFlowControl GmacFlowControlBackPressure s
             else s)
      else synopGMACSetBits hw (MacBase g) GmacFlowControl GmacFlowControlBackPressure s)"

definition synopGMAC_tx_deactivate_flow_control :: "'s mmio32 \<Rightarrow> synopGMACdevice \<Rightarrow> 's \<Rightarrow> 's" where
  "synopGMAC_tx_deactivate_flow_control hw g s =
     (if Speed g = HALFDUPLEX
      then synopGMACSetBits hw (MacBase g) GmacFlowControl GmacFlowControlBackPressure s else s)"

definition synopGMAC_pause_control :: "'s mmio32 \<Rightarrow> synopGMACdevice \<Rightarrow> 's \<Rightarrow> 's" where
  "synopGMAC_pause_control hw g s =
     (let (omr_reg, s) = synopGMACReadReg hw (DmaBase g) DmaControl s;
          s = synopGMACWriteReg hw (DmaBase g) DmaControl
                (omr_reg OR (DmaRxFlowCtrlAct4K OR DmaRxFlowCtrlDeact5K OR DmaEnHwFlowCtrl)) s;
          (flow, s) = synopGMACReadReg hw (MacBase g) GmacFlowControl s
      in synopGMACWriteReg hw (MacBase g) GmacFlowControl
           (flow OR (GmacRxFlowControl OR GmacTxFlowControl OR 0xFFFF0000)) s)"

definition synopGMAC_read_version :: "'s mmio32 \<Rightarrow> synopGMACdevice \<Rightarrow> 's \<Rightarrow> synopGMACdevice \<times> 's" where
  "synopGMAC_read_version hw g s =
     (case synopGMACReadReg hw (MacBase g) GmacVersion s of (data, s) \<Rightarrow> (g\<lparr>Version := data\<rparr>, s))"

definition synopGMAC_reset :: "'s mmio32 \<Rightarrow> synopGMACdevice \<Rightarrow> 's \<Rightarrow> 's" where
  "synopGMAC_reset hw g s =
     snd (synopGMACReadReg hw (DmaBase g) DmaBusMode
       (synopGMACWriteReg hw (DmaBase g) DmaBusMode DmaResetOn s))"

definition synopGMAC_dma_bus_mode_init :: "'s mmio32 \<Rightarrow> synopGMACdevice \<Rightarrow> u32 \<Rightarrow> 's \<Rightarrow> 's" where
  "synopGMAC_dma_bus_mode_init hw g init_value s = synopGMACWriteReg hw (DmaBase g) DmaBusMode init_value s"

definition synopGMAC_dma_control_init :: "'s mmio32 \<Rightarrow> synopGMACdevice \<Rightarrow> u32 \<Rightarrow> 's \<Rightarrow> 's" where
  "synopGMAC_dma_control_init hw g init_value s = synopGMACWriteReg hw (DmaBase g) DmaControl init_value s"

definition synopGMAC_init_rx_desc_base :: "'s mmio32 \<Rightarrow> synopGMACdevice \<Rightarrow> 's \<Rightarrow> 's" where
  "synopGMAC_init_rx_desc_base hw g s = synopGMACWriteReg hw (DmaBase g) DmaRxBaseAddr (RxDescDma g) s"

definition synopGMAC_init_tx_desc_base :: "'s mmio32 \<Rightarrow> synopGMACdevice \<Rightarrow> 's \<Rightarrow> 's" where
  "synopGMAC_init_tx_desc_base hw g s = synopGMACWriteReg hw (DmaBase g) DmaTxBaseAddr (TxDescDma g) s"

section \<open>Interrupts and the DMA engines\<close>

definition synopGMAC_clear_interrupt :: "'s mmio32 \<Rightarrow> synopGMACdevice \<Rightarrow> 's \<Rightarrow> 's" where
  "synopGMAC_clear_interrupt hw g s =
     (case synopGMACReadReg hw (DmaBase g) DmaStatus s of
        (data, s) \<Rightarrow> synopGMACWriteReg hw (DmaBase g) DmaStatus (data) s)"

definition interrupt_types :: "u32 \<Rightarrow> u32" where
  "interrupt_types data =
     (if data AND DmaIntErrorMask \<noteq> 0 then synopGMACDmaError else 0)
     OR (if data AND DmaIntRxNormMask \<noteq> 0 then synopGMACDmaRxNormal else 0)
     OR (if data AND DmaIntRxAbnMask \<noteq> 0 then synopGMACDmaRxAbnormal else 0)
     OR (if data AND DmaIntRxStoppedMask \<noteq> 0 then synopGMACDmaRxStopped else 0)
     OR (if data AND DmaIntTxNormMask \<noteq> 0 then synopGMACDmaTxNormal else 0)
     OR (if data AND DmaIntTxAbnMask \<noteq> 0 then synopGMACDmaTxAbnormal else 0)
     OR (if data AND DmaIntTxStoppedMask \<noteq> 0 then synopGMACDmaTxStopped else 0)"

definition synopGMAC_get_interrupt_type :: "'s mmio32 \<Rightarrow> synopGMACdevice \<Rightarrow> 's \<Rightarrow> u32 \<times> 's" where
  "synopGMAC_get_interrupt_type hw g s =
     (case synopGMACReadReg hw (DmaBase g) DmaStatus s of
        (data, s) \<Rightarrow> (interrupt_types data, synopGMACWriteReg hw (DmaBase g) DmaStatus data s))"

definition synopGMAC_get_interrupt_mask :: "'s mmio32 \<Rightarrow> synopGMACdevice \<Rightarrow> 's \<Rightarrow> u32 \<times> 's" where
  "synopGMAC_get_interrupt_mask hw g = synopGMACReadReg hw (DmaBase g) DmaInterrupt"

definition synopGMAC_enable_interrupt :: "'s mmio32 \<Rightarrow> synopGMACdevice \<Rightarrow> u32 \<Rightarrow> 's \<Rightarrow> 's" where
  "synopGMAC_enable_interrupt hw g interrupts s = synopGMACWriteReg hw (DmaBase g) DmaInterrupt interrupts s"

definition synopGMAC_disable_interrupt_all :: "'s mmio32 \<Rightarrow> synopGMACdevice \<Rightarrow> 's \<Rightarrow> 's" where
  "synopGMAC_disable_interrupt_all hw g s = synopGMACWriteReg hw (DmaBase g) DmaInterrupt DmaIntDisable s"

definition synopGMAC_enable_dma_rx :: "'s mmio32 \<Rightarrow> synopGMACdevice \<Rightarrow> 's \<Rightarrow> 's" where
  "synopGMAC_enable_dma_rx hw g s =
     (case synopGMACReadReg hw (DmaBase g) DmaControl s of
        (data, s) \<Rightarrow> synopGMACWriteReg hw (DmaBase g) DmaControl (data OR DmaRxStart) s)"

definition synopGMAC_enable_dma_tx :: "'s mmio32 \<Rightarrow> synopGMACdevice \<Rightarrow> 's \<Rightarrow> 's" where
  "synopGMAC_enable_dma_tx hw g s =
     (case synopGMACReadReg hw (DmaBase g) DmaControl s of
        (data, s) \<Rightarrow> synopGMACWriteReg hw (DmaBase g) DmaControl (data OR DmaTxStart) s)"

definition synopGMAC_resume_dma_tx :: "'s mmio32 \<Rightarrow> synopGMACdevice \<Rightarrow> 's \<Rightarrow> 's" where
  "synopGMAC_resume_dma_tx hw g s = synopGMACWriteReg hw (DmaBase g) DmaTxPollDemand 1 s"

definition synopGMAC_resume_dma_rx :: "'s mmio32 \<Rightarrow> synopGMACdevice \<Rightarrow> 's \<Rightarrow> 's" where
  "synopGMAC_resume_dma_rx hw g s = synopGMACWriteReg hw (DmaBase g) DmaRxPollDemand 0 s"

definition synopGMAC_disable_dma_tx :: "'s mmio32 \<Rightarrow> synopGMACdevice \<Rightarrow> 's \<Rightarrow> 's" where
  "synopGMAC_disable_dma_tx hw g s =
     (case synopGMACReadReg hw (DmaBase g) DmaControl s of
        (data, s) \<Rightarrow> synopGMACWriteReg hw (DmaBase g) DmaControl (data AND NOT DmaTxStart) s)"

definition synopGMAC_disable_dma_rx :: "'s mmio32 \<Rightarrow> synopGMACdevice \<Rightarrow> 's \<Rightarrow> 's" where
  "synopGMAC_disable_dma_rx hw g s =
     (case synopGMACReadReg hw (DmaBase g) DmaControl s of
        (data, s) \<Rightarrow> synopGMACWriteReg hw (DmaBase g) DmaControl (data AND NOT DmaRxStart) s)"

section \<open>Registers that hold what was written\<close>

text \<open>
  The contract of the configuration registers: on a set of addresses, reads give the value of the
  register and change none of them, and a write changes the register it names only.
\<close>

definition plain_regs :: "'s mmio32 \<Rightarrow> ('s \<Rightarrow> u64 \<Rightarrow> u32) \<Rightarrow> u64 set \<Rightarrow> bool" where
  "plain_regs hw val A \<longleftrightarrow>
     (\<forall>s. \<forall>a\<in>A. fst (read32 hw a s) = val s a \<and>
        (\<forall>b\<in>A. val (snd (read32 hw a s)) b = val s b \<and>
           (\<forall>v. val (write32 hw a v s) b = (if b = a then v else val s b))))"

text \<open>Memory is an instance, whatever the set.\<close>

definition reg_mem :: "(u64 \<Rightarrow> u32) mmio32" where
  "reg_mem = \<lparr>read32 = (\<lambda>a s. (s a, s)), write32 = (\<lambda>a v s. s(a := v))\<rparr>"

lemma reg_mem_plain: "plain_regs reg_mem (\<lambda>s. s) A"
  by (simp add: plain_regs_def reg_mem_def)

lemma plain_read:
  "plain_regs hw val A \<Longrightarrow> base + ucast off \<in> A \<Longrightarrow>
     fst (synopGMACReadReg hw base off s) = val s (base + ucast off)"
  "plain_regs hw val A \<Longrightarrow> base + ucast off \<in> A \<Longrightarrow> b \<in> A \<Longrightarrow>
     val (snd (synopGMACReadReg hw base off s)) b = val s b"
  by (simp_all add: plain_regs_def synopGMACReadReg_def)

lemma plain_write:
  "plain_regs hw val A \<Longrightarrow> base + ucast off \<in> A \<Longrightarrow> b \<in> A \<Longrightarrow>
     val (synopGMACWriteReg hw base off v s) b = (if b = base + ucast off then v else val s b)"
  by (simp add: plain_regs_def synopGMACWriteReg_def)

lemma plain_set_bits:
  "plain_regs hw val A \<Longrightarrow> base + ucast off \<in> A \<Longrightarrow> b \<in> A \<Longrightarrow>
     val (synopGMACSetBits hw base off m s) b =
       (if b = base + ucast off then val s b OR m else val s b)"
  by (simp add: synopGMACSetBits_def split_beta plain_read plain_write)

lemma plain_clear_bits:
  "plain_regs hw val A \<Longrightarrow> base + ucast off \<in> A \<Longrightarrow> b \<in> A \<Longrightarrow>
     val (synopGMACClearBits hw base off m s) b =
       (if b = base + ucast off then val s b AND NOT m else val s b)"
  by (simp add: synopGMACClearBits_def split_beta plain_read plain_write)

lemmas plain_rules = plain_read plain_write plain_set_bits plain_clear_bits

end
