(* ===== verification/Gmac_Mac.thy ===== *)
theory Gmac_Mac
  imports Gmac_Regs
begin

unbundle bit_operations_syntax

text \<open>
  The configuration of the Ethernet MAC (\<open>synopGMAC_mac_init\<close>, \<open>synopGMAC_set_mac_addr\<close>,
  \<open>synopGMAC_get_mac_addr\<close> in \<open>synopGMAC_Dev.c\<close>), and what the registers hold after it: closed
  forms of the four registers it programs, which are compared with the initial values the header
  lists and with one another when the link speed changes.
\<close>

section \<open>Operations\<close>

text \<open>The choice of the interface and of the speed, common to both duplex modes.\<close>

definition select_speed :: "'s mmio32 \<Rightarrow> synopGMACdevice \<Rightarrow> 's \<Rightarrow> 's" where
  "select_speed hw g s =
     (if Speed g = SPEED1000 then synopGMAC_select_gmii hw g s
      else
        let s = synopGMAC_select_mii hw g s in
        if Speed g = SPEED100 then synopGMACSetBits hw (MacBase g) GmacConfig GmacFESpeed100 s
        else synopGMACSetBits hw (MacBase g) GmacConfig GmacFESpeed10 s)"

definition mac_init_full :: "'s mmio32 \<Rightarrow> synopGMACdevice \<Rightarrow> 's \<Rightarrow> 's" where
  "mac_init_full hw g s =
     (let s = synopGMAC_wd_enable hw g s;
          s = synopGMAC_jab_enable hw g s;
          s = synopGMAC_frame_burst_enable hw g s;
          s = synopGMAC_jumbo_frame_disable hw g s;
          s = synopGMAC_rx_own_enable hw g s;
          s = synopGMAC_loopback_off hw g s;
          s = synopGMAC_set_full_duplex hw g s;
          s = synopGMAC_retry_enable hw g s;
          s = synopGMAC_pad_crc_strip_disable hw g s;
          s = synopGMAC_back_off_limit hw g GmacBackoffLimit0 s;
          s = synopGMAC_deferral_check_disable hw g s;
          s = synopGMAC_tx_enable hw g s;
          s = synopGMAC_rx_enable hw g s;
          s = synopGMACSetBits hw (DmaBase g) DmaControl DmaStoreAndForward s;
          s = synopGMACSetBits hw (DmaBase g) DmaControl DmaFwdErrorFrames s;
          s = select_speed hw g s;
          s = synopGMAC_frame_filter_disable hw g s;
          s = synopGMAC_set_pass_control hw g GmacPassControl0 s;
          s = synopGMAC_broadcast_enable hw g s;
          s = synopGMAC_src_addr_filter_disable hw g s;
          s = synopGMAC_multicast_disable hw g s;
          s = synopGMAC_dst_addr_filter_normal hw g s;
          s = synopGMAC_multicast_hash_filter_disable hw g s;
          s = synopGMAC_promisc_disable hw g s;
          s = synopGMAC_unicast_hash_filter_disable hw g s;
          s = synopGMAC_unicast_pause_frame_detect_disable hw g s;
          s = synopGMAC_rx_flow_control_enable hw g s
      in synopGMAC_tx_flow_control_enable hw g s)"

definition mac_init_half :: "'s mmio32 \<Rightarrow> synopGMACdevice \<Rightarrow> 's \<Rightarrow> 's" where
  "mac_init_half hw g s =
     (let s = synopGMAC_wd_enable hw g s;
          s = synopGMAC_jab_enable hw g s;
          s = synopGMAC_frame_burst_enable hw g s;
          s = synopGMAC_jumbo_frame_disable hw g s;
          s = synopGMAC_rx_own_enable hw g s;
          s = synopGMAC_loopback_off hw g s;
          s = synopGMAC_set_half_duplex hw g s;
          s = synopGMAC_retry_enable hw g s;
          s = synopGMAC_pad_crc_strip_disable hw g s;
          s = synopGMAC_back_off_limit hw g GmacBackoffLimit0 s;
          s = synopGMAC_deferral_check_disable hw g s;
          s = synopGMACSetBits hw (DmaBase g) DmaControl DmaStoreAndForward s;
          s = synopGMACSetBits hw (DmaBase g) DmaControl DmaFwdErrorFrames s;
          s = synopGMAC_tx_enable hw g s;
          s = synopGMAC_rx_enable hw g s;
          s = select_speed hw g s;
          s = synopGMAC_frame_filter_enable hw g s;
          s = synopGMAC_set_pass_control hw g GmacPassControl0 s;
          s = synopGMAC_broadcast_enable hw g s;
          s = synopGMAC_src_addr_filter_disable hw g s;
          s = synopGMAC_multicast_disable hw g s;
          s = synopGMAC_dst_addr_filter_normal hw g s;
          s = synopGMAC_multicast_hash_filter_disable hw g s;
          s = synopGMAC_promisc_disable hw g s;
          s = synopGMAC_unicast_hash_filter_disable hw g s;
          s = synopGMAC_unicast_pause_frame_detect_disable hw g s;
          s = synopGMAC_rx_flow_control_disable hw g s
      in synopGMAC_tx_flow_control_disable hw g s)"

definition synopGMAC_mac_init :: "'s mmio32 \<Rightarrow> synopGMACdevice \<Rightarrow> 's \<Rightarrow> 's" where
  "synopGMAC_mac_init hw g s =
     (if DuplexMode g = FULLDUPLEX then mac_init_full hw g s else mac_init_half hw g s)"

text \<open>The station address, six bytes in memory and two registers.\<close>

definition synopGMAC_set_mac_addr ::
    "'s mmio32 \<Rightarrow> synopGMACdevice \<Rightarrow> u32 \<Rightarrow> u32 \<Rightarrow> u8 list \<Rightarrow> 's \<Rightarrow> 's res" where
  "synopGMAC_set_mac_addr hw g MacHigh MacLow MacAddr s =
     rbind (rd MacAddr 5) (\<lambda>a5. rbind (rd MacAddr 4) (\<lambda>a4.
     let s = synopGMACWriteReg hw (MacBase g) MacHigh (push_bit 8 (ucast a5) OR ucast a4) s in
     rbind (rd MacAddr 3) (\<lambda>a3. rbind (rd MacAddr 2) (\<lambda>a2.
     rbind (rd MacAddr 1) (\<lambda>a1. rbind (rd MacAddr 0) (\<lambda>a0.
     Inr (synopGMACWriteReg hw (MacBase g) MacLow
       (push_bit 24 (ucast a3) OR push_bit 16 (ucast a2) OR push_bit 8 (ucast a1) OR ucast a0) s)))))))"

definition reg_byte :: "nat \<Rightarrow> u32 \<Rightarrow> u8" where
  "reg_byte n data = ucast (drop_bit n data AND 0xff)"

definition synopGMAC_get_mac_addr ::
    "'s mmio32 \<Rightarrow> synopGMACdevice \<Rightarrow> u32 \<Rightarrow> u32 \<Rightarrow> u8 list \<Rightarrow> 's \<Rightarrow> (u8 list \<times> 's) res" where
  "synopGMAC_get_mac_addr hw g MacHigh MacLow MacAddr s =
     (case synopGMACReadReg hw (MacBase g) MacHigh s of (data, s) \<Rightarrow>
       rbind (wr MacAddr 5 (reg_byte 8 data)) (\<lambda>a. rbind (wr a 4 (reg_byte 0 data)) (\<lambda>a.
       case synopGMACReadReg hw (MacBase g) MacLow s of (data, s) \<Rightarrow>
       rbind (wr a 3 (reg_byte 24 data)) (\<lambda>a. rbind (wr a 2 (reg_byte 16 data)) (\<lambda>a.
       rbind (wr a 1 (reg_byte 8 data)) (\<lambda>a. rbind (wr a 0 (reg_byte 0 data)) (\<lambda>a.
       Inr (a, s))))))))"

section \<open>The programmed registers\<close>

definition conf_area :: "synopGMACdevice \<Rightarrow> u64 set" where
  "conf_area g = {MacBase g + ucast GmacConfig, MacBase g + ucast GmacFrameFilter,
     MacBase g + ucast GmacFlowControl, DmaBase g + ucast DmaControl}"

text \<open>Closed forms: bits always cleared, bits always set, and the bits of the link mode.\<close>

definition config_of :: "u32 \<Rightarrow> u32 \<Rightarrow> u32 \<Rightarrow> u32" where
  "config_of duplex speed c =
     (c AND NOT (GmacWatchdog OR GmacJabber OR GmacJumboFrame OR GmacRxOwn OR GmacLoopback
        OR GmacRetry OR GmacPadCrcStrip OR GmacBackoffLimit OR GmacDeferralCheck
        OR GmacDuplex OR GmacMiiGmii))
     OR (GmacFrameBurst OR GmacTx OR GmacRx
         OR (if duplex = FULLDUPLEX then GmacDuplex else 0)
         OR (if speed = SPEED1000 then 0 else GmacMiiGmii)
         OR (if speed = SPEED100 then GmacFESpeed100 else 0))"

definition filter_of :: "u32 \<Rightarrow> u32 \<Rightarrow> u32" where
  "filter_of duplex f =
     (f AND NOT (GmacFilter OR GmacPassControl OR GmacBroadcast OR GmacSrcAddrFilter
        OR GmacMulticastFilter OR GmacDestAddrFilterInv OR GmacMcastHashFilter
        OR GmacPromiscuousMode OR GmacUcastHashFilter))
     OR (if duplex = FULLDUPLEX then GmacFilter else 0)"

definition flow_of :: "u32 \<Rightarrow> u32 \<Rightarrow> u32" where
  "flow_of duplex f =
     (f AND NOT (GmacUnicastPauseFrame OR GmacRxFlowControl OR GmacTxFlowControl))
     OR (if duplex = FULLDUPLEX then GmacRxFlowControl OR GmacTxFlowControl else 0)"

lemma reg_distinct:
  assumes "DmaBase g = MacBase g + 0x1000"
  shows "(ucast GmacConfig :: u64) \<noteq> ucast GmacFrameFilter"
    "(ucast GmacConfig :: u64) \<noteq> ucast GmacFlowControl"
    "(ucast GmacFrameFilter :: u64) \<noteq> ucast GmacFlowControl"
    "MacBase g + ucast GmacConfig \<noteq> DmaBase g + ucast DmaControl"
    "MacBase g + ucast GmacFrameFilter \<noteq> DmaBase g + ucast DmaControl"
    "MacBase g + ucast GmacFlowControl \<noteq> DmaBase g + ucast DmaControl"
  using assms by (simp_all add: reg_offsets add.assoc)

lemma conf_area_mem [simp]:
  "MacBase g + ucast GmacConfig \<in> conf_area g" "MacBase g + ucast GmacFrameFilter \<in> conf_area g"
  "MacBase g + ucast GmacFlowControl \<in> conf_area g" "DmaBase g + ucast DmaControl \<in> conf_area g"
  by (simp_all add: conf_area_def)

text \<open>The effect of the operations that are not single switches.\<close>

lemma plain_fields:
  assumes "plain_regs hw val (conf_area g)" and "b \<in> conf_area g"
  shows "val (synopGMAC_pad_crc_strip_disable hw g s) b =
      (if b = MacBase g + ucast GmacConfig then val s b AND NOT GmacPadCrcStrip else val s b)"
    "val (synopGMAC_back_off_limit hw g w s) b =
      (if b = MacBase g + ucast GmacConfig then val s b AND NOT GmacBackoffLimit OR w else val s b)"
    "val (synopGMAC_set_pass_control hw g w s) b =
      (if b = MacBase g + ucast GmacFrameFilter then val s b AND NOT GmacPassControl OR w else val s b)"
    "val (select_speed hw g s) b =
      (if b = MacBase g + ucast GmacConfig then
         if Speed g = SPEED1000 then val s b AND NOT GmacMiiGmii
         else if Speed g = SPEED100 then (val s b OR GmacMiiGmii) OR GmacFESpeed100
         else (val s b OR GmacMiiGmii) OR GmacFESpeed10
       else val s b)"
  using assms
  by (simp_all add: synopGMAC_pad_crc_strip_disable_def synopGMAC_back_off_limit_def
      synopGMAC_set_pass_control_def select_speed_def Let_def mac_switches split_beta
      plain_rules [OF assms(1)])

text \<open>
  A sequence of set and cleared bits in normal form: the mask of the bits it determines, and their
  values. On concrete bits the simplifier computes it.
\<close>

definition fields :: "u32 \<Rightarrow> u32 \<Rightarrow> u32 \<Rightarrow> u32" where
  "fields m v x = x AND NOT m OR v"

lemma fields_start: "x = fields 0 0 x"
  by (simp add: fields_def)

lemma fields_set: "fields m v x OR b = fields (m OR b) (v OR b) x"
  unfolding fields_def by (rule bit_word_eqI) (auto simp: bit_simps)

lemma fields_clear: "fields m v x AND NOT b = fields (m OR b) (v AND NOT b) x"
  unfolding fields_def by (rule bit_word_eqI) (auto simp: bit_simps)

lemma fields_spec: "x AND NOT m OR v = fields (m OR v) v x"
  unfolding fields_def by (rule bit_word_eqI) (auto simp: bit_simps)

lemma fields_again: "fields m v (fields 0 0 x) = fields m v x"
  by (simp add: fields_def)

lemmas fields_steps = fields_set fields_clear fields_again

lemma config_fields:
  "config_of duplex speed c = fields
     (GmacWatchdog OR GmacJabber OR GmacJumboFrame OR GmacRxOwn OR GmacLoopback
        OR GmacRetry OR GmacPadCrcStrip OR GmacBackoffLimit OR GmacDeferralCheck
        OR GmacDuplex OR GmacMiiGmii OR
      (GmacFrameBurst OR GmacTx OR GmacRx
         OR (if duplex = FULLDUPLEX then GmacDuplex else 0)
         OR (if speed = SPEED1000 then 0 else GmacMiiGmii)
         OR (if speed = SPEED100 then GmacFESpeed100 else 0)))
     (GmacFrameBurst OR GmacTx OR GmacRx
         OR (if duplex = FULLDUPLEX then GmacDuplex else 0)
         OR (if speed = SPEED1000 then 0 else GmacMiiGmii)
         OR (if speed = SPEED100 then GmacFESpeed100 else 0)) c"
  by (simp only: config_of_def fields_spec or.assoc)

lemma filter_fields:
  "filter_of duplex f = fields
     (GmacFilter OR GmacPassControl OR GmacBroadcast OR GmacSrcAddrFilter
        OR GmacMulticastFilter OR GmacDestAddrFilterInv OR GmacMcastHashFilter
        OR GmacPromiscuousMode OR GmacUcastHashFilter OR (if duplex = FULLDUPLEX then GmacFilter else 0))
     (if duplex = FULLDUPLEX then GmacFilter else 0) f"
  by (simp only: filter_of_def fields_spec or.assoc)

lemma flow_fields:
  "flow_of duplex f = fields
     (GmacUnicastPauseFrame OR GmacRxFlowControl OR GmacTxFlowControl
        OR (if duplex = FULLDUPLEX then GmacRxFlowControl OR GmacTxFlowControl else 0))
     (if duplex = FULLDUPLEX then GmacRxFlowControl OR GmacTxFlowControl else 0) f"
  by (simp only: flow_of_def fields_spec or.assoc)

text \<open>Each mode of \<open>synopGMAC_mac_init\<close> runs through its switches once.\<close>

lemma mac_init_registers:
  assumes "plain_regs hw val (conf_area g)" and "DmaBase g = MacBase g + 0x1000"
  shows "val (synopGMAC_mac_init hw g s) (MacBase g + ucast GmacConfig) =
      config_of (DuplexMode g) (Speed g) (val s (MacBase g + ucast GmacConfig))"
    "val (synopGMAC_mac_init hw g s) (MacBase g + ucast GmacFrameFilter) =
      filter_of (DuplexMode g) (val s (MacBase g + ucast GmacFrameFilter))"
    "val (synopGMAC_mac_init hw g s) (MacBase g + ucast GmacFlowControl) =
      flow_of (DuplexMode g) (val s (MacBase g + ucast GmacFlowControl))"
    "val (synopGMAC_mac_init hw g s) (DmaBase g + ucast DmaControl) =
      val s (DmaBase g + ucast DmaControl) OR DmaStoreAndForward OR DmaFwdErrorFrames"
proof -
  note d = reg_distinct [OF assms(2)]
  note rules = Let_def mac_switches plain_rules [OF assms(1)] plain_fields [OF assms(1)]
    d d [symmetric] synopGMAC_mac_init_def mac_init_full_def mac_init_half_def
  note bits = mac_bits link_modes
  define cConfig where "cConfig = val s (MacBase g + ucast GmacConfig)"
  have cConfig: "val s (MacBase g + ucast GmacConfig) = fields 0 0 cConfig" by (simp add: cConfig_def fields_def)
  show "val (synopGMAC_mac_init hw g s) (MacBase g + ucast GmacConfig) =
      config_of (DuplexMode g) (Speed g) (val s (MacBase g + ucast GmacConfig))"
    by (simp add: rules cConfig, (simp add: fields_steps config_fields)?, (simp add: bits)?)
  define cFrameFilter where "cFrameFilter = val s (MacBase g + ucast GmacFrameFilter)"
  have cFrameFilter: "val s (MacBase g + ucast GmacFrameFilter) = fields 0 0 cFrameFilter" by (simp add: cFrameFilter_def fields_def)
  show "val (synopGMAC_mac_init hw g s) (MacBase g + ucast GmacFrameFilter) =
      filter_of (DuplexMode g) (val s (MacBase g + ucast GmacFrameFilter))"
    by (simp add: rules cFrameFilter, (simp add: fields_steps filter_fields)?, (simp add: bits)?)
  define cFlowControl where "cFlowControl = val s (MacBase g + ucast GmacFlowControl)"
  have cFlowControl: "val s (MacBase g + ucast GmacFlowControl) = fields 0 0 cFlowControl" by (simp add: cFlowControl_def fields_def)
  show "val (synopGMAC_mac_init hw g s) (MacBase g + ucast GmacFlowControl) =
      flow_of (DuplexMode g) (val s (MacBase g + ucast GmacFlowControl))"
    by (simp add: rules cFlowControl, (simp add: fields_steps flow_fields)?, (simp add: bits)?)
  show "val (synopGMAC_mac_init hw g s) (DmaBase g + ucast DmaControl) =
      val s (DmaBase g + ucast DmaControl) OR DmaStoreAndForward OR DmaFwdErrorFrames"
    by (simp add: rules or.assoc)
qed

section \<open>The initial values of the header\<close>

text \<open>
  \<open>synopGMAC_Dev.h\<close> lists the intended initial values as sums of named settings, of which those
  that are not 0 remain here. The listed bits are those the settings are about.
\<close>

definition GmacConfigInitFdx1000 :: u32 where
  "GmacConfigInitFdx1000 = GmacFrameBurst OR GmacDuplex OR GmacTx OR GmacRx"

definition GmacConfigInitFdx110 :: u32 where
  "GmacConfigInitFdx110 = GmacFrameBurst OR GmacMiiGmii OR GmacDuplex OR GmacTx OR GmacRx"

definition GmacConfigInitHdx1000 :: u32 where
  "GmacConfigInitHdx1000 = GmacFrameBurst OR GmacRxOwn OR GmacTx OR GmacRx"

definition GmacConfigInitHdx110 :: u32 where
  "GmacConfigInitHdx110 = GmacFrameBurst OR GmacMiiGmii OR GmacRxOwn OR GmacTx OR GmacRx"

definition GmacFrameFilterInit :: u32 where
  "GmacFrameFilterInit = 0"

definition GmacFlowControlInitFdx :: u32 where
  "GmacFlowControlInitFdx = GmacRxFlowControl OR GmacTxFlowControl"

definition config_listed :: u32 where
  "config_listed = GmacWatchdog OR GmacJabber OR GmacFrameBurst OR GmacJumboFrame OR GmacMiiGmii
     OR GmacRxOwn OR GmacLoopback OR GmacDuplex OR GmacRetry OR GmacPadCrcStrip OR GmacBackoffLimit
     OR GmacDeferralCheck OR GmacTx OR GmacRx"

definition filter_listed :: u32 where
  "filter_listed = GmacFilter OR GmacPassControl OR GmacBroadcast OR GmacSrcAddrFilter
     OR GmacMulticastFilter OR GmacDestAddrFilterInv OR GmacMcastHashFilter
     OR GmacPromiscuousMode OR GmacUcastHashFilter"

definition flow_listed :: u32 where
  "flow_listed = GmacUnicastPauseFrame OR GmacRxFlowControl OR GmacTxFlowControl"

lemma fields_mask:
  assumes "k AND NOT m = 0"
  shows "fields m v x AND k = v AND k"
proof (rule bit_word_eqI)
  fix n assume "n < LENGTH(32)"
  have "bit k n \<Longrightarrow> bit m n" using arg_cong [OF assms, of "\<lambda>w. bit w n"] \<open>n < LENGTH(32)\<close>
    by (simp add: bit_simps)
  then show "bit (fields m v x AND k) n = bit (v AND k) n"
    by (auto simp: fields_def bit_simps)
qed

text \<open>
  In full duplex the configuration and flow control registers are programmed as the header says,
  and the frame filter is switched off where the header keeps it on; in half duplex the reception
  of own frames is enabled where the header disables it.
\<close>

lemma config_listed_values:
  "config_of FULLDUPLEX SPEED1000 c AND config_listed = GmacConfigInitFdx1000"
  "speed \<noteq> SPEED1000 \<Longrightarrow> config_of FULLDUPLEX speed c AND config_listed = GmacConfigInitFdx110"
  "config_of HALFDUPLEX SPEED1000 c AND config_listed = GmacConfigInitHdx1000 AND NOT GmacRxOwn"
  "speed \<noteq> SPEED1000 \<Longrightarrow> config_of HALFDUPLEX speed c AND config_listed = GmacConfigInitHdx110 AND NOT GmacRxOwn"
  "filter_of FULLDUPLEX f AND filter_listed = GmacFrameFilterInit OR GmacFilter"
  "filter_of HALFDUPLEX f AND filter_listed = GmacFrameFilterInit"
  "flow_of FULLDUPLEX f AND flow_listed = GmacFlowControlInitFdx"
  "flow_of HALFDUPLEX f AND flow_listed = 0"
  by (simp_all only: config_fields filter_fields flow_fields, (subst fields_mask;
      simp add: config_listed_def filter_listed_def flow_listed_def mac_bits link_modes
        GmacConfigInitFdx1000_def GmacConfigInitFdx110_def GmacConfigInitHdx1000_def
        GmacConfigInitHdx110_def GmacFrameFilterInit_def GmacFlowControlInitFdx_def)+)

section \<open>Properties\<close>

text \<open>C24. The MAC initialisation leaves the configuration, frame filter, flow control and DMA
  operation registers in a closed form of their old values, the duplex mode and the speed; on the
  bits that the initial values of the header list it agrees with them, except that it switches the
  frame filter off in full duplex and does not disable the reception of own frames in half
  duplex.\<close>

theorem mac_init_programs:
  assumes "plain_regs hw val (conf_area g)" and "DmaBase g = MacBase g + 0x1000"
    and "t = synopGMAC_mac_init hw g s"
  shows "val t (MacBase g + ucast GmacConfig) =
      config_of (DuplexMode g) (Speed g) (val s (MacBase g + ucast GmacConfig)) \<and>
    val t (MacBase g + ucast GmacFrameFilter) =
      filter_of (DuplexMode g) (val s (MacBase g + ucast GmacFrameFilter)) \<and>
    val t (MacBase g + ucast GmacFlowControl) =
      flow_of (DuplexMode g) (val s (MacBase g + ucast GmacFlowControl)) \<and>
    val t (DmaBase g + ucast DmaControl) =
      val s (DmaBase g + ucast DmaControl) OR DmaStoreAndForward OR DmaFwdErrorFrames \<and>
    (DuplexMode g = FULLDUPLEX \<longrightarrow>
      val t (MacBase g + ucast GmacConfig) AND config_listed =
        (if Speed g = SPEED1000 then GmacConfigInitFdx1000 else GmacConfigInitFdx110) \<and>
      val t (MacBase g + ucast GmacFrameFilter) AND filter_listed = GmacFrameFilterInit OR GmacFilter \<and>
      val t (MacBase g + ucast GmacFlowControl) AND flow_listed = GmacFlowControlInitFdx) \<and>
    (DuplexMode g = HALFDUPLEX \<longrightarrow>
      val t (MacBase g + ucast GmacConfig) AND config_listed =
        (if Speed g = SPEED1000 then GmacConfigInitHdx1000 else GmacConfigInitHdx110) AND NOT GmacRxOwn \<and>
      val t (MacBase g + ucast GmacFrameFilter) AND filter_listed = GmacFrameFilterInit \<and>
      val t (MacBase g + ucast GmacFlowControl) AND flow_listed = 0)"
  by (simp add: assms(3) mac_init_registers [OF assms(1,2)] config_listed_values)

definition example_device :: synopGMACdevice where
  "example_device = \<lparr>MacBase = 0x40040000, DmaBase = 0x40041000, PhyBase = 1, Version = 0,
     TxDescDma = 0, RxDescDma = 0, TxDesc = 0, RxDesc = 0, BusyTxDesc = 0, BusyRxDesc = 0,
     RxDescCount = 0, TxDescCount = 0, TxBusy = 0, TxNext = 0, RxBusy = 0, RxNext = 0,
     TxBusyDesc = 0, TxNextDesc = 0, RxBusyDesc = 0, RxNextDesc = 0, ClockDivMdc = 0,
     LinkState0 = 0, LinkState = 0, DuplexMode = 2, Speed = 3, LoopBackMode = 0\<rparr>"

lemma example_device_simps [simp]:
  "MacBase example_device = 0x40040000" "DmaBase example_device = 0x40041000"
  "DuplexMode example_device = FULLDUPLEX" "Speed example_device = SPEED1000"
  by (simp_all add: example_device_def link_modes)

theorem mac_init_programs_witness:
  "synopGMAC_mac_init reg_mem example_device (\<lambda>_. 0xFFFFFFFF) (0x40040000 + ucast GmacConfig)
     AND config_listed = GmacConfigInitFdx1000"
  using mac_init_programs [OF reg_mem_plain _ refl, of example_device "\<lambda>_. 0xFFFFFFFF"]
  by (simp add: config_listed_values)

lemma fields_fields: "fields m' v' (fields m v x) = fields (m OR m') (v AND NOT m' OR v') x"
  unfolding fields_def by (rule bit_word_eqI) (auto simp: bit_simps)

lemma fields_other: "m AND k = 0 \<Longrightarrow> v AND k = 0 \<Longrightarrow> fields m v x AND k = x AND k"
proof (rule bit_word_eqI)
  fix n assume h: "m AND k = 0" "v AND k = 0" "n < LENGTH(32)"
  have "\<not> (bit m n \<and> bit k n)" "\<not> (bit v n \<and> bit k n)"
    using arg_cong [OF h(1), of "\<lambda>w. bit w n"] arg_cong [OF h(2), of "\<lambda>w. bit w n"]
    by (auto simp: bit_simps)
  then show "bit (fields m v x AND k) n = bit (x AND k) n"
    using h(3) by (auto simp: fields_def bit_simps)
qed

lemma config_of_speed:
  "config_of duplex SPEED10 (config_of duplex SPEED100 c) = config_of duplex SPEED100 c"
  "config_of duplex SPEED100 c AND GmacFESpeed100 = GmacFESpeed100"
  "config_of duplex SPEED10 c AND GmacFESpeed100 = c AND GmacFESpeed100"
  unfolding config_fields
    apply (simp add: fields_fields mac_bits link_modes)
   apply (subst fields_mask; simp add: mac_bits link_modes)
  apply (rule fields_other; simp add: mac_bits link_modes)
  done

text \<open>The speed bit of the configuration register is only ever set: after a link at 100 Mb/s
  has been followed by one at 10 Mb/s the register still selects 100 Mb/s, and is the same as
  before, although the same initialisation of a fresh register selects 10 Mb/s.\<close>

theorem mac_init_keeps_fast_ethernet:
  assumes "plain_regs hw val (conf_area g)" and "DmaBase g = MacBase g + 0x1000"
    and "t = synopGMAC_mac_init hw (g\<lparr>Speed := SPEED100\<rparr>) s"
    and "t' = synopGMAC_mac_init hw (g\<lparr>Speed := SPEED10\<rparr>) t"
    and "r = MacBase g + ucast GmacConfig"
  shows "val t' r = val t r \<and> val t' r AND GmacFESpeed100 = GmacFESpeed100 \<and>
    (val s r AND GmacFESpeed100 = 0 \<longrightarrow>
      val (synopGMAC_mac_init hw (g\<lparr>Speed := SPEED10\<rparr>) s) r AND GmacFESpeed100 = 0)"
proof -
  have A: "conf_area (g\<lparr>Speed := v\<rparr>) = conf_area g" for v by (simp add: conf_area_def)
  have R: "val (synopGMAC_mac_init hw (g\<lparr>Speed := v\<rparr>) u) r = config_of (DuplexMode g) v (val u r)" for v u
    using mac_init_registers(1) [of hw val "g\<lparr>Speed := v\<rparr>" u] assms(1,2,5) by (simp add: A)
  show ?thesis by (simp add: assms(3,4) R config_of_speed)
qed

theorem mac_init_keeps_fast_ethernet_witness:
  "synopGMAC_mac_init reg_mem (example_device\<lparr>Speed := SPEED10\<rparr>)
     (synopGMAC_mac_init reg_mem (example_device\<lparr>Speed := SPEED100\<rparr>) (\<lambda>_. 0))
     (0x40040000 + ucast GmacConfig) AND GmacFESpeed100 = GmacFESpeed100"
  using mac_init_keeps_fast_ethernet [OF reg_mem_plain _ refl refl refl, of example_device "\<lambda>_. 0"]
  by force

lemma reg_byte_mask: "reg_byte n x = ucast (drop_bit n x)"
proof -
  have m: "(0xff :: u32) = mask 8" by (simp add: mask_eq_exp_minus_1)
  show ?thesis unfolding reg_byte_def m by (intro bit_word_eqI) (simp add: bit_simps)
qed

text \<open>Setting the station address and getting it back gives the same six bytes, in every pair
  of registers that hold what is written to them; the first byte on the wire is the lowest byte of
  the low register.\<close>

theorem mac_addr_roundtrip:
  assumes "plain_regs hw val {MacBase g + ucast hi, MacBase g + ucast lo}"
    and "ucast hi \<noteq> (ucast lo :: u64)" and "length a = 6" and "length buf = 6"
  shows "\<exists>t u. synopGMAC_set_mac_addr hw g hi lo a s = Inr t \<and>
    synopGMAC_get_mac_addr hw g hi lo buf t = Inr (a, u) \<and>
    ucast (val t (MacBase g + ucast lo)) = a ! 0"
proof -
  obtain a0 a1 a2 a3 a4 a5 where a: "a = [a0, a1, a2, a3, a4, a5]"
    using assms(3) by (auto simp: numeral_eq_Suc length_Suc_conv)
  obtain b0 b1 b2 b3 b4 b5 where b: "buf = [b0, b1, b2, b3, b4, b5]"
    using assms(4) by (auto simp: numeral_eq_Suc length_Suc_conv)
  define h :: u32 where "h = push_bit 8 (ucast a5) OR ucast a4"
  define l :: u32 where
    "l = push_bit 24 (ucast a3) OR push_bit 16 (ucast a2) OR push_bit 8 (ucast a1) OR ucast a0"
  define t where "t = synopGMACWriteReg hw (MacBase g) lo l (synopGMACWriteReg hw (MacBase g) hi h s)"
  have set: "synopGMAC_set_mac_addr hw g hi lo a s = Inr t"
    by (simp add: synopGMAC_set_mac_addr_def a t_def h_def l_def Let_def)
  have v: "val t (MacBase g + ucast hi) = h" "val t (MacBase g + ucast lo) = l"
    using assms(2) by (simp_all add: t_def plain_write [OF assms(1)])
  have bytes: "reg_byte 8 h = a5" "reg_byte 0 h = a4" "reg_byte 24 l = a3" "reg_byte 16 l = a2"
    "reg_byte 8 l = a1" "reg_byte 0 l = a0" "ucast l = a0"
    unfolding reg_byte_mask h_def l_def
    by (rule bit_word_eqI, auto simp: bit_simps dest: bit_imp_le_length)+
  show ?thesis using set unfolding a
    by (simp add: synopGMAC_get_mac_addr_def b split_beta plain_read [OF assms(1)] v bytes)
qed

theorem mac_addr_roundtrip_witness:
  "\<exists>t u. synopGMAC_set_mac_addr reg_mem example_device GmacAddr0High GmacAddr0Low
      [0x00, 0x55, 0x7B, 0xB5, 0x7D, 0xF7] (\<lambda>_. 0) = Inr t \<and>
    synopGMAC_get_mac_addr reg_mem example_device GmacAddr0High GmacAddr0Low (replicate 6 0) t =
      Inr ([0x00, 0x55, 0x7B, 0xB5, 0x7D, 0xF7], u)"
  using mac_addr_roundtrip [OF reg_mem_plain, of GmacAddr0High GmacAddr0Low
      "[0x00, 0x55, 0x7B, 0xB5, 0x7D, 0xF7]" "replicate 6 0" example_device "\<lambda>_. 0"]
  by (auto simp: reg_offsets)

end
