(* ===== verification/Gmac_Phy.thy ===== *)
theory Gmac_Phy
  imports Gmac_Mac
begin

unbundle bit_operations_syntax

text \<open>
  The management interface to the PHY chip (\<open>synopGMAC_read_phy_reg\<close>, \<open>synopGMAC_write_phy_reg\<close>
  and \<open>synopGMAC_attach\<close> in \<open>synopGMAC_Dev.c\<close>, \<open>init_phy\<close>, \<open>mdio_read\<close> and \<open>mdio_write\<close> in
  \<open>synopGMAC.c\<close>). An access starts a transfer and reads a busy bit at most 10000 times; it always
  comes back, with an error and without data when the bit stays set, which the callers do not
  look at. An uninitialised local is \<open>None\<close>, and a branch on it the fault \<open>Uninit\<close>. The delay
  between two reads is the device's own business: its state changes with every read.
\<close>

section \<open>The management interface\<close>

definition GmacGmiiAddr :: u32 where "GmacGmiiAddr = 0x0010"
definition GmacGmiiData :: u32 where "GmacGmiiData = 0x0014"
definition GmiiDevMask :: u32 where "GmiiDevMask = 0x0000F800"
definition GmiiRegMask :: u32 where "GmiiRegMask = 0x000007C0"
definition GmiiCsrClkMask :: u32 where "GmiiCsrClkMask = 0x0000001C"
definition GmiiCsrClk3 :: u32 where "GmiiCsrClk3 = 0x0000000C"
definition GmiiWrite :: u32 where "GmiiWrite = 0x00000002"
definition GmiiBusy :: u32 where "GmiiBusy = 0x00000001"
abbreviation (input) GmiiDevShift :: nat where "GmiiDevShift \<equiv> 11"
abbreviation (input) GmiiRegShift :: nat where "GmiiRegShift \<equiv> 6"
definition DEFAULT_LOOP_VARIABLE :: nat where "DEFAULT_LOOP_VARIABLE = 10000"

lemmas gmii_bits = GmacGmiiAddr_def GmacGmiiData_def GmiiDevMask_def GmiiRegMask_def
  GmiiCsrClkMask_def GmiiCsrClk3_def GmiiWrite_def GmiiBusy_def

definition synopGMAC_set_mdc_clk_div :: "'s mmio32 \<Rightarrow> synopGMACdevice \<Rightarrow> u32 \<Rightarrow> 's \<Rightarrow> 's" where
  "synopGMAC_set_mdc_clk_div hw g clk_div_val s =
     (case synopGMACReadReg hw (MacBase g) GmacGmiiAddr s of
        (orig_data, s) \<Rightarrow> synopGMACWriteReg hw (MacBase g) GmacGmiiAddr
          (orig_data AND NOT GmiiCsrClkMask OR clk_div_val) s)"

definition synopGMAC_get_mdc_clk_div :: "'s mmio32 \<Rightarrow> synopGMACdevice \<Rightarrow> 's \<Rightarrow> u32 \<times> 's" where
  "synopGMAC_get_mdc_clk_div hw g s =
     (case synopGMACReadReg hw (MacBase g) GmacGmiiAddr s of
        (data, s) \<Rightarrow> (data AND GmiiCsrClkMask, s))"

text \<open>
  \<open>for (i = ..; i < DEFAULT_LOOP_VARIABLE; i++) if (!(read & bit)) break;\<close>: the value of the loop
  variable afterwards, and the device.
\<close>

function busy_wait :: "'s mmio32 \<Rightarrow> u64 \<Rightarrow> u32 \<Rightarrow> u32 \<Rightarrow> nat \<Rightarrow> 's \<Rightarrow> nat \<times> 's" where
  "busy_wait hw base off flag i s =
     (if i < DEFAULT_LOOP_VARIABLE then
        (case synopGMACReadReg hw base off s of
           (data, s) \<Rightarrow> if data AND flag = 0 then (i, s) else busy_wait hw base off flag (Suc i) s)
      else (i, s))"
  by pat_completeness auto

termination busy_wait
  by (relation "measure (\<lambda>(_, _, _, _, i, _). DEFAULT_LOOP_VARIABLE - i)") auto

declare busy_wait.simps [simp del]

definition gmii_addr :: "u32 \<Rightarrow> u32 \<Rightarrow> u32" where
  "gmii_addr phy reg =
     (push_bit GmiiDevShift phy AND GmiiDevMask) OR (push_bit GmiiRegShift reg AND GmiiRegMask)"

definition synopGMAC_read_phy_reg ::
    "'s mmio32 \<Rightarrow> u64 \<Rightarrow> u32 \<Rightarrow> u32 \<Rightarrow> u16 option \<Rightarrow> 's \<Rightarrow> int \<times> u16 option \<times> 's" where
  "synopGMAC_read_phy_reg hw base phy reg data s =
     (let addr = gmii_addr phy reg OR GmiiCsrClk3 OR GmiiBusy;
          s = synopGMACWriteReg hw base GmacGmiiAddr addr s;
          (loop_variable, s) = busy_wait hw base GmacGmiiAddr GmiiBusy 0 s
      in if loop_variable < DEFAULT_LOOP_VARIABLE then
           (case synopGMACReadReg hw base GmacGmiiData s of (v, s) \<Rightarrow> (0, Some (ucast (v AND 0xFFFF)), s))
         else (-2, data, s))"

definition synopGMAC_write_phy_reg ::
    "'s mmio32 \<Rightarrow> u64 \<Rightarrow> u32 \<Rightarrow> u32 \<Rightarrow> u16 \<Rightarrow> 's \<Rightarrow> int \<times> 's" where
  "synopGMAC_write_phy_reg hw base phy reg data s =
     (let s = synopGMACWriteReg hw base GmacGmiiData (ucast data) s;
          addr = gmii_addr phy reg OR GmiiWrite OR GmiiCsrClk3 OR GmiiBusy;
          s = synopGMACWriteReg hw base GmacGmiiAddr addr s;
          (loop_variable, s) = busy_wait hw base GmacGmiiAddr GmiiBusy 0 s
      in (if loop_variable < DEFAULT_LOOP_VARIABLE then 0 else -2, s))"

text \<open>Use of a local that may be uninitialised.\<close>

definition got :: "u16 option \<Rightarrow> u16 res" where
  "got data = (case data of None \<Rightarrow> Inl Uninit | Some v \<Rightarrow> Inr v)"

lemma got_simps [simp, res_simps]: "got None = Inl Uninit" "got (Some v) = Inr v"
  by (simp_all add: got_def)

definition synopGMAC_phy_loopback ::
    "'s mmio32 \<Rightarrow> synopGMACdevice \<Rightarrow> bool \<Rightarrow> 's \<Rightarrow> (int \<times> 's) res" where
  "synopGMAC_phy_loopback hw g loopback s =
     (case synopGMAC_read_phy_reg hw (MacBase g) (ucast (PhyBase g)) 0 None s of
        (_, temp, s) \<Rightarrow> rbind (got temp) (\<lambda>temp.
          Inr (synopGMAC_write_phy_reg hw (MacBase g) (ucast (PhyBase g)) 0
                 (if loopback then temp OR 0x4000 else temp) s)))"

section \<open>Attaching the device\<close>

text \<open>The scan of the 32 PHY addresses: the address it stops at.\<close>

definition phy_present :: "u16 \<Rightarrow> bool" where
  "phy_present data \<longleftrightarrow> data \<noteq> 0 \<and> data \<noteq> 0xffff"

fun phy_scan :: "'s mmio32 \<Rightarrow> u64 \<Rightarrow> nat \<Rightarrow> u32 \<Rightarrow> u16 option \<Rightarrow> 's \<Rightarrow> (u32 \<times> 's) res" where
  "phy_scan hw base 0 i data s = Inr (i, s)"
| "phy_scan hw base (Suc n) i data s =
     (case synopGMAC_read_phy_reg hw base i 2 data s of (_, data, s) \<Rightarrow>
       rbind (got data) (\<lambda>v.
       if phy_present v then Inr (i, s)
       else case synopGMAC_read_phy_reg hw base i 3 data s of (_, data, s) \<Rightarrow>
         rbind (got data) (\<lambda>v.
         if phy_present v then Inr (i, s)
         else phy_scan hw base n ((i + 1) AND 0x1f) data s)))"

definition zero_device :: synopGMACdevice where
  "zero_device = \<lparr>MacBase = 0, DmaBase = 0, PhyBase = 0, Version = 0,
     TxDescDma = 0, RxDescDma = 0, TxDesc = 0, RxDesc = 0, BusyTxDesc = 0, BusyRxDesc = 0,
     RxDescCount = 0, TxDescCount = 0, TxBusy = 0, TxNext = 0, RxBusy = 0, RxNext = 0,
     TxBusyDesc = 0, TxNextDesc = 0, RxBusyDesc = 0, RxNextDesc = 0, ClockDivMdc = 0,
     LinkState0 = 0, LinkState = 0, DuplexMode = 0, Speed = 0, LoopBackMode = 0\<rparr>"

definition synopGMAC_attach ::
    "'s mmio32 \<Rightarrow> u64 \<Rightarrow> u64 \<Rightarrow> u64 \<Rightarrow> u8 list \<Rightarrow> 's \<Rightarrow> (synopGMACdevice \<times> 's) res" where
  "synopGMAC_attach hw macBase dmaBase phyBase mac_addr s =
     (let g = zero_device\<lparr>MacBase := macBase, DmaBase := dmaBase, PhyBase := phyBase\<rparr> in
      rbind (phy_scan hw macBase 32 (ucast phyBase) None s) (\<lambda>(i, s).
      let g = g\<lparr>PhyBase := scast i\<rparr> in
      rbind (synopGMAC_set_mac_addr hw g GmacAddr0High GmacAddr0Low mac_addr s) (\<lambda>s.
      Inr (g, s))))"

section \<open>Users of the interface\<close>

text \<open>\<open>mdio_read\<close> returns its local whether or not it was stored to.\<close>

definition mdio_read :: "'s mmio32 \<Rightarrow> synopGMACdevice \<Rightarrow> u32 \<Rightarrow> u32 \<Rightarrow> 's \<Rightarrow> (u32 \<times> 's) res" where
  "mdio_read hw g addr reg s =
     (case synopGMAC_read_phy_reg hw (MacBase g) addr reg None s of
        (_, data, s) \<Rightarrow> rbind (got data) (\<lambda>v. Inr (ucast v, s)))"

definition mdio_write :: "'s mmio32 \<Rightarrow> synopGMACdevice \<Rightarrow> u32 \<Rightarrow> u32 \<Rightarrow> u32 \<Rightarrow> 's \<Rightarrow> 's" where
  "mdio_write hw g addr reg data s =
     snd (synopGMAC_write_phy_reg hw (MacBase g) addr reg (ucast data) s)"

definition rtl88e1111_config_init :: "'s mmio32 \<Rightarrow> synopGMACdevice \<Rightarrow> 's \<Rightarrow> (int \<times> 's) res" where
  "rtl88e1111_config_init hw g s =
     (let base = MacBase g; phy = ucast (PhyBase g) in
      case synopGMAC_read_phy_reg hw base phy 0x14 None s of (_, data, s) \<Rightarrow>
      rbind (got data) (\<lambda>v. let v = v OR 0x82; (_, s) = synopGMAC_write_phy_reg hw base phy 0x14 v s in
      case synopGMAC_read_phy_reg hw base phy 0 (Some v) s of (_, data, s) \<Rightarrow>
      rbind (got data) (\<lambda>v.
      let v = v OR 0x8000; (err, s) = synopGMAC_write_phy_reg hw base phy 0 v s in
      Inr (if err < 0 then err else 0, s))))"

definition init_phy :: "'s mmio32 \<Rightarrow> synopGMACdevice \<Rightarrow> 's \<Rightarrow> (int \<times> 's) res" where
  "init_phy hw g s =
     (let base = MacBase g; phy = ucast (PhyBase g) in
      case synopGMAC_read_phy_reg hw base phy 2 None s of (_, data, s) \<Rightarrow>
      rbind (got data) (\<lambda>v.
      if v = 0x141 then rbind (rtl88e1111_config_init hw g s) (\<lambda>(_, s). Inr (0, s))
      else if v = 0x8201 then
        let (_, s) = synopGMAC_write_phy_reg hw base phy 0x19 0x400 s;
            (_, _, s) = synopGMAC_read_phy_reg hw base phy 0x19 (Some 0x400) s;
            (_, s) = synopGMAC_write_phy_reg hw base phy 0 0x3100 s
        in Inr (0, s)
      else if v = 0x0180 \<or> v = 0x0181 then
        case synopGMAC_read_phy_reg hw base phy 0x10 data s of (_, data, s) \<Rightarrow>
        rbind (got data) (\<lambda>v.
        let v = v OR push_bit 8 1; (_, s) = synopGMAC_write_phy_reg hw base phy 0x10 v s;
            (_, _, s) = synopGMAC_read_phy_reg hw base phy 0x10 (Some v) s;
            (_, s) = synopGMAC_write_phy_reg hw base phy 0 0x3100 s
        in Inr (0, s))
      else Inr (0, s)))"

section \<open>The wait\<close>

text \<open>The device after \<open>k\<close> reads of a register, and whether the next read shows the flag.\<close>

definition polled :: "'s mmio32 \<Rightarrow> u64 \<Rightarrow> u32 \<Rightarrow> nat \<Rightarrow> 's \<Rightarrow> 's" where
  "polled hw base off k s = ((\<lambda>s. snd (synopGMACReadReg hw base off s)) ^^ k) s"

definition busy_at :: "'s mmio32 \<Rightarrow> u64 \<Rightarrow> u32 \<Rightarrow> u32 \<Rightarrow> 's \<Rightarrow> nat \<Rightarrow> bool" where
  "busy_at hw base off flag s k \<longleftrightarrow>
     fst (synopGMACReadReg hw base off (polled hw base off k s)) AND flag \<noteq> 0"

lemma polled_simps:
  "polled hw base off 0 s = s"
  "polled hw base off (Suc k) s = polled hw base off k (snd (synopGMACReadReg hw base off s))"
  by (simp_all add: polled_def funpow_Suc_right del: funpow.simps(2))

lemma busy_at_simps:
  "busy_at hw base off flag s 0 \<longleftrightarrow> fst (synopGMACReadReg hw base off s) AND flag \<noteq> 0"
  "busy_at hw base off flag s (Suc k) \<longleftrightarrow>
     busy_at hw base off flag (snd (synopGMACReadReg hw base off s)) k"
  by (simp_all add: busy_at_def polled_simps)

lemma busy_wait_ready:
  assumes "\<forall>j<k. busy_at hw base off flag s j" and "\<not> busy_at hw base off flag s k"
    and "i + k < DEFAULT_LOOP_VARIABLE"
  shows "busy_wait hw base off flag i s = (i + k, polled hw base off (Suc k) s)"
  using assms
proof (induction k arbitrary: i s)
  case 0
  then show ?case
    by (subst busy_wait.simps) (simp add: busy_at_simps polled_simps split_beta)
next
  case (Suc k)
  let ?s = "snd (synopGMACReadReg hw base off s)"
  have "busy_at hw base off flag s 0" using Suc.prems(1) by blast
  moreover have "\<forall>j<k. busy_at hw base off flag ?s j"
    using Suc.prems(1) by (auto simp: busy_at_simps(2) [symmetric])
  ultimately have "busy_wait hw base off flag i s = busy_wait hw base off flag (Suc i) ?s"
    using Suc.prems(3) by (subst busy_wait.simps) (simp add: busy_at_simps split_beta)
  also have "\<dots> = (Suc i + k, polled hw base off (Suc k) ?s)"
    using Suc.prems \<open>\<forall>j<k. busy_at hw base off flag ?s j\<close>
    by (intro Suc.IH) (simp_all add: busy_at_simps)
  finally show ?case by (simp add: polled_simps)
qed

lemma busy_wait_stuck:
  assumes "\<forall>j<k. busy_at hw base off flag s j" and "i + k = DEFAULT_LOOP_VARIABLE"
  shows "busy_wait hw base off flag i s = (DEFAULT_LOOP_VARIABLE, polled hw base off k s)"
  using assms
proof (induction k arbitrary: i s)
  case 0
  then show ?case by (subst busy_wait.simps) (simp add: polled_simps)
next
  case (Suc k)
  let ?s = "snd (synopGMACReadReg hw base off s)"
  have "busy_at hw base off flag s 0" using Suc.prems(1) by blast
  then have "busy_wait hw base off flag i s = busy_wait hw base off flag (Suc i) ?s"
    using Suc.prems(2) by (subst busy_wait.simps) (simp add: busy_at_simps split_beta)
  also have "\<dots> = (DEFAULT_LOOP_VARIABLE, polled hw base off k ?s)"
    using Suc.prems by (intro Suc.IH) (auto simp: busy_at_simps(2) [symmetric])
  finally show ?case by (simp add: polled_simps)
qed

text \<open>Either the flag clears within the bound, or all reads show it.\<close>

lemma wait_cases:
  obtains (ready) k where "k < DEFAULT_LOOP_VARIABLE" "\<forall>j<k. busy_at hw base off flag s j"
      "\<not> busy_at hw base off flag s k"
  | (stuck) "\<forall>k<DEFAULT_LOOP_VARIABLE. busy_at hw base off flag s k"
proof (cases "\<forall>k<DEFAULT_LOOP_VARIABLE. busy_at hw base off flag s k")
  case False
  then obtain k where k: "k < DEFAULT_LOOP_VARIABLE \<and> \<not> busy_at hw base off flag s k" by blast
  define m where "m = (LEAST k. k < DEFAULT_LOOP_VARIABLE \<and> \<not> busy_at hw base off flag s k)"
  have m: "m < DEFAULT_LOOP_VARIABLE" "\<not> busy_at hw base off flag s m"
    using LeastI [of "\<lambda>k. k < DEFAULT_LOOP_VARIABLE \<and> \<not> busy_at hw base off flag s k", OF k]
    by (simp_all add: m_def)
  have l: "\<forall>j<m. busy_at hw base off flag s j"
    using not_less_Least m(1) unfolding m_def by (metis (mono_tags, lifting) less_trans)
  show ?thesis by (rule ready [OF m(1) l m(2)])
qed (use stuck in blast)

section \<open>Properties\<close>

text \<open>How a wait for a bit ends: after the first read that shows it clear, or after 10000 reads.\<close>

lemma busy_wait_split:
  assumes "\<And>k. k < 10000 \<Longrightarrow> \<forall>j<k. busy_at hw base r m t j \<Longrightarrow> \<not> busy_at hw base r m t k \<Longrightarrow>
      busy_wait hw base r m 0 t = (k, polled hw base r (Suc k) t) \<Longrightarrow> P"
    and "\<forall>k<10000. busy_at hw base r m t k \<Longrightarrow>
      busy_wait hw base r m 0 t = (10000, polled hw base r 10000 t) \<Longrightarrow> P"
  shows P
proof (cases rule: wait_cases [of hw base r m t])
  case (ready k)
  then show ?thesis using busy_wait_ready [of k hw base r m t 0] by (intro assms(1) [of k]) (simp_all add: DEFAULT_LOOP_VARIABLE_def)
next
  case stuck
  then show ?thesis
    using busy_wait_stuck [of 10000 hw base r m t 0] by (intro assms(2)) (simp_all add: DEFAULT_LOOP_VARIABLE_def)
qed

text \<open>C36. An access to a PHY register always returns, after at most 10000 reads of the busy bit:
  with result 0 and the low half of the data register, read after the first read that does not
  show the bit, or with -2 and nothing stored when all 10000 show it.\<close>

theorem phy_access_returns:
  assumes "t = synopGMACWriteReg hw base GmacGmiiAddr (gmii_addr phy reg OR GmiiCsrClk3 OR GmiiBusy) s"
    and "w = synopGMACWriteReg hw base GmacGmiiAddr
        (gmii_addr phy reg OR GmiiWrite OR GmiiCsrClk3 OR GmiiBusy)
        (synopGMACWriteReg hw base GmacGmiiData (ucast v) s)"
    and "busy = busy_at hw base GmacGmiiAddr GmiiBusy"
    and "after = polled hw base GmacGmiiAddr"
  shows "((\<exists>k<10000. (\<forall>j<k. busy t j) \<and> \<not> busy t k \<and>
        synopGMAC_read_phy_reg hw base phy reg data s =
          (0, Some (ucast (fst (synopGMACReadReg hw base GmacGmiiData (after (Suc k) t)) AND 0xFFFF)),
           snd (synopGMACReadReg hw base GmacGmiiData (after (Suc k) t)))) \<or>
      (\<forall>k<10000. busy t k) \<and>
        synopGMAC_read_phy_reg hw base phy reg data s = (-2, data, after 10000 t)) \<and>
    ((\<exists>k<10000. (\<forall>j<k. busy w j) \<and> \<not> busy w k \<and>
        synopGMAC_write_phy_reg hw base phy reg v s = (0, after (Suc k) w)) \<or>
      (\<forall>k<10000. busy w k) \<and>
        synopGMAC_write_phy_reg hw base phy reg v s = (-2, after 10000 w))"
proof (intro conjI)
  show "(\<exists>k<10000. (\<forall>j<k. busy t j) \<and> \<not> busy t k \<and>
        synopGMAC_read_phy_reg hw base phy reg data s =
          (0, Some (ucast (fst (synopGMACReadReg hw base GmacGmiiData (after (Suc k) t)) AND 0xFFFF)),
           snd (synopGMACReadReg hw base GmacGmiiData (after (Suc k) t)))) \<or>
      (\<forall>k<10000. busy t k) \<and>
        synopGMAC_read_phy_reg hw base phy reg data s = (-2, data, after 10000 t)"
    unfolding assms(3,4) by (rule busy_wait_split [of hw base GmacGmiiAddr GmiiBusy t])
      (auto simp: synopGMAC_read_phy_reg_def Let_def split_beta assms(1) DEFAULT_LOOP_VARIABLE_def)
  show "(\<exists>k<10000. (\<forall>j<k. busy w j) \<and> \<not> busy w k \<and>
        synopGMAC_write_phy_reg hw base phy reg v s = (0, after (Suc k) w)) \<or>
      (\<forall>k<10000. busy w k) \<and>
        synopGMAC_write_phy_reg hw base phy reg v s = (-2, after 10000 w)"
    unfolding assms(3,4) by (rule busy_wait_split [of hw base GmacGmiiAddr GmiiBusy w])
      (auto simp: synopGMAC_write_phy_reg_def Let_def split_beta assms(2) DEFAULT_LOOP_VARIABLE_def)
qed

text \<open>Memory keeps the busy bit for ever.\<close>

lemma reg_mem_busy:
  "busy_at reg_mem base off flag s k \<longleftrightarrow> s (base + ucast off) AND flag \<noteq> 0"
proof -
  have "polled reg_mem base off k s = s" for k
    by (induction k) (simp_all add: polled_simps synopGMACReadReg_def reg_mem_def)
  then show ?thesis by (simp add: busy_at_def synopGMACReadReg_def reg_mem_def)
qed

lemma reg_mem_written: "synopGMACWriteReg reg_mem base off v s (base + ucast off) = v"
  by (simp add: synopGMACWriteReg_def reg_mem_def)

lemma busy_set: "(x OR GmiiBusy) AND GmiiBusy \<noteq> 0"
proof
  assume "(x OR GmiiBusy) AND GmiiBusy = 0"
  from arg_cong [OF this, of "\<lambda>w. bit w 0"] show False by (simp add: bit_simps GmiiBusy_def)
qed

theorem phy_access_returns_witness:
  "fst (synopGMAC_read_phy_reg reg_mem 0x40040000 1 2 None (\<lambda>_. 0)) = -2 \<and>
   fst (synopGMAC_write_phy_reg reg_mem 0x40040000 1 2 0x3100 (\<lambda>_. 0)) = -2"
proof -
  let ?t = "synopGMACWriteReg reg_mem 0x40040000 GmacGmiiAddr
    (gmii_addr 1 2 OR GmiiCsrClk3 OR GmiiBusy) (\<lambda>_. 0)"
  let ?w = "synopGMACWriteReg reg_mem 0x40040000 GmacGmiiAddr
    (gmii_addr 1 2 OR GmiiWrite OR GmiiCsrClk3 OR GmiiBusy)
    (synopGMACWriteReg reg_mem 0x40040000 GmacGmiiData (ucast (0x3100 :: u16)) (\<lambda>_. 0))"
  have b: "busy_at reg_mem 0x40040000 GmacGmiiAddr GmiiBusy ?t k"
    "busy_at reg_mem 0x40040000 GmacGmiiAddr GmiiBusy ?w k" for k
    unfolding reg_mem_busy reg_mem_written or.assoc [symmetric] by (rule busy_set)+
  show ?thesis
    using phy_access_returns [OF refl refl refl refl, of reg_mem "0x40040000" 1 2 "\<lambda>_. 0" None "0x3100"]
    by (simp only: b simp_thms fst_conv)
qed

section \<open>The scan\<close>

text \<open>
  A management bus on which every address answers, as one with no PHY answers with 0 or 0xFFFF:
  \<open>ids p r\<close> is what register \<open>r\<close> of address \<open>p\<close> reads as.
\<close>

definition mdio_answers :: "'s mmio32 \<Rightarrow> u64 \<Rightarrow> (u32 \<Rightarrow> u32 \<Rightarrow> u16) \<Rightarrow> bool" where
  "mdio_answers hw base ids \<longleftrightarrow> (\<forall>s p r d. p < 32 \<longrightarrow> r < 32 \<longrightarrow>
     (\<exists>s'. synopGMAC_read_phy_reg hw base p r d s = (0, Some (ids p r), s')))"

lemma mdio_answersE:
  assumes "mdio_answers hw base ids" and "p < 32" and "r < 32"
  obtains s' where "synopGMAC_read_phy_reg hw base p r d s = (0, Some (ids p r), s')"
  using assms unfolding mdio_answers_def by blast

definition phy_at :: "(u32 \<Rightarrow> u32 \<Rightarrow> u16) \<Rightarrow> u32 \<Rightarrow> bool" where
  "phy_at ids p \<longleftrightarrow> phy_present (ids p 2) \<or> phy_present (ids p 3)"

text \<open>The \<open>k\<close>-th address of a scan from \<open>i\<close>.\<close>

definition scan_addr :: "u32 \<Rightarrow> nat \<Rightarrow> u32" where
  "scan_addr i k = (i + word_of_nat k) AND 0x1f"

lemma and_31: "(x :: u32) AND 0x1f = take_bit 5 x"
proof -
  have "(0x1f :: u32) = mask 5" by (simp add: mask_eq_exp_minus_1)
  then show ?thesis by (simp only: take_bit_eq_mask)
qed

lemma scan_addr_less: "scan_addr i k < 32"
  using take_bit_nat_less_exp [of 5 "unat (i + word_of_nat k)"] unfolding scan_addr_def and_31
  by (simp add: word_less_nat_alt unsigned_take_bit_eq)

lemma take_bit_5_small: "i < 32 \<Longrightarrow> take_bit 5 i = (i :: u32)"
  by (simp add: word_unat_eq_iff unsigned_take_bit_eq take_bit_nat_eq_self word_less_nat_alt)

lemma take_bit_5_add: "take_bit 5 (take_bit 5 x + y) = take_bit 5 (x + y :: u32)"
proof -
  have "unat (take_bit 5 w) = unat w mod 32" for w :: u32
    by (simp add: unsigned_take_bit_eq) (simp add: take_bit_eq_mod)
  then show ?thesis
    by (simp add: word_unat_eq_iff unat_word_ariths mod_mod_cancel mod_add_left_eq)
qed

lemma scan_addr_0: "i < 32 \<Longrightarrow> scan_addr i 0 = i"
  by (simp add: scan_addr_def and_31 take_bit_5_small)

lemma scan_addr_Suc: "scan_addr ((i + 1) AND 0x1f) k = scan_addr i (Suc k)"
  using take_bit_5_add [of "i + 1" "word_of_nat k"]
  by (simp only: scan_addr_def and_31) (simp add: ac_simps)

lemma scan_addr_32: "i < 32 \<Longrightarrow> scan_addr i 32 = i"
proof -
  assume "i < 32"
  have "take_bit 5 (i + 32) = take_bit 5 i"
    using take_bit_5_add [of 32 i] by (simp add: add.commute)
  with \<open>i < 32\<close> show ?thesis by (simp add: scan_addr_def and_31 take_bit_5_small)
qed

lemma phy_scan_finds:
  assumes "mdio_answers hw base ids" and "i < 32"
  shows "\<exists>j s'. phy_scan hw base n i data s = Inr (j, s') \<and>
    ((\<exists>k<n. j = scan_addr i k \<and> phy_at ids j \<and> (\<forall>l<k. \<not> phy_at ids (scan_addr i l)))
     \<or> (\<forall>k<n. \<not> phy_at ids (scan_addr i k)) \<and> j = scan_addr i n)"
  using assms(2)
proof (induction n arbitrary: i data s)
  case 0
  then show ?case by (simp add: scan_addr_0)
next
  case (Suc n)
  obtain s2 where s2: "synopGMAC_read_phy_reg hw base i 2 data s = (0, Some (ids i 2), s2)"
    using assms(1) Suc.prems by (auto elim!: mdio_answersE [of _ _ _ i 2])
  obtain s3 where s3: "synopGMAC_read_phy_reg hw base i 3 (Some (ids i 2)) s2 = (0, Some (ids i 3), s3)"
    using assms(1) Suc.prems by (auto elim!: mdio_answersE [of _ _ _ i 3])
  show ?case
  proof (cases "phy_at ids i")
    case True
    then obtain s' where "phy_scan hw base (Suc n) i data s = Inr (i, s')"
      by (cases "phy_present (ids i 2)") (auto simp: s2 s3 phy_at_def)
    moreover have "0 < Suc n \<and> i = scan_addr i 0 \<and> phy_at ids i \<and> (\<forall>l<0. \<not> phy_at ids (scan_addr i l))"
      using True Suc.prems by (simp add: scan_addr_0)
    ultimately show ?thesis by blast
  next
    case False
    then have e: "phy_scan hw base (Suc n) i data s =
        phy_scan hw base n ((i + 1) AND 0x1f) (Some (ids i 3)) s3"
      by (simp add: s2 s3 phy_at_def)
    have "(i + 1) AND 0x1f < 32" using scan_addr_less [of i 1] by (simp add: scan_addr_def)
    from Suc.IH [OF this, of "Some (ids i 3)" s3] obtain j s' where
      j: "phy_scan hw base (Suc n) i data s = Inr (j, s')"
        "(\<exists>k<n. j = scan_addr i (Suc k) \<and> phy_at ids j \<and> (\<forall>l<k. \<not> phy_at ids (scan_addr i (Suc l))))
         \<or> (\<forall>k<n. \<not> phy_at ids (scan_addr i (Suc k))) \<and> j = scan_addr i (Suc n)"
      unfolding e scan_addr_Suc by blast
    have "\<not> phy_at ids (scan_addr i 0)" using False Suc.prems by (simp add: scan_addr_0)
    with j(2) have "(\<exists>k<Suc n. j = scan_addr i k \<and> phy_at ids j \<and> (\<forall>l<k. \<not> phy_at ids (scan_addr i l)))
         \<or> (\<forall>k<Suc n. \<not> phy_at ids (scan_addr i k)) \<and> j = scan_addr i (Suc n)"
    proof (elim disjE exE conjE)
      fix k assume "k < n" "j = scan_addr i (Suc k)" "phy_at ids j"
        "\<forall>l<k. \<not> phy_at ids (scan_addr i (Suc l))"
      then show ?thesis
        using \<open>\<not> phy_at ids (scan_addr i 0)\<close>
        by (intro disjI1 exI [of _ "Suc k"]) (simp add: All_less_Suc2)
    next
      assume "\<forall>k<n. \<not> phy_at ids (scan_addr i (Suc k))" "j = scan_addr i (Suc n)"
      then show ?thesis
        using \<open>\<not> phy_at ids (scan_addr i 0)\<close> by (intro disjI2) (simp add: All_less_Suc2)
    qed
    with j(1) show ?thesis by blast
  qed
qed

text \<open>Attaching a device on a management bus that answers finds the first address, from the
  given one upwards and around, with an identifier that is neither 0 nor 0xFFFF, and keeps the
  given one when there is none; all other fields of the device are the arguments or 0.\<close>

theorem attach_finds_phy:
  assumes "mdio_answers hw macBase ids" and "phyBase < 32" and "length mac_addr = 6"
  shows "\<exists>j s'. synopGMAC_attach hw macBase dmaBase (ucast phyBase) mac_addr s =
      Inr (zero_device\<lparr>MacBase := macBase, DmaBase := dmaBase, PhyBase := ucast j\<rparr>, s') \<and>
    ((\<exists>k<32. j = scan_addr phyBase k \<and> phy_at ids j \<and> (\<forall>l<k. \<not> phy_at ids (scan_addr phyBase l)))
     \<or> (\<forall>k<32. \<not> phy_at ids (scan_addr phyBase k)) \<and> j = phyBase)"
proof -
  obtain j s1 where j: "phy_scan hw macBase 32 phyBase None s = Inr (j, s1)"
    "(\<exists>k<32. j = scan_addr phyBase k \<and> phy_at ids j \<and> (\<forall>l<k. \<not> phy_at ids (scan_addr phyBase l)))
     \<or> (\<forall>k<32. \<not> phy_at ids (scan_addr phyBase k)) \<and> j = phyBase"
    using phy_scan_finds [OF assms(1,2), of 32 None s] assms(2) by (auto simp: scan_addr_32)
  have "j < 32" using j(2) assms(2) scan_addr_less by auto
  then have "sint j = int (unat j)"
    using to_int32_small [of "unat j"] by (simp add: to_int32_def word_less_nat_alt)
  then have "(scast j :: u64) = ucast j"
    by (simp add: scast_eq)
  moreover have "(ucast (ucast phyBase :: u64) :: u32) = phyBase"
    by (rule bit_word_eqI) (simp add: bit_simps)
  ultimately have "\<exists>s'. synopGMAC_attach hw macBase dmaBase (ucast phyBase) mac_addr s =
      Inr (zero_device\<lparr>MacBase := macBase, DmaBase := dmaBase, PhyBase := ucast j\<rparr>, s')"
    using j(1) assms(3) by (simp add: synopGMAC_attach_def Let_def synopGMAC_set_mac_addr_def)
  with j(2) show ?thesis by blast
qed

text \<open>A bus with the identifiers \<open>ids\<close>, never busy, whose state is the last address written.\<close>

definition mdio_sim :: "u64 \<Rightarrow> (u32 \<Rightarrow> u32 \<Rightarrow> u16) \<Rightarrow> u32 mmio32" where
  "mdio_sim base ids = \<lparr>
     read32 = (\<lambda>a s. (if a = base + ucast GmacGmiiAddr then s AND NOT GmiiBusy
                     else if a = base + ucast GmacGmiiData then
                       ucast (ids (drop_bit 11 (s AND GmiiDevMask)) (drop_bit 6 (s AND GmiiRegMask)))
                     else 0, s)),
     write32 = (\<lambda>a v s. if a = base + ucast GmacGmiiAddr then v else s)\<rparr>"

lemma gmii_bit:
  "bit GmiiDevMask n \<longleftrightarrow> 11 \<le> n \<and> n < 16" "bit GmiiRegMask n \<longleftrightarrow> 6 \<le> n \<and> n < 11"
  "bit GmiiCsrClk3 n \<longleftrightarrow> 2 \<le> n \<and> n < 4" "bit GmiiBusy n \<longleftrightarrow> n = 0"
proof -
  have masks: "GmiiDevMask = push_bit 11 (mask 5)" "GmiiRegMask = push_bit 6 (mask 5)"
    "GmiiCsrClk3 = push_bit 2 (mask 2)" "GmiiBusy = mask 1"
    by (simp_all add: gmii_bits mask_eq_exp_minus_1)
  show "bit GmiiDevMask n \<longleftrightarrow> 11 \<le> n \<and> n < 16" "bit GmiiRegMask n \<longleftrightarrow> 6 \<le> n \<and> n < 11"
    "bit GmiiCsrClk3 n \<longleftrightarrow> 2 \<le> n \<and> n < 4" "bit GmiiBusy n \<longleftrightarrow> n = 0"
    by (auto simp: masks bit_simps)
qed

lemma bit_less_32: "p < 32 \<Longrightarrow> bit (p :: u32) n \<Longrightarrow> n < 5"
  using take_bit_5_small [of p] by (metis bit_take_bit_iff)

lemma gmii_addr_fields:
  assumes "p < 32" and "r < 32" and "a = gmii_addr p r OR GmiiCsrClk3 OR GmiiBusy"
  shows "drop_bit 11 (a AND GmiiDevMask) = p" "drop_bit 6 (a AND GmiiRegMask) = r"
  unfolding assms(3) gmii_addr_def
  by (rule bit_word_eqI, auto simp: bit_simps gmii_bit dest: bit_less_32 [OF assms(1)] bit_less_32 [OF assms(2)])+

lemma mdio_sim_answers: "mdio_answers (mdio_sim base ids) base ids"
proof -
  have "\<exists>s'. synopGMAC_read_phy_reg (mdio_sim base ids) base p r d s = (0, Some (ids p r), s')"
    if "p < 32" "r < 32" for p r d s
  proof -
    let ?a = "gmii_addr p r OR GmiiCsrClk3 OR GmiiBusy"
    have w: "synopGMACWriteReg (mdio_sim base ids) base GmacGmiiAddr ?a s = ?a"
      by (simp add: synopGMACWriteReg_def mdio_sim_def)
    have "fst (synopGMACReadReg (mdio_sim base ids) base GmacGmiiAddr ?a) AND GmiiBusy = 0"
      by (simp add: synopGMACReadReg_def mdio_sim_def and.assoc)
    then have b: "busy_wait (mdio_sim base ids) base GmacGmiiAddr GmiiBusy 0 ?a = (0, ?a)"
      by (subst busy_wait.simps)
        (simp add: split_beta DEFAULT_LOOP_VARIABLE_def synopGMACReadReg_def mdio_sim_def)
    have f: "drop_bit 11 (?a AND GmiiDevMask) = p" "drop_bit 6 (?a AND GmiiRegMask) = r"
      using gmii_addr_fields [OF that refl] by simp_all
    have d: "synopGMACReadReg (mdio_sim base ids) base GmacGmiiData ?a = (ucast (ids p r), ?a)"
      by (simp add: synopGMACReadReg_def mdio_sim_def f del: drop_bit_and)
        (simp add: GmacGmiiAddr_def GmacGmiiData_def)
    have m: "(0xFFFF :: u32) = mask 16" by (simp add: mask_eq_exp_minus_1)
    have "ucast (ucast (ids p r) AND (0xFFFF :: u32)) = ids p r"
      unfolding m by (rule bit_word_eqI) (simp add: bit_simps)
    then show ?thesis
      by (simp add: synopGMAC_read_phy_reg_def Let_def w b d DEFAULT_LOOP_VARIABLE_def)
  qed
  then show ?thesis by (simp add: mdio_answers_def)
qed

theorem attach_finds_phy_witness:
  "\<exists>s'. synopGMAC_attach (mdio_sim 0x40040000 (\<lambda>p r. if p = 3 then 0x141 else 0xFFFF)) 0x40040000 0x40041000
      (ucast (1 :: u32)) (replicate 6 0) 0 =
    Inr (zero_device\<lparr>MacBase := 0x40040000, DmaBase := 0x40041000, PhyBase := 3\<rparr>, s')"
proof -
  let ?ids = "\<lambda>p r. if p = 3 then 0x141 else 0xFFFF"
  have p: "phy_at ?ids p \<longleftrightarrow> p = 3" for p by (simp add: phy_at_def phy_present_def)
  have "scan_addr 1 2 = 3" by (simp add: scan_addr_def)
  then show ?thesis
    using attach_finds_phy [OF mdio_sim_answers, of 1 "replicate 6 0" "0x40040000" ?ids "0x40041000" 0]
    unfolding p by (auto dest: spec [of _ 2])
qed

text \<open>When the management interface stays busy, attaching branches on an uninitialised
  variable, as do \<open>mdio_read\<close> and \<open>init_phy\<close>: the error result is not looked at.\<close>

theorem attach_reads_uninitialised:
  assumes "\<And>t. fst (synopGMACReadReg hw base GmacGmiiAddr t) AND GmiiBusy \<noteq> 0"
    and "MacBase g' = base"
  shows "synopGMAC_attach hw base dmaBase phyBase mac_addr s = Inl Uninit \<and>
    mdio_read hw g' p r s' = Inl Uninit \<and> init_phy hw g' s' = Inl Uninit"
proof -
  have r: "\<exists>u. synopGMAC_read_phy_reg hw base p r None s = (-2, None, u)" for p r s
    using busy_wait_stuck [of 10000 hw base GmacGmiiAddr GmiiBusy _ 0] assms(1)
    by (simp add: synopGMAC_read_phy_reg_def Let_def DEFAULT_LOOP_VARIABLE_def busy_at_def)
  obtain u where "synopGMAC_read_phy_reg hw base (ucast phyBase) 2 None s = (-2, None, u)" using r by blast
  moreover obtain u1 where "synopGMAC_read_phy_reg hw base p r None s' = (-2, None, u1)" using r by blast
  moreover obtain u2 where "synopGMAC_read_phy_reg hw base (ucast (PhyBase g')) 2 None s' = (-2, None, u2)"
    using r by blast
  ultimately show ?thesis
    using phy_scan.simps(2) [of hw base 31 "ucast phyBase" None s] assms(2)
    by (simp add: synopGMAC_attach_def Let_def mdio_read_def init_phy_def)
qed

text \<open>A bus without a device reads as ones.\<close>

definition no_device :: "unit mmio32" where
  "no_device = \<lparr>read32 = (\<lambda>a s. (0xFFFFFFFF, s)), write32 = (\<lambda>a v s. s)\<rparr>"

theorem attach_reads_uninitialised_witness:
  "synopGMAC_attach no_device 0x40040000 0x40041000 1 (replicate 6 0) () = Inl Uninit"
  using attach_reads_uninitialised [of no_device "0x40040000" example_device "0x40041000" 1 "replicate 6 0" "()"]
  by (simp add: synopGMACReadReg_def no_device_def GmiiBusy_def)

end
