(* ===== verification/Gmac_Link.thy ===== *)
theory Gmac_Link
  imports Gmac_Phy
begin

unbundle bit_operations_syntax

text \<open>
  The link: the generic MII code of \<open>drivers/net/mii.c\<close>, and the functions of \<open>synopGMAC.c\<close> that
  follow it (\<open>synopGMAC_check_phy_init\<close> and the timer function
  \<open>synopGMAC_linux_cable_unplug_function\<close>). The negotiation is compared with the priority
  resolution of IEEE 802.3 between what the PHY advertises and what its partner can do.
\<close>

section \<open>MII registers\<close>

definition MII_BMCR :: u32 where "MII_BMCR = 0x00"
definition MII_BMSR :: u32 where "MII_BMSR = 0x01"
definition MII_ADVERTISE :: u32 where "MII_ADVERTISE = 0x04"
definition MII_LPA :: u32 where "MII_LPA = 0x05"
definition MII_CTRL1000 :: u32 where "MII_CTRL1000 = 0x09"
definition MII_STAT1000 :: u32 where "MII_STAT1000 = 0x0a"
definition MII_ESTATUS :: u32 where "MII_ESTATUS = 0x0f"
definition BMCR_SPEED1000 :: u32 where "BMCR_SPEED1000 = 0x0040"
definition BMCR_FULLDPLX :: u32 where "BMCR_FULLDPLX = 0x0100"
definition BMCR_ANENABLE :: u32 where "BMCR_ANENABLE = 0x1000"
definition BMCR_SPEED100 :: u32 where "BMCR_SPEED100 = 0x2000"
definition BMSR_LSTATUS :: u32 where "BMSR_LSTATUS = 0x0004"
definition BMSR_ESTATEN :: u32 where "BMSR_ESTATEN = 0x0100"
definition ESTATUS_1000_TFULL :: u32 where "ESTATUS_1000_TFULL = 0x2000"
definition ESTATUS_1000_THALF :: u32 where "ESTATUS_1000_THALF = 0x1000"
definition ADVERTISE_10HALF :: u32 where "ADVERTISE_10HALF = 0x0020"
definition ADVERTISE_10FULL :: u32 where "ADVERTISE_10FULL = 0x0040"
definition ADVERTISE_100HALF :: u32 where "ADVERTISE_100HALF = 0x0080"
definition ADVERTISE_100FULL :: u32 where "ADVERTISE_100FULL = 0x0100"
definition ADVERTISE_1000HALF :: u32 where "ADVERTISE_1000HALF = 0x0100"
definition ADVERTISE_1000FULL :: u32 where "ADVERTISE_1000FULL = 0x0200"
definition LPA_10HALF :: u32 where "LPA_10HALF = 0x0020"
definition LPA_10FULL :: u32 where "LPA_10FULL = 0x0040"
definition LPA_100HALF :: u32 where "LPA_100HALF = 0x0080"
definition LPA_100FULL :: u32 where "LPA_100FULL = 0x0100"
definition LPA_100BASE4 :: u32 where "LPA_100BASE4 = 0x0200"
definition LPA_1000FULL :: u32 where "LPA_1000FULL = 0x0800"
definition ADVERTISED_TP :: u32 where "ADVERTISED_TP = push_bit 7 1"
definition ADVERTISED_MII :: u32 where "ADVERTISED_MII = push_bit 9 1"
definition ADVERTISED_Autoneg :: u32 where "ADVERTISED_Autoneg = push_bit 6 1"
definition DUPLEX_HALF :: u8 where "DUPLEX_HALF = 0x00"
definition DUPLEX_FULL :: u8 where "DUPLEX_FULL = 0x01"
definition SPEED_10 :: u16 where "SPEED_10 = 10"
definition SPEED_100 :: u16 where "SPEED_100 = 100"
definition SPEED_1000 :: u16 where "SPEED_1000 = 1000"

lemmas mii_bits = ADVERTISE_1000HALF_def ADVERTISE_1000FULL_def LPA_10HALF_def LPA_10FULL_def
  LPA_100HALF_def LPA_100FULL_def LPA_100BASE4_def LPA_1000FULL_def
lemmas mii_modes = DUPLEX_HALF_def DUPLEX_FULL_def SPEED_10_def SPEED_100_def SPEED_1000_def

text \<open>The members of the two structures that are used; the others are only stored.\<close>

record ethtool_cmd =
  supported :: u32
  advertising :: u32
  cmd_speed :: u16
  cmd_duplex :: u8
  port :: u8
  phy_address :: u8
  transceiver :: u8
  autoneg :: u8

record mii_if_info =
  phy_id :: u32
  full_duplex :: bool
  supports_gmii :: bool

text \<open>\<open>mii->mdio_read\<close>, with the device it is called on as its first argument bound.\<close>

type_synonym 's mdio = "u32 \<Rightarrow> u32 \<Rightarrow> 's \<Rightarrow> (u32 \<times> 's) res"

section \<open>\<open>mii.c\<close>\<close>

definition mii_nway_result :: "u32 \<Rightarrow> u32" where
  "mii_nway_result negotiated =
     (if negotiated AND LPA_100FULL \<noteq> 0 then LPA_100FULL
      else if negotiated AND LPA_100BASE4 \<noteq> 0 then LPA_100BASE4
      else if negotiated AND LPA_100HALF \<noteq> 0 then LPA_100HALF
      else if negotiated AND LPA_10FULL \<noteq> 0 then LPA_10FULL
      else LPA_10HALF)"

definition mii_check_gmii_support :: "'s mdio \<Rightarrow> mii_if_info \<Rightarrow> 's \<Rightarrow> (bool \<times> 's) res" where
  "mii_check_gmii_support rdreg mii s =
     rbind (rdreg (phy_id mii) MII_BMSR s) (\<lambda>(reg, s).
     if reg AND BMSR_ESTATEN \<noteq> 0 then
       rbind (rdreg (phy_id mii) MII_ESTATUS s) (\<lambda>(reg, s).
       Inr (reg AND (ESTATUS_1000_TFULL OR ESTATUS_1000_THALF) \<noteq> 0, s))
     else Inr (False, s))"

text \<open>What the PHY advertises and can do, as bits of \<open>ethtool_cmd\<close>.\<close>

definition supported_bits :: "bool \<Rightarrow> u32" where
  "supported_bits gmii =
     push_bit 0 1 OR push_bit 1 1 OR push_bit 2 1 OR push_bit 3 1 OR push_bit 6 1 OR push_bit 7 1
     OR push_bit 9 1 OR (if gmii then push_bit 4 1 OR push_bit 5 1 else 0)"

definition advertised_bits :: "u32 \<Rightarrow> u32 \<Rightarrow> u32" where
  "advertised_bits advert advert2 =
     ADVERTISED_TP OR ADVERTISED_MII
     OR (if advert AND ADVERTISE_10HALF \<noteq> 0 then push_bit 0 1 else 0)
     OR (if advert AND ADVERTISE_10FULL \<noteq> 0 then push_bit 1 1 else 0)
     OR (if advert AND ADVERTISE_100HALF \<noteq> 0 then push_bit 2 1 else 0)
     OR (if advert AND ADVERTISE_100FULL \<noteq> 0 then push_bit 3 1 else 0)
     OR (if advert2 AND ADVERTISE_1000HALF \<noteq> 0 then push_bit 4 1 else 0)
     OR (if advert2 AND ADVERTISE_1000FULL \<noteq> 0 then push_bit 5 1 else 0)"

text \<open>Speed and duplex mode of a link, from the five registers that decide them.\<close>

definition negotiated_mode :: "u32 \<Rightarrow> u32 \<Rightarrow> u32 \<Rightarrow> u32 \<Rightarrow> u16 \<times> u8" where
  "negotiated_mode advert lpa bmcr2 lpa2 =
     (let nego = mii_nway_result (advert AND lpa) in
      (if (bmcr2 AND (ADVERTISE_1000HALF OR ADVERTISE_1000FULL)) AND drop_bit 2 lpa2 \<noteq> 0 then SPEED_1000
       else if nego = LPA_100FULL \<or> nego = LPA_100HALF then SPEED_100 else SPEED_10,
       if lpa2 AND LPA_1000FULL \<noteq> 0 \<or> nego = LPA_100FULL \<or> nego = LPA_10FULL
       then DUPLEX_FULL else DUPLEX_HALF))"

definition forced_mode :: "u32 \<Rightarrow> u16 \<times> u8" where
  "forced_mode bmcr =
     (if bmcr AND BMCR_SPEED1000 \<noteq> 0 \<and> bmcr AND BMCR_SPEED100 = 0 then SPEED_1000
      else if bmcr AND BMCR_SPEED100 \<noteq> 0 then SPEED_100 else SPEED_10,
      if bmcr AND BMCR_FULLDPLX \<noteq> 0 then DUPLEX_FULL else DUPLEX_HALF)"

text \<open>A read that is made only on a PHY with the gigabit registers; 0 otherwise.\<close>

definition gmii_read :: "'s mdio \<Rightarrow> mii_if_info \<Rightarrow> u32 \<Rightarrow> 's \<Rightarrow> (u32 \<times> 's) res" where
  "gmii_read rdreg mii r s = (if supports_gmii mii then rdreg (phy_id mii) r s else Inr (0, s))"

definition mii_ethtool_gset ::
    "'s mdio \<Rightarrow> mii_if_info \<Rightarrow> ethtool_cmd \<Rightarrow> 's \<Rightarrow> (ethtool_cmd \<times> mii_if_info \<times> 's) res" where
  "mii_ethtool_gset rdreg mii ecmd s =
     rbind (rdreg (phy_id mii) MII_ADVERTISE s) (\<lambda>(advert, s).
     rbind (gmii_read rdreg mii MII_CTRL1000 s) (\<lambda>(advert2, s).
     rbind (rdreg (phy_id mii) MII_BMCR s) (\<lambda>(bmcr, s).
     rbind (rdreg (phy_id mii) MII_LPA s) (\<lambda>(lpa, s).
     rbind (gmii_read rdreg mii MII_CTRL1000 s) (\<lambda>(bmcr2, s).
     rbind (gmii_read rdreg mii MII_STAT1000 s) (\<lambda>(lpa2, s).
     let ecmd = ecmd\<lparr>supported := supported_bits (supports_gmii mii),
                     port := 2, transceiver := 0, phy_address := ucast (phy_id mii),
                     advertising := advertised_bits advert advert2\<rparr> in
     if bmcr AND BMCR_ANENABLE \<noteq> 0 then
       let (speed, duplex) = negotiated_mode advert lpa bmcr2 lpa2 in
       Inr (ecmd\<lparr>advertising := advertising ecmd OR ADVERTISED_Autoneg, autoneg := 1,
                 cmd_speed := speed, cmd_duplex := duplex\<rparr>,
            mii\<lparr>full_duplex := (duplex = DUPLEX_FULL)\<rparr>, s)
     else
       let (speed, duplex) = forced_mode bmcr in
       Inr (ecmd\<lparr>autoneg := 0, cmd_speed := speed, cmd_duplex := duplex\<rparr>, mii, s)))))))"

text \<open>Two reads: the first clears a latched loss of the link.\<close>

definition mii_link_ok :: "'s mdio \<Rightarrow> mii_if_info \<Rightarrow> 's \<Rightarrow> (bool \<times> 's) res" where
  "mii_link_ok rdreg mii s =
     rbind (rdreg (phy_id mii) MII_BMSR s) (\<lambda>(_, s).
     rbind (rdreg (phy_id mii) MII_BMSR s) (\<lambda>(reg, s).
     Inr (reg AND BMSR_LSTATUS \<noteq> 0, s)))"

section \<open>Following the link\<close>

text \<open>The adapter, without its counters; \<open>cmd\<close> is an uninitialised local that \<open>gset\<close> fills.\<close>

record gmac_adapter =
  gmacdev :: synopGMACdevice
  mii_info :: mii_if_info

definition synopGMAC_check_phy_init ::
    "'s mmio32 \<Rightarrow> ethtool_cmd \<Rightarrow> gmac_adapter \<Rightarrow> 's \<Rightarrow> (u32 \<times> gmac_adapter \<times> 's) res" where
  "synopGMAC_check_phy_init hw cmd a s =
     (let g = gmacdev a; rdreg = mdio_read hw g in
      rbind (mii_link_ok rdreg (mii_info a) s) (\<lambda>(ok, s).
      if \<not> ok then Inr (0, a\<lparr>gmacdev := g\<lparr>DuplexMode := FULLDUPLEX, Speed := SPEED100\<rparr>\<rparr>, s)
      else
        rbind (mii_ethtool_gset rdreg (mii_info a) cmd s) (\<lambda>(cmd, mii, s).
        let duplex = (if cmd_duplex cmd = DUPLEX_FULL then FULLDUPLEX else HALFDUPLEX);
            speed = (if cmd_speed cmd = SPEED_1000 then SPEED1000
                     else if cmd_speed cmd = SPEED_100 then SPEED100 else SPEED10) in
        Inr (speed OR push_bit 4 duplex,
             a\<lparr>gmacdev := g\<lparr>DuplexMode := duplex, Speed := speed\<rparr>, mii_info := mii\<rparr>, s))))"

text \<open>The timer function; its messages are left out.\<close>

definition synopGMAC_linux_cable_unplug_function ::
    "'s mmio32 \<Rightarrow> ethtool_cmd \<Rightarrow> gmac_adapter \<Rightarrow> 's \<Rightarrow> (gmac_adapter \<times> 's) res" where
  "synopGMAC_linux_cable_unplug_function hw cmd a s =
     rbind (mii_link_ok (mdio_read hw (gmacdev a)) (mii_info a) s) (\<lambda>(ok, s).
     if \<not> ok then
       Inr (a\<lparr>gmacdev := (gmacdev a)\<lparr>DuplexMode := 0, Speed := 0, LoopBackMode := 0, LinkState := 0\<rparr>\<rparr>, s)
     else
       rbind (synopGMAC_check_phy_init hw cmd a s) (\<lambda>(data, a, s).
       if LinkState (gmacdev a) \<noteq> data then
         let a = a\<lparr>gmacdev := (gmacdev a)\<lparr>LinkState := data\<rparr>\<rparr> in
         Inr (a, synopGMAC_mac_init hw (gmacdev a) s)
       else Inr (a, s)))"

section \<open>Priority resolution\<close>

text \<open>
  The link modes, in the order of preference of IEEE 802.3 annex 28B, and whether both sides offer
  one: the base page of each side, and the 1000BASE-T control and status registers.
\<close>

datatype link_mode = Full1000 | Half1000 | Full100 | T4 | Half100 | Full10 | Half10

definition preference :: "link_mode list" where
  "preference = [Full1000, Half1000, Full100, T4, Half100, Full10, Half10]"

fun offered :: "u32 \<Rightarrow> u32 \<Rightarrow> u32 \<Rightarrow> u32 \<Rightarrow> link_mode \<Rightarrow> bool" where
  "offered advert lpa ctrl stat Full1000 = (bit ctrl 9 \<and> bit stat 11)"
| "offered advert lpa ctrl stat Half1000 = (bit ctrl 8 \<and> bit stat 10)"
| "offered advert lpa ctrl stat Full100 = (bit advert 8 \<and> bit lpa 8)"
| "offered advert lpa ctrl stat T4 = (bit advert 9 \<and> bit lpa 9)"
| "offered advert lpa ctrl stat Half100 = (bit advert 7 \<and> bit lpa 7)"
| "offered advert lpa ctrl stat Full10 = (bit advert 6 \<and> bit lpa 6)"
| "offered advert lpa ctrl stat Half10 = True"

definition resolved :: "u32 \<Rightarrow> u32 \<Rightarrow> u32 \<Rightarrow> u32 \<Rightarrow> link_mode" where
  "resolved advert lpa ctrl stat = hd (filter (offered advert lpa ctrl stat) preference)"

fun mode_value :: "link_mode \<Rightarrow> u16 \<times> u8" where
  "mode_value Full1000 = (SPEED_1000, DUPLEX_FULL)"
| "mode_value Half1000 = (SPEED_1000, DUPLEX_HALF)"
| "mode_value Full100 = (SPEED_100, DUPLEX_FULL)"
| "mode_value T4 = (SPEED_100, DUPLEX_HALF)"
| "mode_value Half100 = (SPEED_100, DUPLEX_HALF)"
| "mode_value Full10 = (SPEED_10, DUPLEX_FULL)"
| "mode_value Half10 = (SPEED_10, DUPLEX_HALF)"

lemma bit_single: "bit (push_bit k 1 :: u32) n \<longleftrightarrow> n = k \<and> k < 32"
  by (auto simp: bit_simps)

lemma and_flag: "x AND push_bit k 1 \<noteq> 0 \<longleftrightarrow> bit (x :: u32) k"
  by (simp add: push_bit_eq_mult and_exp_eq_0_iff_not_bit)

lemma mii_flags:
  "x AND LPA_100FULL \<noteq> 0 \<longleftrightarrow> bit x 8" "x AND LPA_100BASE4 \<noteq> 0 \<longleftrightarrow> bit x 9"
  "x AND LPA_100HALF \<noteq> 0 \<longleftrightarrow> bit x 7" "x AND LPA_10FULL \<noteq> 0 \<longleftrightarrow> bit x 6"
  "x AND LPA_1000FULL \<noteq> 0 \<longleftrightarrow> bit x 11"
  using and_flag [of x 8] and_flag [of x 9] and_flag [of x 7] and_flag [of x 6] and_flag [of x 11]
  by (simp_all add: mii_bits)

lemma gigabit_offered:
  "(ctrl AND (ADVERTISE_1000HALF OR ADVERTISE_1000FULL)) AND drop_bit 2 stat \<noteq> 0 \<longleftrightarrow>
     bit ctrl 9 \<and> bit stat 11 \<or> bit ctrl 8 \<and> bit stat 10"
proof -
  have b: "bit (ADVERTISE_1000HALF OR ADVERTISE_1000FULL) n \<longleftrightarrow> n = 8 \<or> n = 9" for n
  proof -
    have e: "ADVERTISE_1000HALF = push_bit 8 1" "ADVERTISE_1000FULL = push_bit 9 1"
      by (simp_all add: mii_bits)
    show ?thesis unfolding e bit_or_iff bit_single by auto
  qed
  define w where "w = (ctrl AND (ADVERTISE_1000HALF OR ADVERTISE_1000FULL)) AND drop_bit 2 stat"
  have "bit w n \<longleftrightarrow> bit ctrl n \<and> (n = 8 \<or> n = 9) \<and> bit stat (2 + n)" for n
    unfolding w_def bit_and_iff [of _ _ n] b bit_drop_bit_eq comp_def by simp
  moreover have "w \<noteq> 0 \<longleftrightarrow> (\<exists>n. bit w n)" using bit_word_eqI [of w 0] by auto
  ultimately have "w \<noteq> 0 \<longleftrightarrow> (\<exists>n. bit ctrl n \<and> (n = 8 \<or> n = 9) \<and> bit stat (2 + n))" by simp
  also have "\<dots> \<longleftrightarrow> bit ctrl 9 \<and> bit stat 11 \<or> bit ctrl 8 \<and> bit stat 10" by (auto intro: exI [of _ 8] exI [of _ 9])
  finally show ?thesis unfolding w_def .
qed

text \<open>The same resolution as a decision on the bits.\<close>

lemma resolved_cases:
  "resolved advert lpa ctrl stat =
     (if bit ctrl 9 \<and> bit stat 11 then Full1000 else if bit ctrl 8 \<and> bit stat 10 then Half1000
      else if bit advert 8 \<and> bit lpa 8 then Full100 else if bit advert 9 \<and> bit lpa 9 then T4
      else if bit advert 7 \<and> bit lpa 7 then Half100 else if bit advert 6 \<and> bit lpa 6 then Full10
      else Half10)"
  by (simp add: resolved_def preference_def)

lemma nway_cases:
  "mii_nway_result (advert AND lpa) =
     (if bit advert 8 \<and> bit lpa 8 then LPA_100FULL else if bit advert 9 \<and> bit lpa 9 then LPA_100BASE4
      else if bit advert 7 \<and> bit lpa 7 then LPA_100HALF else if bit advert 6 \<and> bit lpa 6 then LPA_10FULL
      else LPA_10HALF)"
  by (simp only: mii_nway_result_def mii_flags bit_and_iff)

lemma lpa_distinct:
  "LPA_100FULL \<noteq> LPA_100BASE4" "LPA_100FULL \<noteq> LPA_100HALF" "LPA_100FULL \<noteq> LPA_10FULL"
  "LPA_100FULL \<noteq> LPA_10HALF" "LPA_100BASE4 \<noteq> LPA_100HALF" "LPA_100BASE4 \<noteq> LPA_10FULL"
  "LPA_100BASE4 \<noteq> LPA_10HALF" "LPA_100HALF \<noteq> LPA_10FULL" "LPA_100HALF \<noteq> LPA_10HALF"
  "LPA_10FULL \<noteq> LPA_10HALF"
  by (simp_all add: mii_bits)

text \<open>
  The negotiated mode is the resolved one in all but three situations: a resolved 100BASE-T4, and a
  resolved half duplex mode when the partner could do 1000BASE-T full duplex or, at 1000 Mb/s, a
  full duplex mode is common at a lower speed.
\<close>

definition misjudged :: "u32 \<Rightarrow> u32 \<Rightarrow> u32 \<Rightarrow> u32 \<Rightarrow> bool" where
  "misjudged advert lpa ctrl stat \<longleftrightarrow>
     (case resolved advert lpa ctrl stat of
        T4 \<Rightarrow> True
      | Half1000 \<Rightarrow> bit stat 11 \<or> mii_nway_result (advert AND lpa) \<in> {LPA_100FULL, LPA_10FULL}
      | Half100 \<Rightarrow> bit stat 11
      | Half10 \<Rightarrow> bit stat 11
      | _ \<Rightarrow> False)"

lemma negotiated_mode_iff:
  "negotiated_mode advert lpa ctrl stat = mode_value (resolved advert lpa ctrl stat) \<longleftrightarrow>
     \<not> misjudged advert lpa ctrl stat"
proof -
  note d = lpa_distinct lpa_distinct [symmetric]
  have m: "SPEED_1000 \<noteq> SPEED_100" "SPEED_1000 \<noteq> SPEED_10" "SPEED_100 \<noteq> SPEED_10"
    "DUPLEX_FULL \<noteq> DUPLEX_HALF" by (simp_all add: mii_modes)
  show ?thesis
    unfolding negotiated_mode_def Let_def gigabit_offered mii_flags misjudged_def resolved_cases nway_cases
    using m by (simp add: d split: if_splits)
qed

text \<open>On a bus that answers, \<open>mdio_read\<close> gives the value of the register.\<close>

lemma mdio_read_answers:
  assumes "mdio_answers hw (MacBase g) ids" and "p < 32" and "r < 32"
  shows "\<exists>s'. mdio_read hw g p r s = Inr (ucast (ids p r), s')"
  by (rule mdio_answersE [OF assms, of None s]) (simp add: mdio_read_def)

lemma mii_reg_less:
  "MII_BMCR < 32" "MII_BMSR < 32" "MII_ADVERTISE < 32" "MII_LPA < 32" "MII_CTRL1000 < 32" "MII_STAT1000 < 32"
  by (simp_all add: MII_BMCR_def MII_BMSR_def MII_ADVERTISE_def MII_LPA_def MII_CTRL1000_def MII_STAT1000_def)

text \<open>What the driver reads of a register that only a gigabit PHY has.\<close>

definition gmii_id :: "(u32 \<Rightarrow> u32 \<Rightarrow> u16) \<Rightarrow> mii_if_info \<Rightarrow> u32 \<Rightarrow> u32" where
  "gmii_id ids mii r = (if supports_gmii mii then ucast (ids (phy_id mii) r) else 0)"

lemma gmii_read_answers:
  assumes "mdio_answers hw (MacBase g) ids" and "phy_id mii < 32" and "r < 32"
  shows "\<exists>s'. gmii_read (mdio_read hw g) mii r s = Inr (gmii_id ids mii r, s')"
  using mdio_read_answers [OF assms] by (simp add: gmii_read_def gmii_id_def)

section \<open>Properties\<close>

text \<open>C25. With autonegotiation on and a bus that answers, the speed and the duplex mode reported for
  the link are those of the best mode both sides offer, exactly when that mode is not 100BASE-T4
  and, if it is a half duplex mode, the partner cannot do 1000BASE-T full duplex and, at 1000 Mb/s,
  no full duplex mode is common at a lower speed.\<close>

theorem gset_reports_best_mode:
  assumes "mdio_answers hw (MacBase g) ids" and "phy_id mii < 32"
    and "rr = (\<lambda>r. ucast (ids (phy_id mii) r))" and "rr MII_BMCR AND BMCR_ANENABLE \<noteq> 0"
    and "ctrl = gmii_id ids mii MII_CTRL1000" and "stat = gmii_id ids mii MII_STAT1000"
  shows "\<exists>ecmd' mii' s'. mii_ethtool_gset (mdio_read hw g) mii ecmd s = Inr (ecmd', mii', s') \<and>
    ((cmd_speed ecmd', cmd_duplex ecmd') = mode_value (resolved (rr MII_ADVERTISE) (rr MII_LPA) ctrl stat) \<longleftrightarrow>
       \<not> misjudged (rr MII_ADVERTISE) (rr MII_LPA) ctrl stat) \<and>
    full_duplex mii' = (cmd_duplex ecmd' = DUPLEX_FULL)"
proof -
  note rd = mdio_read_answers [OF assms(1,2)]
  obtain s1 where s1: "mdio_read hw g (phy_id mii) MII_ADVERTISE s = Inr (rr MII_ADVERTISE, s1)"
    using rd [OF mii_reg_less(3)] assms(3) by blast
  obtain s2 where s2: "gmii_read (mdio_read hw g) mii MII_CTRL1000 s1 = Inr (ctrl, s2)"
    using gmii_read_answers [OF assms(1,2) mii_reg_less(5)] assms(5) by blast
  obtain s3 where s3: "mdio_read hw g (phy_id mii) MII_BMCR s2 = Inr (rr MII_BMCR, s3)"
    using rd [OF mii_reg_less(1)] assms(3) by blast
  obtain s4 where s4: "mdio_read hw g (phy_id mii) MII_LPA s3 = Inr (rr MII_LPA, s4)"
    using rd [OF mii_reg_less(4)] assms(3) by blast
  obtain s5 where s5: "gmii_read (mdio_read hw g) mii MII_CTRL1000 s4 = Inr (ctrl, s5)"
    using gmii_read_answers [OF assms(1,2) mii_reg_less(5)] assms(5) by blast
  obtain s6 where s6: "gmii_read (mdio_read hw g) mii MII_STAT1000 s5 = Inr (stat, s6)"
    using gmii_read_answers [OF assms(1,2) mii_reg_less(6)] assms(6) by blast
  obtain speed duplex where
    n: "negotiated_mode (rr MII_ADVERTISE) (rr MII_LPA) ctrl stat = (speed, duplex)" by (metis surj_pair)
  show ?thesis
    using negotiated_mode_iff [of "rr MII_ADVERTISE" "rr MII_LPA" ctrl stat] assms(4)
    by (simp add: mii_ethtool_gset_def s1 s2 s3 s4 s5 s6 n Let_def)
qed

text \<open>A PHY with the given identifiers, an autonegotiated gigabit link.\<close>

definition gigabit_ids :: "u32 \<Rightarrow> u32 \<Rightarrow> u16" where
  "gigabit_ids p r = (if r = 0 then 0x1000 else if r = 4 then 0x01E1 else if r = 5 then 0x01E1
     else if r = 9 then 0x0300 else if r = 10 then 0x0C00 else 0)"

theorem gset_reports_best_mode_witness:
  "\<exists>ecmd' mii' s'. mii_ethtool_gset (mdio_read (mdio_sim 0x40040000 gigabit_ids) example_device)
      \<lparr>phy_id = 1, full_duplex = False, supports_gmii = True\<rparr>
      \<lparr>supported = 0, advertising = 0, cmd_speed = 0, cmd_duplex = 0, port = 0, phy_address = 0,
       transceiver = 0, autoneg = 0\<rparr> 0 = Inr (ecmd', mii', s') \<and>
    (cmd_speed ecmd', cmd_duplex ecmd') = mode_value Full1000 \<and> full_duplex mii'"
proof -
  let ?mii = "\<lparr>phy_id = 1, full_duplex = False, supports_gmii = True\<rparr> :: mii_if_info"
  let ?r = "\<lambda>r. ucast (gigabit_ids (phy_id ?mii) r) :: u32"
  have c: "gmii_id gigabit_ids ?mii MII_CTRL1000 = 0x300" "gmii_id gigabit_ids ?mii MII_STAT1000 = 0xC00"
    by (simp_all add: gmii_id_def gigabit_ids_def MII_CTRL1000_def MII_STAT1000_def)
  have "bit (0x300 :: u32) 9" "bit (0xC00 :: u32) 11" by (simp_all add: bit_iff_odd)
  then have f: "resolved a l 0x300 0xC00 = Full1000" for a l by (simp add: resolved_cases)
  have b: "?r MII_BMCR AND BMCR_ANENABLE \<noteq> 0"
    by (simp add: gigabit_ids_def MII_BMCR_def BMCR_ANENABLE_def)
  show ?thesis
    using gset_reports_best_mode [OF _ _ refl b c [symmetric], of "mdio_sim 0x40040000 gigabit_ids" example_device
        "\<lparr>supported = 0, advertising = 0, cmd_speed = 0, cmd_duplex = 0, port = 0, phy_address = 0,
          transceiver = 0, autoneg = 0\<rparr>" 0]
    by (auto simp: mdio_sim_answers f misjudged_def)
qed

section \<open>The link over time\<close>

text \<open>
  The contract of the hardware here: the PHY answers, with any values and different ones each time,
  and the accesses leave the configuration registers alone.
\<close>

definition phy_live :: "'s mmio32 \<Rightarrow> ('s \<Rightarrow> u64 \<Rightarrow> u32) \<Rightarrow> synopGMACdevice \<Rightarrow> bool" where
  "phy_live hw val g \<longleftrightarrow> (\<forall>s p r d. p < 32 \<longrightarrow> r < 32 \<longrightarrow>
     (\<exists>v s'. synopGMAC_read_phy_reg hw (MacBase g) p r d s = (0, Some v, s') \<and>
        (\<forall>b\<in>conf_area g. val s' b = val s b)))"

definition same_conf :: "('s \<Rightarrow> u64 \<Rightarrow> u32) \<Rightarrow> synopGMACdevice \<Rightarrow> 's \<Rightarrow> 's \<Rightarrow> bool" where
  "same_conf val g s s' \<longleftrightarrow> (\<forall>b\<in>conf_area g. val s' b = val s b)"

text \<open>A computation that ends, in a state with the same configuration registers.\<close>

definition quiet :: "('s \<Rightarrow> u64 \<Rightarrow> u32) \<Rightarrow> synopGMACdevice \<Rightarrow> 's \<Rightarrow> ('a \<times> 's) res \<Rightarrow> bool" where
  "quiet val g s m \<longleftrightarrow> (\<exists>v s'. m = Inr (v, s') \<and> same_conf val g s s')"

lemma same_conf_refl [simp]: "same_conf val g s s"
  by (simp add: same_conf_def)

lemma same_conf_trans: "same_conf val g s t \<Longrightarrow> same_conf val g t u \<Longrightarrow> same_conf val g s u"
  by (simp add: same_conf_def)

lemma quiet_Inr [simp]: "quiet val g s (Inr (v, s)) "
  by (auto simp: quiet_def)

lemma quiet_bind:
  assumes "quiet val g t m" and "same_conf val g s t"
    and "\<And>v s'. same_conf val g s s' \<Longrightarrow> P (f (v, s'))"
  shows "P (rbind m f)"
  using assms same_conf_trans unfolding quiet_def by (metis rbind_simps(2))

lemma mdio_read_quiet:
  assumes "phy_live hw val g" and "p < 32" and "r < 32"
  shows "quiet val g s (mdio_read hw g p r s)"
proof -
  obtain v s' where "synopGMAC_read_phy_reg hw (MacBase g) p r None s = (0, Some v, s')"
    "\<forall>b\<in>conf_area g. val s' b = val s b"
    using assms unfolding phy_live_def by blast
  then show ?thesis by (simp add: mdio_read_def quiet_def same_conf_def)
qed

lemma gmii_read_quiet:
  assumes "phy_live hw val g" and "phy_id mii < 32" and "r < 32"
  shows "quiet val g s (gmii_read (mdio_read hw g) mii r s)"
  using mdio_read_quiet [OF assms] by (simp add: gmii_read_def)

lemma link_ok_quiet:
  assumes "phy_live hw val g" and "phy_id mii < 32"
  shows "quiet val g s (mii_link_ok (mdio_read hw g) mii s)"
  unfolding mii_link_ok_def
  apply (rule quiet_bind [OF mdio_read_quiet [OF assms mii_reg_less(2)] same_conf_refl], simp)
  apply (rule quiet_bind [OF mdio_read_quiet [OF assms mii_reg_less(2)]], assumption, simp)
  apply (simp add: quiet_def)
  done

lemma gset_quiet:
  assumes "phy_live hw val g" and "phy_id mii < 32"
  shows "\<exists>e m s'. mii_ethtool_gset (mdio_read hw g) mii ecmd s = Inr (e, m, s') \<and>
    phy_id m = phy_id mii \<and> same_conf val g s s'"
  unfolding mii_ethtool_gset_def
  apply (rule quiet_bind [OF mdio_read_quiet [OF assms mii_reg_less(3)] same_conf_refl], simp)
  apply (rule quiet_bind [OF gmii_read_quiet [OF assms mii_reg_less(5)]], assumption, simp)
  apply (rule quiet_bind [OF mdio_read_quiet [OF assms mii_reg_less(1)]], assumption, simp)
  apply (rule quiet_bind [OF mdio_read_quiet [OF assms mii_reg_less(4)]], assumption, simp)
  apply (rule quiet_bind [OF gmii_read_quiet [OF assms mii_reg_less(5)]], assumption, simp)
  apply (rule quiet_bind [OF gmii_read_quiet [OF assms mii_reg_less(6)]], assumption)
  apply (simp add: Let_def split_beta)
  done

text \<open>
  Any number of runs of the timer function, with the duplex mode and the speed of each run that
  programmed the MAC: it leaves another link code and a speed (a run without a link leaves none).
\<close>

definition reprogrammed :: "gmac_adapter \<Rightarrow> gmac_adapter \<Rightarrow> bool" where
  "reprogrammed a a' \<longleftrightarrow>
     LinkState (gmacdev a') \<noteq> LinkState (gmacdev a) \<and> Speed (gmacdev a') \<noteq> 0"

inductive link_history ::
    "'s mmio32 \<Rightarrow> gmac_adapter \<Rightarrow> 's \<Rightarrow> (u32 \<times> u32) list \<Rightarrow> gmac_adapter \<Rightarrow> 's \<Rightarrow> bool" for hw a s where
  no_tick: "link_history hw a s [] a s"
| tick: "link_history hw a s ms a1 s1 \<Longrightarrow>
    synopGMAC_linux_cable_unplug_function hw cmd a1 s1 = Inr (a2, s2) \<Longrightarrow>
    ms' = (if reprogrammed a1 a2 then ms @ [(DuplexMode (gmacdev a2), Speed (gmacdev a2))] else ms) \<Longrightarrow>
    link_history hw a s ms' a2 s2"

text \<open>The three registers of the MAC after a history: each programming works on what the one
  before it left.\<close>

definition regs_after ::
    "('s \<Rightarrow> u64 \<Rightarrow> u32) \<Rightarrow> synopGMACdevice \<Rightarrow> 's \<Rightarrow> (u32 \<times> u32) list \<Rightarrow> 's \<Rightarrow> bool" where
  "regs_after val g s ms t \<longleftrightarrow>
     val t (MacBase g + ucast GmacConfig) =
       foldl (\<lambda>c (d, v). config_of d v c) (val s (MacBase g + ucast GmacConfig)) ms \<and>
     val t (MacBase g + ucast GmacFrameFilter) =
       foldl (\<lambda>f (d, v). filter_of d f) (val s (MacBase g + ucast GmacFrameFilter)) ms \<and>
     val t (MacBase g + ucast GmacFlowControl) =
       foldl (\<lambda>f (d, v). flow_of d f) (val s (MacBase g + ucast GmacFlowControl)) ms"

text \<open>The device structure with a link: the last mode the MAC was programmed for, and its code.\<close>

definition link_known :: "(u32 \<times> u32) list \<Rightarrow> synopGMACdevice \<Rightarrow> bool" where
  "link_known ms g \<longleftrightarrow> (\<exists>ms' d v. ms = ms' @ [(d, v)] \<and>
     d \<in> {HALFDUPLEX, FULLDUPLEX} \<and> v \<in> {SPEED10, SPEED100, SPEED1000} \<and>
     LinkState g = v OR push_bit 4 d \<and> DuplexMode g = d \<and> Speed g = v)"

lemma regs_after_same:
  "regs_after val g s ms t \<Longrightarrow> same_conf val g t u \<Longrightarrow> regs_after val g s ms u"
  by (simp add: regs_after_def same_conf_def)

lemma regs_after_init:
  assumes "plain_regs hw val (conf_area g)" and "DmaBase g = MacBase g + 0x1000"
    and "regs_after val g s ms t"
  shows "regs_after val g s (ms @ [(DuplexMode g, Speed g)]) (synopGMAC_mac_init hw g t)"
  using assms(3) mac_init_registers [OF assms(1,2), of t] by (simp add: regs_after_def)

lemma regs_after_cong: "MacBase g = MacBase g' \<Longrightarrow> regs_after val g s ms t = regs_after val g' s ms t"
  by (simp add: regs_after_def)

text \<open>The bits of the configuration register that select the mode; the one for 100 Mb/s is never
  cleared.\<close>

lemma config_of_mode:
  "config_of d v c AND GmacDuplex = 0 \<longleftrightarrow> d \<noteq> FULLDUPLEX"
  "config_of d v c AND GmacMiiGmii = 0 \<longleftrightarrow> v = SPEED1000"
  "config_of d v c AND GmacFESpeed100 = 0 \<longleftrightarrow> v \<noteq> SPEED100 \<and> c AND GmacFESpeed100 = 0"
proof -
  show "config_of d v c AND GmacDuplex = 0 \<longleftrightarrow> d \<noteq> FULLDUPLEX"
    and "config_of d v c AND GmacMiiGmii = 0 \<longleftrightarrow> v = SPEED1000"
    by (simp_all only: config_fields, (subst fields_mask; simp add: mac_bits)+)
  show "config_of d v c AND GmacFESpeed100 = 0 \<longleftrightarrow> v \<noteq> SPEED100 \<and> c AND GmacFESpeed100 = 0"
  proof (cases "v = SPEED100")
    case True
    then show ?thesis using config_of_speed(2) [of d c] by (simp add: mac_bits)
  next
    case False
    then have "config_of d v c AND GmacFESpeed100 = c AND GmacFESpeed100"
      unfolding config_fields by (intro fields_other) (simp_all add: mac_bits)
    with False show ?thesis by simp
  qed
qed

lemma fast_bit_after:
  "foldl (\<lambda>c (d, v). config_of d v c) c ms AND GmacFESpeed100 \<noteq> 0 \<longleftrightarrow>
     c AND GmacFESpeed100 \<noteq> 0 \<or> SPEED100 \<in> snd ` set ms"
  by (induction ms rule: rev_induct) (auto simp: config_of_mode)

text \<open>The link code: 0 without a link, and different codes for different modes.\<close>

lemma link_code_inj:
  assumes "d \<in> {HALFDUPLEX, FULLDUPLEX}" "d' \<in> {HALFDUPLEX, FULLDUPLEX}"
    and "v \<in> {SPEED10, SPEED100, SPEED1000}" "v' \<in> {SPEED10, SPEED100, SPEED1000}"
    and "v OR push_bit 4 d = v' OR push_bit 4 d'"
  shows "d = d' \<and> v = v'"
  using assms by (auto simp: link_modes)

lemma link_code_nonzero:
  "v \<in> {SPEED10, SPEED100, SPEED1000} \<Longrightarrow> d \<in> {HALFDUPLEX, FULLDUPLEX} \<Longrightarrow> v OR push_bit 4 d \<noteq> 0"
  by (auto simp: link_modes)

text \<open>What every step keeps of the adapter.\<close>

definition same_device :: "gmac_adapter \<Rightarrow> gmac_adapter \<Rightarrow> bool" where
  "same_device a a' \<longleftrightarrow> MacBase (gmacdev a') = MacBase (gmacdev a) \<and>
     DmaBase (gmacdev a') = DmaBase (gmacdev a) \<and> phy_id (mii_info a') = phy_id (mii_info a)"

lemma conf_area_cong: "MacBase g = MacBase g' \<Longrightarrow> DmaBase g = DmaBase g' \<Longrightarrow> conf_area g = conf_area g'"
  by (simp add: conf_area_def)

lemma check_phy_init_result:
  assumes "phy_live hw val (gmacdev a)" and "phy_id (mii_info a) < 32"
  shows "\<exists>data a' s'. synopGMAC_check_phy_init hw cmd a s = Inr (data, a', s') \<and>
    same_conf val (gmacdev a) s s' \<and> same_device a a' \<and>
    LinkState (gmacdev a') = LinkState (gmacdev a) \<and>
    (data = 0 \<and> DuplexMode (gmacdev a') = FULLDUPLEX \<and> Speed (gmacdev a') = SPEED100 \<or>
     (\<exists>duplex\<in>{HALFDUPLEX, FULLDUPLEX}. \<exists>speed\<in>{SPEED10, SPEED100, SPEED1000}.
        data = speed OR push_bit 4 duplex \<and>
        DuplexMode (gmacdev a') = duplex \<and> Speed (gmacdev a') = speed))"
proof -
  obtain ok s1 where s1: "mii_link_ok (mdio_read hw (gmacdev a)) (mii_info a) s = Inr (ok, s1)"
    "same_conf val (gmacdev a) s s1"
    using link_ok_quiet [OF assms] unfolding quiet_def by blast
  show ?thesis
  proof (cases ok)
    case False
    then show ?thesis
      using s1 by (simp add: synopGMAC_check_phy_init_def Let_def same_device_def)
  next
    case True
    obtain e m s2 where s2: "mii_ethtool_gset (mdio_read hw (gmacdev a)) (mii_info a) cmd s1 = Inr (e, m, s2)"
      "phy_id m = phy_id (mii_info a)" "same_conf val (gmacdev a) s1 s2"
      using gset_quiet [OF assms] by blast
    have "same_conf val (gmacdev a) s s2" using s1(2) s2(3) by (rule same_conf_trans)
    then show ?thesis
      using True s1(1) s2(1,2) by (simp add: synopGMAC_check_phy_init_def Let_def same_device_def)
  qed
qed

text \<open>What \<open>synopGMAC_check_phy_init\<close> leaves: the code of the link and the mode it stands for.\<close>

definition mode_found :: "u32 \<Rightarrow> synopGMACdevice \<Rightarrow> bool" where
  "mode_found data g \<longleftrightarrow> data = 0 \<and> DuplexMode g = FULLDUPLEX \<and> Speed g = SPEED100 \<or>
     (\<exists>duplex\<in>{HALFDUPLEX, FULLDUPLEX}. \<exists>speed\<in>{SPEED10, SPEED100, SPEED1000}.
        data = speed OR push_bit 4 duplex \<and> DuplexMode g = duplex \<and> Speed g = speed)"

lemma mode_foundE:
  assumes "mode_found data g" and "data \<noteq> 0"
  obtains duplex speed where "duplex \<in> {HALFDUPLEX, FULLDUPLEX}" and "speed \<in> {SPEED10, SPEED100, SPEED1000}"
    and "data = speed OR push_bit 4 duplex" and "DuplexMode g = duplex" and "Speed g = speed"
  using assms unfolding mode_found_def by blast

lemma mode_found_speed: "mode_found data g \<Longrightarrow> Speed g \<noteq> 0"
  by (auto simp: mode_found_def link_modes)

text \<open>One run: the link is lost, or its code is the recorded one, or the MAC is programmed.\<close>

lemma tick_cases:
  assumes "phy_live hw val (gmacdev a)" and "phy_id (mii_info a) < 32"
  obtains
    (down) a' s' where "synopGMAC_linux_cable_unplug_function hw cmd a s = Inr (a', s')"
      "same_conf val (gmacdev a) s s'" "same_device a a'" "LinkState (gmacdev a') = 0" "Speed (gmacdev a') = 0"
  | (same) a' s' where "synopGMAC_linux_cable_unplug_function hw cmd a s = Inr (a', s')"
      "same_conf val (gmacdev a) s s'" "same_device a a'"
      "LinkState (gmacdev a') = LinkState (gmacdev a)" "mode_found (LinkState (gmacdev a')) (gmacdev a')"
  | (new) a' s' where "synopGMAC_linux_cable_unplug_function hw cmd a s =
        Inr (a', synopGMAC_mac_init hw (gmacdev a') s')"
      "same_conf val (gmacdev a) s s'" "same_device a a'"
      "LinkState (gmacdev a') \<noteq> LinkState (gmacdev a)" "mode_found (LinkState (gmacdev a')) (gmacdev a')"
proof -
  obtain ok s1 where s1: "mii_link_ok (mdio_read hw (gmacdev a)) (mii_info a) s = Inr (ok, s1)"
    "same_conf val (gmacdev a) s s1"
    using link_ok_quiet [OF assms] unfolding quiet_def by blast
  obtain data b s2 where s2: "synopGMAC_check_phy_init hw cmd a s1 = Inr (data, b, s2)"
    "same_conf val (gmacdev a) s1 s2" "same_device a b" "LinkState (gmacdev b) = LinkState (gmacdev a)"
    "mode_found data (gmacdev b)"
    using check_phy_init_result [OF assms, of cmd s1, folded mode_found_def] by (elim exE conjE) (rule that)
  have conf: "same_conf val (gmacdev a) s s2" using s1(2) s2(2) by (rule same_conf_trans)
  consider "\<not> ok" | "ok" "LinkState (gmacdev b) = data" | "ok" "LinkState (gmacdev b) \<noteq> data" by blast
  then show thesis
  proof cases
    case 1
    let ?a = "a\<lparr>gmacdev := (gmacdev a)\<lparr>DuplexMode := 0, Speed := 0, LoopBackMode := 0, LinkState := 0\<rparr>\<rparr>"
    have "synopGMAC_linux_cable_unplug_function hw cmd a s = Inr (?a, s1)"
      using 1 s1 by (simp add: synopGMAC_linux_cable_unplug_function_def)
    then show thesis using s1(2) by (rule down) (simp_all add: same_device_def)
  next
    case 2
    then have "synopGMAC_linux_cable_unplug_function hw cmd a s = Inr (b, s2)"
      using s1 s2(1) by (simp add: synopGMAC_linux_cable_unplug_function_def)
    then show thesis using same conf s2(3-5) 2 by blast
  next
    case 3
    let ?b = "b\<lparr>gmacdev := (gmacdev b)\<lparr>LinkState := data\<rparr>\<rparr>"
    have "synopGMAC_linux_cable_unplug_function hw cmd a s = Inr (?b, synopGMAC_mac_init hw (gmacdev ?b) s2)"
      using s1 s2(1) 3 by (simp add: synopGMAC_linux_cable_unplug_function_def Let_def)
    moreover have "same_device a ?b" using s2(3) by (simp add: same_device_def)
    moreover have "LinkState (gmacdev ?b) \<noteq> LinkState (gmacdev a)" using 3(2) s2(4) by auto
    moreover have "mode_found (LinkState (gmacdev ?b)) (gmacdev ?b)" using s2(5) by (simp add: mode_found_def)
    ultimately show thesis using conf by (intro new [of ?b s2])
  qed
qed

lemma link_known_found:
  assumes "mode_found (LinkState g) g" and "LinkState g \<noteq> 0"
  shows "link_known (ms @ [(DuplexMode g, Speed g)]) g"
proof -
  obtain d v where "d \<in> {HALFDUPLEX, FULLDUPLEX}" "v \<in> {SPEED10, SPEED100, SPEED1000}"
    "LinkState g = v OR push_bit 4 d" "DuplexMode g = d" "Speed g = v"
    by (rule mode_foundE [OF assms])
  then show ?thesis by (simp add: link_known_def)
qed

lemma link_known_kept:
  assumes "link_known ms g" and "LinkState g' = LinkState g" and "mode_found (LinkState g') g'"
    and "LinkState g' \<noteq> 0"
  shows "link_known ms g'"
proof -
  obtain ms' d v where o: "ms = ms' @ [(d, v)]" "d \<in> {HALFDUPLEX, FULLDUPLEX}"
    "v \<in> {SPEED10, SPEED100, SPEED1000}" "LinkState g = v OR push_bit 4 d"
    using assms(1) unfolding link_known_def by blast
  obtain d' v' where n: "d' \<in> {HALFDUPLEX, FULLDUPLEX}" "v' \<in> {SPEED10, SPEED100, SPEED1000}"
    "LinkState g' = v' OR push_bit 4 d'" "DuplexMode g' = d'" "Speed g' = v'"
    by (rule mode_foundE [OF assms(3,4)])
  have "d' = d \<and> v' = v"
    using n(1-3) o(2-4) assms(2) by (intro link_code_inj) simp_all
  then show ?thesis unfolding link_known_def using n o(1) by blast
qed

text \<open>What holds after any number of runs.\<close>

definition link_inv ::
    "('s \<Rightarrow> u64 \<Rightarrow> u32) \<Rightarrow> gmac_adapter \<Rightarrow> 's \<Rightarrow> (u32 \<times> u32) list \<Rightarrow> gmac_adapter \<Rightarrow> 's \<Rightarrow> bool" where
  "link_inv val a s ms a1 s1 \<longleftrightarrow> same_device a a1 \<and> regs_after val (gmacdev a) s ms s1 \<and>
     (LinkState (gmacdev a1) \<noteq> 0 \<longrightarrow> link_known ms (gmacdev a1))"

lemma tick_inv:
  assumes hw: "phy_live hw val (gmacdev a1)" "plain_regs hw val (conf_area (gmacdev a1))"
    and dev: "phy_id (mii_info a1) < 32" "DmaBase (gmacdev a1) = MacBase (gmacdev a1) + 0x1000"
    and inv: "link_inv val a s ms a1 s1"
  shows "\<exists>a2 s2. synopGMAC_linux_cable_unplug_function hw cmd a1 s1 = Inr (a2, s2) \<and>
    link_inv val a s (if reprogrammed a1 a2 then ms @ [(DuplexMode (gmacdev a2), Speed (gmacdev a2))] else ms) a2 s2"
proof -
  have base: "MacBase (gmacdev a1) = MacBase (gmacdev a)" using inv by (simp add: link_inv_def same_device_def)
  have regs: "regs_after val (gmacdev a) s ms t" if "same_conf val (gmacdev a1) s1 t" for t
    using regs_after_same [OF _ that] inv regs_after_cong [OF base, of val s ms]
    unfolding link_inv_def by blast
  have dev': "same_device a1 b \<Longrightarrow> same_device a b" for b
    using inv by (simp add: link_inv_def same_device_def)
  show ?thesis
  proof (rule tick_cases [OF hw(1) dev(1), of cmd s1])
    fix a2 s2
    assume "synopGMAC_linux_cable_unplug_function hw cmd a1 s1 = Inr (a2, s2)"
      "same_conf val (gmacdev a1) s1 s2" "same_device a1 a2" "LinkState (gmacdev a2) = 0" "Speed (gmacdev a2) = 0"
    then show ?thesis using regs dev' by (simp add: link_inv_def reprogrammed_def)
  next
    fix a2 s2
    assume t: "synopGMAC_linux_cable_unplug_function hw cmd a1 s1 = Inr (a2, s2)"
      "same_conf val (gmacdev a1) s1 s2" "same_device a1 a2"
      "LinkState (gmacdev a2) = LinkState (gmacdev a1)" "mode_found (LinkState (gmacdev a2)) (gmacdev a2)"
    then show ?thesis
      using regs dev' inv link_known_kept [of ms "gmacdev a1" "gmacdev a2"]
      by (simp add: link_inv_def reprogrammed_def)
  next
    fix a2 s2
    assume t: "synopGMAC_linux_cable_unplug_function hw cmd a1 s1 =
        Inr (a2, synopGMAC_mac_init hw (gmacdev a2) s2)"
      "same_conf val (gmacdev a1) s1 s2" "same_device a1 a2"
      "LinkState (gmacdev a2) \<noteq> LinkState (gmacdev a1)" "mode_found (LinkState (gmacdev a2)) (gmacdev a2)"
    have g: "MacBase (gmacdev a2) = MacBase (gmacdev a1)" "DmaBase (gmacdev a2) = DmaBase (gmacdev a1)"
      using t(3) by (simp_all add: same_device_def)
    have "regs_after val (gmacdev a2) s ms s2"
      using regs [OF t(2)] regs_after_cong [of "gmacdev a2" "gmacdev a" val s ms s2] g base by simp
    then have "regs_after val (gmacdev a2) s (ms @ [(DuplexMode (gmacdev a2), Speed (gmacdev a2))])
        (synopGMAC_mac_init hw (gmacdev a2) s2)"
      using hw(2) dev(2) conf_area_cong [OF g] g by (intro regs_after_init) simp_all
    then show ?thesis
      using t dev' mode_found_speed [OF t(5)] link_known_found [OF t(5)] g base
        regs_after_cong [of "gmacdev a2" "gmacdev a" val s]
      by (simp add: link_inv_def reprogrammed_def)
  qed
qed

lemma phy_live_cong: "MacBase g = MacBase g' \<Longrightarrow> DmaBase g = DmaBase g' \<Longrightarrow> phy_live hw val g = phy_live hw val g'"
  by (simp add: phy_live_def conf_area_def)

lemma history_inv:
  assumes "phy_live hw val (gmacdev a)" and "plain_regs hw val (conf_area (gmacdev a))"
    and "phy_id (mii_info a) < 32" and "DmaBase (gmacdev a) = MacBase (gmacdev a) + 0x1000"
    and "LinkState (gmacdev a) = 0" and "link_history hw a s ms a1 s1"
  shows "link_inv val a s ms a1 s1" and
    "\<exists>a2 s2. synopGMAC_linux_cable_unplug_function hw cmd a1 s1 = Inr (a2, s2)"
proof -
  have step: "\<exists>a3 s3. synopGMAC_linux_cable_unplug_function hw cmd a2 s2 = Inr (a3, s3) \<and>
    link_inv val a s (if reprogrammed a2 a3 then ms @ [(DuplexMode (gmacdev a3), Speed (gmacdev a3))] else ms) a3 s3"
    if "link_inv val a s ms a2 s2" for ms a2 s2 cmd
  proof -
    have d: "MacBase (gmacdev a2) = MacBase (gmacdev a)" "DmaBase (gmacdev a2) = DmaBase (gmacdev a)"
      "phy_id (mii_info a2) = phy_id (mii_info a)" using that by (simp_all add: link_inv_def same_device_def)
    show ?thesis
      using assms(1-4) d phy_live_cong [OF d(1,2), of hw val] conf_area_cong [OF d(1,2)] that
      by (intro tick_inv) simp_all
  qed
  show inv: "link_inv val a s ms a1 s1"
    using assms(6)
  proof (induction rule: link_history.induct)
    case no_tick
    then show ?case using assms(5) by (simp add: link_inv_def same_device_def regs_after_def)
  next
    case (tick ms a1 s1 cmd a2 s2 ms')
    from step [OF tick.IH, of cmd] tick.hyps(2,3) show ?case by auto
  qed
  from step [OF this] show "\<exists>a2 s2. synopGMAC_linux_cable_unplug_function hw cmd a1 s1 = Inr (a2, s2)"
    by blast
qed

text \<open>C13. Starting with no link, any number of runs of the link timer on a PHY that answers, whatever
  it answers, ends without a fault. The three registers of the MAC hold what the modes programmed
  so far make of their first values. While there is a link the device structure records the
  last of these modes, the link code is its code, and the duplex and port bits of the
  configuration register are those of the mode; but its 100 Mb/s bit is set exactly when it
  was set at first or any mode so far had 100 Mb/s: a link that falls back to 10 Mb/s is then
  still run at 100 Mb/s.\<close>

theorem link_stays_synced:
  assumes "phy_live hw val (gmacdev a)" and "plain_regs hw val (conf_area (gmacdev a))"
    and "phy_id (mii_info a) < 32" and "DmaBase (gmacdev a) = MacBase (gmacdev a) + 0x1000"
    and "LinkState (gmacdev a) = 0" and "link_history hw a s ms a1 s1"
    and "r = MacBase (gmacdev a) + ucast GmacConfig"
  shows "regs_after val (gmacdev a) s ms s1 \<and>
    (LinkState (gmacdev a1) \<noteq> 0 \<longrightarrow> link_known ms (gmacdev a1) \<and>
       (val s1 r AND GmacDuplex \<noteq> 0 \<longleftrightarrow> DuplexMode (gmacdev a1) = FULLDUPLEX) \<and>
       (val s1 r AND GmacMiiGmii \<noteq> 0 \<longleftrightarrow> Speed (gmacdev a1) \<noteq> SPEED1000)) \<and>
    (val s1 r AND GmacFESpeed100 \<noteq> 0 \<longleftrightarrow> val s r AND GmacFESpeed100 \<noteq> 0 \<or> SPEED100 \<in> snd ` set ms) \<and>
    (\<exists>a2 s2. synopGMAC_linux_cable_unplug_function hw cmd a1 s1 = Inr (a2, s2))"
proof -
  have inv: "regs_after val (gmacdev a) s ms s1" "LinkState (gmacdev a1) \<noteq> 0 \<Longrightarrow> link_known ms (gmacdev a1)"
    using history_inv(1) [OF assms(1-6)] by (simp_all add: link_inv_def)
  have r: "val s1 r = foldl (\<lambda>c (d, v). config_of d v c) (val s r) ms"
    using inv(1) by (simp add: regs_after_def assms(7))
  have "(val s1 r AND GmacDuplex \<noteq> 0 \<longleftrightarrow> DuplexMode (gmacdev a1) = FULLDUPLEX) \<and>
      (val s1 r AND GmacMiiGmii \<noteq> 0 \<longleftrightarrow> Speed (gmacdev a1) \<noteq> SPEED1000)" if "LinkState (gmacdev a1) \<noteq> 0"
    using inv(2) [OF that] by (auto simp: link_known_def r config_of_mode)
  then show ?thesis
    using inv history_inv(2) [OF assms(1-6)] fast_bit_after [of "val s r" ms] by (simp add: r)
qed

text \<open>A controller with the registers of memory and a management interface that is never busy.\<close>

definition quick_gmac :: "u64 \<Rightarrow> (u64 \<Rightarrow> u32) mmio32" where
  "quick_gmac base = \<lparr>
     read32 = (\<lambda>a s. (if a = base + ucast GmacGmiiAddr then s a AND NOT GmiiBusy else s a, s)),
     write32 = (\<lambda>a v s. s(a := v))\<rparr>"

lemma example_conf_area:
  "conf_area example_device = {0x40040000, 0x40040004, 0x40040018, 0x40041018}"
  by (simp add: conf_area_def reg_offsets)

lemma quick_gmac_plain: "plain_regs (quick_gmac 0x40040000) (\<lambda>s. s) (conf_area example_device)"
  by (simp add: plain_regs_def example_conf_area quick_gmac_def GmacGmiiAddr_def)

lemma quick_gmac_live: "phy_live (quick_gmac 0x40040000) (\<lambda>s. s) example_device"
proof -
  let ?hw = "quick_gmac 0x40040000"
  have b: "busy_wait ?hw 0x40040000 GmacGmiiAddr GmiiBusy 0 t = (0, t)" for t
    by (subst busy_wait.simps)
      (simp add: DEFAULT_LOOP_VARIABLE_def synopGMACReadReg_def quick_gmac_def and.assoc)
  show ?thesis
    unfolding phy_live_def
    by (simp add: synopGMAC_read_phy_reg_def Let_def b DEFAULT_LOOP_VARIABLE_def)
      (simp add: synopGMACReadReg_def synopGMACWriteReg_def quick_gmac_def example_conf_area
        GmacGmiiAddr_def GmacGmiiData_def)
qed

theorem link_stays_synced_witness:
  "\<forall>cmd. \<exists>ms a2 s2. synopGMAC_linux_cable_unplug_function (quick_gmac 0x40040000) cmd
      \<lparr>gmacdev = example_device, mii_info = \<lparr>phy_id = 1, full_duplex = False, supports_gmii = False\<rparr>\<rparr>
      (\<lambda>_. 0x1FFF) = Inr (a2, s2) \<and>
    regs_after (\<lambda>s. s) example_device (\<lambda>_. 0x1FFF) ms s2 \<and>
    (s2 (0x40040000 + ucast GmacConfig) AND GmacFESpeed100 \<noteq> 0 \<longleftrightarrow> SPEED100 \<in> snd ` set ms)"
proof
  fix cmd
  let ?hw = "quick_gmac 0x40040000" and ?a = "\<lparr>gmacdev = example_device,
    mii_info = \<lparr>phy_id = 1, full_duplex = False, supports_gmii = False\<rparr>\<rparr> :: gmac_adapter"
  let ?r = "MacBase (gmacdev ?a) + ucast GmacConfig"
  have h: "phy_live ?hw (\<lambda>s. s) (gmacdev ?a)" "plain_regs ?hw (\<lambda>s. s) (conf_area (gmacdev ?a))"
    "phy_id (mii_info ?a) < 32" "DmaBase (gmacdev ?a) = MacBase (gmacdev ?a) + 0x1000"
    "LinkState (gmacdev ?a) = 0"
    using quick_gmac_live quick_gmac_plain by (simp_all add: example_device_def)
  obtain a2 s2 where t: "synopGMAC_linux_cable_unplug_function ?hw cmd ?a (\<lambda>_. 0x1FFF) = Inr (a2, s2)"
    using link_stays_synced [OF h no_tick refl, of "\<lambda>_. 0x1FFF" cmd] by blast
  note f = link_stays_synced [OF h tick [OF no_tick t refl] refl]
  have "MacBase example_device = 0x40040000" by (simp add: example_device_def)
  then show "\<exists>ms a2 s2. synopGMAC_linux_cable_unplug_function ?hw cmd ?a (\<lambda>_. 0x1FFF) = Inr (a2, s2) \<and>
      regs_after (\<lambda>s. s) example_device (\<lambda>_. 0x1FFF) ms s2 \<and>
      (s2 (0x40040000 + ucast GmacConfig) AND GmacFESpeed100 \<noteq> 0 \<longleftrightarrow> SPEED100 \<in> snd ` set ms)"
    using t f by (intro exI [of _ "if reprogrammed ?a a2 then [] @ [(DuplexMode (gmacdev a2), Speed (gmacdev a2))] else []"]
      exI [of _ a2] exI [of _ s2]) (simp add: GmacFESpeed100_def)
qed

end
