(* ===== verification/Gmac_Ring.thy ===== *)
theory Gmac_Ring
  imports Gmac_Desc
begin

unbundle bit_operations_syntax

text \<open>
  The descriptor rings as queues. A ring is well formed when its indices and pointers agree, its
  last descriptor and no other carries the end mark, and exactly the descriptors between the busy
  and the next one hold buffers; its abstraction is the list of those. Both directions are
  instances of one interface: what marks the end of a ring, and how a descriptor is cleared.
\<close>

section \<open>Addresses of descriptors\<close>

lemma desc_at_inj:
  assumes "desc_at p i = desc_at p j" and "i < 2 ^ 31" and "j < 2 ^ 31"
  shows "i = j"
proof -
  have u: "unat (word_of_nat (32 * k) :: u64) = 32 * k" if "k < 2 ^ 31" for k
    using that by (simp only: unat_of_nat) (simp add: take_bit_nat_eq_self)
  have "(word_of_nat (32 * i) :: u64) = word_of_nat (32 * j)"
    using assms(1) by (simp add: desc_at_def)
  then have "32 * i = 32 * j" by (metis u assms(2,3))
  then show ?thesis by simp
qed

lemma desc_at_0 [simp]: "desc_at p 0 = p"
  by (simp add: desc_at_def)

lemma desc_at_Suc: "desc_at p i + 32 = desc_at p (Suc i)"
  by (simp add: desc_at_def algebra_simps)

lemma word_succ_eq:
  assumes "unat (a :: u32) < n" and "n < 2 ^ 31"
  shows "unat (a + 1) = Suc (unat a)" and "sint a = int (unat a)"
proof -
  have "unat (a + 1) = (unat a + 1) mod 2 ^ 32" by (simp add: unat_word_ariths)
  also have "\<dots> = Suc (unat a)" using assms by simp
  finally show "unat (a + 1) = Suc (unat a)" .
  have "sint a = to_int32 (unat a)" by (simp add: to_int32_def)
  also have "\<dots> = int (unat a)" using assms by (intro to_int32_small) linarith
  finally show "sint a = int (unat a)" .
qed

section \<open>Rings\<close>

record ring =
  base :: u64
  count :: nat
  next_i :: nat
  next_p :: u64
  busy_i :: nat
  busy_p :: u64
  used :: nat

definition slot :: "ring \<Rightarrow> nat \<Rightarrow> nat" where
  "slot r j = (busy_i r + j) mod count r"

definition advance :: "ring \<Rightarrow> nat \<Rightarrow> nat" where
  "advance r i = (if i = count r - 1 then 0 else Suc i)"

text \<open>The shape of a ring: indices, pointers and count agree.\<close>

definition ring_shape :: "ring \<Rightarrow> bool" where
  "ring_shape r \<longleftrightarrow> 0 < count r \<and> count r < 2 ^ 31 \<and> busy_i r < count r \<and> used r \<le> count r
     \<and> next_i r = slot r (used r)
     \<and> next_p r = desc_at (base r) (next_i r) \<and> busy_p r = desc_at (base r) (busy_i r)"

definition desc_of :: "desc_mem \<Rightarrow> ring \<Rightarrow> nat \<Rightarrow> DmaDesc" where
  "desc_of m r i = the (m (desc_at (base r) i))"

text \<open>The descriptors that hold a buffer, oldest first.\<close>

definition queue :: "desc_mem \<Rightarrow> ring \<Rightarrow> DmaDesc list" where
  "queue m r = map (\<lambda>j. desc_of m r (slot r j)) [0..<used r]"

definition put_ring :: "ring \<Rightarrow> ring" where
  "put_ring r = r\<lparr>next_i := advance r (next_i r), next_p := desc_at (base r) (advance r (next_i r)),
     used := Suc (used r)\<rparr>"

definition take_ring :: "ring \<Rightarrow> ring" where
  "take_ring r = r\<lparr>busy_i := advance r (busy_i r), busy_p := desc_at (base r) (advance r (busy_i r)),
     used := used r - 1\<rparr>"

lemma advance_mod: "i < count r \<Longrightarrow> advance r i = Suc i mod count r"
  by (auto simp: advance_def)

lemma slot_less [simp]: "0 < count r \<Longrightarrow> slot r j < count r"
  by (simp add: slot_def)

lemma mod_add_inj:
  "(b + j) mod n = (b + k) mod n \<Longrightarrow> j \<le> k \<Longrightarrow> k < n \<Longrightarrow> j = (k :: nat)"
proof -
  assume h: "(b + j) mod n = (b + k) mod n" "j \<le> k" "k < n"
  then have "n dvd (b + k) - (b + j)"
    using mod_eq_dvd_iff_nat [of "b + j" "b + k" n] by simp
  then have "n dvd k - j" by simp
  with h(3) have "k - j = 0" by (metis less_imp_diff_less nat_dvd_not_less neq0_conv)
  with h(2) show "j = k" by simp
qed

lemma slot_inj: "slot r j = slot r k \<Longrightarrow> j < count r \<Longrightarrow> k < count r \<Longrightarrow> j = k"
  unfolding slot_def by (metis mod_add_inj nat_le_linear)

lemma slot_take:
  assumes "busy_i r < count r"
  shows "slot (take_ring r) j = slot r (Suc j)"
  using assms by (simp add: slot_def take_ring_def advance_mod mod_add_left_eq)

lemma slot_put [simp]: "slot (put_ring r) j = slot r j"
  by (simp add: slot_def put_ring_def)

lemma ring_shape_next: "ring_shape r \<Longrightarrow> next_i r < count r"
  by (simp add: ring_shape_def)

lemma ring_shape_put: "ring_shape r \<Longrightarrow> used r < count r \<Longrightarrow> ring_shape (put_ring r)"
  by (simp add: ring_shape_def advance_mod)
    (simp add: put_ring_def slot_def advance_mod mod_Suc_eq)

lemma ring_shape_take: "ring_shape r \<Longrightarrow> 0 < used r \<Longrightarrow> ring_shape (take_ring r)"
proof -
  assume r: "ring_shape r" and u: "0 < used r"
  then have "slot (take_ring r) (used r - 1) = slot r (used r)"
    by (subst slot_take) (simp_all add: ring_shape_def)
  moreover have "advance r (busy_i r) < count r" using r by (auto simp: ring_shape_def advance_def)
  ultimately show ?thesis using r by (auto simp: ring_shape_def) (auto simp: take_ring_def)
qed

section \<open>The interface of a ring\<close>

text \<open>
  A direction provides the end mark and the chain mark of a descriptor and the operation that
  clears a descriptor; the laws say that a cleared descriptor is empty, is not chained and carries
  the end mark asked for.
\<close>

locale ring_kind =
  fixes final :: "DmaDesc \<Rightarrow> bool" and chained :: "DmaDesc \<Rightarrow> bool"
    and clear :: "bool \<Rightarrow> DmaDesc \<Rightarrow> DmaDesc"
  assumes final_clear: "final (clear f d) = f"
    and chained_clear: "\<not> chained (clear f d)"
    and empty_clear: "synopGMAC_is_desc_empty (clear f d)"
    and data2_clear: "data2 (clear f d) = 0"
begin

definition descs_ok :: "desc_mem \<Rightarrow> ring \<Rightarrow> bool" where
  "descs_ok m r \<longleftrightarrow> base r \<noteq> 0 \<and>
     (\<forall>i<count r. m (desc_at (base r) i) \<noteq> None \<and> final (desc_of m r i) = (i = count r - 1)
        \<and> \<not> chained (desc_of m r i) \<and> data2 (desc_of m r i) \<noteq> base r)"

definition fill_ok :: "desc_mem \<Rightarrow> ring \<Rightarrow> bool" where
  "fill_ok m r \<longleftrightarrow>
     (\<forall>j<count r. synopGMAC_is_desc_empty (desc_of m r (slot r j)) = (used r \<le> j))"

definition ok :: "desc_mem \<Rightarrow> ring \<Rightarrow> bool" where
  "ok m r \<longleftrightarrow> ring_shape r \<and> descs_ok m r \<and> fill_ok m r"

text \<open>A descriptor in place of the one in the \<open>i\<close>-th place.\<close>

lemma desc_of_upd:
  "count r < 2 ^ 31 \<Longrightarrow> i < count r \<Longrightarrow> k < count r \<Longrightarrow>
   desc_of (m(desc_at (base r) k \<mapsto> d)) r i = (if i = k then d else desc_of m r i)"
  by (auto simp: desc_of_def dest: desc_at_inj)

lemma descs_ok_upd:
  assumes "descs_ok m r" "ring_shape r" "k < count r"
    and "final d = (k = count r - 1)" "\<not> chained d" "data2 d \<noteq> base r"
  shows "descs_ok (m(desc_at (base r) k \<mapsto> d)) r"
  using assms by (auto simp: descs_ok_def ring_shape_def desc_of_upd)

lemma put_fill:
  assumes r: "ring_shape r" and f: "fill_ok m r" and u: "used r < count r"
    and e: "\<not> synopGMAC_is_desc_empty d"
  shows "fill_ok (m(next_p r \<mapsto> d)) (put_ring r)"
    and "queue (m(next_p r \<mapsto> d)) (put_ring r) = queue m r @ [d]"
proof -
  have n: "next_p r = desc_at (base r) (slot r (used r))" "0 < count r" "count r < 2 ^ 31"
    using r by (simp_all add: ring_shape_def)
  have d: "desc_of (m(next_p r \<mapsto> d)) r (slot r j)
      = (if j = used r then d else desc_of m r (slot r j))" if "j < count r" for j
    using n u that by (auto simp: desc_of_upd dest: slot_inj)
  have b: "desc_of m' (put_ring r) = desc_of m' r" "used (put_ring r) = Suc (used r)"
    "count (put_ring r) = count r" for m'
    by (auto simp: desc_of_def put_ring_def)
  show "fill_ok (m(next_p r \<mapsto> d)) (put_ring r)"
    using f e u unfolding fill_ok_def b slot_put by (auto simp: d)
  have "map (\<lambda>j. desc_of (m(next_p r \<mapsto> d)) r (slot r j)) [0..<used r] = queue m r"
    unfolding queue_def using u by (intro map_cong) (auto simp: d)
  then show "queue (m(next_p r \<mapsto> d)) (put_ring r) = queue m r @ [d]"
    unfolding queue_def [of _ "put_ring r"] b slot_put using u by (simp add: d)
qed

lemma put_ok:
  assumes "ok m r" and "used r < count r" and "\<not> synopGMAC_is_desc_empty d"
    and "final d = (next_i r = count r - 1)" and "\<not> chained d" and "data2 d \<noteq> base r"
  shows "ok (m(next_p r \<mapsto> d)) (put_ring r)"
proof -
  have r: "ring_shape r" "descs_ok m r" "fill_ok m r" using assms(1) by (simp_all add: ok_def)
  have n: "next_p r = desc_at (base r) (next_i r)" "next_i r < count r"
    using r(1) by (simp_all add: ring_shape_def)
  have "descs_ok (m(next_p r \<mapsto> d)) r"
    unfolding n(1) using r assms n(2) by (intro descs_ok_upd) simp_all
  then have "descs_ok (m(next_p r \<mapsto> d)) (put_ring r)"
    by (simp add: descs_ok_def desc_of_def put_ring_def)
  with r assms(2,3) show ?thesis by (simp add: ok_def ring_shape_put put_fill)
qed

lemma take_fill:
  assumes r: "ring_shape r" and f: "fill_ok m r" and u: "0 < used r"
  shows "fill_ok (m(busy_p r \<mapsto> clear g d)) (take_ring r)"
    and "queue (m(busy_p r \<mapsto> clear g d)) (take_ring r) = tl (queue m r)"
proof -
  have n: "busy_p r = desc_at (base r) (slot r 0)" "0 < count r" "count r < 2 ^ 31"
    "used r \<le> count r" "busy_i r < count r"
    using r by (simp_all add: ring_shape_def slot_def)
  have d: "desc_of (m(busy_p r \<mapsto> clear g d)) r (slot r j)
      = (if j = 0 then clear g d else desc_of m r (slot r j))" if "j < count r" for j
    using n that by (auto simp: desc_of_upd dest: slot_inj)
  have b: "desc_of m' (take_ring r) = desc_of m' r" "used (take_ring r) = used r - 1"
    "count (take_ring r) = count r" for m'
    by (auto simp: desc_of_def take_ring_def)
  note sl = slot_take [OF n(5)]
  have wrap: "slot r (count r) = slot r 0" by (simp add: slot_def)
  show "fill_ok (m(busy_p r \<mapsto> clear g d)) (take_ring r)"
    unfolding fill_ok_def b sl
  proof (intro allI impI)
    fix j assume j: "j < count r"
    show "synopGMAC_is_desc_empty (desc_of (m(busy_p r \<mapsto> clear g d)) r (slot r (Suc j)))
        = (used r - 1 \<le> j)"
    proof (cases "Suc j = count r")
      case True
      then have "used r - 1 \<le> j" using n(4) by simp
      with d [of 0] n(2) show ?thesis unfolding True wrap by (simp add: empty_clear)
    next
      case False
      with j have "Suc j < count r" by simp
      with d [of "Suc j"] f u show ?thesis by (auto simp: fill_ok_def)
    qed
  qed
  have "[0..<used r] = 0 # map Suc [0..<used r - 1]"
    using u by (simp add: map_Suc_upt upt_conv_Cons)
  then have "tl (queue m r) = map (\<lambda>j. desc_of m r (slot r (Suc j))) [0..<used r - 1]"
    by (simp add: queue_def comp_def)
  then show "queue (m(busy_p r \<mapsto> clear g d)) (take_ring r) = tl (queue m r)"
    unfolding queue_def b sl using u n(4) by (simp add: d)
qed

lemma take_ok:
  assumes "ok m r" and "0 < used r" and "g = (busy_i r = count r - 1)"
  shows "ok (m(busy_p r \<mapsto> clear g d)) (take_ring r)"
proof -
  have r: "ring_shape r" "descs_ok m r" "fill_ok m r" using assms(1) by (simp_all add: ok_def)
  have n: "busy_p r = desc_at (base r) (busy_i r)" "busy_i r < count r"
    using r(1) by (simp_all add: ring_shape_def)
  have "base r \<noteq> 0" using r(2) by (simp add: descs_ok_def)
  then have "descs_ok (m(busy_p r \<mapsto> clear g d)) r"
    unfolding n(1) using r assms n(2)
    by (intro descs_ok_upd) (simp_all add: final_clear chained_clear data2_clear)
  then have "descs_ok (m(busy_p r \<mapsto> clear g d)) (take_ring r)"
    by (simp add: descs_ok_def desc_of_def take_ring_def)
  with r assms(2) show ?thesis by (simp add: ok_def ring_shape_take take_fill)
qed

text \<open>The head of the queue, and the two ends of a ring.\<close>

lemma ok_busy:
  assumes "ok m r"
  shows "m (busy_p r) = Some (desc_of m r (busy_i r))"
    and "final (desc_of m r (busy_i r)) = (busy_i r = count r - 1)"
    and "\<not> chained (desc_of m r (busy_i r))" and "data2 (desc_of m r (busy_i r)) \<noteq> base r"
    and "synopGMAC_is_desc_empty (desc_of m r (busy_i r)) = (used r = 0)"
    and "0 < used r \<Longrightarrow> queue m r = desc_of m r (busy_i r) # tl (queue m r)"
proof -
  have r: "busy_i r < count r" "busy_p r = desc_at (base r) (busy_i r)" "slot r 0 = busy_i r"
    using assms by (auto simp: ok_def ring_shape_def slot_def)
  show "m (busy_p r) = Some (desc_of m r (busy_i r))"
    "final (desc_of m r (busy_i r)) = (busy_i r = count r - 1)"
    "\<not> chained (desc_of m r (busy_i r))" "data2 (desc_of m r (busy_i r)) \<noteq> base r"
    using assms r by (auto simp: ok_def descs_ok_def desc_of_def)
  have "\<forall>j<count r. synopGMAC_is_desc_empty (desc_of m r (slot r j)) = (used r \<le> j)"
    using assms by (simp add: ok_def fill_ok_def)
  with r show "synopGMAC_is_desc_empty (desc_of m r (busy_i r)) = (used r = 0)"
    by (metis le_zero_eq less_nat_zero_code neq0_conv)
  show "queue m r = desc_of m r (busy_i r) # tl (queue m r)" if "0 < used r"
    using that r(3) by (simp add: queue_def upt_conv_Cons)
qed

lemma ok_next:
  assumes "ok m r"
  shows "m (next_p r) = Some (desc_of m r (next_i r))"
    and "final (desc_of m r (next_i r)) = (next_i r = count r - 1)"
    and "\<not> chained (desc_of m r (next_i r))"
    and "synopGMAC_is_desc_empty (desc_of m r (next_i r)) = (used r < count r)"
proof -
  have r: "next_i r < count r" "next_p r = desc_at (base r) (next_i r)" "next_i r = slot r (used r)"
    "0 < count r" "used r \<le> count r"
    using assms by (auto simp: ok_def ring_shape_def)
  show "m (next_p r) = Some (desc_of m r (next_i r))"
    "final (desc_of m r (next_i r)) = (next_i r = count r - 1)"
    "\<not> chained (desc_of m r (next_i r))"
    using assms r(1,2) by (auto simp: ok_def descs_ok_def desc_of_def)
  have f: "\<forall>j<count r. synopGMAC_is_desc_empty (desc_of m r (slot r j)) = (used r \<le> j)"
    using assms by (simp add: ok_def fill_ok_def)
  show "synopGMAC_is_desc_empty (desc_of m r (next_i r)) = (used r < count r)"
  proof (cases "used r = count r")
    case True
    then have "next_i r = slot r 0" by (simp add: r(3) slot_def)
    with f r(4) True show ?thesis by simp
  next
    case False
    with f r(3,5) show ?thesis by simp
  qed
qed

text \<open>The DMA may change a descriptor as long as it keeps the marks and the lengths.\<close>

lemma dma_ok:
  assumes "ok m r" and "i < count r"
    and "final d = final (desc_of m r i)" "chained d = chained (desc_of m r i)"
    and "data2 d = data2 (desc_of m r i)" "desc_length d = desc_length (desc_of m r i)"
  shows "ok (m(desc_at (base r) i \<mapsto> d)) r"
proof -
  have r: "ring_shape r" "descs_ok m r" "fill_ok m r" using assms(1) by (simp_all add: ok_def)
  have "descs_ok (m(desc_at (base r) i \<mapsto> d)) r"
    using r assms by (intro descs_ok_upd) (auto simp: descs_ok_def)
  moreover have "fill_ok (m(desc_at (base r) i \<mapsto> d)) r"
    using r(1,3) assms(2,6)
    by (auto simp: fill_ok_def ring_shape_def desc_of_upd synopGMAC_is_desc_empty_def)
  ultimately show ?thesis using r(1) by (simp add: ok_def)
qed

end

section \<open>The receive ring\<close>

definition rx_final :: "DmaDesc \<Rightarrow> bool" where
  "rx_final d \<longleftrightarrow> desc_length d AND RxDescEndOfRing = RxDescEndOfRing"

definition rx_ring :: "synopGMACdevice \<Rightarrow> ring" where
  "rx_ring dev = \<lparr>base = RxDesc dev, count = unat (RxDescCount dev), next_i = unat (RxNext dev),
     next_p = RxNextDesc dev, busy_i = unat (RxBusy dev), busy_p = RxBusyDesc dev,
     used = unat (BusyRxDesc dev)\<rparr>"

interpretation rx: ring_kind rx_final synopGMAC_is_rx_desc_chained synopGMAC_rx_desc_init_ring
  by unfold_locales
    (simp_all add: rx_final_def synopGMAC_is_rx_desc_chained_def synopGMAC_rx_desc_init_ring_def
      synopGMAC_is_desc_empty_def desc_bits)

section \<open>The transmit ring\<close>

definition tx_final :: "DmaDesc \<Rightarrow> bool" where
  "tx_final d \<longleftrightarrow> status d AND TxDescEndOfRing = TxDescEndOfRing"

definition tx_ring :: "synopGMACdevice \<Rightarrow> ring" where
  "tx_ring dev = \<lparr>base = TxDesc dev, count = unat (TxDescCount dev), next_i = unat (TxNext dev),
     next_p = TxNextDesc dev, busy_i = unat (TxBusy dev), busy_p = TxBusyDesc dev,
     used = unat (BusyTxDesc dev)\<rparr>"

interpretation tx: ring_kind tx_final synopGMAC_is_tx_desc_chained synopGMAC_tx_desc_init_ring
  by unfold_locales
    (simp_all add: tx_final_def synopGMAC_is_tx_desc_chained_def synopGMAC_tx_desc_init_ring_def
      synopGMAC_is_desc_empty_def desc_bits)

section \<open>What a queued descriptor says\<close>

text \<open>The two buffers: DMA address, length and virtual address of each.\<close>

definition buffers :: "DmaDesc \<Rightarrow> (u32 \<times> u32 \<times> u64) \<times> (u32 \<times> u32 \<times> u64)" where
  "buffers d = ((buffer1 d, size1 d, data1 d), (buffer2 d, size2 d, data2 d))"

definition lengths :: "u32 \<Rightarrow> u32 \<Rightarrow> u32" where
  "lengths l1 l2 = (push_bit DescSize1Shift l1 AND DescSize1Mask)
     OR (push_bit DescSize2Shift l2 AND DescSize2Mask)"

lemma lengths_bits [bit_fields]:
  "lengths l1 l2 AND DescSize1Mask = l1 AND DescSize1Mask"
  "lengths l1 l2 AND DescSize2Mask = push_bit 16 l2 AND DescSize2Mask"
  "lengths l1 l2 AND RxDescEndOfRing = 0" "lengths l1 l2 AND RxDescChain = 0"
  by (simp_all add: lengths_def bit.conj_disj_distrib2 and.assoc desc_bits)

lemma size2_field: "drop_bit 16 (push_bit 16 (l :: u32) AND 0x1FFF0000) = l AND 0x1FFF"
proof (rule bit_word_eqI)
  fix n assume n: "n < LENGTH(32)"
  have m: "(0x1FFF0000 :: u32) = push_bit 16 (mask 13)" "(0x1FFF :: u32) = mask 13"
    by (simp_all add: mask_eq_exp_minus_1)
  show "bit (drop_bit 16 (push_bit 16 l AND 0x1FFF0000)) n = bit (l AND 0x1FFF) n"
    unfolding m using n by (auto simp: bit_simps)
qed

lemma filled_bits [bit_fields]:
  assumes "synopGMAC_is_desc_empty d"
  shows "(desc_length d OR lengths l1 l2) AND DescSize1Mask = l1 AND DescSize1Mask"
    and "(desc_length d OR lengths l1 l2) AND DescSize2Mask = push_bit 16 l2 AND DescSize2Mask"
    and "(desc_length d OR lengths l1 l2) AND RxDescEndOfRing = desc_length d AND RxDescEndOfRing"
    and "(desc_length d OR lengths l1 l2) AND RxDescChain = desc_length d AND RxDescChain"
  using assms by (simp_all add: bit.conj_disj_distrib2 lengths_bits synopGMAC_is_desc_empty_def)

section \<open>Operations on the receive ring\<close>

definition has_length :: "u32 \<Rightarrow> u32 \<Rightarrow> bool" where
  "has_length l1 l2 \<longleftrightarrow> l1 AND 0x1FFF \<noteq> 0 \<or> l2 AND 0x1FFF \<noteq> 0"

definition given :: "u32 \<Rightarrow> u32 \<Rightarrow> u64 \<Rightarrow> u32 \<Rightarrow> u32 \<Rightarrow> u64 \<Rightarrow> (u32 \<times> u32 \<times> u64) \<times> (u32 \<times> u32 \<times> u64)" where
  "given b1 l1 v1 b2 l2 v2 = ((b1, l1 AND 0x1FFF, v1), (b2, l2 AND 0x1FFF, v2))"

lemma has_length_bits:
  assumes "synopGMAC_is_desc_empty d" and "has_length l1 l2"
  shows "\<not> synopGMAC_is_desc_empty (d\<lparr>desc_length := desc_length d OR lengths l1 l2\<rparr>)"
proof -
  have "push_bit 16 l2 AND DescSize2Mask = 0 \<longleftrightarrow> l2 AND 0x1FFF = 0"
  proof
    assume h: "push_bit 16 l2 AND DescSize2Mask = 0"
    then show "l2 AND 0x1FFF = 0" using size2_field [of l2] by (simp add: DescSize2Mask_def)
  next
    assume h: "l2 AND 0x1FFF = 0"
    have "push_bit 16 l2 AND DescSize2Mask = push_bit 16 (l2 AND 0x1FFF)"
      by (simp add: DescSize2Mask_def push_bit_and)
    with h show "push_bit 16 l2 AND DescSize2Mask = 0" by simp
  qed
  with assms show ?thesis
    using filled_bits [OF assms(1), of l1 l2]
    by (auto simp: synopGMAC_is_desc_empty_def has_length_def) (auto simp: DescSize1Mask_def)
qed

lemma rx_ring_simps [simp]:
  "base (rx_ring dev) = RxDesc dev" "count (rx_ring dev) = unat (RxDescCount dev)"
  "next_i (rx_ring dev) = unat (RxNext dev)" "next_p (rx_ring dev) = RxNextDesc dev"
  "busy_i (rx_ring dev) = unat (RxBusy dev)" "busy_p (rx_ring dev) = RxBusyDesc dev"
  "used (rx_ring dev) = unat (BusyRxDesc dev)"
  by (simp_all add: rx_ring_def)

lemma tx_ring_simps [simp]:
  "base (tx_ring dev) = TxDesc dev" "count (tx_ring dev) = unat (TxDescCount dev)"
  "next_i (tx_ring dev) = unat (TxNext dev)" "next_p (tx_ring dev) = TxNextDesc dev"
  "busy_i (tx_ring dev) = unat (TxBusy dev)" "busy_p (tx_ring dev) = TxBusyDesc dev"
  "used (tx_ring dev) = unat (BusyTxDesc dev)"
  by (simp_all add: tx_ring_def)

text \<open>The successor the code computes is the successor in the ring.\<close>

lemma advance_word:
  assumes "ring_shape r" and "unat i = k" and "k < count r" and "p = desc_at (base r) k"
    and "final = (k = count r - 1)"
  shows "unat (if final then 0 else (i :: u32) + 1) = advance r k"
    and "(if final then base r else p + 32) = desc_at (base r) (advance r k)"
proof -
  have n: "count r < 2 ^ 31" using assms(1) by (simp add: ring_shape_def)
  show "unat (if final then 0 else i + 1) = advance r k"
    using assms(2,3,5) word_succ_eq(1) [of i "count r"] n by (simp add: advance_def)
  show "(if final then base r else p + 32) = desc_at (base r) (advance r k)"
    using assms(4,5) by (simp add: advance_def desc_at_Suc)
qed

definition rx_filled :: "u32 \<Rightarrow> u32 \<Rightarrow> u32 \<Rightarrow> u64 \<Rightarrow> u32 \<Rightarrow> u32 \<Rightarrow> u64 \<Rightarrow> DmaDesc \<Rightarrow> DmaDesc" where
  "rx_filled fs b1 l1 v1 b2 l2 v2 d = d\<lparr>desc_length := desc_length d OR lengths l1 l2,
     buffer1 := b1, data1 := v1, buffer2 := b2, data2 := v2, status := fs\<rparr>"

lemma rx_filled_props:
  assumes "synopGMAC_is_desc_empty d" and "has_length l1 l2"
  shows "\<not> synopGMAC_is_desc_empty (rx_filled fs b1 l1 v1 b2 l2 v2 d)"
    and "rx_final (rx_filled fs b1 l1 v1 b2 l2 v2 d) = rx_final d"
    and "synopGMAC_is_rx_desc_chained (rx_filled fs b1 l1 v1 b2 l2 v2 d)
      = synopGMAC_is_rx_desc_chained d"
    and "buffers (rx_filled fs b1 l1 v1 b2 l2 v2 d) = given b1 l1 v1 b2 l2 v2"
proof -
  show "\<not> synopGMAC_is_desc_empty (rx_filled fs b1 l1 v1 b2 l2 v2 d)"
    using has_length_bits [OF assms] by (simp add: rx_filled_def synopGMAC_is_desc_empty_def)
  note f = filled_bits [OF assms(1), of l1 l2]
  show "rx_final (rx_filled fs b1 l1 v1 b2 l2 v2 d) = rx_final d"
    "synopGMAC_is_rx_desc_chained (rx_filled fs b1 l1 v1 b2 l2 v2 d)
      = synopGMAC_is_rx_desc_chained d"
    by (simp_all add: rx_final_def synopGMAC_is_rx_desc_chained_def rx_filled_def f)
  show "buffers (rx_filled fs b1 l1 v1 b2 l2 v2 d) = given b1 l1 v1 b2 l2 v2"
    using size2_field [of l2] f(1,2)
    by (simp add: buffers_def given_def size1_def size2_def rx_filled_def DescSize1Mask_def
        DescSize2Mask_def)
qed

text \<open>A full ring refuses a buffer; otherwise the buffer joins the queue at its end.\<close>

lemma set_rx_full:
  assumes "rx.ok m (rx_ring dev)" and "BusyRxDesc dev = RxDescCount dev"
  shows "set_rx_with fs b1 l1 v1 b2 l2 v2 dev m = Inr (-1, dev, m)"
  using rx.ok_next [OF assms(1)] assms(2)
  by (simp add: set_rx_with_def ld_def)

lemma set_rx_queue:
  assumes ok: "rx.ok m (rx_ring dev)" and "BusyRxDesc dev \<noteq> RxDescCount dev"
    and "has_length l1 l2" and "v2 \<noteq> RxDesc dev"
  shows "\<exists>dev' m' d. set_rx_with fs b1 l1 v1 b2 l2 v2 dev m = Inr (int (unat (RxNext dev)), dev', m')
    \<and> rx.ok m' (rx_ring dev') \<and> rx_ring dev' = put_ring (rx_ring dev)
    \<and> queue m' (rx_ring dev') = queue m (rx_ring dev) @ [d]
    \<and> status d = fs \<and> buffers d = given b1 l1 v1 b2 l2 v2"
proof -
  let ?r = "rx_ring dev"
  let ?d = "desc_of m ?r (unat (RxNext dev))"
  let ?d' = "rx_filled fs b1 l1 v1 b2 l2 v2 ?d"
  have r: "ring_shape ?r" "unat (RxNext dev) < count ?r" "used ?r \<le> count ?r"
    "RxNextDesc dev = desc_at (RxDesc dev) (unat (RxNext dev))" "count ?r < 2 ^ 31"
    using ok ring_shape_next [of ?r] by (auto simp: rx.ok_def) (auto simp: ring_shape_def)
  have "unat (BusyRxDesc dev) \<noteq> unat (RxDescCount dev)"
    using assms(2) unsigned_word_eqI by blast
  with r(3) have u: "used ?r < count ?r" by simp
  note nx = rx.ok_next [OF ok, simplified]
  have e: "synopGMAC_is_desc_empty ?d" using nx(4) u by simp
  note f = rx_filled_props [OF e assms(3), of fs b1 v1 b2 v2]
  have last: "synopGMAC_is_last_rx_desc dev' ?d' = rx_final ?d" if "RxDesc dev' = RxDesc dev" for dev'
    using that assms(4) f(2) by (auto simp: synopGMAC_is_last_rx_desc_def rx_final_def rx_filled_def)
  define dev' where "dev' = dev\<lparr>RxNext := (if rx_final ?d then 0 else RxNext dev + 1),
      RxNextDesc := (if rx_final ?d then RxDesc dev else RxNextDesc dev + 32),
      BusyRxDesc := BusyRxDesc dev + 1\<rparr>"
  have eq: "set_rx_with fs b1 l1 v1 b2 l2 v2 dev m
      = Inr (int (unat (RxNext dev)), dev', m(RxNextDesc dev \<mapsto> ?d'))"
  proof -
    have "?d\<lparr>desc_length := desc_length ?d OR (push_bit DescSize1Shift l1 AND DescSize1Mask
        OR push_bit DescSize2Shift l2 AND DescSize2Mask), buffer1 := b1, data1 := v1,
        buffer2 := b2, data2 := v2\<rparr>\<lparr>status := fs\<rparr> = ?d'"
      by (simp add: rx_filled_def lengths_def)
    then show ?thesis
      using nx e r(2,5) last word_succ_eq(2) [of "RxNext dev" "count ?r"]
      unfolding set_rx_with_def Let_def ld_def st_def dev'_def by simp
  qed
  have p: "RxNextDesc dev = desc_at (base ?r) (unat (RxNext dev))" using r(4) by simp
  have fin: "rx_final ?d = (unat (RxNext dev) = count ?r - 1)" using nx(2) by simp
  have a: "unat (RxNext dev') = advance ?r (unat (RxNext dev))"
    "RxNextDesc dev' = desc_at (RxDesc dev) (advance ?r (unat (RxNext dev)))"
    using advance_word [OF r(1) refl r(2), of "RxNextDesc dev" "rx_final ?d", OF p fin,
        unfolded rx_ring_simps]
    by (simp_all add: dev'_def)
  have "unat (BusyRxDesc dev') = Suc (unat (BusyRxDesc dev))"
    using word_succ_eq(1) [of "BusyRxDesc dev" "count ?r"] u r(5) by (simp add: dev'_def)
  then have "rx_ring dev' = put_ring ?r"
    by (intro ring.equality) (simp_all add: a put_ring_def, simp_all add: dev'_def)
  moreover have "rx.ok (m(RxNextDesc dev \<mapsto> ?d')) (put_ring ?r)"
    using rx.put_ok [OF ok u f(1)] nx f assms(4) by (simp add: rx_filled_def)
  moreover have "queue (m(RxNextDesc dev \<mapsto> ?d')) (put_ring ?r) = queue m ?r @ [?d']"
    using rx.put_fill(2) [OF r(1) _ u f(1), of m] ok by (simp add: rx.ok_def)
  moreover have "status ?d' = fs" by (simp add: rx_filled_def)
  ultimately show ?thesis using eq f(4)
    by (intro exI [of _ dev'] exI [of _ "m(RxNextDesc dev \<mapsto> ?d')"] exI [of _ ?d']) simp
qed

lemma put_ring_same: "base (put_ring r) = base r" "count (put_ring r) = count r"
  by (simp_all add: put_ring_def)

lemma set_rx_step:
  assumes "rx.ok m (rx_ring dev)" and "BusyRxDesc dev \<noteq> RxDescCount dev"
    and "has_length l1 l2" and "v2 \<noteq> RxDesc dev"
  shows "\<exists>dev' m'. set_rx_with fs b1 l1 v1 b2 l2 v2 dev m = Inr (int (unat (RxNext dev)), dev', m')
    \<and> rx.ok m' (rx_ring dev') \<and> RxDesc dev' = RxDesc dev \<and> RxDescCount dev' = RxDescCount dev
    \<and> map buffers (queue m' (rx_ring dev'))
        = map buffers (queue m (rx_ring dev)) @ [given b1 l1 v1 b2 l2 v2]"
proof -
  obtain dev' m' d where s: "set_rx_with fs b1 l1 v1 b2 l2 v2 dev m = Inr (int (unat (RxNext dev)), dev', m')"
    "rx.ok m' (rx_ring dev')" "rx_ring dev' = put_ring (rx_ring dev)"
    "queue m' (rx_ring dev') = queue m (rx_ring dev) @ [d]" "buffers d = given b1 l1 v1 b2 l2 v2"
    using set_rx_queue [OF assms, of fs b1 v1 b2] by blast
  have "RxDesc dev' = RxDesc dev" "unat (RxDescCount dev') = unat (RxDescCount dev)"
    using arg_cong [OF s(3), of base] arg_cong [OF s(3), of count] by (simp_all add: put_ring_same)
  with s show ?thesis by (auto simp: unsigned_word_eqI)
qed

text \<open>The output arguments of the driver: all wanted, or all but the two lengths.\<close>

definition out_ok :: "qptr_out \<Rightarrow> bool" where
  "out_ok w \<longleftrightarrow> o_status w \<noteq> None \<and> o_data1 w \<noteq> None \<and> o_data2 w \<noteq> None"

lemma out_ok_data:
  "out_ok w \<Longrightarrow> qptr_data d w = Inr (synopGMAC_get_desc_data d w)"
  "out_ok w \<Longrightarrow> o_status (synopGMAC_get_desc_data d w) = Some (status d)"
  by (auto simp: out_ok_def qptr_data_def synopGMAC_get_desc_data_def out_def)

text \<open>
  Nothing is taken when the ring is empty or the DMA still owns its first descriptor; otherwise
  the first descriptor is reported, cleared and leaves the queue.
\<close>

lemma get_rx_none:
  assumes "rx.ok m (rx_ring dev)"
    and "BusyRxDesc dev = 0 \<or> synopGMAC_is_desc_owned_by_dma (desc_of m (rx_ring dev) (unat (RxBusy dev)))"
  shows "synopGMAC_get_rx_qptr w dev m = Inr (-1, w, dev, m)"
  using rx.ok_busy [OF assms(1)] assms(2)
  unfolding synopGMAC_get_rx_qptr_def Let_def ld_def by auto

lemma get_rx_step:
  assumes ok: "rx.ok m (rx_ring dev)" and "BusyRxDesc dev \<noteq> 0" and "out_ok w"
    and "\<not> synopGMAC_is_desc_owned_by_dma (hd (queue m (rx_ring dev)))"
  shows "\<exists>dev' m'. synopGMAC_get_rx_qptr w dev m = Inr (int (unat (RxBusy dev)),
      synopGMAC_get_desc_data (hd (queue m (rx_ring dev))) w, dev', m')
    \<and> rx.ok m' (rx_ring dev') \<and> RxDesc dev' = RxDesc dev \<and> RxDescCount dev' = RxDescCount dev
    \<and> queue m' (rx_ring dev') = tl (queue m (rx_ring dev))"
proof -
  let ?r = "rx_ring dev"
  let ?d = "desc_of m ?r (unat (RxBusy dev))"
  have r: "ring_shape ?r" "unat (RxBusy dev) < count ?r" "used ?r \<le> count ?r"
    "RxBusyDesc dev = desc_at (RxDesc dev) (unat (RxBusy dev))" "count ?r < 2 ^ 31"
    using ok by (auto simp: rx.ok_def ring_shape_def)
  have u: "0 < used ?r" using assms(2) by (simp add: unat_gt_0)
  note bs = rx.ok_busy [OF ok, simplified]
  have ne: "\<not> synopGMAC_is_desc_empty ?d" using bs(5) u by simp
  have hd: "hd (queue m ?r) = ?d" using bs(6) u by (metis list.sel(1) rx_ring_simps(7))
  have last: "synopGMAC_is_last_rx_desc dev' ?d = rx_final ?d" if "RxDesc dev' = RxDesc dev" for dev'
    using that bs(4) by (auto simp: synopGMAC_is_last_rx_desc_def rx_final_def)
  define dev' where "dev' = dev\<lparr>RxBusy := (if rx_final ?d then 0 else RxBusy dev + 1),
      RxBusyDesc := (if rx_final ?d then RxDesc dev else RxBusyDesc dev + 32),
      BusyRxDesc := BusyRxDesc dev - 1\<rparr>"
  let ?m = "m(RxBusyDesc dev \<mapsto> synopGMAC_rx_desc_init_ring (rx_final ?d) ?d)"
  have eq: "synopGMAC_get_rx_qptr w dev m = Inr (int (unat (RxBusy dev)),
      synopGMAC_get_desc_data ?d w, dev', ?m)"
    using bs(1,3) ne assms(4) last out_ok_data [OF assms(3)]
      word_succ_eq(2) [OF r(2,5)]
    unfolding synopGMAC_get_rx_qptr_def Let_def ld_def st_def dev'_def hd by simp
  have p: "RxBusyDesc dev = desc_at (base ?r) (unat (RxBusy dev))" using r(4) by simp
  have fin: "rx_final ?d = (unat (RxBusy dev) = count ?r - 1)" using bs(2) by simp
  have a: "unat (RxBusy dev') = advance ?r (unat (RxBusy dev))"
    "RxBusyDesc dev' = desc_at (RxDesc dev) (advance ?r (unat (RxBusy dev)))"
    using advance_word [OF r(1) refl r(2), of "RxBusyDesc dev" "rx_final ?d", OF p fin,
        unfolded rx_ring_simps]
    by (simp_all add: dev'_def)
  have "unat (BusyRxDesc dev') = unat (BusyRxDesc dev) - 1"
    using assms(2) by (simp add: dev'_def unat_minus_one)
  then have "rx_ring dev' = take_ring ?r"
    by (intro ring.equality) (simp_all add: a take_ring_def, simp_all add: dev'_def)
  moreover have "rx.ok ?m (take_ring ?r)"
    using rx.take_ok [OF ok u, of "rx_final ?d" ?d] bs(2) by simp
  moreover have "queue ?m (take_ring ?r) = tl (queue m ?r)"
    using rx.take_fill(2) [OF r(1) _ u, of m] ok by (simp add: rx.ok_def)
  ultimately show ?thesis using eq hd by (auto simp: dev'_def)
qed

section \<open>Operations on the transmit ring\<close>

definition tx_flags :: "u32 \<Rightarrow> u32 \<Rightarrow> u32" where
  "tx_flags offload s =
     (let s = s OR (DescTxFirst OR DescTxLast OR DescTxIntEnable);
          s = (if offload \<noteq> 0 then (((s AND NOT DescTxCisMask) OR DescTxCisIpv4HdrCs)
                 AND NOT DescTxCisMask) OR DescTxCisTcpOnlyCs else s)
      in s OR DescOwnByDma)"

definition tx_filled :: "u32 \<Rightarrow> u32 \<Rightarrow> u32 \<Rightarrow> u64 \<Rightarrow> u32 \<Rightarrow> u32 \<Rightarrow> u64 \<Rightarrow> DmaDesc \<Rightarrow> DmaDesc" where
  "tx_filled offload b1 l1 v1 b2 l2 v2 d = d\<lparr>desc_length := desc_length d OR lengths l1 l2,
     status := tx_flags offload (status d), buffer1 := b1, data1 := v1, buffer2 := b2, data2 := v2\<rparr>"

lemma tx_flags_bits:
  "tx_flags f s AND TxDescEndOfRing = s AND TxDescEndOfRing"
  "tx_flags f s AND TxDescChain = s AND TxDescChain"
  "tx_flags f s AND DescOwnByDma = DescOwnByDma"
proof -
  have n: "NOT DescTxCisMask AND TxDescEndOfRing = TxDescEndOfRing"
    "NOT DescTxCisMask AND TxDescChain = TxDescChain"
    by (simp_all add: desc_bits)
  show "tx_flags f s AND TxDescEndOfRing = s AND TxDescEndOfRing"
    "tx_flags f s AND TxDescChain = s AND TxDescChain"
    "tx_flags f s AND DescOwnByDma = DescOwnByDma"
    by (simp_all add: tx_flags_def Let_def bit.conj_disj_distrib2 and.assoc n)
      (simp_all add: desc_bits)
qed

lemma tx_filled_props:
  assumes "synopGMAC_is_desc_empty d" and "has_length l1 l2"
  shows "\<not> synopGMAC_is_desc_empty (tx_filled f b1 l1 v1 b2 l2 v2 d)"
    and "tx_final (tx_filled f b1 l1 v1 b2 l2 v2 d) = tx_final d"
    and "synopGMAC_is_tx_desc_chained (tx_filled f b1 l1 v1 b2 l2 v2 d)
      = synopGMAC_is_tx_desc_chained d"
    and "buffers (tx_filled f b1 l1 v1 b2 l2 v2 d) = given b1 l1 v1 b2 l2 v2"
    and "synopGMAC_is_desc_owned_by_dma (tx_filled f b1 l1 v1 b2 l2 v2 d)"
proof -
  show "\<not> synopGMAC_is_desc_empty (tx_filled f b1 l1 v1 b2 l2 v2 d)"
    using has_length_bits [OF assms] by (simp add: tx_filled_def synopGMAC_is_desc_empty_def)
  show "tx_final (tx_filled f b1 l1 v1 b2 l2 v2 d) = tx_final d"
    "synopGMAC_is_tx_desc_chained (tx_filled f b1 l1 v1 b2 l2 v2 d)
      = synopGMAC_is_tx_desc_chained d"
    "synopGMAC_is_desc_owned_by_dma (tx_filled f b1 l1 v1 b2 l2 v2 d)"
    by (simp_all add: tx_final_def synopGMAC_is_tx_desc_chained_def synopGMAC_is_desc_owned_by_dma_def
        tx_filled_def tx_flags_bits)
  show "buffers (tx_filled f b1 l1 v1 b2 l2 v2 d) = given b1 l1 v1 b2 l2 v2"
    using size2_field [of l2] filled_bits(1,2) [OF assms(1), of l1 l2]
    by (simp add: buffers_def given_def size1_def size2_def tx_filled_def DescSize1Mask_def
        DescSize2Mask_def)
qed

lemma set_tx_full:
  assumes "tx.ok m (tx_ring dev)" and "BusyTxDesc dev = TxDescCount dev"
  shows "synopGMAC_set_tx_qptr b1 l1 v1 b2 l2 v2 f dev m = Inr (-1, TxNext dev, dev, m)"
  using tx.ok_next [OF assms(1)] assms(2)
  by (simp add: synopGMAC_set_tx_qptr_def ld_def)

text \<open>What the operation stores, whatever the state of the ring.\<close>

lemma set_tx_stores:
  assumes "m (TxNextDesc dev) = Some d" and "synopGMAC_is_desc_empty d"
    and "\<not> synopGMAC_is_tx_desc_chained d" and d': "d' = tx_filled f b1 l1 v1 b2 l2 v2 d"
  shows "synopGMAC_set_tx_qptr b1 l1 v1 b2 l2 v2 f dev m
    = Inr (sint (TxNext dev), TxNext dev,
        dev\<lparr>BusyTxDesc := BusyTxDesc dev + 1,
          TxNext := (if synopGMAC_is_last_tx_desc dev d' then 0 else TxNext dev + 1),
          TxNextDesc := (if synopGMAC_is_last_tx_desc dev d' then TxDesc dev else TxNextDesc dev + 32)\<rparr>,
        m(TxNextDesc dev \<mapsto> d'))"
proof -
  have fill: "(\<lambda>d. d\<lparr>status := status d OR DescOwnByDma\<rparr>) ((\<lambda>d. if f \<noteq> 0
        then synopGMAC_tx_checksum_offload_tcponly (synopGMAC_tx_checksum_offload_ipv4hdr d) else d)
      (d\<lparr>desc_length := desc_length d OR (push_bit DescSize1Shift l1 AND DescSize1Mask
        OR push_bit DescSize2Shift l2 AND DescSize2Mask),
        status := status d OR (DescTxFirst OR DescTxLast OR DescTxIntEnable),
        buffer1 := b1, data1 := v1, buffer2 := b2, data2 := v2\<rparr>)) = d'"
    by (simp add: d' tx_filled_def lengths_def tx_flags_def Let_def
        synopGMAC_tx_checksum_offload_tcponly_def synopGMAC_tx_checksum_offload_ipv4hdr_def)
  have last: "synopGMAC_is_last_tx_desc (dev\<lparr>BusyTxDesc := x\<rparr>) e = synopGMAC_is_last_tx_desc dev e"
    "synopGMAC_is_last_tx_desc (dev\<lparr>BusyTxDesc := x, TxNext := y\<rparr>) e = synopGMAC_is_last_tx_desc dev e"
    for x y e
    by (simp_all add: synopGMAC_is_last_tx_desc_def)
  show ?thesis
    using assms(1-3) fill unfolding synopGMAC_set_tx_qptr_def Let_def ld_def st_def
    by (simp add: last)
qed

lemma set_tx_queue:
  assumes ok: "tx.ok m (tx_ring dev)" and "BusyTxDesc dev \<noteq> TxDescCount dev"
    and "has_length l1 l2" and "v2 \<noteq> TxDesc dev"
  shows "\<exists>dev' m'. synopGMAC_set_tx_qptr b1 l1 v1 b2 l2 v2 f dev m
      = Inr (int (unat (TxNext dev)), TxNext dev, dev', m')
    \<and> tx.ok m' (tx_ring dev') \<and> TxDesc dev' = TxDesc dev \<and> TxDescCount dev' = TxDescCount dev
    \<and> (\<exists>d. queue m' (tx_ring dev') = queue m (tx_ring dev) @ [d]
        \<and> buffers d = given b1 l1 v1 b2 l2 v2 \<and> synopGMAC_is_desc_owned_by_dma d)"
proof -
  let ?r = "tx_ring dev"
  let ?d = "desc_of m ?r (unat (TxNext dev))"
  let ?d' = "tx_filled f b1 l1 v1 b2 l2 v2 ?d"
  have r: "ring_shape ?r" "unat (TxNext dev) < count ?r" "used ?r \<le> count ?r"
    "TxNextDesc dev = desc_at (TxDesc dev) (unat (TxNext dev))" "count ?r < 2 ^ 31"
    using ok ring_shape_next [of ?r] by (auto simp: tx.ok_def) (auto simp: ring_shape_def)
  have "unat (BusyTxDesc dev) \<noteq> unat (TxDescCount dev)"
    using assms(2) unsigned_word_eqI by blast
  with r(3) have u: "used ?r < count ?r" by simp
  note nx = tx.ok_next [OF ok, simplified]
  have e: "synopGMAC_is_desc_empty ?d" using nx(4) u by simp
  note p = tx_filled_props [OF e assms(3), of f b1 v1 b2 v2]
  have last: "synopGMAC_is_last_tx_desc dev' ?d' = tx_final ?d" if "TxDesc dev' = TxDesc dev" for dev'
    using that assms(4) p(2) by (auto simp: synopGMAC_is_last_tx_desc_def tx_final_def tx_filled_def)
  define dev' where "dev' = dev\<lparr>BusyTxDesc := BusyTxDesc dev + 1,
      TxNext := (if tx_final ?d then 0 else TxNext dev + 1),
      TxNextDesc := (if tx_final ?d then TxDesc dev else TxNextDesc dev + 32)\<rparr>"
  have eq: "synopGMAC_set_tx_qptr b1 l1 v1 b2 l2 v2 f dev m
      = Inr (int (unat (TxNext dev)), TxNext dev, dev', m(TxNextDesc dev \<mapsto> ?d'))"
    using set_tx_stores [of m dev ?d ?d' f b1 l1 v1 b2 l2 v2] nx(1,3) e last
      word_succ_eq(2) [OF r(2,5)]
    by (simp add: dev'_def)
  have q: "TxNextDesc dev = desc_at (base ?r) (unat (TxNext dev))" using r(4) by simp
  have fin: "tx_final ?d = (unat (TxNext dev) = count ?r - 1)" using nx(2) by simp
  have a: "unat (TxNext dev') = advance ?r (unat (TxNext dev))"
    "TxNextDesc dev' = desc_at (TxDesc dev) (advance ?r (unat (TxNext dev)))"
    using advance_word [OF r(1) refl r(2), of "TxNextDesc dev" "tx_final ?d", OF q fin,
        unfolded tx_ring_simps]
    by (simp_all add: dev'_def)
  have "unat (BusyTxDesc dev') = Suc (unat (BusyTxDesc dev))"
    using word_succ_eq(1) [of "BusyTxDesc dev" "count ?r"] u r(5) by (simp add: dev'_def)
  then have "tx_ring dev' = put_ring ?r"
    by (intro ring.equality) (simp_all add: a put_ring_def, simp_all add: dev'_def)
  moreover have "tx.ok (m(TxNextDesc dev \<mapsto> ?d')) (put_ring ?r)"
    using tx.put_ok [OF ok u p(1)] nx p assms(4) by (simp add: tx_filled_def)
  moreover have "queue (m(TxNextDesc dev \<mapsto> ?d')) (put_ring ?r) = queue m ?r @ [?d']"
    using tx.put_fill(2) [OF r(1) _ u p(1), of m] ok by (simp add: tx.ok_def)
  ultimately show ?thesis using eq p(4,5) by (auto simp: dev'_def)
qed

lemma set_tx_step:
  assumes ok: "tx.ok m (tx_ring dev)" and "BusyTxDesc dev \<noteq> TxDescCount dev"
    and "has_length l1 l2" and "v2 \<noteq> TxDesc dev"
  shows "\<exists>dev' m'. synopGMAC_set_tx_qptr b1 l1 v1 b2 l2 v2 f dev m
      = Inr (int (unat (TxNext dev)), TxNext dev, dev', m')
    \<and> tx.ok m' (tx_ring dev') \<and> TxDesc dev' = TxDesc dev \<and> TxDescCount dev' = TxDescCount dev
    \<and> synopGMAC_is_desc_owned_by_dma (last (queue m' (tx_ring dev')))
    \<and> map buffers (queue m' (tx_ring dev'))
        = map buffers (queue m (tx_ring dev)) @ [given b1 l1 v1 b2 l2 v2]"
  using set_tx_queue [OF assms, of b1 v1 b2 f] by fastforce

lemma get_tx_none:
  assumes "tx.ok m (tx_ring dev)"
    and "BusyTxDesc dev = 0 \<or> synopGMAC_is_desc_owned_by_dma (desc_of m (tx_ring dev) (unat (TxBusy dev)))"
  shows "synopGMAC_get_tx_qptr w dev m = Inr (-1, w, dev, m)"
  using tx.ok_busy [OF assms(1)] assms(2)
  unfolding synopGMAC_get_tx_qptr_def Let_def ld_def by auto

lemma get_tx_step:
  assumes ok: "tx.ok m (tx_ring dev)" and "BusyTxDesc dev \<noteq> 0" and "out_ok w"
    and "\<not> synopGMAC_is_desc_owned_by_dma (hd (queue m (tx_ring dev)))"
  shows "\<exists>dev' m'. synopGMAC_get_tx_qptr w dev m = Inr (int (unat (TxBusy dev)),
      synopGMAC_get_desc_data (hd (queue m (tx_ring dev))) w, dev', m')
    \<and> tx.ok m' (tx_ring dev') \<and> TxDesc dev' = TxDesc dev \<and> TxDescCount dev' = TxDescCount dev
    \<and> queue m' (tx_ring dev') = tl (queue m (tx_ring dev))"
proof -
  let ?r = "tx_ring dev"
  let ?d = "desc_of m ?r (unat (TxBusy dev))"
  have r: "ring_shape ?r" "unat (TxBusy dev) < count ?r" "used ?r \<le> count ?r"
    "TxBusyDesc dev = desc_at (TxDesc dev) (unat (TxBusy dev))" "count ?r < 2 ^ 31"
    using ok by (auto simp: tx.ok_def ring_shape_def)
  have u: "0 < used ?r" using assms(2) by (simp add: unat_gt_0)
  note bs = tx.ok_busy [OF ok, simplified]
  have ne: "\<not> synopGMAC_is_desc_empty ?d" using bs(5) u by simp
  have hd: "hd (queue m ?r) = ?d" using bs(6) u by (metis list.sel(1) tx_ring_simps(7))
  have last: "synopGMAC_is_last_tx_desc dev' ?d = tx_final ?d" if "TxDesc dev' = TxDesc dev" for dev'
    using that bs(4) by (auto simp: synopGMAC_is_last_tx_desc_def tx_final_def)
  define dev' where "dev' = dev\<lparr>BusyTxDesc := BusyTxDesc dev - 1,
      TxBusy := (if tx_final ?d then 0 else TxBusy dev + 1),
      TxBusyDesc := (if tx_final ?d then TxDesc dev else TxBusyDesc dev + 32)\<rparr>"
  let ?m = "m(TxBusyDesc dev \<mapsto> synopGMAC_tx_desc_init_ring (tx_final ?d) ?d)"
  have eq: "synopGMAC_get_tx_qptr w dev m = Inr (int (unat (TxBusy dev)),
      synopGMAC_get_desc_data ?d w, dev', ?m)"
    using bs(1,3) ne assms(4) last out_ok_data [OF assms(3)]
      word_succ_eq(2) [OF r(2,5)]
    unfolding synopGMAC_get_tx_qptr_def Let_def ld_def st_def dev'_def hd by simp
  have p: "TxBusyDesc dev = desc_at (base ?r) (unat (TxBusy dev))" using r(4) by simp
  have fin: "tx_final ?d = (unat (TxBusy dev) = count ?r - 1)" using bs(2) by simp
  have a: "unat (TxBusy dev') = advance ?r (unat (TxBusy dev))"
    "TxBusyDesc dev' = desc_at (TxDesc dev) (advance ?r (unat (TxBusy dev)))"
    using advance_word [OF r(1) refl r(2), of "TxBusyDesc dev" "tx_final ?d", OF p fin,
        unfolded tx_ring_simps]
    by (simp_all add: dev'_def)
  have "unat (BusyTxDesc dev') = unat (BusyTxDesc dev) - 1"
    using assms(2) by (simp add: dev'_def unat_minus_one)
  then have "tx_ring dev' = take_ring ?r"
    by (intro ring.equality) (simp_all add: a take_ring_def, simp_all add: dev'_def)
  moreover have "tx.ok ?m (take_ring ?r)"
    using tx.take_ok [OF ok u, of "tx_final ?d" ?d] bs(2) by simp
  moreover have "queue ?m (take_ring ?r) = tl (queue m ?r)"
    using tx.take_fill(2) [OF r(1) _ u, of m] ok by (simp add: tx.ok_def)
  ultimately show ?thesis using eq hd by (auto simp: dev'_def)
qed

end
