(* ===== verification/Gmac_Queue.thy ===== *)
theory Gmac_Queue
  imports Gmac_Ring
begin

unbundle bit_operations_syntax

text \<open>
  The rings over time: the setup makes a well-formed empty ring, and any interleaving of driver
  operations and of status updates by the DMA keeps it well formed and first-in first-out. The
  recovery from a bus error does not.
\<close>

section \<open>Setup\<close>

text \<open>The memory has all descriptors of a ring.\<close>

definition allocated :: "desc_mem \<Rightarrow> u64 \<Rightarrow> nat \<Rightarrow> bool" where
  "allocated m p n \<longleftrightarrow> (\<forall>i<n. m (desc_at p i) \<noteq> None)"

definition cleared :: "(bool \<Rightarrow> DmaDesc \<Rightarrow> DmaDesc) \<Rightarrow> u64 \<Rightarrow> nat \<Rightarrow> nat \<Rightarrow> desc_mem \<Rightarrow> desc_mem \<Rightarrow> bool" where
  "cleared f p n k m m' \<longleftrightarrow>
     (\<forall>i<k. m' (desc_at p i) = Some (f (i = n - 1) (the (m (desc_at p i)))))
     \<and> (\<forall>i. k \<le> i \<longrightarrow> i < n \<longrightarrow> m' (desc_at p i) = m (desc_at p i))
     \<and> (\<forall>a. (\<forall>i<k. a \<noteq> desc_at p i) \<longrightarrow> m' a = m a)"

lemma init_ring_cleared:
  assumes "allocated m p n" and "n = unat cnt" and "n < 2 ^ 31"
  shows "\<exists>m'. init_ring f p cnt m = Inr m' \<and> cleared f p n n m m'"
proof -
  let ?step = "\<lambda>i m. rbind (ld m (desc_at p i)) (\<lambda>d.
      st m (desc_at p i) (f (word_of_nat i = cnt - 1) d))"
  have "\<exists>m'. for_list ?step [0..<k] m = Inr m' \<and> cleared f p n k m m'" if "k \<le> n" for k
    using that
  proof (induction k)
    case 0
    then show ?case by (auto simp: cleared_def)
  next
    case (Suc k)
    then obtain m' where m': "for_list ?step [0..<k] m = Inr m'" "cleared f p n k m m'" by auto
    have k: "m' (desc_at p k) = m (desc_at p k)" "m (desc_at p k) \<noteq> None"
      using m'(2) assms(1) Suc.prems by (auto simp: cleared_def allocated_def)
    have w: "(word_of_nat k = cnt - 1) = (k = n - 1)"
    proof -
      have c: "unat (cnt - 1) = n - 1"
        using Suc.prems assms(2) by (intro unat_minus_one [THEN trans]) (auto simp: assms(2))
      have u: "unat (word_of_nat k :: u32) = k"
        using Suc.prems assms(3) by (simp only: unat_of_nat) (simp add: take_bit_nat_eq_self)
      show ?thesis using c u by (metis unsigned_word_eqI)
    qed
    let ?m = "m'(desc_at p k \<mapsto> f (k = n - 1) (the (m (desc_at p k))))"
    have "for_list ?step [0..<Suc k] m = Inr ?m"
      using m'(1) k w by (auto simp: for_list_append ld_def st_def)
    moreover have "desc_at p i \<noteq> desc_at p k" if "i < n" "i \<noteq> k" for i
      using desc_at_inj [of p i k] that Suc.prems assms(3) by auto
    then have "cleared f p n (Suc k) m ?m"
      using m'(2) Suc.prems by (auto simp: cleared_def less_Suc_eq)
    ultimately show ?case by blast
  qed
  from this [of n] show ?thesis unfolding init_ring_def assms(2) by simp
qed

context ring_kind begin

lemma cleared_ok:
  assumes "cleared clear (base r) (count r) (count r) m m'" and "base r \<noteq> 0"
    and "ring_shape r" and "used r = 0"
  shows "ok m' r" and "queue m' r = []"
proof -
  have d: "desc_of m' r i = clear (i = count r - 1) (the (m (desc_at (base r) i)))"
    and s: "m' (desc_at (base r) i) \<noteq> None" if "i < count r" for i
    using assms(1) that by (simp_all add: cleared_def desc_of_def)
  have "descs_ok m' r"
    using assms(2) s by (auto simp: descs_ok_def d final_clear chained_clear data2_clear)
  moreover have "fill_ok m' r"
    using assms(3,4) by (auto simp: fill_ok_def d empty_clear ring_shape_def)
  ultimately show "ok m' r" using assms(3) by (simp add: ok_def)
  show "queue m' r = []" using assms(4) by (simp add: queue_def)
qed

end

lemma setup_rx_ok:
  assumes "allocated m p (unat n)" and "0 < unat n" "unat n < 2 ^ 31" and "p \<noteq> 0"
  shows "\<exists>dev' m'. synopGMAC_setup_rx_desc_queue (Some (p, a)) n dev m = Inr (0, dev', m')
    \<and> rx.ok m' (rx_ring dev') \<and> queue m' (rx_ring dev') = [] \<and> RxDescCount dev' = n \<and> RxDesc dev' = p"
proof -
  obtain m' where m': "init_ring synopGMAC_rx_desc_init_ring p n m = Inr m'"
    "cleared synopGMAC_rx_desc_init_ring p (unat n) (unat n) m m'"
    using init_ring_cleared [OF assms(1) refl assms(3)] by blast
  let ?dev = "dev\<lparr>RxDescCount := n, RxDesc := p, RxDescDma := a, RxNext := 0, RxBusy := 0,
      RxNextDesc := p, RxBusyDesc := p, BusyRxDesc := 0\<rparr>"
  have "ring_shape (rx_ring ?dev)"
    using assms(2,3) by (simp add: ring_shape_def slot_def)
  from rx.cleared_ok [of "rx_ring ?dev" m m'] this m'(2) assms(4)
  have "rx.ok m' (rx_ring ?dev)" "queue m' (rx_ring ?dev) = []" by simp_all
  with m'(1) show ?thesis by (simp add: synopGMAC_setup_rx_desc_queue_def)
qed

lemma setup_tx_ok:
  assumes "allocated m p (unat n)" and "0 < unat n" "unat n < 2 ^ 31" and "p \<noteq> 0"
  shows "\<exists>dev' m'. synopGMAC_setup_tx_desc_queue (Some (p, a)) n dev m = Inr (0, dev', m')
    \<and> tx.ok m' (tx_ring dev') \<and> queue m' (tx_ring dev') = [] \<and> TxDescCount dev' = n \<and> TxDesc dev' = p"
proof -
  obtain m' where m': "init_ring synopGMAC_tx_desc_init_ring p n m = Inr m'"
    "cleared synopGMAC_tx_desc_init_ring p (unat n) (unat n) m m'"
    using init_ring_cleared [OF assms(1) refl assms(3)] by blast
  let ?dev = "dev\<lparr>TxDescCount := n, TxDesc := p, TxDescDma := a, TxNext := 0, TxBusy := 0,
      TxNextDesc := p, TxBusyDesc := p, BusyTxDesc := 0\<rparr>"
  have "ring_shape (tx_ring ?dev)"
    using assms(2,3) by (simp add: ring_shape_def slot_def)
  from tx.cleared_ok [of "tx_ring ?dev" m m'] this m'(2) assms(4)
  have "tx.ok m' (tx_ring ?dev)" "queue m' (tx_ring ?dev) = []" by simp_all
  with m'(1) show ?thesis by (simp add: synopGMAC_setup_tx_desc_queue_def)
qed

section \<open>Runs\<close>

type_synonym bufs = "(u32 \<times> u32 \<times> u64) \<times> (u32 \<times> u32 \<times> u64)"

text \<open>What a queue operation reports when every output is wanted.\<close>

definition reported :: "qptr_out \<Rightarrow> bufs" where
  "reported w = ((the (o_buffer1 w), the (o_length1 w), the (o_data1 w)),
     (the (o_buffer2 w), the (o_length2 w), the (o_data2 w)))"

definition out_all :: "qptr_out \<Rightarrow> bool" where
  "out_all w \<longleftrightarrow> o_status w \<noteq> None \<and> o_buffer1 w \<noteq> None \<and> o_length1 w \<noteq> None \<and> o_data1 w \<noteq> None
     \<and> o_buffer2 w \<noteq> None \<and> o_length2 w \<noteq> None \<and> o_data2 w \<noteq> None"

lemma out_all_ok [simp]: "out_all w \<Longrightarrow> out_ok w"
  by (simp add: out_all_def out_ok_def)

lemma reported_data: "out_all w \<Longrightarrow> reported (synopGMAC_get_desc_data d w) = buffers d"
  by (auto simp: reported_def synopGMAC_get_desc_data_def out_def buffers_def out_all_def)

text \<open>
  A run of the receive ring collects the buffers given and the buffers taken. The driver's
  operations may fail; the DMA may store any status in any descriptor at any time.
\<close>

inductive rx_run :: "synopGMACdevice \<times> desc_mem \<Rightarrow> bufs list \<Rightarrow> bufs list \<Rightarrow>
    synopGMACdevice \<times> desc_mem \<Rightarrow> bool" for s where
  rx_start: "rx_run s [] [] s"
| rx_put: "rx_run s ps gs (dev, m) \<Longrightarrow> has_length l1 l2 \<Longrightarrow> v2 \<noteq> RxDesc dev \<Longrightarrow>
    synopGMAC_set_rx_qptr b1 l1 v1 b2 l2 v2 dev m = Inr (i, dev', m') \<Longrightarrow>
    rx_run s (if i < 0 then ps else ps @ [given b1 l1 v1 b2 l2 v2]) gs (dev', m')"
| rx_dma: "rx_run s ps gs (dev, m) \<Longrightarrow> k < unat (RxDescCount dev) \<Longrightarrow>
    rx_run s ps gs (dev, m(desc_at (RxDesc dev) k \<mapsto> (desc_of m (rx_ring dev) k)\<lparr>status := v\<rparr>))"
| rx_get: "rx_run s ps gs (dev, m) \<Longrightarrow> out_all w \<Longrightarrow>
    synopGMAC_get_rx_qptr w dev m = Inr (i, w', dev', m') \<Longrightarrow>
    rx_run s ps (if i < 0 then gs else gs @ [reported w']) (dev', m')"

text \<open>The DMA keeps the ring marks of a transmit descriptor, which are in its status word.\<close>

inductive tx_run :: "synopGMACdevice \<times> desc_mem \<Rightarrow> bufs list \<Rightarrow> bufs list \<Rightarrow>
    synopGMACdevice \<times> desc_mem \<Rightarrow> bool" for s where
  tx_start: "tx_run s [] [] s"
| tx_put: "tx_run s ps gs (dev, m) \<Longrightarrow> has_length l1 l2 \<Longrightarrow> v2 \<noteq> TxDesc dev \<Longrightarrow>
    synopGMAC_set_tx_qptr b1 l1 v1 b2 l2 v2 f dev m = Inr (i, j, dev', m') \<Longrightarrow>
    tx_run s (if i < 0 then ps else ps @ [given b1 l1 v1 b2 l2 v2]) gs (dev', m')"
| tx_dma: "tx_run s ps gs (dev, m) \<Longrightarrow> k < unat (TxDescCount dev) \<Longrightarrow>
    v AND (TxDescEndOfRing OR TxDescChain)
      = status (desc_of m (tx_ring dev) k) AND (TxDescEndOfRing OR TxDescChain) \<Longrightarrow>
    tx_run s ps gs (dev, m(desc_at (TxDesc dev) k \<mapsto> (desc_of m (tx_ring dev) k)\<lparr>status := v\<rparr>))"
| tx_get: "tx_run s ps gs (dev, m) \<Longrightarrow> out_all w \<Longrightarrow>
    synopGMAC_get_tx_qptr w dev m = Inr (i, w', dev', m') \<Longrightarrow>
    tx_run s ps (if i < 0 then gs else gs @ [reported w']) (dev', m')"

text \<open>The queue does not see the status words.\<close>

lemma queue_status:
  assumes "ring_shape r" and "k < count r"
  shows "map buffers (queue (m(desc_at (base r) k \<mapsto> (desc_of m r k)\<lparr>status := v\<rparr>)) r)
    = map buffers (queue m r)"
proof -
  have "buffers (desc_of (m(desc_at (base r) k \<mapsto> (desc_of m r k)\<lparr>status := v\<rparr>)) r i)
      = buffers (desc_of m r i)" if "i < count r" for i
    using assms that by (simp add: rx.desc_of_upd ring_shape_def)
      (simp add: buffers_def size1_def size2_def)
  then show ?thesis using assms(1) by (auto simp: queue_def ring_shape_def)
qed

text \<open>One step of each kind in terms of the queue.\<close>

lemma rx_put_cases:
  assumes "rx.ok m (rx_ring dev)" and "has_length l1 l2" and "v2 \<noteq> RxDesc dev"
    and "synopGMAC_set_rx_qptr b1 l1 v1 b2 l2 v2 dev m = Inr (i, dev', m')"
  shows "rx.ok m' (rx_ring dev') \<and> map buffers (queue m' (rx_ring dev'))
    = (if i < 0 then map buffers (queue m (rx_ring dev))
       else map buffers (queue m (rx_ring dev)) @ [given b1 l1 v1 b2 l2 v2])"
proof (cases "BusyRxDesc dev = RxDescCount dev")
  case True
  with assms set_rx_full [OF assms(1)] show ?thesis by (simp add: synopGMAC_set_rx_qptr_def)
next
  case False
  from set_rx_step [OF assms(1) False assms(2,3), of DescOwnByDma b1 v1 b2] assms(4) show ?thesis
    by (auto simp: synopGMAC_set_rx_qptr_def)
qed

lemma rx_get_cases:
  assumes ok: "rx.ok m (rx_ring dev)" and "out_all w"
    and "synopGMAC_get_rx_qptr w dev m = Inr (i, w', dev', m')"
  shows "rx.ok m' (rx_ring dev') \<and> map buffers (queue m (rx_ring dev))
    = (if i < 0 then map buffers (queue m' (rx_ring dev'))
       else reported w' # map buffers (queue m' (rx_ring dev')))"
proof (cases "BusyRxDesc dev = 0 \<or>
    synopGMAC_is_desc_owned_by_dma (desc_of m (rx_ring dev) (unat (RxBusy dev)))")
  case True
  with assms get_rx_none [OF ok] show ?thesis by auto
next
  case False
  then have q: "queue m (rx_ring dev)
      = desc_of m (rx_ring dev) (unat (RxBusy dev)) # tl (queue m (rx_ring dev))"
    using rx.ok_busy(6) [OF ok] by (simp add: unat_gt_0)
  then have h: "hd (queue m (rx_ring dev)) = desc_of m (rx_ring dev) (unat (RxBusy dev))"
    by (metis list.sel(1))
  from get_rx_step [OF ok, of w] False assms(2,3) show ?thesis
    by (subst q) (auto simp: h reported_data)
qed

lemma tx_put_cases:
  assumes "tx.ok m (tx_ring dev)" and "has_length l1 l2" and "v2 \<noteq> TxDesc dev"
    and "synopGMAC_set_tx_qptr b1 l1 v1 b2 l2 v2 f dev m = Inr (i, j, dev', m')"
  shows "tx.ok m' (tx_ring dev') \<and> map buffers (queue m' (tx_ring dev'))
    = (if i < 0 then map buffers (queue m (tx_ring dev))
       else map buffers (queue m (tx_ring dev)) @ [given b1 l1 v1 b2 l2 v2])"
proof (cases "BusyTxDesc dev = TxDescCount dev")
  case True
  with assms set_tx_full [OF assms(1)] show ?thesis by simp
next
  case False
  from set_tx_step [OF assms(1) False assms(2,3), of b1 v1 b2 f] assms(4) show ?thesis by auto
qed

lemma tx_get_cases:
  assumes ok: "tx.ok m (tx_ring dev)" and "out_all w"
    and "synopGMAC_get_tx_qptr w dev m = Inr (i, w', dev', m')"
  shows "tx.ok m' (tx_ring dev') \<and> map buffers (queue m (tx_ring dev))
    = (if i < 0 then map buffers (queue m' (tx_ring dev'))
       else reported w' # map buffers (queue m' (tx_ring dev')))"
proof (cases "BusyTxDesc dev = 0 \<or>
    synopGMAC_is_desc_owned_by_dma (desc_of m (tx_ring dev) (unat (TxBusy dev)))")
  case True
  with assms get_tx_none [OF ok] show ?thesis by auto
next
  case False
  then have q: "queue m (tx_ring dev)
      = desc_of m (tx_ring dev) (unat (TxBusy dev)) # tl (queue m (tx_ring dev))"
    using tx.ok_busy(6) [OF ok] by (simp add: unat_gt_0)
  then have h: "hd (queue m (tx_ring dev)) = desc_of m (tx_ring dev) (unat (TxBusy dev))"
    by (metis list.sel(1))
  from get_tx_step [OF ok, of w] False assms(2,3) show ?thesis
    by (subst q) (auto simp: h reported_data)
qed

lemma rx_run_fifo:
  "rx_run s ps gs t \<Longrightarrow> rx.ok (snd s) (rx_ring (fst s)) \<Longrightarrow> queue (snd s) (rx_ring (fst s)) = [] \<Longrightarrow>
   rx.ok (snd t) (rx_ring (fst t)) \<and> ps = gs @ map buffers (queue (snd t) (rx_ring (fst t)))"
proof (induction rule: rx_run.induct)
  case rx_start
  then show ?case by simp
next
  case (rx_put ps gs dev m l1 l2 v2 b1 v1 b2 i dev' m')
  then have "rx.ok m (rx_ring dev)" "ps = gs @ map buffers (queue m (rx_ring dev))" by simp_all
  with rx_put_cases [OF this(1) rx_put.hyps(2-4)] show ?case by simp
next
  case (rx_dma ps gs dev m k v)
  then have o: "rx.ok m (rx_ring dev)" "ps = gs @ map buffers (queue m (rx_ring dev))" by simp_all
  let ?m = "m(desc_at (RxDesc dev) k \<mapsto> (desc_of m (rx_ring dev) k)\<lparr>status := v\<rparr>)"
  have "rx.ok ?m (rx_ring dev)"
    using rx.dma_ok [OF o(1), of k "(desc_of m (rx_ring dev) k)\<lparr>status := v\<rparr>"] rx_dma.hyps(2)
    by (simp add: rx_final_def synopGMAC_is_rx_desc_chained_def)
  moreover have "map buffers (queue ?m (rx_ring dev)) = map buffers (queue m (rx_ring dev))"
    using queue_status [of "rx_ring dev" k m v] o(1) rx_dma.hyps(2) by (simp add: rx.ok_def)
  ultimately show ?case using o(2) by (simp only: fst_conv snd_conv)
next
  case (rx_get ps gs dev m w i w' dev' m')
  then have "rx.ok m (rx_ring dev)" "ps = gs @ map buffers (queue m (rx_ring dev))" by simp_all
  with rx_get_cases [OF this(1) rx_get.hyps(2,3)] show ?case by simp
qed

lemma masked_parts:
  "v AND (a OR b) = s AND (a OR b) \<Longrightarrow> v AND a = s AND (a :: 'w::len word)"
  "v AND (a OR b) = s AND (a OR b) \<Longrightarrow> v AND b = s AND (b :: 'w::len word)"
proof -
  have "x AND a = (x AND (a OR b)) AND a" "x AND b = (x AND (a OR b)) AND b" for x
    by (rule bit_word_eqI, auto simp: bit_simps)+
  then show "v AND (a OR b) = s AND (a OR b) \<Longrightarrow> v AND a = s AND a"
    "v AND (a OR b) = s AND (a OR b) \<Longrightarrow> v AND b = s AND b" by metis+
qed

lemma tx_run_fifo:
  "tx_run s ps gs t \<Longrightarrow> tx.ok (snd s) (tx_ring (fst s)) \<Longrightarrow> queue (snd s) (tx_ring (fst s)) = [] \<Longrightarrow>
   tx.ok (snd t) (tx_ring (fst t)) \<and> ps = gs @ map buffers (queue (snd t) (tx_ring (fst t)))"
proof (induction rule: tx_run.induct)
  case tx_start
  then show ?case by simp
next
  case (tx_put ps gs dev m l1 l2 v2 b1 v1 b2 f i j dev' m')
  then have "tx.ok m (tx_ring dev)" "ps = gs @ map buffers (queue m (tx_ring dev))" by simp_all
  with tx_put_cases [OF this(1) tx_put.hyps(2-4)] show ?case by simp
next
  case (tx_dma ps gs dev m k v)
  then have o: "tx.ok m (tx_ring dev)" "ps = gs @ map buffers (queue m (tx_ring dev))" by simp_all
  let ?m = "m(desc_at (TxDesc dev) k \<mapsto> (desc_of m (tx_ring dev) k)\<lparr>status := v\<rparr>)"
  have "tx.ok ?m (tx_ring dev)"
    using tx.dma_ok [OF o(1), of k "(desc_of m (tx_ring dev) k)\<lparr>status := v\<rparr>"] tx_dma.hyps(2)
      masked_parts [OF tx_dma.hyps(3)]
    by (simp add: tx_final_def synopGMAC_is_tx_desc_chained_def)
  moreover have "map buffers (queue ?m (tx_ring dev)) = map buffers (queue m (tx_ring dev))"
    using queue_status [of "tx_ring dev" k m v] o(1) tx_dma.hyps(2) by (simp add: tx.ok_def)
  ultimately show ?case using o(2) by (simp only: fst_conv snd_conv)
next
  case (tx_get ps gs dev m w i w' dev' m')
  then have "tx.ok m (tx_ring dev)" "ps = gs @ map buffers (queue m (tx_ring dev))" by simp_all
  with tx_get_cases [OF this(1) tx_get.hyps(2,3)] show ?case by simp
qed

section \<open>Properties\<close>

text \<open>A device and a memory with two descriptors, for the witnesses.\<close>

definition blank_desc :: DmaDesc where
  "blank_desc = \<lparr>status = 0, desc_length = 0, buffer1 = 0, buffer2 = 0, data1 = 0, data2 = 0\<rparr>"

definition blank_dev :: synopGMACdevice where
  "blank_dev = \<lparr>MacBase = 0, DmaBase = 0, PhyBase = 0, Version = 0, TxDescDma = 0, RxDescDma = 0,
     TxDesc = 0, RxDesc = 0, BusyTxDesc = 0, BusyRxDesc = 0, RxDescCount = 0, TxDescCount = 0,
     TxBusy = 0, TxNext = 0, RxBusy = 0, RxNext = 0, TxBusyDesc = 0, TxNextDesc = 0, RxBusyDesc = 0,
     RxNextDesc = 0, ClockDivMdc = 0, LinkState0 = 0, LinkState = 0, DuplexMode = 0, Speed = 0,
     LoopBackMode = 0\<rparr>"

definition two_descs :: "u64 \<Rightarrow> desc_mem" where
  "two_descs p = [p \<mapsto> blank_desc, p + 32 \<mapsto> blank_desc]"

lemma two_descs_allocated: "allocated (two_descs p) p (unat (2 :: u32))"
proof -
  have "unat (2 :: u32) = 2" by simp
  then show ?thesis
    unfolding allocated_def by (simp only: less_2_cases_iff) (auto simp: two_descs_def desc_at_def)
qed

text \<open>C4. The receive ring is a first-in first-out queue: after the setup, whatever the driver and
  the DMA do in whatever order, the buffers given are those taken, in the same order, followed by
  the ones in the ring, of which there are never more than descriptors. Nothing is lost, reported
  twice or reordered, and the operations never leave the ring.\<close>

theorem gmac_rx_fifo:
  assumes "allocated m p (unat n)" and "0 < unat n" "unat n < 2 ^ 31" and "p \<noteq> 0"
    and "synopGMAC_setup_rx_desc_queue (Some (p, a)) n dev m = Inr (e, dev0, m0)"
    and "rx_run (dev0, m0) ps gs (dev', m')"
  shows "e = 0 \<and> ps = gs @ map buffers (queue m' (rx_ring dev'))
    \<and> length (queue m' (rx_ring dev')) \<le> unat (RxDescCount dev')"
proof -
  have s: "e = 0" "rx.ok m0 (rx_ring dev0)" "queue m0 (rx_ring dev0) = []"
    using setup_rx_ok [OF assms(1-4), of a dev] assms(5) by auto
  with rx_run_fifo [OF assms(6)] have "rx.ok m' (rx_ring dev')"
    "ps = gs @ map buffers (queue m' (rx_ring dev'))" by simp_all
  moreover from this(1) have "length (queue m' (rx_ring dev')) \<le> unat (RxDescCount dev')"
    by (simp add: queue_def rx.ok_def ring_shape_def)
  ultimately show ?thesis using s(1) by simp
qed

theorem gmac_rx_fifo_witness:
  "\<exists>dev0 m0 dev' m'. synopGMAC_setup_rx_desc_queue (Some (0x1000, 0x1000)) 2 blank_dev
      (two_descs 0x1000) = Inr (0, dev0, m0)
    \<and> rx_run (dev0, m0) [given 5 100 7 0 0 0] [] (dev', m')
    \<and> map buffers (queue m' (rx_ring dev')) = [given 5 100 7 0 0 0]"
proof -
  obtain dev0 m0 where s: "synopGMAC_setup_rx_desc_queue (Some (0x1000, 0x1000)) 2 blank_dev
      (two_descs 0x1000) = Inr (0, dev0, m0)" "rx.ok m0 (rx_ring dev0)"
      "queue m0 (rx_ring dev0) = []" "RxDescCount dev0 = 2" "RxDesc dev0 = 0x1000"
    using setup_rx_ok [OF two_descs_allocated, of "0x1000" "0x1000" blank_dev] by auto
  have "BusyRxDesc dev0 = 0" using s(3) by (simp add: queue_def unat_eq_0)
  with s obtain dev' m' where p: "synopGMAC_set_rx_qptr 5 100 7 0 0 0 dev0 m0
      = Inr (int (unat (RxNext dev0)), dev', m')"
    using set_rx_step [OF s(2), of 100 0 0 DescOwnByDma 5 7 0]
    by (auto simp: has_length_def synopGMAC_set_rx_qptr_def)
  have "rx_run (dev0, m0) (if int (unat (RxNext dev0)) < 0 then [] else [] @ [given 5 100 7 0 0 0])
      [] (dev', m')"
    by (rule rx_put [OF rx_start _ _ p]) (simp_all add: has_length_def s(5))
  then have "rx_run (dev0, m0) [given 5 100 7 0 0 0] [] (dev', m')" by simp
  moreover from gmac_rx_fifo [OF two_descs_allocated _ _ _ s(1) this]
  have "map buffers (queue m' (rx_ring dev')) = [given 5 100 7 0 0 0]" by simp
  ultimately show ?thesis using s(1) by (intro exI conjI)
qed

text \<open>C5. The transmit ring is a first-in first-out queue in the same sense, as long as the DMA
  keeps the two ring marks of a status word it stores.\<close>

theorem gmac_tx_fifo:
  assumes "allocated m p (unat n)" and "0 < unat n" "unat n < 2 ^ 31" and "p \<noteq> 0"
    and "synopGMAC_setup_tx_desc_queue (Some (p, a)) n dev m = Inr (e, dev0, m0)"
    and "tx_run (dev0, m0) ps gs (dev', m')"
  shows "e = 0 \<and> ps = gs @ map buffers (queue m' (tx_ring dev'))
    \<and> length (queue m' (tx_ring dev')) \<le> unat (TxDescCount dev')"
proof -
  have s: "e = 0" "tx.ok m0 (tx_ring dev0)" "queue m0 (tx_ring dev0) = []"
    using setup_tx_ok [OF assms(1-4), of a dev] assms(5) by auto
  with tx_run_fifo [OF assms(6)] have "tx.ok m' (tx_ring dev')"
    "ps = gs @ map buffers (queue m' (tx_ring dev'))" by simp_all
  moreover from this(1) have "length (queue m' (tx_ring dev')) \<le> unat (TxDescCount dev')"
    by (simp add: queue_def tx.ok_def ring_shape_def)
  ultimately show ?thesis using s(1) by simp
qed

theorem gmac_tx_fifo_witness:
  "\<exists>dev0 m0 dev' m'. synopGMAC_setup_tx_desc_queue (Some (0x1000, 0x1000)) 2 blank_dev
      (two_descs 0x1000) = Inr (0, dev0, m0)
    \<and> tx_run (dev0, m0) [given 5 100 7 0 0 0] [] (dev', m')
    \<and> map buffers (queue m' (tx_ring dev')) = [given 5 100 7 0 0 0]"
proof -
  obtain dev0 m0 where s: "synopGMAC_setup_tx_desc_queue (Some (0x1000, 0x1000)) 2 blank_dev
      (two_descs 0x1000) = Inr (0, dev0, m0)" "tx.ok m0 (tx_ring dev0)"
      "queue m0 (tx_ring dev0) = []" "TxDescCount dev0 = 2" "TxDesc dev0 = 0x1000"
    using setup_tx_ok [OF two_descs_allocated, of "0x1000" "0x1000" blank_dev] by auto
  have "BusyTxDesc dev0 = 0" using s(3) by (simp add: queue_def unat_eq_0)
  with s obtain dev' m' where p: "synopGMAC_set_tx_qptr 5 100 7 0 0 0 0 dev0 m0
      = Inr (int (unat (TxNext dev0)), TxNext dev0, dev', m')"
    using set_tx_step [OF s(2), of 100 0 0 5 7 0 0] by (auto simp: has_length_def)
  have "tx_run (dev0, m0) (if int (unat (TxNext dev0)) < 0 then [] else [] @ [given 5 100 7 0 0 0])
      [] (dev', m')"
    by (rule tx_put [OF tx_start _ _ p]) (simp_all add: has_length_def s(5))
  then have "tx_run (dev0, m0) [given 5 100 7 0 0 0] [] (dev', m')" by simp
  moreover from gmac_tx_fifo [OF two_descs_allocated _ _ _ s(1) this]
  have "map buffers (queue m' (tx_ring dev')) = [given 5 100 7 0 0 0]" by simp
  ultimately show ?thesis using s(1) by (intro exI conjI)
qed

text \<open>The recovery from a fatal bus error resets both queues with \<open>init_tx_rx_desc_queue\<close>.\<close>

definition rings_apart :: "synopGMACdevice \<Rightarrow> bool" where
  "rings_apart dev \<longleftrightarrow> (\<forall>i<unat (TxDescCount dev). \<forall>j<unat (RxDescCount dev).
     desc_at (TxDesc dev) i \<noteq> desc_at (RxDesc dev) j)"

lemma reset_queues:
  assumes "tx.ok m (tx_ring dev)" and "rx.ok m (rx_ring dev)" and "rings_apart dev"
  shows "\<exists>m'. synopGMAC_init_tx_rx_desc_queue dev m
      = Inr (0, dev\<lparr>TxNext := 0, TxBusy := 0, RxNext := 0, RxBusy := 0\<rparr>, m')
    \<and> (\<forall>i<unat (TxDescCount dev). \<exists>d. m' (desc_at (TxDesc dev) i)
        = Some (synopGMAC_tx_desc_init_ring (i = unat (TxDescCount dev) - 1) d))
    \<and> (\<forall>i<unat (RxDescCount dev). \<exists>d. m' (desc_at (RxDesc dev) i)
        = Some (synopGMAC_rx_desc_init_ring (i = unat (RxDescCount dev) - 1) d))"
proof -
  let ?t = "unat (TxDescCount dev)" and ?r = "unat (RxDescCount dev)"
  have n: "?t < 2 ^ 31" "?r < 2 ^ 31"
    using assms(1,2) by (simp_all add: tx.ok_def rx.ok_def ring_shape_def)
  have "allocated m (TxDesc dev) ?t"
    using assms(1) by (simp add: allocated_def tx.ok_def tx.descs_ok_def)
  from init_ring_cleared [OF this refl n(1)] obtain m1 where
    m1: "init_ring synopGMAC_tx_desc_init_ring (TxDesc dev) (TxDescCount dev) m = Inr m1"
    "cleared synopGMAC_tx_desc_init_ring (TxDesc dev) ?t ?t m m1" by blast
  have "m1 (desc_at (RxDesc dev) j) = m (desc_at (RxDesc dev) j)" if "j < ?r" for j
  proof -
    have "\<forall>i<?t. desc_at (RxDesc dev) j \<noteq> desc_at (TxDesc dev) i"
      using assms(3) that unfolding rings_apart_def by metis
    with m1(2) show ?thesis unfolding cleared_def by blast
  qed
  then have "allocated m1 (RxDesc dev) ?r"
    using assms(2) by (simp add: allocated_def rx.ok_def rx.descs_ok_def)
  from init_ring_cleared [OF this refl n(2)] obtain m2 where
    m2: "init_ring synopGMAC_rx_desc_init_ring (RxDesc dev) (RxDescCount dev) m1 = Inr m2"
    "cleared synopGMAC_rx_desc_init_ring (RxDesc dev) ?r ?r m1 m2" by blast
  have "m2 (desc_at (TxDesc dev) i) = m1 (desc_at (TxDesc dev) i)" if "i < ?t" for i
  proof -
    have "\<forall>j<?r. desc_at (TxDesc dev) i \<noteq> desc_at (RxDesc dev) j"
      using assms(3) that unfolding rings_apart_def by metis
    with m2(2) show ?thesis unfolding cleared_def by blast
  qed
  with m1(2) have "\<forall>i<?t. \<exists>d. m2 (desc_at (TxDesc dev) i)
      = Some (synopGMAC_tx_desc_init_ring (i = ?t - 1) d)"
    by (auto simp: cleared_def)
  moreover have "\<forall>i<?r. \<exists>d. m2 (desc_at (RxDesc dev) i)
      = Some (synopGMAC_rx_desc_init_ring (i = ?r - 1) d)"
    using m2(2) by (auto simp: cleared_def)
  ultimately show ?thesis
    using m1(1) m2(1) by (auto simp: synopGMAC_init_tx_rx_desc_queue_def)
qed

text \<open>After the reset of the queues that follows a fatal bus error the driver's state does not
  describe the rings any more. The descriptor pointers stay where they were while the indices are
  0, so that the next frame is put into the old place and reported as descriptor 0; the counts of
  busy descriptors stay although every descriptor is empty; and since no receive descriptor holds
  a buffer, taking a frame fails in every state the DMA can bring about by storing statuses.\<close>

theorem gmac_reset_desynchronises:
  assumes "tx.ok m (tx_ring dev)" and "rx.ok m (rx_ring dev)" and "rings_apart dev"
    and "has_length l1 l2" and "v2 \<noteq> TxDesc dev"
  shows "\<exists>dev' m'. synopGMAC_init_tx_rx_desc_queue dev m = Inr (0, dev', m')
    \<and> BusyTxDesc dev' = BusyTxDesc dev \<and> BusyRxDesc dev' = BusyRxDesc dev
    \<and> (\<exists>dev'' d. synopGMAC_set_tx_qptr b1 l1 v1 b2 l2 v2 f dev' m'
         = Inr (0, 0, dev'', m'(desc_at (TxDesc dev) (unat (TxNext dev)) \<mapsto> d))
         \<and> buffers d = given b1 l1 v1 b2 l2 v2)
    \<and> (\<forall>m''. (\<forall>a d. m' a = Some d \<longrightarrow> (\<exists>v. m'' a = Some (d\<lparr>status := v\<rparr>)))
         \<longrightarrow> synopGMAC_get_rx_qptr w dev' m'' = Inr (-1, w, dev', m''))"
proof -
  let ?dev = "dev\<lparr>TxNext := 0, TxBusy := 0, RxNext := 0, RxBusy := 0\<rparr>"
  obtain m' where m': "synopGMAC_init_tx_rx_desc_queue dev m = Inr (0, ?dev, m')"
    "\<forall>i<unat (TxDescCount dev). \<exists>d. m' (desc_at (TxDesc dev) i)
        = Some (synopGMAC_tx_desc_init_ring (i = unat (TxDescCount dev) - 1) d)"
    "\<forall>i<unat (RxDescCount dev). \<exists>d. m' (desc_at (RxDesc dev) i)
        = Some (synopGMAC_rx_desc_init_ring (i = unat (RxDescCount dev) - 1) d)"
    using reset_queues [OF assms(1-3)] by blast
  have t: "unat (TxNext dev) < unat (TxDescCount dev)"
    "TxNextDesc dev = desc_at (TxDesc dev) (unat (TxNext dev))"
    using assms(1) ring_shape_next [of "tx_ring dev"]
    by (auto simp: tx.ok_def) (auto simp: ring_shape_def)
  have r: "unat (RxBusy dev) < unat (RxDescCount dev)"
    "RxBusyDesc dev = desc_at (RxDesc dev) (unat (RxBusy dev))"
    using assms(2) by (auto simp: rx.ok_def ring_shape_def)
  obtain d0 where d0: "m' (TxNextDesc dev)
      = Some (synopGMAC_tx_desc_init_ring (unat (TxNext dev) = unat (TxDescCount dev) - 1) d0)"
    using m'(2) t by auto
  let ?d = "synopGMAC_tx_desc_init_ring (unat (TxNext dev) = unat (TxDescCount dev) - 1) d0"
  let ?d' = "tx_filled f b1 l1 v1 b2 l2 v2 ?d"
  have e: "synopGMAC_is_desc_empty ?d" "\<not> synopGMAC_is_tx_desc_chained ?d"
    by (rule tx.empty_clear, rule tx.chained_clear)
  have "\<exists>dev''. synopGMAC_set_tx_qptr b1 l1 v1 b2 l2 v2 f ?dev m'
      = Inr (0, 0, dev'', m'(TxNextDesc dev \<mapsto> ?d'))"
    using set_tx_stores [of m' ?dev ?d ?d' f b1 l1 v1 b2 l2 v2] d0 e by simp
  moreover have "buffers ?d' = given b1 l1 v1 b2 l2 v2"
    by (rule tx_filled_props(4) [OF e(1) assms(4)])
  moreover have "synopGMAC_get_rx_qptr w ?dev m'' = Inr (-1, w, ?dev, m'')"
    if h: "\<forall>a d. m' a = Some d \<longrightarrow> (\<exists>v. m'' a = Some (d\<lparr>status := v\<rparr>))" for m''
  proof -
    obtain d1 where "m' (RxBusyDesc dev) = Some (synopGMAC_rx_desc_init_ring
        (unat (RxBusy dev) = unat (RxDescCount dev) - 1) d1)" using m'(3) r by auto
    with h obtain v where "m'' (RxBusyDesc dev) = Some ((synopGMAC_rx_desc_init_ring
        (unat (RxBusy dev) = unat (RxDescCount dev) - 1) d1)\<lparr>status := v\<rparr>)" by blast
    moreover have "synopGMAC_is_desc_empty ((synopGMAC_rx_desc_init_ring g d1)\<lparr>status := v\<rparr>)" for g
      using rx.empty_clear [of g d1] by (simp add: synopGMAC_is_desc_empty_def)
    ultimately show ?thesis
      unfolding synopGMAC_get_rx_qptr_def Let_def ld_def by simp
  qed
  ultimately show ?thesis using m'(1) t(2) by auto
qed

text \<open>Two empty rings, the transmit ring having come to its second descriptor.\<close>

definition ready_dev :: synopGMACdevice where
  "ready_dev = blank_dev\<lparr>TxDesc := 0x1000, RxDesc := 0x2000, TxDescCount := 2, RxDescCount := 2,
     TxNext := 1, TxBusy := 1, TxNextDesc := 0x1020, TxBusyDesc := 0x1020,
     RxNextDesc := 0x2000, RxBusyDesc := 0x2000\<rparr>"

definition ready_mem :: desc_mem where
  "ready_mem = [0x1000 \<mapsto> synopGMAC_tx_desc_init_ring False blank_desc,
     0x1020 \<mapsto> synopGMAC_tx_desc_init_ring True blank_desc,
     0x2000 \<mapsto> synopGMAC_rx_desc_init_ring False blank_desc,
     0x2020 \<mapsto> synopGMAC_rx_desc_init_ring True blank_desc]"

lemma all_less_2: "(\<forall>i<unat (2 :: u32). P i) \<longleftrightarrow> P 0 \<and> P (Suc 0)"
proof -
  have "unat (2 :: u32) = 2" by simp
  then show ?thesis by (auto simp only: less_2_cases_iff One_nat_def)
qed

lemma ready_counts: "TxDescCount ready_dev = 2" "RxDescCount ready_dev = 2"
  by (simp_all add: ready_dev_def)

lemma ready_rings:
  "tx.ok ready_mem (tx_ring ready_dev)" "rx.ok ready_mem (rx_ring ready_dev)" "rings_apart ready_dev"
proof -
  note d = tx.final_clear tx.chained_clear tx.empty_clear tx.data2_clear
    rx.final_clear rx.chained_clear rx.empty_clear rx.data2_clear
  have m: "desc_of ready_mem (tx_ring ready_dev) 0 = synopGMAC_tx_desc_init_ring False blank_desc"
    "desc_of ready_mem (tx_ring ready_dev) (Suc 0) = synopGMAC_tx_desc_init_ring True blank_desc"
    "desc_of ready_mem (rx_ring ready_dev) 0 = synopGMAC_rx_desc_init_ring False blank_desc"
    "desc_of ready_mem (rx_ring ready_dev) (Suc 0) = synopGMAC_rx_desc_init_ring True blank_desc"
    by (simp_all add: desc_of_def desc_at_def ready_mem_def ready_dev_def)
  have t: "ring_shape (tx_ring ready_dev)" "slot (tx_ring ready_dev) 0 = Suc 0"
    "slot (tx_ring ready_dev) (Suc 0) = 0"
    by (simp_all add: ring_shape_def slot_def ready_dev_def blank_dev_def desc_at_def)
  have r: "ring_shape (rx_ring ready_dev)" "slot (rx_ring ready_dev) 0 = 0"
    "slot (rx_ring ready_dev) (Suc 0) = Suc 0"
    by (simp_all add: ring_shape_def slot_def ready_dev_def blank_dev_def desc_at_def)
  have "tx.descs_ok ready_mem (tx_ring ready_dev)"
    unfolding tx.descs_ok_def tx_ring_simps ready_counts all_less_2 m d
    by (simp add: d ready_dev_def ready_mem_def desc_at_def)
  moreover have "tx.fill_ok ready_mem (tx_ring ready_dev)"
    unfolding tx.fill_ok_def tx_ring_simps ready_counts all_less_2 t m
    by (simp add: d ready_dev_def blank_dev_def)
  ultimately show "tx.ok ready_mem (tx_ring ready_dev)" using t(1) by (simp add: tx.ok_def)
  have "rx.descs_ok ready_mem (rx_ring ready_dev)"
    unfolding rx.descs_ok_def rx_ring_simps ready_counts all_less_2 m d
    by (simp add: d ready_dev_def ready_mem_def desc_at_def)
  moreover have "rx.fill_ok ready_mem (rx_ring ready_dev)"
    unfolding rx.fill_ok_def rx_ring_simps ready_counts all_less_2 r m
    by (simp add: d ready_dev_def blank_dev_def)
  ultimately show "rx.ok ready_mem (rx_ring ready_dev)" using r(1) by (simp add: rx.ok_def)
  show "rings_apart ready_dev"
    unfolding rings_apart_def ready_counts all_less_2 by (simp add: ready_dev_def desc_at_def)
qed

theorem gmac_reset_desynchronises_witness:
  "\<exists>dev' m' dev'' d. synopGMAC_init_tx_rx_desc_queue ready_dev ready_mem = Inr (0, dev', m')
    \<and> synopGMAC_set_tx_qptr 5 100 7 0 0 0 0 dev' m' = Inr (0, 0, dev'', m'(0x1020 \<mapsto> d))"
proof -
  have l: "has_length 100 0" "0 \<noteq> TxDesc ready_dev" "desc_at (TxDesc ready_dev) (unat (TxNext ready_dev)) = 0x1020"
    by (simp_all add: has_length_def ready_dev_def desc_at_def)
  from gmac_reset_desynchronises [OF ready_rings l(1,2), of 5 7 0 0 undefined]
  show ?thesis unfolding l(3) by blast
qed

end
