(* ===== verification/Gmac_Net.thy ===== *)
theory Gmac_Net
  imports Gmac_Link Gmac_Queue
begin

unbundle bit_operations_syntax

text \<open>
  The network device on top of the rings (\<open>rt_eth_tx\<close>, \<open>rt_eth_rx\<close> and the filling of the receive
  ring in \<open>eth_init\<close>, in \<open>synopGMAC.c\<close>; \<open>plat_dma_map_single\<close> in \<open>synopGMAC_plat.c\<close>).
  The state holds the semaphore, the device, the descriptors and the heap blocks of the packet
  buffers; the allocators of RT-Thread and lwIP and the controller are parameters. Waiting for the
  semaphore when its count is 0 is \<open>NoReturn\<close>: nobody but the caller's successors releases it.
\<close>

section \<open>State\<close>

record net_device_stats =
  tx_packets :: u64
  tx_bytes :: u64
  rx_errors :: u64
  tx_errors :: u64
  collisions :: u64
  rx_length_errors :: u64
  rx_over_errors :: u64
  rx_crc_errors :: u64
  rx_frame_errors :: u64
  tx_aborted_errors :: u64
  tx_carrier_errors :: u64

record net_adapter =
  synopGMACdev :: "synopGMACdevice option"
  synopGMACNetStats :: net_device_stats
  mii :: mii_if_info

type_synonym blocks = "u64 \<Rightarrow> u8 list option"

record 's eth =
  sem_lock :: nat
  priv :: "net_adapter option"
  dev_addr :: "u8 list"
  GMAC_Power_down :: u32
  ready_calls :: nat
  descs :: desc_mem
  heap :: blocks
  hw_state :: 's

text \<open>
  What is not part of the program: the controller, \<open>rt_malloc\<close> (an address, 0 on failure, and the
  contents of the block), lwIP's \<open>pbuf_alloc\<close> (the size of the payload, \<open>None\<close> on failure), and the
  start of the kernel segment, a constant of the board support package.
\<close>

record 's eth_env =
  ctrl :: "'s mmio32"
  rt_malloc :: "u32 \<Rightarrow> blocks \<Rightarrow> u64 \<times> u8 list"
  pbuf_alloc :: "u16 \<Rightarrow> nat option"
  KSEG0BASE :: u64

definition rt_sem_take :: "'s eth \<Rightarrow> 's eth res" where
  "rt_sem_take e = (if sem_lock e = 0 then Inl NoReturn else Inr (e\<lparr>sem_lock := sem_lock e - 1\<rparr>))"

definition rt_sem_release :: "'s eth \<Rightarrow> 's eth" where
  "rt_sem_release e = e\<lparr>sem_lock := Suc (sem_lock e)\<rparr>"

definition plat_dma_map_single :: "'s eth_env \<Rightarrow> u64 \<Rightarrow> u32" where
  "plat_dma_map_single env ptr = ucast (ptr - KSEG0BASE env)"

definition plat_free_memory :: "u64 \<Rightarrow> blocks \<Rightarrow> blocks" where
  "plat_free_memory a h = h(a := None)"

abbreviation (input) RX_BUF_SIZE :: u32 where "RX_BUF_SIZE \<equiv> 14 + 4 + 1500 + 4 + 1000"
abbreviation (input) RECEIVE_DESC_SIZE :: u32 where "RECEIVE_DESC_SIZE \<equiv> 36"

definition on_hw :: "('s \<Rightarrow> 's) \<Rightarrow> 's eth \<Rightarrow> 's eth" where
  "on_hw f e = e\<lparr>hw_state := f (hw_state e)\<rparr>"

section \<open>Transmission\<close>

text \<open>
  A copy of the packet in a new block and a descriptor for it: the value to return with the
  semaphore still taken, if any, the new value of \<open>status\<close>, and the device.
\<close>

definition tx_enqueue ::
    "'s eth_env \<Rightarrow> u8 list \<Rightarrow> synopGMACdevice \<Rightarrow> 's eth \<Rightarrow> (int option \<times> u32 \<times> synopGMACdevice \<times> 's eth) res" where
  "tx_enqueue env p g e =
     (let tot_len = word_of_nat (length p); (pbuf, block) = rt_malloc env tot_len (heap e) in
      if pbuf = 0 then Inr (Some (-1), 0, g, e)
      else if length block < length p then Inl OobWrite
      else
        let e = e\<lparr>heap := (heap e)(pbuf \<mapsto> p @ drop (length p) block)\<rparr>;
            dma_addr = plat_dma_map_single env pbuf in
        rbind (synopGMAC_set_tx_qptr dma_addr tot_len pbuf 0 0 0 0 g (descs e)) (\<lambda>(status, _, g, m).
        let e = e\<lparr>descs := m\<rparr> in
        if status < 0 then Inr (Some (-16), word_of_int status, g, e\<lparr>heap := plat_free_memory pbuf (heap e)\<rparr>)
        else Inr (None, word_of_int status, g, e)))"

text \<open>The outputs of a queue operation, all wanted; the status is the only one read when it fails.\<close>

definition tx_outputs :: "u32 \<Rightarrow> qptr_out" where
  "tx_outputs s = \<lparr>o_status = Some s, o_buffer1 = Some 0, o_length1 = Some 0, o_data1 = Some 0,
     o_buffer2 = Some 0, o_length2 = Some 0, o_data2 = Some 0\<rparr>"

definition tx_account :: "u32 \<Rightarrow> u32 \<Rightarrow> net_device_stats \<Rightarrow> net_device_stats" where
  "tx_account stw len n =
     (if synopGMAC_is_desc_valid stw then
        n\<lparr>tx_bytes := tx_bytes n + ucast len, tx_packets := tx_packets n + 1\<rparr>
      else
        n\<lparr>tx_errors := tx_errors n + 1,
          tx_aborted_errors := tx_aborted_errors n + of_bool (synopGMAC_is_tx_aborted stw),
          tx_carrier_errors := tx_carrier_errors n + of_bool (synopGMAC_is_tx_carrier_error stw)\<rparr>)"

definition count_collisions :: "u32 \<Rightarrow> net_device_stats \<Rightarrow> net_device_stats" where
  "count_collisions stw n = n\<lparr>collisions := collisions n + ucast (synopGMAC_get_tx_collision_count stw)\<rparr>"

text \<open>
  \<open>do { .. } while (desc_index >= 0)\<close>: every descriptor taken back becomes empty, so that the
  number of those that are not decreases.
\<close>

definition busy_addrs :: "desc_mem \<Rightarrow> u64 set" where
  "busy_addrs m = {a. \<exists>d. m a = Some d \<and> \<not> synopGMAC_is_desc_empty d}"

lemma get_tx_busy:
  assumes "synopGMAC_get_tx_qptr w g m = Inr (i, w', g', m')" and "0 \<le> i"
  shows "busy_addrs m' \<subset> busy_addrs m"
proof -
  obtain d where d: "m (TxBusyDesc g) = Some d"
    using assms(1) by (auto simp: synopGMAC_get_tx_qptr_def ld_def Let_def rbind_Inr_iff split: option.splits)
  have e: "synopGMAC_is_desc_empty (synopGMAC_tx_desc_init_chain d)"
    "synopGMAC_is_desc_empty (synopGMAC_tx_desc_init_ring f d)" for f
    by (simp_all add: synopGMAC_is_desc_empty_def synopGMAC_tx_desc_init_chain_def
        synopGMAC_tx_desc_init_ring_def)
  have "\<not> synopGMAC_is_desc_empty d \<and>
      (\<exists>d'. m' = m(TxBusyDesc g \<mapsto> d') \<and> synopGMAC_is_desc_empty d')"
    using assms d e
    by (auto simp: synopGMAC_get_tx_qptr_def ld_def st_def Let_def rbind_Inr_iff split: if_splits)
  then obtain d' where "\<not> synopGMAC_is_desc_empty d" "m' = m(TxBusyDesc g \<mapsto> d')"
    "synopGMAC_is_desc_empty d'" by blast
  then have "busy_addrs m' = busy_addrs m - {TxBusyDesc g}" "TxBusyDesc g \<in> busy_addrs m"
    using d by (auto simp: busy_addrs_def split: if_splits)
  then show ?thesis by blast
qed

function tx_reap ::
    "u32 \<Rightarrow> synopGMACdevice \<Rightarrow> desc_mem \<Rightarrow> blocks \<Rightarrow> net_device_stats
      \<Rightarrow> (synopGMACdevice \<times> desc_mem \<times> blocks \<times> net_device_stats) res" where
  "tx_reap stw g m h n =
     (case synopGMAC_get_tx_qptr (tx_outputs stw) g m of
        Inl f \<Rightarrow> Inl f
      | Inr (desc_index, w, g, m) \<Rightarrow>
          (let stw = the (o_status w); data1 = the (o_data1 w); length1 = the (o_length1 w) in
           if 0 \<le> desc_index then
             if data1 \<noteq> 0
             then tx_reap stw g m (plat_free_memory data1 h) (count_collisions stw (tx_account stw length1 n))
             else tx_reap stw g m h (count_collisions stw n)
           else Inr (g, m, h, count_collisions stw n)))"
  by pat_completeness auto

termination tx_reap
  by (relation "measure (\<lambda>(_, _, m, _, _). card (busy_addrs m))")
    (auto intro!: psubset_card_mono dest: get_tx_busy)

declare tx_reap.simps [simp del]

text \<open>\<open>status0\<close> is what the uninitialised variable \<open>status\<close> holds.\<close>

definition rt_eth_tx :: "'s eth_env \<Rightarrow> u32 \<Rightarrow> u8 list \<Rightarrow> 's eth \<Rightarrow> (int \<times> 's eth) res" where
  "rt_eth_tx env status0 p e =
     rbind (rt_sem_take e) (\<lambda>e.
     case priv e of None \<Rightarrow> Inr (-1, e) | Some adapter \<Rightarrow>
     case synopGMACdev adapter of None \<Rightarrow> Inr (-1, e) | Some g \<Rightarrow>
     rbind (ld (descs e) (TxNextDesc g)) (\<lambda>d.
     rbind (if \<not> synopGMAC_is_desc_owned_by_dma d then tx_enqueue env p g e
            else Inr (None, status0, g, e)) (\<lambda>(early, status, g, e).
     let e = e\<lparr>priv := Some (adapter\<lparr>synopGMACdev := Some g\<rparr>)\<rparr> in
     case early of
       Some code \<Rightarrow> Inr (code, e)
     | None \<Rightarrow>
         let e = on_hw (synopGMAC_resume_dma_tx (ctrl env) g) e in
         rbind (tx_reap status g (descs e) (heap e) (synopGMACNetStats adapter)) (\<lambda>(g, m, h, n).
         let e = e\<lparr>priv := Some (adapter\<lparr>synopGMACdev := Some g, synopGMACNetStats := n\<rparr>),
                   descs := m, heap := h\<rparr>;
             e = rt_sem_release e;
             e = on_hw (\<lambda>s. snd (synopGMACReadReg (ctrl env) (DmaBase g) DmaStatus s)) e
         in Inr (0, e)))))"

section \<open>Reception\<close>

text \<open>
  The copy of a received frame, without its checksum: \<open>pbuf_alloc\<close> gets the length as 16 bits, the
  copy as 32, and its result is used whether or not it is null.
\<close>

definition rx_copy :: "'s eth_env \<Rightarrow> u32 \<Rightarrow> u64 \<Rightarrow> blocks \<Rightarrow> u8 list res" where
  "rx_copy env len src h =
     (case pbuf_alloc env (ucast len) of
        None \<Rightarrow> Inl NullPtr
      | Some room \<Rightarrow>
          (case h src of
             None \<Rightarrow> Inl OobRead
           | Some block \<Rightarrow>
               if length block < unat len then Inl OobRead
               else if room < unat len then Inl OobWrite
               else Inr (take (unat len) block)))"

definition rx_bad :: "u32 \<Rightarrow> net_device_stats \<Rightarrow> net_device_stats" where
  "rx_bad stw n =
     n\<lparr>rx_errors := rx_errors n + 1,
       collisions := collisions n + of_bool (synopGMAC_is_rx_frame_collision stw),
       rx_crc_errors := rx_crc_errors n + of_bool (synopGMAC_is_rx_crc stw),
       rx_frame_errors := rx_frame_errors n + of_bool (synopGMAC_is_frame_dribbling_errors stw),
       rx_length_errors := rx_length_errors n + of_bool (synopGMAC_is_rx_frame_length_errors stw)\<rparr>"

definition rx_outputs :: qptr_out where
  "rx_outputs = \<lparr>o_status = Some 0, o_buffer1 = Some 0, o_length1 = None, o_data1 = Some 0,
     o_buffer2 = Some 0, o_length2 = None, o_data2 = Some 0\<rparr>"

text \<open>A taken descriptor: the frame, if any, and the buffer back in the ring.\<close>

definition rx_frame ::
    "'s eth_env \<Rightarrow> qptr_out \<Rightarrow> synopGMACdevice \<Rightarrow> net_device_stats \<Rightarrow> 's eth
      \<Rightarrow> (u8 list option \<times> synopGMACdevice \<times> net_device_stats \<times> 's eth) res" where
  "rx_frame env w g n e =
     (let status = the (o_status w); data1 = the (o_data1 w) in
      rbind (if synopGMAC_is_rx_desc_valid status then
               rbind (rx_copy env (synopGMAC_get_rx_desc_frame_length status - 4) data1 (heap e))
                 (\<lambda>f. Inr (Some f, plat_dma_map_single env data1, n))
             else Inr (None, the (o_buffer1 w), rx_bad status n)) (\<lambda>(pbuf, dma_addr1, n).
      rbind (synopGMAC_set_rx_qptr dma_addr1 RX_BUF_SIZE data1 0 0 0 g (descs e)) (\<lambda>(desc_index, g, m).
      let e = e\<lparr>descs := m\<rparr> in
      Inr (pbuf, g, n, if desc_index < 0 then e\<lparr>heap := plat_free_memory data1 (heap e)\<rparr> else e))))"

definition rt_eth_rx :: "'s eth_env \<Rightarrow> 's eth \<Rightarrow> (u8 list option \<times> 's eth) res" where
  "rt_eth_rx env e =
     rbind (rt_sem_take e) (\<lambda>e.
     case priv e of None \<Rightarrow> Inr (None, e) | Some adapter \<Rightarrow>
     case synopGMACdev adapter of None \<Rightarrow> Inr (None, e) | Some g \<Rightarrow>
     rbind (synopGMAC_get_rx_qptr rx_outputs g (descs e)) (\<lambda>(desc_index, w, g, m).
     let e = e\<lparr>descs := m\<rparr> in
     if RECEIVE_DESC_SIZE \<le> word_of_int desc_index \<and> desc_index \<noteq> -1 then Inl NoReturn
     else
       rbind (if 0 \<le> desc_index \<and> the (o_data1 w) \<noteq> 0
              then rx_frame env w g (synopGMACNetStats adapter) e
              else Inr (None, g, synopGMACNetStats adapter, e)) (\<lambda>(pbuf, g, n, e).
       Inr (pbuf, rt_sem_release
         (e\<lparr>priv := Some (adapter\<lparr>synopGMACdev := Some g, synopGMACNetStats := n\<rparr>)\<rparr>)))))"

section \<open>Filling the receive ring\<close>

definition free_addrs :: "desc_mem \<Rightarrow> u64 set" where
  "free_addrs m = {a. \<exists>d. m a = Some d \<and> synopGMAC_is_desc_empty d}"

text \<open>
  The loop of \<open>eth_init\<close>: a new buffer of 2522 bytes for every descriptor until the last one, the
  allocation or the queue fails; the value of \<open>status\<close> at the end.
\<close>

function rx_fill ::
    "'s eth_env \<Rightarrow> int \<Rightarrow> synopGMACdevice \<Rightarrow> 's eth \<Rightarrow> (int \<times> synopGMACdevice \<times> 's eth) res" where
  "rx_fill env result g e =
     (let (skb, block) = rt_malloc env RX_BUF_SIZE (heap e) in
      if skb = 0 then Inr (result, g, e)
      else
        let e = e\<lparr>heap := (heap e)(skb \<mapsto> block)\<rparr> in
        case synopGMAC_set_rx_qptr (plat_dma_map_single env skb) RX_BUF_SIZE skb 0 0 0 g (descs e) of
          Inl f \<Rightarrow> Inl f
        | Inr (result, g, m) \<Rightarrow>
            let e = e\<lparr>descs := m\<rparr> in
            if result < 0 then Inr (result, g, e\<lparr>heap := plat_free_memory skb (heap e)\<rparr>)
            else if result < sint RECEIVE_DESC_SIZE - 1 then rx_fill env result g e
            else Inr (result, g, e))"
  by pat_completeness auto

lemma rx_buffer_length:
  assumes "desc_length d' = l OR 2522"
  shows "\<not> synopGMAC_is_desc_empty d'"
proof -
  have "(l OR 2522) AND DescSize1Mask = (l AND DescSize1Mask) OR 2522"
    by (simp add: DescSize1Mask_def bit.conj_disj_distrib2)
  then have "bit (desc_length d' AND DescSize1Mask) 1"
    using assms by (simp add: bit_or_iff bit_iff_odd [of 2522])
  then show ?thesis by (auto simp: synopGMAC_is_desc_empty_def)
qed

lemma set_rx_free:
  assumes "synopGMAC_set_rx_qptr b 2522 v 0 0 0 g m = Inr (i, g', m')" and "0 \<le> i"
  shows "free_addrs m' \<subset> free_addrs m"
proof -
  obtain d where d: "m (RxNextDesc g) = Some d"
    using assms(1)
    by (auto simp: synopGMAC_set_rx_qptr_def set_rx_with_def ld_def Let_def rbind_Inr_iff split: option.splits)
  have "\<exists>d'. synopGMAC_is_desc_empty d \<and> m' = m(RxNextDesc g \<mapsto> d') \<and> desc_length d' = desc_length d OR 2522"
    using assms d
    by (auto simp: synopGMAC_set_rx_qptr_def set_rx_with_def ld_def st_def Let_def rbind_Inr_iff
        DescSize1Mask_def split: if_splits)
  then obtain d' where "synopGMAC_is_desc_empty d" "m' = m(RxNextDesc g \<mapsto> d')"
    "\<not> synopGMAC_is_desc_empty d'" using rx_buffer_length by blast
  then have "free_addrs m' = free_addrs m - {RxNextDesc g}" "RxNextDesc g \<in> free_addrs m"
    using d by (auto simp: free_addrs_def split: if_splits)
  then show ?thesis by blast
qed

termination rx_fill
  by (relation "measure (\<lambda>(_, _, _, e). card (free_addrs (descs e)))")
    (auto intro!: psubset_card_mono dest: set_rx_free)

declare rx_fill.simps [simp del]


section \<open>One ring does not touch the other\<close>

lemma set_tx_frame:
  assumes "synopGMAC_set_tx_qptr b1 l1 v1 b2 l2 v2 f g m = Inr (i, x, g', m')"
  shows "rx_ring g' = rx_ring g" and "a \<noteq> TxNextDesc g \<Longrightarrow> m' a = m a"
    and "DmaBase g' = DmaBase g"
  using assms
  by (auto simp: synopGMAC_set_tx_qptr_def ld_def st_def Let_def rbind_Inr_iff rx_ring_def
      split: if_splits option.splits)

lemma st_stored: "st m p d = Inr m' \<Longrightarrow> m' = m(p \<mapsto> d)"
  by (auto simp: st_def split: option.splits)

lemma get_tx_shape:
  assumes "synopGMAC_get_tx_qptr w g m = Inr (i, w', g', m')"
  shows "(g', m') = (g, m) \<or>
    (\<exists>x y z d. g' = g\<lparr>BusyTxDesc := x, TxBusy := y, TxBusyDesc := z\<rparr> \<and> m' = m(TxBusyDesc g \<mapsto> d))"
proof -
  from assms obtain d where d: "ld m (TxBusyDesc g) = Inr d"
    by (auto simp: synopGMAC_get_tx_qptr_def Let_def rbind_Inr_iff)
  show ?thesis
  proof (cases "synopGMAC_is_desc_owned_by_dma d \<or> synopGMAC_is_desc_empty d")
    case True
    with assms d show ?thesis
      by (cases "synopGMAC_is_desc_owned_by_dma d") (auto simp: synopGMAC_get_tx_qptr_def Let_def)
  next
    case False
    with assms d show ?thesis
      unfolding synopGMAC_get_tx_qptr_def Let_def
      by (cases "synopGMAC_is_tx_desc_chained d") (auto simp: rbind_Inr_iff split: if_split_asm dest!: st_stored)
  qed
qed

lemma get_tx_frame:
  assumes "synopGMAC_get_tx_qptr w g m = Inr (i, w', g', m')"
  shows "rx_ring g' = rx_ring g" and "a \<noteq> TxBusyDesc g \<Longrightarrow> m' a = m a"
    and "DmaBase g' = DmaBase g"
  using get_tx_shape [OF assms] by (auto simp: rx_ring_def)

lemma set_rx_frame:
  assumes "synopGMAC_set_rx_qptr b1 l1 v1 b2 l2 v2 g m = Inr (i, g', m')"
  shows "tx_ring g' = tx_ring g" and "a \<noteq> RxNextDesc g \<Longrightarrow> m' a = m a"
    and "DmaBase g' = DmaBase g"
  using assms
  by (auto simp: synopGMAC_set_rx_qptr_def set_rx_with_def ld_def st_def Let_def rbind_Inr_iff
      tx_ring_def split: if_splits option.splits)

lemma get_rx_shape:
  assumes "synopGMAC_get_rx_qptr w g m = Inr (i, w', g', m')"
  shows "(g', m') = (g, m) \<or>
    (\<exists>x y z d. g' = g\<lparr>RxBusy := y, RxBusyDesc := z, BusyRxDesc := x\<rparr> \<and> m' = m(RxBusyDesc g \<mapsto> d))"
proof -
  from assms obtain d where d: "ld m (RxBusyDesc g) = Inr d"
    by (auto simp: synopGMAC_get_rx_qptr_def Let_def rbind_Inr_iff)
  show ?thesis
  proof (cases "synopGMAC_is_desc_owned_by_dma d \<or> synopGMAC_is_desc_empty d")
    case True
    with assms d show ?thesis
      by (cases "synopGMAC_is_desc_owned_by_dma d") (auto simp: synopGMAC_get_rx_qptr_def Let_def)
  next
    case False
    with assms d show ?thesis
      unfolding synopGMAC_get_rx_qptr_def Let_def
      by (cases "synopGMAC_is_rx_desc_chained d") (auto simp: rbind_Inr_iff split: if_split_asm dest!: st_stored)
  qed
qed

lemma get_rx_frame:
  assumes "synopGMAC_get_rx_qptr w g m = Inr (i, w', g', m')"
  shows "tx_ring g' = tx_ring g" and "a \<noteq> RxBusyDesc g \<Longrightarrow> m' a = m a"
    and "DmaBase g' = DmaBase g"
  using get_rx_shape [OF assms] by (auto simp: tx_ring_def)

text \<open>A ring only depends on its own descriptors.\<close>

definition ring_addrs :: "ring \<Rightarrow> u64 set" where
  "ring_addrs r = desc_at (base r) ` {..<count r}"

lemma queue_local:
  assumes "ring_shape r" and "\<And>a. a \<in> ring_addrs r \<Longrightarrow> m' a = m a"
  shows "queue m' r = queue m r"
  using assms by (auto simp: queue_def desc_of_def ring_shape_def ring_addrs_def)

lemma ring_local:
  assumes "\<And>a. a \<in> ring_addrs r \<Longrightarrow> m' a = m a"
  shows "tx.ok m' r = tx.ok m r" and "rx.ok m' r = rx.ok m r"
proof -
  have a: "m' (desc_at (base r) i) = m (desc_at (base r) i)" if "i < count r" for i
    using that by (intro assms) (simp add: ring_addrs_def)
  have "desc_of m' r i = desc_of m r i" if "i < count r" for i
    using a that by (simp add: desc_of_def)
  with a show "tx.ok m' r = tx.ok m r" "rx.ok m' r = rx.ok m r"
    by (auto simp: tx.ok_def rx.ok_def tx.descs_ok_def rx.descs_ok_def tx.fill_ok_def rx.fill_ok_def
        ring_shape_def)
qed

lemma rx_local:
  assumes "rx.ok m r" and "\<And>a. a \<in> ring_addrs r \<Longrightarrow> m' a = m a"
  shows "rx.ok m' r" and "queue m' r = queue m r"
proof -
  show "rx.ok m' r" using assms(1) by (simp only: ring_local(2) [OF assms(2)])
  have "ring_shape r" using assms(1) by (simp add: rx.ok_def)
  then show "queue m' r = queue m r" by (rule queue_local [OF _ assms(2)])
qed

lemma tx_local:
  assumes "tx.ok m r" and "\<And>a. a \<in> ring_addrs r \<Longrightarrow> m' a = m a"
  shows "tx.ok m' r" and "queue m' r = queue m r"
proof -
  show "tx.ok m' r" using assms(1) by (simp only: ring_local(1) [OF assms(2)])
  have "ring_shape r" using assms(1) by (simp add: tx.ok_def)
  then show "queue m' r = queue m r" by (rule queue_local [OF _ assms(2)])
qed

section \<open>Taking back what was sent\<close>

abbreviation (input) done_by_dma :: "DmaDesc \<Rightarrow> bool" where
  "done_by_dma d \<equiv> \<not> synopGMAC_is_desc_owned_by_dma d"

text \<open>The heap and the counters after a list of descriptors was taken back.\<close>

fun reap_all :: "u32 \<Rightarrow> DmaDesc list \<Rightarrow> blocks \<Rightarrow> net_device_stats \<Rightarrow> blocks \<times> net_device_stats" where
  "reap_all s [] h n = (h, count_collisions s n)"
| "reap_all s (d # ds) h n =
     (if data1 d \<noteq> 0
      then reap_all (status d) ds (plat_free_memory (data1 d) h)
             (count_collisions (status d) (tx_account (status d) (size1 d) n))
      else reap_all (status d) ds h (count_collisions (status d) n))"

lemma free_at: "plat_free_memory x h a = (if a = x then None else h a)"
  by (simp add: plat_free_memory_def)

lemma reap_all_heap:
  "fst (reap_all s ds h n) a = (if a \<noteq> 0 \<and> a \<in> data1 ` set ds then None else h a)"
proof (induction s ds h n rule: reap_all.induct)
  case (2 s d ds h n)
  show ?case by (cases "data1 d = 0") (simp_all add: 2, auto simp: free_at)
qed simp

lemma reap_all_stats: "snd (reap_all s ds h n) = snd (reap_all s ds h' n)"
proof (induction s ds h n arbitrary: h' rule: reap_all.induct)
  case (2 s d ds h n)
  show ?case
  proof (cases "data1 d = 0")
    case True
    then show ?thesis using 2(2) by simp
  next
    case False
    then show ?thesis using 2(1) by simp
  qed
qed simp

lemma small_length:
  assumes "n < 8192"
  shows "(word_of_nat n :: u32) AND 0x1FFF = word_of_nat n" and "word_of_nat n = (0 :: u32) \<longleftrightarrow> n = 0"
proof -
  have u: "unat (word_of_nat n :: u32) = n" using assms by (simp add: unat_of_nat)
  have m: "(0x1FFF :: u32) = mask 13" by (simp add: mask_eq_exp_minus_1)
  have "unat ((word_of_nat n :: u32) AND mask 13) = n"
    using assms by (simp add: unsigned_take_bit_eq take_bit_nat_eq_self u flip: take_bit_eq_mask)
  then show "(word_of_nat n :: u32) AND 0x1FFF = word_of_nat n"
    unfolding m using u unsigned_word_eqI by metis
  show "word_of_nat n = (0 :: u32) \<longleftrightarrow> n = 0" using u by (metis unat_eq_0 of_nat_0)
qed

lemma wrapped_length: "(len :: u32) < 4 \<Longrightarrow> 2 ^ 31 \<le> unat (len - 4)"
  by (simp add: unat_sub_if' word_less_nat_alt)

lemma tx_queue_empty:
  "tx.ok m (tx_ring g) \<Longrightarrow> queue m (tx_ring g) = [] \<longleftrightarrow> BusyTxDesc g = 0"
  by (simp add: queue_def unat_eq_0)

lemma tx_queue_hd:
  assumes "tx.ok m (tx_ring g)" and "queue m (tx_ring g) = d # ds"
  shows "desc_of m (tx_ring g) (unat (TxBusy g)) = d"
proof -
  have "BusyTxDesc g \<noteq> 0" using assms tx_queue_empty by fastforce
  then have "0 < used (tx_ring g)" by (simp add: unat_gt_0)
  from tx.ok_busy(6) [OF assms(1) this] assms(2) show ?thesis by simp
qed

lemma tx_outputs_ok [simp]:
  "out_ok (tx_outputs s)"
  "o_status (synopGMAC_get_desc_data d (tx_outputs s)) = Some (status d)"
  "o_data1 (synopGMAC_get_desc_data d (tx_outputs s)) = Some (data1 d)"
  "o_length1 (synopGMAC_get_desc_data d (tx_outputs s)) = Some (size1 d)"
  by (simp_all add: out_ok_def tx_outputs_def synopGMAC_get_desc_data_def out_def)

lemma tx_busy_addr: "tx.ok m (tx_ring g) \<Longrightarrow> TxBusyDesc g \<in> ring_addrs (tx_ring g)"
  by (auto simp: tx.ok_def ring_shape_def ring_addrs_def)

lemma tx_reap_queue:
  assumes "tx.ok m (tx_ring g)"
  shows "\<exists>g' m' h' n'. tx_reap stw g m h n = Inr (g', m', h', n')
    \<and> (h', n') = reap_all stw (takeWhile done_by_dma (queue m (tx_ring g))) h n
    \<and> tx.ok m' (tx_ring g') \<and> queue m' (tx_ring g') = dropWhile done_by_dma (queue m (tx_ring g))
    \<and> TxDesc g' = TxDesc g \<and> TxDescCount g' = TxDescCount g \<and> rx_ring g' = rx_ring g
    \<and> DmaBase g' = DmaBase g \<and> (\<forall>a. a \<notin> ring_addrs (tx_ring g) \<longrightarrow> m' a = m a)"
  using assms
proof (induction "queue m (tx_ring g)" arbitrary: stw g m h n)
  case Nil
  from Nil.hyps [symmetric] have "BusyTxDesc g = 0" by (simp add: tx_queue_empty [OF Nil.prems])
  then have "synopGMAC_get_tx_qptr (tx_outputs stw) g m = Inr (-1, tx_outputs stw, g, m)"
    by (simp add: get_tx_none [OF Nil.prems])
  then have "tx_reap stw g m h n = Inr (g, m, h, count_collisions stw n)"
    by (subst tx_reap.simps) (simp add: tx_outputs_def)
  with Nil show ?case by (auto simp flip: Nil.hyps)
next
  case (Cons d ds)
  have q: "queue m (tx_ring g) = d # ds" by (rule Cons.hyps(2) [symmetric])
  show ?case
  proof (cases "synopGMAC_is_desc_owned_by_dma d")
    case True
    then have "synopGMAC_get_tx_qptr (tx_outputs stw) g m = Inr (-1, tx_outputs stw, g, m)"
      by (intro get_tx_none Cons.prems) (simp add: tx_queue_hd [OF Cons.prems q])
    then have "tx_reap stw g m h n = Inr (g, m, h, count_collisions stw n)"
      by (subst tx_reap.simps) (simp add: tx_outputs_def)
    with True Cons.prems show ?thesis by (simp add: q)
  next
    case False
    have "BusyTxDesc g \<noteq> 0" using q tx_queue_empty [OF Cons.prems] by simp
    from get_tx_step [OF Cons.prems this tx_outputs_ok(1) [of stw]] False
    obtain g1 m1 where s: "synopGMAC_get_tx_qptr (tx_outputs stw) g m = Inr (int (unat (TxBusy g)),
        synopGMAC_get_desc_data d (tx_outputs stw), g1, m1)" "tx.ok m1 (tx_ring g1)"
      "TxDesc g1 = TxDesc g" "TxDescCount g1 = TxDescCount g" "queue m1 (tx_ring g1) = ds"
      by (auto simp: q)
    note fr = get_tx_frame [OF s(1)]
    have sa: "ring_addrs (tx_ring g1) = ring_addrs (tx_ring g)" by (simp add: ring_addrs_def s(3,4))
    define h1 n1 where "h1 = (if data1 d \<noteq> 0 then plat_free_memory (data1 d) h else h)"
      and "n1 = count_collisions (status d)
        (if data1 d \<noteq> 0 then tx_account (status d) (size1 d) n else n)"
    have "tx_reap stw g m h n = tx_reap (status d) g1 m1 h1 n1"
      by (subst tx_reap.simps) (simp add: s(1) h1_def n1_def Let_def)
    moreover have "reap_all stw (takeWhile done_by_dma (queue m (tx_ring g))) h n
        = reap_all (status d) (takeWhile done_by_dma ds) h1 n1"
      using False by (simp add: q h1_def n1_def)
    moreover have "dropWhile done_by_dma (queue m (tx_ring g)) = dropWhile done_by_dma ds"
      using False by (simp add: q)
    ultimately show ?thesis
      using Cons.hyps(1) [OF s(5) [symmetric] s(2), of "status d" h1 n1] s(3,4,5) fr sa
        tx_busy_addr [OF Cons.prems] by (metis (no_types, lifting))
  qed
qed


section \<open>The device in operation\<close>

text \<open>An attached device, both rings well formed and apart.\<close>

definition eth_up :: "'s eth \<Rightarrow> net_adapter \<Rightarrow> synopGMACdevice \<Rightarrow> bool" where
  "eth_up e ad g \<longleftrightarrow> priv e = Some ad \<and> synopGMACdev ad = Some g
     \<and> tx.ok (descs e) (tx_ring g) \<and> rx.ok (descs e) (rx_ring g)
     \<and> ring_addrs (tx_ring g) \<inter> ring_addrs (rx_ring g) = {}"

lemma tx_next_addr: "tx.ok m (tx_ring g) \<Longrightarrow> TxNextDesc g \<in> ring_addrs (tx_ring g)"
  using ring_shape_next [of "tx_ring g"]
  by (auto simp: tx.ok_def ring_addrs_def) (auto simp: ring_shape_def)

lemma reap_with_new:
  assumes "synopGMAC_is_desc_owned_by_dma d"
  shows "takeWhile done_by_dma (q @ [d]) = takeWhile done_by_dma q"
    and "dropWhile done_by_dma (q @ [d]) = dropWhile done_by_dma q @ [d]"
  using assms by (induction q) auto

text \<open>The second half of a transmission: what the device looks like after the descriptors that are
  done were taken back.\<close>

lemma tx_finish:
  assumes "tx.ok m (tx_ring g)" and "rx.ok m (rx_ring g)"
    and "ring_addrs (tx_ring g) \<inter> ring_addrs (rx_ring g) = {}"
  shows "\<exists>g' m' h' n'. tx_reap stw g m h n = Inr (g', m', h', n')
    \<and> (h', n') = reap_all stw (takeWhile done_by_dma (queue m (tx_ring g))) h n
    \<and> tx.ok m' (tx_ring g') \<and> rx.ok m' (rx_ring g')
    \<and> ring_addrs (tx_ring g') \<inter> ring_addrs (rx_ring g') = {}
    \<and> queue m' (tx_ring g') = dropWhile done_by_dma (queue m (tx_ring g))
    \<and> queue m' (rx_ring g') = queue m (rx_ring g)"
proof -
  from tx_reap_queue [OF assms(1), of stw h n] obtain g' m' h' n' where
    t: "tx_reap stw g m h n = Inr (g', m', h', n')"
      "(h', n') = reap_all stw (takeWhile done_by_dma (queue m (tx_ring g))) h n"
      "tx.ok m' (tx_ring g')" "queue m' (tx_ring g') = dropWhile done_by_dma (queue m (tx_ring g))"
      "TxDesc g' = TxDesc g" "TxDescCount g' = TxDescCount g" "rx_ring g' = rx_ring g"
      "\<forall>a. a \<notin> ring_addrs (tx_ring g) \<longrightarrow> m' a = m a" by blast
  have same: "m' a = m a" if "a \<in> ring_addrs (rx_ring g)" for a
    using assms(3) that t(8) by blast
  have "rx.ok m' (rx_ring g')" "queue m' (rx_ring g') = queue m (rx_ring g)"
    unfolding t(7) by (rule rx_local [OF assms(2) same], assumption)+
  moreover have "ring_addrs (tx_ring g') = ring_addrs (tx_ring g)"
    by (simp add: ring_addrs_def t(5,6))
  ultimately show ?thesis using t(1-4,7) assms(3) by (intro exI conjI) (assumption | simp)+
qed

text \<open>What a transmission does with the descriptor at its disposal.\<close>

lemma rt_eth_tx_eq:
  assumes "eth_up e ad g" and "0 < sem_lock e"
    and "d = desc_of (descs e) (tx_ring g) (unat (TxNext g))"
  shows "rt_eth_tx env status0 p e =
     rbind (if done_by_dma d then tx_enqueue env p g (e\<lparr>sem_lock := sem_lock e - 1\<rparr>)
            else Inr (None, status0, g, e\<lparr>sem_lock := sem_lock e - 1\<rparr>)) (\<lambda>(early, status, g, e).
     let e = e\<lparr>priv := Some (ad\<lparr>synopGMACdev := Some g\<rparr>)\<rparr> in
     case early of
       Some code \<Rightarrow> Inr (code, e)
     | None \<Rightarrow>
         let e = on_hw (synopGMAC_resume_dma_tx (ctrl env) g) e in
         rbind (tx_reap status g (descs e) (heap e) (synopGMACNetStats ad)) (\<lambda>(g, m, h, n).
         let e = e\<lparr>priv := Some (ad\<lparr>synopGMACdev := Some g, synopGMACNetStats := n\<rparr>),
                   descs := m, heap := h\<rparr>;
             e = rt_sem_release e;
             e = on_hw (\<lambda>s. snd (synopGMACReadReg (ctrl env) (DmaBase g) DmaStatus s)) e
         in Inr (0, e)))"
  using assms tx.ok_next(1) [of "descs e" "tx_ring g"]
  unfolding rt_eth_tx_def rt_sem_take_def eth_up_def ld_def by simp


text \<open>A packet given to a free descriptor: the rings are as before, and the descriptor is queued.\<close>

lemma packet_queued:
  fixes len :: u32
  assumes "tx.ok m (tx_ring g)" and "rx.ok m (rx_ring g)" and "ring_addrs (tx_ring g) \<inter> ring_addrs (rx_ring g) = {}"
    and "BusyTxDesc g \<noteq> TxDescCount g" and "has_length len 0"
  shows "\<exists>g1 m1 d. synopGMAC_set_tx_qptr dma len a 0 0 0 0 g m = Inr (int (unat (TxNext g)), TxNext g, g1, m1)
    \<and> tx.ok m1 (tx_ring g1) \<and> rx.ok m1 (rx_ring g1) \<and> ring_addrs (tx_ring g1) \<inter> ring_addrs (rx_ring g1) = {}
    \<and> queue m1 (tx_ring g1) = queue m (tx_ring g) @ [d] \<and> queue m1 (rx_ring g1) = queue m (rx_ring g)
    \<and> synopGMAC_is_desc_owned_by_dma d \<and> buffers d = given dma len a 0 0 0"
proof -
  have "0 \<noteq> TxDesc g" using assms(1) by (auto simp: tx.ok_def tx.descs_ok_def)
  from set_tx_queue [OF assms(1,4,5) this, of dma a 0 0]
  obtain g1 m1 d where s: "synopGMAC_set_tx_qptr dma len a 0 0 0 0 g m = Inr (int (unat (TxNext g)), TxNext g, g1, m1)"
    "tx.ok m1 (tx_ring g1)" "TxDesc g1 = TxDesc g" "TxDescCount g1 = TxDescCount g"
    "queue m1 (tx_ring g1) = queue m (tx_ring g) @ [d]" "synopGMAC_is_desc_owned_by_dma d"
    "buffers d = given dma len a 0 0 0" by blast
  note fr = set_tx_frame [OF s(1)]
  have "m1 b = m b" if "b \<notin> ring_addrs (tx_ring g)" for b
    using tx_next_addr [OF assms(1)] that by (intro fr(2)) auto
  then have same: "m1 b = m b" if "b \<in> ring_addrs (rx_ring g)" for b
    using assms(3) that by blast
  have "rx.ok m1 (rx_ring g1)" "queue m1 (rx_ring g1) = queue m (rx_ring g)"
    unfolding fr(1) by (rule rx_local [OF assms(2) same], assumption)+
  moreover have "ring_addrs (tx_ring g1) \<inter> ring_addrs (rx_ring g1) = {}"
    using assms(3) by (simp add: fr(1) ring_addrs_def s(3,4))
  ultimately show ?thesis using s by blast
qed

text \<open>C29. On a transmit ring with a free descriptor, sending a packet returns success with the
  semaphore as before: the packet is in a block of its own, whose descriptor, owned by the DMA, is
  the last of the queue; the descriptors at its front that the DMA had finished are gone and their
  blocks freed and counted; nothing of the receive side has changed.\<close>

theorem rt_eth_tx_queues:
  assumes "eth_up e ad g" and "0 < sem_lock e" and "BusyTxDesc g \<noteq> TxDescCount g"
    and "done_by_dma (desc_of (descs e) (tx_ring g) (unat (TxNext g)))"
    and "0 < length p" and "length p < 8192"
    and "rt_malloc env (word_of_nat (length p)) (heap e) = (a, block)"
    and "a \<noteq> 0" and "length p \<le> length block"
    and "a \<notin> data1 ` set (queue (descs e) (tx_ring g))"
  shows "\<exists>e' ad' g' d. rt_eth_tx env status0 p e = Inr (0, e') \<and> sem_lock e' = sem_lock e
    \<and> eth_up e' ad' g' \<and> queue (descs e') (rx_ring g') = queue (descs e) (rx_ring g)
    \<and> queue (descs e') (tx_ring g') = dropWhile done_by_dma (queue (descs e) (tx_ring g)) @ [d]
    \<and> synopGMAC_is_desc_owned_by_dma d
    \<and> buffers d = ((plat_dma_map_single env a, word_of_nat (length p), a), (0, 0, 0))
    \<and> heap e' a = Some (p @ drop (length p) block)
    \<and> (\<forall>x. x \<noteq> a \<longrightarrow> heap e' x = (if x \<noteq> 0 \<and> x \<in> data1 ` set (takeWhile done_by_dma
         (queue (descs e) (tx_ring g))) then None else heap e x))
    \<and> synopGMACNetStats ad' = snd (reap_all (TxNext g) (takeWhile done_by_dma
         (queue (descs e) (tx_ring g))) (heap e) (synopGMACNetStats ad))"
proof -
  let ?len = "word_of_nat (length p) :: u32"
  let ?q = "queue (descs e) (tx_ring g)"
  let ?h = "(heap e)(a \<mapsto> p @ drop (length p) block)"
  have up: "tx.ok (descs e) (tx_ring g)" "rx.ok (descs e) (rx_ring g)" "priv e = Some ad"
    "synopGMACdev ad = Some g" "ring_addrs (tx_ring g) \<inter> ring_addrs (rx_ring g) = {}"
    using assms(1) by (simp_all add: eth_up_def)
  have l: "?len AND 0x1FFF = ?len" "has_length ?len 0"
    using small_length [OF assms(6)] assms(5) by (auto simp: has_length_def)
  from packet_queued [OF up(1,2,5) assms(3) l(2), of "plat_dma_map_single env a" a] obtain g1 m1 d where
    s: "synopGMAC_set_tx_qptr (plat_dma_map_single env a) ?len a 0 0 0 0 g (descs e)
      = Inr (int (unat (TxNext g)), TxNext g, g1, m1)" "tx.ok m1 (tx_ring g1)" "rx.ok m1 (rx_ring g1)"
    "ring_addrs (tx_ring g1) \<inter> ring_addrs (rx_ring g1) = {}" "queue m1 (tx_ring g1) = ?q @ [d]"
    "queue m1 (rx_ring g1) = queue (descs e) (rx_ring g)" "synopGMAC_is_desc_owned_by_dma d"
    "buffers d = given (plat_dma_map_single env a) ?len a 0 0 0" by (elim exE conjE) (rule that)
  from tx_finish [OF s(2-4), of "TxNext g" ?h "synopGMACNetStats ad"]
  obtain g' m' h' n' where t: "tx_reap (TxNext g) g1 m1 ?h (synopGMACNetStats ad) = Inr (g', m', h', n')"
    "(h', n') = reap_all (TxNext g) (takeWhile done_by_dma ?q) ?h (synopGMACNetStats ad)"
    "tx.ok m' (tx_ring g')" "rx.ok m' (rx_ring g')"
    "ring_addrs (tx_ring g') \<inter> ring_addrs (rx_ring g') = {}"
    "queue m' (tx_ring g') = dropWhile done_by_dma ?q @ [d]"
    "queue m' (rx_ring g') = queue (descs e) (rx_ring g)"
    by (auto simp: s(5) reap_with_new [OF s(7)] s(6))
  define ad' where "ad' = ad\<lparr>synopGMACdev := Some g', synopGMACNetStats := n'\<rparr>"
  obtain e' where e': "rt_eth_tx env status0 p e = Inr (0, e')" "sem_lock e' = sem_lock e"
    "priv e' = Some ad'" "descs e' = m'" "heap e' = h'"
    unfolding rt_eth_tx_eq [OF assms(1,2) refl]
    using assms(2,4,7-9) s(1) t(1)
    by (simp add: tx_enqueue_def Let_def on_hw_def rt_sem_release_def ad'_def)
  have "eth_up e' ad' g'" using t(3-5) e'(3,4) by (simp add: eth_up_def ad'_def)
  moreover have h': "h' x = (if x \<noteq> 0 \<and> x \<in> data1 ` set (takeWhile done_by_dma ?q) then None else ?h x)" for x
    using reap_all_heap [of "TxNext g" "takeWhile done_by_dma ?q" ?h "synopGMACNetStats ad" x]
    by (simp flip: t(2))
  moreover have "a \<notin> data1 ` set (takeWhile done_by_dma ?q)"
    using assms(10) by (auto dest: set_takeWhileD)
  moreover have "synopGMACNetStats ad'
      = snd (reap_all (TxNext g) (takeWhile done_by_dma ?q) (heap e) (synopGMACNetStats ad))"
    by (simp add: ad'_def reap_all_stats [of _ _ "heap e" _ ?h] flip: t(2))
  moreover have "buffers d = ((plat_dma_map_single env a, ?len, a), (0, 0, 0))"
    using s(8) l(1) by (simp add: given_def)
  ultimately show ?thesis
    using e' s(7) t(6,7) by (intro exI [of _ e'] exI [of _ ad'] exI [of _ g'] exI [of _ d] conjI) simp_all
qed


text \<open>On a full ring the next descriptor is the oldest one.\<close>

lemma full_ring_next:
  assumes "tx.ok m (tx_ring g)" and "BusyTxDesc g = TxDescCount g"
  shows "TxNext g = TxBusy g"
proof -
  have "unat (TxNext g) = unat (TxBusy g)"
    using assms by (auto simp: tx.ok_def ring_shape_def slot_def)
  then show ?thesis by (rule unsigned_word_eqI)
qed

text \<open>C31. On a full transmit ring whose oldest descriptor the DMA has finished, sending a packet
  fails without taking that descriptor back, and returns with the semaphore taken: every later
  transmission or reception waits for it for ever.\<close>

theorem rt_eth_tx_full_ring_deadlocks:
  assumes "eth_up e ad g" and "sem_lock e = 1" and "BusyTxDesc g = TxDescCount g"
    and "queue (descs e) (tx_ring g) = d # ds" and "done_by_dma d"
    and "rt_malloc env (word_of_nat (length p)) (heap e) = (a, block)"
    and "a \<noteq> 0" and "length p \<le> length block"
  shows "\<exists>e'. rt_eth_tx env status0 p e = Inr (-16, e') \<and> descs e' = descs e \<and> sem_lock e' = 0
    \<and> (\<forall>env' status1 p'. rt_eth_tx env' status1 p' e' = Inl NoReturn)
    \<and> (\<forall>env'. rt_eth_rx env' e' = Inl NoReturn)"
proof -
  have up: "tx.ok (descs e) (tx_ring g)" using assms(1) by (simp add: eth_up_def)
  have d: "desc_of (descs e) (tx_ring g) (unat (TxNext g)) = d"
    using tx_queue_hd [OF up assms(4)] full_ring_next [OF up assms(3)] by simp
  obtain e' where e': "rt_eth_tx env status0 p e = Inr (-16, e')" "descs e' = descs e" "sem_lock e' = 0"
    using rt_eth_tx_eq [OF assms(1) _ d [symmetric], of env status0 p] assms(2,5-8)
      set_tx_full [OF up assms(3), of "plat_dma_map_single env a" "word_of_nat (length p)" a 0 0 0 0]
    by (simp add: tx_enqueue_def Let_def)
  moreover have "rt_sem_take e' = Inl NoReturn" using e'(3) by (simp add: rt_sem_take_def)
  ultimately show ?thesis by (simp add: rt_eth_tx_def rt_eth_rx_def)
qed

text \<open>When the DMA still owns the next descriptor, sending a packet returns success, yet no
  descriptor and no block holds it: the packet is lost without a trace, and the collision count
  of an uninitialised variable is added to the counters if no descriptor is taken back.\<close>

theorem rt_eth_tx_drops_packet:
  assumes "eth_up e ad g" and "0 < sem_lock e"
    and "synopGMAC_is_desc_owned_by_dma (desc_of (descs e) (tx_ring g) (unat (TxNext g)))"
  shows "\<exists>e' ad' g'. rt_eth_tx env status0 p e = Inr (0, e') \<and> sem_lock e' = sem_lock e
    \<and> eth_up e' ad' g'
    \<and> queue (descs e') (tx_ring g') = dropWhile done_by_dma (queue (descs e) (tx_ring g))
    \<and> heap e' \<subseteq>\<^sub>m heap e
    \<and> synopGMACNetStats ad' = snd (reap_all status0 (takeWhile done_by_dma
         (queue (descs e) (tx_ring g))) (heap e) (synopGMACNetStats ad))"
proof -
  let ?q = "queue (descs e) (tx_ring g)"
  have up: "tx.ok (descs e) (tx_ring g)" "rx.ok (descs e) (rx_ring g)"
    "ring_addrs (tx_ring g) \<inter> ring_addrs (rx_ring g) = {}"
    using assms(1) by (simp_all add: eth_up_def)
  from tx_finish [OF up, of status0 "heap e" "synopGMACNetStats ad"]
  obtain g' m' h' n' where t: "tx_reap status0 g (descs e) (heap e) (synopGMACNetStats ad)
      = Inr (g', m', h', n')"
    "(h', n') = reap_all status0 (takeWhile done_by_dma ?q) (heap e) (synopGMACNetStats ad)"
    "tx.ok m' (tx_ring g')" "rx.ok m' (rx_ring g')"
    "ring_addrs (tx_ring g') \<inter> ring_addrs (rx_ring g') = {}"
    "queue m' (tx_ring g') = dropWhile done_by_dma ?q" by blast
  define ad' where "ad' = ad\<lparr>synopGMACdev := Some g', synopGMACNetStats := n'\<rparr>"
  obtain e' where e': "rt_eth_tx env status0 p e = Inr (0, e')" "sem_lock e' = sem_lock e"
    "priv e' = Some ad'" "descs e' = m'" "heap e' = h'"
    unfolding rt_eth_tx_eq [OF assms(1,2) refl] using assms(2,3) t(1)
    by (simp add: Let_def on_hw_def rt_sem_release_def ad'_def)
  have "eth_up e' ad' g'" using t(3-5) e'(3,4) by (simp add: eth_up_def ad'_def)
  moreover have "h' x = (if x \<noteq> 0 \<and> x \<in> data1 ` set (takeWhile done_by_dma ?q) then None else heap e x)" for x
    using reap_all_heap [of status0 "takeWhile done_by_dma ?q" "heap e" "synopGMACNetStats ad" x]
    by (simp flip: t(2))
  then have "h' \<subseteq>\<^sub>m heap e" by (auto simp: map_le_def split: if_splits)
  moreover have "synopGMACNetStats ad' = snd (reap_all status0 (takeWhile done_by_dma ?q) (heap e)
      (synopGMACNetStats ad))"
    by (simp add: ad'_def flip: t(2))
  ultimately show ?thesis
    using e' t(6) by (intro exI [of _ e'] exI [of _ ad'] exI [of _ g'] conjI) simp_all
qed

section \<open>Reception\<close>

lemma rx_queue_hd:
  assumes "rx.ok m (rx_ring g)" and "queue m (rx_ring g) = d # ds"
  shows "BusyRxDesc g \<noteq> 0" and "unat (BusyRxDesc g) = Suc (length ds)"
proof -
  show "unat (BusyRxDesc g) = Suc (length ds)"
    using assms(2) by (metis length_Cons length_map length_upt queue_def rx_ring_simps(7) diff_zero)
  then show "BusyRxDesc g \<noteq> 0" by auto
qed

lemma rx_busy_addr: "rx.ok m (rx_ring g) \<Longrightarrow> RxBusyDesc g \<in> ring_addrs (rx_ring g)"
  by (auto simp: rx.ok_def ring_shape_def ring_addrs_def)

lemma rx_next_addr: "rx.ok m (rx_ring g) \<Longrightarrow> RxNextDesc g \<in> ring_addrs (rx_ring g)"
  using ring_shape_next [of "rx_ring g"]
  by (auto simp: rx.ok_def ring_addrs_def) (auto simp: ring_shape_def)

text \<open>Taking the first descriptor of the receive ring and queueing its buffer again.\<close>

lemma rx_cycle:
  assumes "eth_up e ad g" and "queue (descs e) (rx_ring g) = d # ds" and "done_by_dma d"
  shows "\<exists>g1 m1 i. synopGMAC_get_rx_qptr rx_outputs g (descs e) = Inr (int (unat (RxBusy g)),
      synopGMAC_get_desc_data d rx_outputs, g1, m1)
    \<and> (\<forall>b. \<exists>g2 m2. synopGMAC_set_rx_qptr b RX_BUF_SIZE (data1 d) 0 0 0 g1 m1 = Inr (i, g2, m2)
        \<and> 0 \<le> i \<and> tx.ok m2 (tx_ring g2) \<and> rx.ok m2 (rx_ring g2)
        \<and> ring_addrs (tx_ring g2) \<inter> ring_addrs (rx_ring g2) = {}
        \<and> queue m2 (tx_ring g2) = queue (descs e) (tx_ring g)
        \<and> map buffers (queue m2 (rx_ring g2)) = map buffers ds @ [((b, 2522, data1 d), (0, 0, 0))])"
proof -
  have up: "tx.ok (descs e) (tx_ring g)" "rx.ok (descs e) (rx_ring g)"
    "ring_addrs (tx_ring g) \<inter> ring_addrs (rx_ring g) = {}"
    using assms(1) by (simp_all add: eth_up_def)
  note hd = rx_queue_hd [OF up(2) assms(2)]
  have "out_ok rx_outputs" by (simp add: out_ok_def rx_outputs_def)
  from get_rx_step [OF up(2) hd(1) this] assms(3)
  obtain g1 m1 where s: "synopGMAC_get_rx_qptr rx_outputs g (descs e) = Inr (int (unat (RxBusy g)),
      synopGMAC_get_desc_data d rx_outputs, g1, m1)" "rx.ok m1 (rx_ring g1)"
    "RxDesc g1 = RxDesc g" "RxDescCount g1 = RxDescCount g" "queue m1 (rx_ring g1) = ds"
    by (auto simp: assms(2))
  note fr = get_rx_frame [OF s(1)]
  have "unat (BusyRxDesc g1) = length ds" using s(5) by (simp add: queue_def flip: s(5))
  moreover have "unat (BusyRxDesc g) \<le> unat (RxDescCount g)"
    using up(2) by (simp add: rx.ok_def ring_shape_def)
  ultimately have free: "BusyRxDesc g1 \<noteq> RxDescCount g1" using hd(2) s(4) by auto
  have z: "has_length RX_BUF_SIZE 0" "0 \<noteq> RxDesc g1"
    using s(2) by (auto simp: has_length_def rx.ok_def rx.descs_ok_def)
  have "\<exists>g2 m2. synopGMAC_set_rx_qptr b RX_BUF_SIZE (data1 d) 0 0 0 g1 m1
      = Inr (int (unat (RxNext g1)), g2, m2)
      \<and> tx.ok m2 (tx_ring g2) \<and> rx.ok m2 (rx_ring g2)
      \<and> ring_addrs (tx_ring g2) \<inter> ring_addrs (rx_ring g2) = {}
      \<and> queue m2 (tx_ring g2) = queue (descs e) (tx_ring g)
      \<and> map buffers (queue m2 (rx_ring g2)) = map buffers ds @ [((b, 2522, data1 d), (0, 0, 0))]" for b
  proof -
    from set_rx_step [OF s(2) free z, of DescOwnByDma b "data1 d" 0] obtain g2 m2 where
      t: "synopGMAC_set_rx_qptr b RX_BUF_SIZE (data1 d) 0 0 0 g1 m1 = Inr (int (unat (RxNext g1)), g2, m2)"
      "rx.ok m2 (rx_ring g2)" "RxDesc g2 = RxDesc g1" "RxDescCount g2 = RxDescCount g1"
      "map buffers (queue m2 (rx_ring g2)) = map buffers ds @ [given b RX_BUF_SIZE (data1 d) 0 0 0]"
      by (auto simp: synopGMAC_set_rx_qptr_def s(5))
    note fr2 = set_rx_frame [OF t(1)]
    have ra: "ring_addrs (rx_ring g2) = ring_addrs (rx_ring g)" "ring_addrs (rx_ring g1) = ring_addrs (rx_ring g)"
      by (simp_all add: ring_addrs_def t(3,4) s(3,4))
    have "m2 x = descs e x" if "x \<notin> ring_addrs (rx_ring g)" for x
    proof -
      have "m2 x = m1 x" using that rx_next_addr [OF s(2)] ra by (intro fr2(2)) auto
      also have "\<dots> = descs e x" using that rx_busy_addr [OF up(2)] by (intro fr(2)) auto
      finally show ?thesis .
    qed
    then have same: "m2 x = descs e x" if "x \<in> ring_addrs (tx_ring g)" for x
      using that up(3) by blast
    have "tx.ok m2 (tx_ring g2)" "queue m2 (tx_ring g2) = queue (descs e) (tx_ring g)"
      unfolding fr2(1) fr(1) by (rule tx_local [OF up(1) same], assumption)+
    moreover have "given b RX_BUF_SIZE (data1 d) 0 0 0 = ((b, 2522, data1 d), (0, 0, 0))"
      by (simp add: given_def)
    ultimately show ?thesis
      using t up(3) ra(1) by (intro exI [of _ g2] exI [of _ m2] conjI) (simp_all add: fr2(1) fr(1))
  qed
  note cyc = this
  show ?thesis
    by (rule exI [of _ g1], rule exI [of _ m1], rule exI [of _ "int (unat (RxNext g1))"],
        rule conjI [OF s(1)], rule allI) (use cyc in simp)
qed

text \<open>C30. A received frame: the frame without its four bytes of checksum is delivered if the
  descriptor is valid, nothing and an error in the counters otherwise; in both cases the buffer
  goes back to the end of the receive ring, the transmit ring and the heap stay as they are, and the
  semaphore is released. A valid frame must be no shorter than its checksum, and lwIP must have a
  buffer for it.\<close>

theorem rt_eth_rx_delivers:
  assumes "eth_up e ad g" and "0 < sem_lock e" and "RxDescCount g \<le> RECEIVE_DESC_SIZE"
    and "queue (descs e) (rx_ring g) = d # ds" and "done_by_dma d" and "data1 d \<noteq> 0"
    and "len = synopGMAC_get_rx_desc_frame_length (status d)"
    and "synopGMAC_is_rx_desc_valid (status d) \<Longrightarrow> 4 \<le> len \<and> heap e (data1 d) = Some block
      \<and> unat (len - 4) \<le> length block
      \<and> (\<exists>room. pbuf_alloc env (ucast (len - 4)) = Some room \<and> unat (len - 4) \<le> room)"
  shows "\<exists>e' ad' g' b. rt_eth_rx env e = Inr
      (if synopGMAC_is_rx_desc_valid (status d) then Some (take (unat len - 4) block) else None, e')
    \<and> sem_lock e' = sem_lock e \<and> eth_up e' ad' g' \<and> heap e' = heap e
    \<and> queue (descs e') (tx_ring g') = queue (descs e) (tx_ring g)
    \<and> map buffers (queue (descs e') (rx_ring g')) = map buffers ds @ [((b, 2522, data1 d), (0, 0, 0))]
    \<and> synopGMACNetStats ad' = (if synopGMAC_is_rx_desc_valid (status d) then synopGMACNetStats ad
         else rx_bad (status d) (synopGMACNetStats ad))"
proof -
  let ?v = "synopGMAC_is_rx_desc_valid (status d)"
  let ?n = "if ?v then synopGMACNetStats ad else rx_bad (status d) (synopGMACNetStats ad)"
  let ?b = "if ?v then plat_dma_map_single env (data1 d) else buffer1 d"
  let ?f = "if ?v then Some (take (unat len - 4) block) else None"
  have up: "rx.ok (descs e) (rx_ring g)" "priv e = Some ad" "synopGMACdev ad = Some g"
    using assms(1) by (simp_all add: eth_up_def)
  obtain g1 m1 g2 m2 i where c: "synopGMAC_get_rx_qptr rx_outputs g (descs e)
      = Inr (int (unat (RxBusy g)), synopGMAC_get_desc_data d rx_outputs, g1, m1)"
    "synopGMAC_set_rx_qptr ?b RX_BUF_SIZE (data1 d) 0 0 0 g1 m1 = Inr (i, g2, m2)" "0 \<le> i"
    "tx.ok m2 (tx_ring g2)" "rx.ok m2 (rx_ring g2)"
    "ring_addrs (tx_ring g2) \<inter> ring_addrs (rx_ring g2) = {}"
    "queue m2 (tx_ring g2) = queue (descs e) (tx_ring g)"
    "map buffers (queue m2 (rx_ring g2)) = map buffers ds @ [((?b, 2522, data1 d), (0, 0, 0))]"
    using rx_cycle [OF assms(1,4,5)] by metis
  have "unat (RxBusy g) < unat (RxDescCount g)" using up(1) by (simp add: rx.ok_def ring_shape_def)
  with assms(3) have small: "\<not> RECEIVE_DESC_SIZE \<le> RxBusy g" by (simp add: word_le_nat_alt)
  have copy: "rx_copy env (len - 4) (data1 d) (heap e) = Inr (take (unat len - 4) block)" if ?v
    using assms(8) [OF that] by (auto simp: rx_copy_def unat_sub)
  have outs: "o_status (synopGMAC_get_desc_data d rx_outputs) = Some (status d)"
    "o_data1 (synopGMAC_get_desc_data d rx_outputs) = Some (data1 d)"
    "o_buffer1 (synopGMAC_get_desc_data d rx_outputs) = Some (buffer1 d)"
    by (simp_all add: synopGMAC_get_desc_data_def rx_outputs_def out_def)
  have frame: "rx_frame env (synopGMAC_get_desc_data d rx_outputs) g1 (synopGMACNetStats ad) x
      = Inr (?f, g2, ?n, x\<lparr>descs := m2\<rparr>)" if "descs x = m1" "heap x = heap e" for x
    using c(2,3) that copy by (cases ?v) (simp_all add: rx_frame_def outs assms(7))
  define ad' where "ad' = ad\<lparr>synopGMACdev := Some g2, synopGMACNetStats := ?n\<rparr>"
  define e' where "e' = e\<lparr>descs := m2, priv := Some ad'\<rparr>"
  have "rt_eth_rx env e = Inr (?f, e')"
    using assms(2,6) small c(1)
    by (simp add: rt_eth_rx_def rt_sem_take_def up Let_def frame outs rt_sem_release_def e'_def ad'_def)
  moreover have "eth_up e' ad' g2" using c(4-6) by (simp add: eth_up_def e'_def ad'_def)
  ultimately show ?thesis
    using c(7,8) by (intro exI [of _ e'] exI [of _ ad'] exI [of _ g2] exI [of _ ?b] conjI)
      (simp_all add: e'_def ad'_def)
qed


text \<open>A valid descriptor whose frame is shorter than the checksum, and a valid frame lwIP has no
  buffer for, are not handled: the length wraps around and the copy runs out of the receive buffer,
  or it goes through the null pointer.\<close>

theorem rt_eth_rx_faults:
  assumes "eth_up e ad g" and "0 < sem_lock e" and "RxDescCount g \<le> RECEIVE_DESC_SIZE"
    and "queue (descs e) (rx_ring g) = d # ds" and "done_by_dma d" and "data1 d \<noteq> 0"
    and "len = synopGMAC_get_rx_desc_frame_length (status d)"
    and "synopGMAC_is_rx_desc_valid (status d)" and "heap e (data1 d) = Some block"
    and "length block < 2 ^ 31"
  shows "(pbuf_alloc env (ucast (len - 4)) = None \<longrightarrow> rt_eth_rx env e = Inl NullPtr)
    \<and> (pbuf_alloc env (ucast (len - 4)) \<noteq> None \<and> len < 4 \<longrightarrow> rt_eth_rx env e = Inl OobRead)"
proof -
  have up: "rx.ok (descs e) (rx_ring g)" "priv e = Some ad" "synopGMACdev ad = Some g"
    using assms(1) by (simp_all add: eth_up_def)
  obtain g1 m1 where c: "synopGMAC_get_rx_qptr rx_outputs g (descs e)
      = Inr (int (unat (RxBusy g)), synopGMAC_get_desc_data d rx_outputs, g1, m1)"
    using rx_cycle [OF assms(1,4,5)] by blast
  have "unat (RxBusy g) < unat (RxDescCount g)" using up(1) by (simp add: rx.ok_def ring_shape_def)
  with assms(3) have small: "\<not> RECEIVE_DESC_SIZE \<le> RxBusy g" by (simp add: word_le_nat_alt)
  have outs: "o_status (synopGMAC_get_desc_data d rx_outputs) = Some (status d)"
    "o_data1 (synopGMAC_get_desc_data d rx_outputs) = Some (data1 d)"
    by (simp_all add: synopGMAC_get_desc_data_def rx_outputs_def out_def)
  have run: "rt_eth_rx env e = Inl f" if "rx_copy env (len - 4) (data1 d) (heap e) = Inl f" for f
    using assms(2,6,8) small c that
    by (simp add: rt_eth_rx_def rt_sem_take_def up Let_def rx_frame_def outs flip: assms(7))
  have null: "rt_eth_rx env e = Inl NullPtr" if "pbuf_alloc env (ucast (len - 4)) = None"
    by (rule run) (simp add: rx_copy_def that)
  have short: "rt_eth_rx env e = Inl OobRead" if "pbuf_alloc env (ucast (len - 4)) \<noteq> None" "len < 4"
  proof (rule run)
    have "2 ^ 31 \<le> unat (len - 4)" using that(2) by (rule wrapped_length)
    with assms(10) that(1) show "rx_copy env (len - 4) (data1 d) (heap e) = Inl OobRead"
      by (auto simp: rx_copy_def assms(9))
  qed
  show ?thesis using null short by blast
qed

section \<open>An example device\<close>

text \<open>Two rings of one descriptor each, both full, the DMA having finished with both.\<close>

definition sent_desc :: "u32 \<Rightarrow> DmaDesc" where
  "sent_desc own = blank_desc\<lparr>status := TxDescEndOfRing OR own, desc_length := 100, data1 := 0x7000\<rparr>"

definition received_desc :: "u32 \<Rightarrow> DmaDesc" where
  "received_desc stw = blank_desc\<lparr>desc_length := RxDescEndOfRing OR 2522, data1 := 0x8000, status := stw\<rparr>"

definition busy_mem :: "u32 \<Rightarrow> u32 \<Rightarrow> desc_mem" where
  "busy_mem own stw = [0x1000 \<mapsto> sent_desc own, 0x2000 \<mapsto> received_desc stw]"

definition busy_dev :: synopGMACdevice where
  "busy_dev = blank_dev\<lparr>TxDesc := 0x1000, RxDesc := 0x2000, TxDescCount := 1, RxDescCount := 1,
     BusyTxDesc := 1, BusyRxDesc := 1, TxNextDesc := 0x1000, TxBusyDesc := 0x1000,
     RxNextDesc := 0x2000, RxBusyDesc := 0x2000\<rparr>"

definition no_stats :: net_device_stats where
  "no_stats = \<lparr>tx_packets = 0, tx_bytes = 0, rx_errors = 0, tx_errors = 0, collisions = 0,
     rx_length_errors = 0, rx_over_errors = 0, rx_crc_errors = 0, rx_frame_errors = 0,
     tx_aborted_errors = 0, tx_carrier_errors = 0\<rparr>"

definition no_mii :: mii_if_info where
  "no_mii = \<lparr>phy_id = 1, full_duplex = False, supports_gmii = False\<rparr>"

definition example_eth :: "synopGMACdevice \<Rightarrow> desc_mem \<Rightarrow> (u64 \<Rightarrow> u32) eth" where
  "example_eth g m = \<lparr>sem_lock = 1, priv = Some \<lparr>synopGMACdev = Some g, synopGMACNetStats = no_stats, mii = no_mii\<rparr>,
     dev_addr = [], GMAC_Power_down = 0, ready_calls = 0, descs = m,
     heap = [0x7000 \<mapsto> replicate 100 7, 0x8000 \<mapsto> replicate 2522 5], hw_state = (\<lambda>_. 0)\<rparr>"

definition example_env :: "nat option \<Rightarrow> (u64 \<Rightarrow> u32) eth_env" where
  "example_env room = \<lparr>ctrl = reg_mem, rt_malloc = (\<lambda>n h. (0x9000, replicate (unat n) 0)),
     pbuf_alloc = (\<lambda>n. room), KSEG0BASE = 0xffffffff80000000\<rparr>"

lemma busy_up:
  "eth_up (example_eth busy_dev (busy_mem own stw))
     \<lparr>synopGMACdev = Some busy_dev, synopGMACNetStats = no_stats, mii = no_mii\<rparr> busy_dev" if "own = 0 \<or> own = DescOwnByDma" for own stw
proof -
  have m: "desc_of (busy_mem own stw) (tx_ring busy_dev) 0 = sent_desc own"
    "desc_of (busy_mem own stw) (rx_ring busy_dev) 0 = received_desc stw"
    by (simp_all add: desc_of_def busy_mem_def busy_dev_def)
  have c: "unat (TxDescCount busy_dev) = 1" "unat (RxDescCount busy_dev) = 1"
    by (simp_all add: busy_dev_def)
  have sh: "ring_shape (tx_ring busy_dev)" "ring_shape (rx_ring busy_dev)"
    "slot (tx_ring busy_dev) 0 = 0" "slot (rx_ring busy_dev) 0 = 0"
    by (simp_all add: ring_shape_def slot_def busy_dev_def blank_dev_def)
  have o: "(TxDescEndOfRing OR own) AND TxDescEndOfRing = TxDescEndOfRing"
    "(TxDescEndOfRing OR own) AND TxDescChain = 0"
    "0 \<noteq> TxDescChain"
    using that by (auto simp: desc_bits)
  have "tx.descs_ok (busy_mem own stw) (tx_ring busy_dev)" "tx.fill_ok (busy_mem own stw) (tx_ring busy_dev)"
    by (simp_all add: tx.descs_ok_def tx.fill_ok_def c sh m)
      (simp_all add: sent_desc_def busy_mem_def busy_dev_def tx_final_def o blank_desc_def
        synopGMAC_is_tx_desc_chained_def synopGMAC_is_desc_empty_def DescSize1Mask_def)
  moreover have "rx.descs_ok (busy_mem own stw) (rx_ring busy_dev)" "rx.fill_ok (busy_mem own stw) (rx_ring busy_dev)"
    by (simp_all add: rx.descs_ok_def rx.fill_ok_def c sh m)
      (simp_all add: received_desc_def busy_mem_def busy_dev_def rx_final_def blank_desc_def
        synopGMAC_is_rx_desc_chained_def synopGMAC_is_desc_empty_def desc_bits)
  moreover have "ring_addrs (tx_ring busy_dev) \<inter> ring_addrs (rx_ring busy_dev) = {}"
    by (simp add: ring_addrs_def busy_dev_def lessThan_Suc)
  ultimately show ?thesis using sh by (simp add: eth_up_def example_eth_def tx.ok_def rx.ok_def)
qed

lemma busy_queues:
  "queue (busy_mem own stw) (tx_ring busy_dev) = [sent_desc own]"
  "queue (busy_mem own stw) (rx_ring busy_dev) = [received_desc stw]"
  by (simp_all add: queue_def slot_def desc_of_def busy_mem_def busy_dev_def blank_dev_def)


lemma ready_up:
  "eth_up (example_eth ready_dev ready_mem)
     \<lparr>synopGMACdev = Some ready_dev, synopGMACNetStats = no_stats, mii = no_mii\<rparr> ready_dev"
  using ready_rings
  by (auto simp: eth_up_def example_eth_def rings_apart_def ring_addrs_def)

theorem rt_eth_tx_queues_witness:
  "\<exists>e' g' d. rt_eth_tx (example_env None) 0 [1, 2, 3] (example_eth ready_dev ready_mem) = Inr (0, e')
    \<and> queue (descs e') (tx_ring g') = [d] \<and> heap e' 0x9000 = Some [1, 2, 3]
    \<and> buffers d = ((0x80009000, 3, 0x9000), (0, 0, 0))"
proof -
  let ?e = "example_eth ready_dev ready_mem" and ?env = "example_env None"
  have q: "queue (descs ?e) (tx_ring ready_dev) = []"
    by (simp add: queue_def ready_dev_def blank_dev_def)
  have d: "done_by_dma (desc_of (descs ?e) (tx_ring ready_dev) (unat (TxNext ready_dev)))"
    by (simp add: desc_of_def desc_at_def example_eth_def ready_mem_def ready_dev_def
        synopGMAC_is_desc_owned_by_dma_def synopGMAC_tx_desc_init_ring_def desc_bits)
  have m: "rt_malloc ?env (word_of_nat (length [1, 2, 3 :: u8])) (heap ?e) = (0x9000, replicate 3 0)"
    by (simp add: example_env_def)
  have k: "plat_dma_map_single ?env 0x9000 = 0x80009000"
    by (simp add: plat_dma_map_single_def example_env_def)
  show ?thesis
    using rt_eth_tx_queues [OF ready_up _ _ d _ _ m, of 0]
    by (simp add: q k) (auto simp: example_eth_def ready_dev_def blank_dev_def)
qed

theorem rt_eth_tx_full_ring_deadlocks_witness:
  "\<exists>e'. rt_eth_tx (example_env None) 0 [1, 2, 3] (example_eth busy_dev (busy_mem 0 0)) = Inr (-16, e')
    \<and> rt_eth_rx (example_env None) e' = Inl NoReturn"
proof -
  let ?e = "example_eth busy_dev (busy_mem 0 0)"
  have q: "queue (descs ?e) (tx_ring busy_dev) = sent_desc 0 # []" "sem_lock ?e = 1"
    by (simp_all add: busy_queues example_eth_def)
  have d: "done_by_dma (sent_desc 0)"
    by (simp add: sent_desc_def synopGMAC_is_desc_owned_by_dma_def desc_bits)
  have m: "rt_malloc (example_env None) (word_of_nat (length [1, 2, 3 :: u8])) (heap ?e)
      = (0x9000, replicate 3 0)"
    by (simp add: example_env_def)
  show ?thesis
    using rt_eth_tx_full_ring_deadlocks [OF busy_up q(2) _ q(1) d m, of 0]
    by (fastforce simp: busy_dev_def)
qed

theorem rt_eth_tx_drops_packet_witness:
  "\<exists>e'. rt_eth_tx (example_env None) 0 [1, 2, 3] (example_eth busy_dev (busy_mem DescOwnByDma 0))
    = Inr (0, e') \<and> heap e' \<subseteq>\<^sub>m [0x7000 \<mapsto> replicate 100 7, 0x8000 \<mapsto> replicate 2522 5]"
proof -
  let ?e = "example_eth busy_dev (busy_mem DescOwnByDma 0)"
  have d: "synopGMAC_is_desc_owned_by_dma (desc_of (descs ?e) (tx_ring busy_dev) (unat (TxNext busy_dev)))"
    by (simp add: desc_of_def example_eth_def busy_mem_def busy_dev_def blank_dev_def sent_desc_def
        synopGMAC_is_desc_owned_by_dma_def desc_bits)
  have "heap ?e = [0x7000 \<mapsto> replicate 100 7, 0x8000 \<mapsto> replicate 2522 5]"
    by (simp add: example_eth_def)
  then show ?thesis
    using rt_eth_tx_drops_packet [OF busy_up _ d, of "example_env None" 0 "[1, 2, 3]"]
    by (auto simp: example_eth_def)
qed

lemma busy_counts: "RxDescCount busy_dev = 1"
  by (simp add: busy_dev_def)

lemma received_done [simp]: "done_by_dma (received_desc 0x00400300)" "done_by_dma (received_desc 0x00020300)"
  "data1 (received_desc stw) = 0x8000" "status (received_desc stw) = stw"
  by (simp_all add: received_desc_def synopGMAC_is_desc_owned_by_dma_def desc_bits)

lemma received_frames:
  "synopGMAC_is_rx_desc_valid 0x00400300" "synopGMAC_get_rx_desc_frame_length 0x00400300 = 64"
  "synopGMAC_is_rx_desc_valid 0x00020300" "synopGMAC_get_rx_desc_frame_length 0x00020300 = 2"
  by (simp_all add: synopGMAC_is_rx_desc_valid_def synopGMAC_get_rx_desc_frame_length_def
      DescError_def DescRxFirst_def DescRxLast_def DescFrameLengthMask_def)

theorem rt_eth_rx_delivers_witness:
  "\<exists>e'. rt_eth_rx (example_env (Some 70000)) (example_eth busy_dev (busy_mem 0 0x00400300))
    = Inr (Some (replicate 60 5), e') \<and> sem_lock e' = 1"
proof -
  let ?e = "example_eth busy_dev (busy_mem 0 0x00400300)"
  have q: "queue (descs ?e) (rx_ring busy_dev) = received_desc 0x00400300 # []" "0 < sem_lock ?e"
    "RxDescCount busy_dev \<le> RECEIVE_DESC_SIZE" "data1 (received_desc 0x00400300) \<noteq> 0"
    by (simp_all add: busy_queues example_eth_def busy_counts)
  have h: "4 \<le> (64 :: u32) \<and> heap ?e (data1 (received_desc 0x00400300)) = Some (replicate 2522 5)
      \<and> unat (64 - 4 :: u32) \<le> length (replicate 2522 (5 :: u8))
      \<and> (\<exists>room. pbuf_alloc (example_env (Some 70000)) (ucast (64 - 4 :: u32)) = Some room
        \<and> unat (64 - 4 :: u32) \<le> room)"
    by (simp add: example_eth_def example_env_def)
  have "64 = synopGMAC_get_rx_desc_frame_length (status (received_desc 0x00400300))"
    by (simp add: received_frames)
  from rt_eth_rx_delivers [OF busy_up q(2,3,1) received_done(1) q(4) this h] show ?thesis
    by (simp add: received_frames) (auto simp: example_eth_def)
qed

theorem rt_eth_rx_faults_witness:
  "rt_eth_rx (example_env None) (example_eth busy_dev (busy_mem 0 0x00020300)) = Inl NullPtr
    \<and> rt_eth_rx (example_env (Some 70000)) (example_eth busy_dev (busy_mem 0 0x00020300)) = Inl OobRead"
proof -
  let ?e = "example_eth busy_dev (busy_mem 0 0x00020300)"
  have q: "queue (descs ?e) (rx_ring busy_dev) = received_desc 0x00020300 # []" "0 < sem_lock ?e"
    "RxDescCount busy_dev \<le> RECEIVE_DESC_SIZE" "data1 (received_desc 0x00020300) \<noteq> 0"
    "heap ?e (data1 (received_desc 0x00020300)) = Some (replicate 2522 5)"
    by (simp_all add: busy_queues example_eth_def busy_counts)
  have v: "synopGMAC_is_rx_desc_valid (status (received_desc 0x00020300))"
    "2 = synopGMAC_get_rx_desc_frame_length (status (received_desc 0x00020300))"
    by (simp_all add: received_frames)
  from rt_eth_rx_faults [OF busy_up q(2,3,1) received_done(2) q(4) v(2,1) q(5)] show ?thesis
    by (simp add: example_env_def)
qed

end
