(* ===== verification/Gmac_Power.thy ===== *)
theory Gmac_Power
  imports Gmac_Link
begin

unbundle bit_operations_syntax

text \<open>
  The parts of the Ethernet controller beside the transfer of frames (\<open>synopGMAC_Dev.c\<close>): power
  management, the management counters, checksum offloading and the IEEE 1588 time stamps; and the
  transitions into and out of the power-down mode (\<open>synopGMAC_linux_powerdown_mac\<close>,
  \<open>synopGMAC_linux_powerup_mac\<close> in \<open>synopGMAC.c\<close>).
\<close>

section \<open>Registers and bits\<close>

definition GmacInterruptMask :: u32 where "GmacInterruptMask = 0x003C"
definition GmacPmtIntMask :: u32 where "GmacPmtIntMask = 0x00000008"
definition GmacPmtCtrlStatus :: u32 where "GmacPmtCtrlStatus = 0x002C"
definition GmacPmtPowerDown :: u32 where "GmacPmtPowerDown = 0x00000001"
definition GmacPmtMagicPktEnable :: u32 where "GmacPmtMagicPktEnable = 0x00000002"
definition GmacPmtWakeupFrameEnable :: u32 where "GmacPmtWakeupFrameEnable = 0x00000004"
definition GmacPmtGlobalUnicast :: u32 where "GmacPmtGlobalUnicast = 0x00000200"
definition GmacMmcCntrl :: u32 where "GmacMmcCntrl = 0x0100"
definition GmacMmcCounterFreeze :: u32 where "GmacMmcCounterFreeze = 0x00000008"
definition GmacMmcCounterResetOnRead :: u32 where "GmacMmcCounterResetOnRead = 0x00000004"
definition GmacMmcCounterStopRollover :: u32 where "GmacMmcCounterStopRollover = 0x00000002"
definition GmacMmcIntrMaskTx :: u32 where "GmacMmcIntrMaskTx = 0x0110"
definition GmacMmcIntrMaskRx :: u32 where "GmacMmcIntrMaskRx = 0x010C"
definition GmacMmcRxIpcIntrMask :: u32 where "GmacMmcRxIpcIntrMask = 0x0200"
definition GmacRxIpcOffload :: u32 where "GmacRxIpcOffload = 0x00000400"
definition DmaDisableDropTcpCs :: u32 where "DmaDisableDropTcpCs = 0x04000000"
definition GmacTSControl :: u32 where "GmacTSControl = 0x0700"
definition GmacTSENA :: u32 where "GmacTSENA = 0x00000001"
definition GmacTSIntMask :: u32 where "GmacTSIntMask = 0x00000200"
definition GmacTSENMACADDR :: u32 where "GmacTSENMACADDR = 0x00040000"
definition GmacTSMSTRENA :: u32 where "GmacTSMSTRENA = 0x00008000"
definition GmacTSEVNTENA :: u32 where "GmacTSEVNTENA = 0x00004000"
definition GmacTSIPV4ENA :: u32 where "GmacTSIPV4ENA = 0x00002000"
definition GmacTSIPV6ENA :: u32 where "GmacTSIPV6ENA = 0x00001000"
definition GmacTSIPENA :: u32 where "GmacTSIPENA = 0x00000800"
definition GmacTSVER2ENA :: u32 where "GmacTSVER2ENA = 0x00000400"
definition GmacTSCTRLSSR :: u32 where "GmacTSCTRLSSR = 0x00000200"
definition GmacTSENALL :: u32 where "GmacTSENALL = 0x00000100"
definition GmacTSCFUPDT :: u32 where "GmacTSCFUPDT = 0x00000002"
definition GmacPmtMagicPktReceived :: u32 where "GmacPmtMagicPktReceived = 0x00000020"
definition GmacPmtWakeupFrameReceived :: u32 where "GmacPmtWakeupFrameReceived = 0x00000040"
definition GmacPmtFrmFilterPtrReset :: u32 where "GmacPmtFrmFilterPtrReset = 0x80000000"
definition GmacWakeupAddr :: u32 where "GmacWakeupAddr = 0x0028"
definition GmacMmcIntrRx :: u32 where "GmacMmcIntrRx = 0x0104"
definition GmacMmcIntrTx :: u32 where "GmacMmcIntrTx = 0x0108"
definition GmacTSAddend :: u32 where "GmacTSAddend = 0x0718"
definition GmacTSADDREG :: u32 where "GmacTSADDREG = 0x00000020"
definition GmacTSHighUpdate :: u32 where "GmacTSHighUpdate = 0x0710"
definition GmacTSLowUpdate :: u32 where "GmacTSLowUpdate = 0x0714"
definition GmacTSUPDT :: u32 where "GmacTSUPDT = 0x00000008"
definition GmacTSINT :: u32 where "GmacTSINT = 0x00000004"
definition GmacTSSubSecIncr :: u32 where "GmacTSSubSecIncr = 0x0704"
definition GmacSSINCMsk :: u32 where "GmacSSINCMsk = 0x000000FF"
definition GmacTSHighWord :: u32 where "GmacTSHighWord = 0x0724"
definition GmacTSHighWordMask :: u32 where "GmacTSHighWordMask = 0x0000FFFF"
definition GmacTSHigh :: u32 where "GmacTSHigh = 0x0708"
definition GmacTSLow :: u32 where "GmacTSLow = 0x070C"
definition GmacTSTargetTimeHigh :: u32 where "GmacTSTargetTimeHigh = 0x071C"
definition GmacTSTargetTimeLow :: u32 where "GmacTSTargetTimeLow = 0x0720"
definition DescRxChkBit0 :: u32 where "DescRxChkBit0 = 0x00000001"
definition DescRxChkBit5 :: u32 where "DescRxChkBit5 = 0x00000020"
definition DescRxChkBit7 :: u32 where "DescRxChkBit7 = 0x00000080"
definition RxLenLT600 :: u32 where "RxLenLT600 = 0"
definition RxIpHdrPayLoadChkBypass :: u32 where "RxIpHdrPayLoadChkBypass = 1"
definition RxIpHdrPayLoadRes :: u32 where "RxIpHdrPayLoadRes = 2"
definition RxChkBypass :: u32 where "RxChkBypass = 3"
definition RxNoChkError :: u32 where "RxNoChkError = 4"
definition RxPayLoadChkError :: u32 where "RxPayLoadChkError = 5"
definition RxIpHdrChkError :: u32 where "RxIpHdrChkError = 6"
definition RxIpHdrPayLoadChkError :: u32 where "RxIpHdrPayLoadChkError = 7"

lemmas power_bits =
  GmacInterruptMask_def GmacPmtIntMask_def GmacPmtCtrlStatus_def GmacPmtPowerDown_def
  GmacPmtMagicPktEnable_def GmacPmtWakeupFrameEnable_def GmacPmtGlobalUnicast_def GmacMmcCntrl_def
  GmacMmcCounterFreeze_def GmacMmcCounterResetOnRead_def GmacMmcCounterStopRollover_def GmacMmcIntrMaskTx_def
  GmacMmcIntrMaskRx_def GmacMmcRxIpcIntrMask_def GmacRxIpcOffload_def DmaDisableDropTcpCs_def
  GmacTSControl_def GmacTSENA_def GmacTSIntMask_def GmacTSENMACADDR_def
  GmacTSMSTRENA_def GmacTSEVNTENA_def GmacTSIPV4ENA_def GmacTSIPV6ENA_def
  GmacTSIPENA_def GmacTSVER2ENA_def GmacTSCTRLSSR_def GmacTSENALL_def
  GmacTSCFUPDT_def GmacPmtMagicPktReceived_def GmacPmtWakeupFrameReceived_def GmacPmtFrmFilterPtrReset_def
  GmacWakeupAddr_def GmacMmcIntrRx_def GmacMmcIntrTx_def GmacTSAddend_def
  GmacTSADDREG_def GmacTSHighUpdate_def GmacTSLowUpdate_def GmacTSUPDT_def
  GmacTSINT_def GmacTSSubSecIncr_def GmacSSINCMsk_def GmacTSHighWord_def
  GmacTSHighWordMask_def GmacTSHigh_def GmacTSLow_def GmacTSTargetTimeHigh_def
  GmacTSTargetTimeLow_def DescRxChkBit0_def DescRxChkBit5_def DescRxChkBit7_def
  RxLenLT600_def RxIpHdrPayLoadChkBypass_def RxIpHdrPayLoadRes_def RxChkBypass_def
  RxNoChkError_def RxPayLoadChkError_def RxIpHdrChkError_def RxIpHdrPayLoadChkError_def

section \<open>Switches\<close>

definition synopGMAC_pmt_int_enable :: "'s mmio32 \<Rightarrow> synopGMACdevice \<Rightarrow> 's \<Rightarrow> 's" where
  "synopGMAC_pmt_int_enable hw g = synopGMACClearBits hw (MacBase g) GmacInterruptMask GmacPmtIntMask"

definition synopGMAC_pmt_int_disable :: "'s mmio32 \<Rightarrow> synopGMACdevice \<Rightarrow> 's \<Rightarrow> 's" where
  "synopGMAC_pmt_int_disable hw g = synopGMACSetBits hw (MacBase g) GmacInterruptMask GmacPmtIntMask"

definition synopGMAC_power_down_enable :: "'s mmio32 \<Rightarrow> synopGMACdevice \<Rightarrow> 's \<Rightarrow> 's" where
  "synopGMAC_power_down_enable hw g = synopGMACSetBits hw (MacBase g) GmacPmtCtrlStatus GmacPmtPowerDown"

definition synopGMAC_power_down_disable :: "'s mmio32 \<Rightarrow> synopGMACdevice \<Rightarrow> 's \<Rightarrow> 's" where
  "synopGMAC_power_down_disable hw g = synopGMACClearBits hw (MacBase g) GmacPmtCtrlStatus GmacPmtPowerDown"

definition synopGMAC_enable_pmt_interrupt :: "'s mmio32 \<Rightarrow> synopGMACdevice \<Rightarrow> 's \<Rightarrow> 's" where
  "synopGMAC_enable_pmt_interrupt hw g = synopGMACClearBits hw (MacBase g) GmacInterruptMask GmacPmtIntMask"

definition synopGMAC_disable_pmt_interrupt :: "'s mmio32 \<Rightarrow> synopGMACdevice \<Rightarrow> 's \<Rightarrow> 's" where
  "synopGMAC_disable_pmt_interrupt hw g = synopGMACSetBits hw (MacBase g) GmacInterruptMask GmacPmtIntMask"

definition synopGMAC_magic_packet_enable :: "'s mmio32 \<Rightarrow> synopGMACdevice \<Rightarrow> 's \<Rightarrow> 's" where
  "synopGMAC_magic_packet_enable hw g = synopGMACSetBits hw (MacBase g) GmacPmtCtrlStatus GmacPmtMagicPktEnable"

definition synopGMAC_wakeup_frame_enable :: "'s mmio32 \<Rightarrow> synopGMACdevice \<Rightarrow> 's \<Rightarrow> 's" where
  "synopGMAC_wakeup_frame_enable hw g = synopGMACSetBits hw (MacBase g) GmacPmtCtrlStatus GmacPmtWakeupFrameEnable"

definition synopGMAC_pmt_unicast_enable :: "'s mmio32 \<Rightarrow> synopGMACdevice \<Rightarrow> 's \<Rightarrow> 's" where
  "synopGMAC_pmt_unicast_enable hw g = synopGMACSetBits hw (MacBase g) GmacPmtCtrlStatus GmacPmtGlobalUnicast"

definition synopGMAC_mmc_counters_stop :: "'s mmio32 \<Rightarrow> synopGMACdevice \<Rightarrow> 's \<Rightarrow> 's" where
  "synopGMAC_mmc_counters_stop hw g = synopGMACSetBits hw (MacBase g) GmacMmcCntrl GmacMmcCounterFreeze"

definition synopGMAC_mmc_counters_resume :: "'s mmio32 \<Rightarrow> synopGMACdevice \<Rightarrow> 's \<Rightarrow> 's" where
  "synopGMAC_mmc_counters_resume hw g = synopGMACClearBits hw (MacBase g) GmacMmcCntrl GmacMmcCounterFreeze"

definition synopGMAC_mmc_counters_set_selfclear :: "'s mmio32 \<Rightarrow> synopGMACdevice \<Rightarrow> 's \<Rightarrow> 's" where
  "synopGMAC_mmc_counters_set_selfclear hw g = synopGMACSetBits hw (MacBase g) GmacMmcCntrl GmacMmcCounterResetOnRead"

definition synopGMAC_mmc_counters_reset_selfclear :: "'s mmio32 \<Rightarrow> synopGMACdevice \<Rightarrow> 's \<Rightarrow> 's" where
  "synopGMAC_mmc_counters_reset_selfclear hw g = synopGMACClearBits hw (MacBase g) GmacMmcCntrl GmacMmcCounterResetOnRead"

definition synopGMAC_mmc_counters_disable_rollover :: "'s mmio32 \<Rightarrow> synopGMACdevice \<Rightarrow> 's \<Rightarrow> 's" where
  "synopGMAC_mmc_counters_disable_rollover hw g = synopGMACSetBits hw (MacBase g) GmacMmcCntrl GmacMmcCounterStopRollover"

definition synopGMAC_mmc_counters_enable_rollover :: "'s mmio32 \<Rightarrow> synopGMACdevice \<Rightarrow> 's \<Rightarrow> 's" where
  "synopGMAC_mmc_counters_enable_rollover hw g = synopGMACClearBits hw (MacBase g) GmacMmcCntrl GmacMmcCounterStopRollover"

definition synopGMAC_disable_mmc_tx_interrupt :: "'s mmio32 \<Rightarrow> synopGMACdevice \<Rightarrow> u32 \<Rightarrow> 's \<Rightarrow> 's" where
  "synopGMAC_disable_mmc_tx_interrupt hw g msk = synopGMACSetBits hw (MacBase g) GmacMmcIntrMaskTx msk"

definition synopGMAC_enable_mmc_tx_interrupt :: "'s mmio32 \<Rightarrow> synopGMACdevice \<Rightarrow> u32 \<Rightarrow> 's \<Rightarrow> 's" where
  "synopGMAC_enable_mmc_tx_interrupt hw g msk = synopGMACClearBits hw (MacBase g) GmacMmcIntrMaskTx msk"

definition synopGMAC_disable_mmc_rx_interrupt :: "'s mmio32 \<Rightarrow> synopGMACdevice \<Rightarrow> u32 \<Rightarrow> 's \<Rightarrow> 's" where
  "synopGMAC_disable_mmc_rx_interrupt hw g msk = synopGMACSetBits hw (MacBase g) GmacMmcIntrMaskRx msk"

definition synopGMAC_enable_mmc_rx_interrupt :: "'s mmio32 \<Rightarrow> synopGMACdevice \<Rightarrow> u32 \<Rightarrow> 's \<Rightarrow> 's" where
  "synopGMAC_enable_mmc_rx_interrupt hw g msk = synopGMACClearBits hw (MacBase g) GmacMmcIntrMaskRx msk"

definition synopGMAC_disable_mmc_ipc_rx_interrupt :: "'s mmio32 \<Rightarrow> synopGMACdevice \<Rightarrow> u32 \<Rightarrow> 's \<Rightarrow> 's" where
  "synopGMAC_disable_mmc_ipc_rx_interrupt hw g msk = synopGMACSetBits hw (MacBase g) GmacMmcRxIpcIntrMask msk"

definition synopGMAC_enable_mmc_ipc_rx_interrupt :: "'s mmio32 \<Rightarrow> synopGMACdevice \<Rightarrow> u32 \<Rightarrow> 's \<Rightarrow> 's" where
  "synopGMAC_enable_mmc_ipc_rx_interrupt hw g msk = synopGMACClearBits hw (MacBase g) GmacMmcRxIpcIntrMask msk"

definition synopGMAC_enable_rx_chksum_offload :: "'s mmio32 \<Rightarrow> synopGMACdevice \<Rightarrow> 's \<Rightarrow> 's" where
  "synopGMAC_enable_rx_chksum_offload hw g = synopGMACSetBits hw (MacBase g) GmacConfig GmacRxIpcOffload"

definition synopGMAC_disable_rx_Ipchecksum_offload :: "'s mmio32 \<Rightarrow> synopGMACdevice \<Rightarrow> 's \<Rightarrow> 's" where
  "synopGMAC_disable_rx_Ipchecksum_offload hw g = synopGMACClearBits hw (MacBase g) GmacConfig GmacRxIpcOffload"

definition synopGMAC_rx_tcpip_chksum_drop_enable :: "'s mmio32 \<Rightarrow> synopGMACdevice \<Rightarrow> 's \<Rightarrow> 's" where
  "synopGMAC_rx_tcpip_chksum_drop_enable hw g = synopGMACClearBits hw (DmaBase g) DmaControl DmaDisableDropTcpCs"

definition synopGMAC_rx_tcpip_chksum_drop_disable :: "'s mmio32 \<Rightarrow> synopGMACdevice \<Rightarrow> 's \<Rightarrow> 's" where
  "synopGMAC_rx_tcpip_chksum_drop_disable hw g = synopGMACSetBits hw (DmaBase g) DmaControl DmaDisableDropTcpCs"

definition synopGMAC_TS_enable :: "'s mmio32 \<Rightarrow> synopGMACdevice \<Rightarrow> 's \<Rightarrow> 's" where
  "synopGMAC_TS_enable hw g = synopGMACSetBits hw (MacBase g) GmacTSControl GmacTSENA"

definition synopGMAC_TS_disable :: "'s mmio32 \<Rightarrow> synopGMACdevice \<Rightarrow> 's \<Rightarrow> 's" where
  "synopGMAC_TS_disable hw g = synopGMACClearBits hw (MacBase g) GmacInterruptMask GmacTSIntMask"

definition synopGMAC_TS_int_enable :: "'s mmio32 \<Rightarrow> synopGMACdevice \<Rightarrow> 's \<Rightarrow> 's" where
  "synopGMAC_TS_int_enable hw g = synopGMACClearBits hw (MacBase g) GmacInterruptMask GmacPmtIntMask"

definition synopGMAC_TS_int_disable :: "'s mmio32 \<Rightarrow> synopGMACdevice \<Rightarrow> 's \<Rightarrow> 's" where
  "synopGMAC_TS_int_disable hw g = synopGMACSetBits hw (MacBase g) GmacInterruptMask GmacPmtIntMask"

definition synopGMAC_TS_mac_addr_filt_enable :: "'s mmio32 \<Rightarrow> synopGMACdevice \<Rightarrow> 's \<Rightarrow> 's" where
  "synopGMAC_TS_mac_addr_filt_enable hw g = synopGMACSetBits hw (MacBase g) GmacTSControl GmacTSENMACADDR"

definition synopGMAC_TS_mac_addr_filt_disable :: "'s mmio32 \<Rightarrow> synopGMACdevice \<Rightarrow> 's \<Rightarrow> 's" where
  "synopGMAC_TS_mac_addr_filt_disable hw g = synopGMACClearBits hw (MacBase g) GmacTSControl GmacTSENMACADDR"

definition synopGMAC_TS_master_enable :: "'s mmio32 \<Rightarrow> synopGMACdevice \<Rightarrow> 's \<Rightarrow> 's" where
  "synopGMAC_TS_master_enable hw g = synopGMACSetBits hw (MacBase g) GmacTSControl GmacTSMSTRENA"

definition synopGMAC_TS_master_disable :: "'s mmio32 \<Rightarrow> synopGMACdevice \<Rightarrow> 's \<Rightarrow> 's" where
  "synopGMAC_TS_master_disable hw g = synopGMACClearBits hw (MacBase g) GmacTSControl GmacTSMSTRENA"

definition synopGMAC_TS_event_enable :: "'s mmio32 \<Rightarrow> synopGMACdevice \<Rightarrow> 's \<Rightarrow> 's" where
  "synopGMAC_TS_event_enable hw g = synopGMACSetBits hw (MacBase g) GmacTSControl GmacTSEVNTENA"

definition synopGMAC_TS_event_disable :: "'s mmio32 \<Rightarrow> synopGMACdevice \<Rightarrow> 's \<Rightarrow> 's" where
  "synopGMAC_TS_event_disable hw g = synopGMACClearBits hw (MacBase g) GmacTSControl GmacTSEVNTENA"

definition synopGMAC_TS_IPV4_enable :: "'s mmio32 \<Rightarrow> synopGMACdevice \<Rightarrow> 's \<Rightarrow> 's" where
  "synopGMAC_TS_IPV4_enable hw g = synopGMACSetBits hw (MacBase g) GmacTSControl GmacTSIPV4ENA"

definition synopGMAC_TS_IPV4_disable :: "'s mmio32 \<Rightarrow> synopGMACdevice \<Rightarrow> 's \<Rightarrow> 's" where
  "synopGMAC_TS_IPV4_disable hw g = synopGMACClearBits hw (MacBase g) GmacTSControl GmacTSIPV4ENA"

definition synopGMAC_TS_IPV6_enable :: "'s mmio32 \<Rightarrow> synopGMACdevice \<Rightarrow> 's \<Rightarrow> 's" where
  "synopGMAC_TS_IPV6_enable hw g = synopGMACSetBits hw (MacBase g) GmacTSControl GmacTSIPV6ENA"

definition synopGMAC_TS_IPV6_disable :: "'s mmio32 \<Rightarrow> synopGMACdevice \<Rightarrow> 's \<Rightarrow> 's" where
  "synopGMAC_TS_IPV6_disable hw g = synopGMACClearBits hw (MacBase g) GmacTSControl GmacTSIPV6ENA"

definition synopGMAC_TS_ptp_over_ethernet_enable :: "'s mmio32 \<Rightarrow> synopGMACdevice \<Rightarrow> 's \<Rightarrow> 's" where
  "synopGMAC_TS_ptp_over_ethernet_enable hw g = synopGMACSetBits hw (MacBase g) GmacTSControl GmacTSIPENA"

definition synopGMAC_TS_ptp_over_ethernet_disable :: "'s mmio32 \<Rightarrow> synopGMACdevice \<Rightarrow> 's \<Rightarrow> 's" where
  "synopGMAC_TS_ptp_over_ethernet_disable hw g = synopGMACClearBits hw (MacBase g) GmacTSControl GmacTSIPENA"

definition synopGMAC_TS_pkt_snoop_ver2 :: "'s mmio32 \<Rightarrow> synopGMACdevice \<Rightarrow> 's \<Rightarrow> 's" where
  "synopGMAC_TS_pkt_snoop_ver2 hw g = synopGMACSetBits hw (MacBase g) GmacTSControl GmacTSVER2ENA"

definition synopGMAC_TS_pkt_snoop_ver1 :: "'s mmio32 \<Rightarrow> synopGMACdevice \<Rightarrow> 's \<Rightarrow> 's" where
  "synopGMAC_TS_pkt_snoop_ver1 hw g = synopGMACClearBits hw (MacBase g) GmacTSControl GmacTSVER2ENA"

definition synopGMAC_TS_digital_rollover_enable :: "'s mmio32 \<Rightarrow> synopGMACdevice \<Rightarrow> 's \<Rightarrow> 's" where
  "synopGMAC_TS_digital_rollover_enable hw g = synopGMACSetBits hw (MacBase g) GmacTSControl GmacTSCTRLSSR"

definition synopGMAC_TS_binary_rollover_enable :: "'s mmio32 \<Rightarrow> synopGMACdevice \<Rightarrow> 's \<Rightarrow> 's" where
  "synopGMAC_TS_binary_rollover_enable hw g = synopGMACClearBits hw (MacBase g) GmacTSControl GmacTSCTRLSSR"

definition synopGMAC_TS_all_frames_enable :: "'s mmio32 \<Rightarrow> synopGMACdevice \<Rightarrow> 's \<Rightarrow> 's" where
  "synopGMAC_TS_all_frames_enable hw g = synopGMACSetBits hw (MacBase g) GmacTSControl GmacTSENALL"

definition synopGMAC_TS_all_frames_disable :: "'s mmio32 \<Rightarrow> synopGMACdevice \<Rightarrow> 's \<Rightarrow> 's" where
  "synopGMAC_TS_all_frames_disable hw g = synopGMACClearBits hw (MacBase g) GmacTSControl GmacTSENALL"

definition synopGMAC_TS_coarse_update :: "'s mmio32 \<Rightarrow> synopGMACdevice \<Rightarrow> 's \<Rightarrow> 's" where
  "synopGMAC_TS_coarse_update hw g = synopGMACClearBits hw (MacBase g) GmacTSControl GmacTSCFUPDT"

definition synopGMAC_TS_fine_update :: "'s mmio32 \<Rightarrow> synopGMACdevice \<Rightarrow> 's \<Rightarrow> 's" where
  "synopGMAC_TS_fine_update hw g = synopGMACSetBits hw (MacBase g) GmacTSControl GmacTSCFUPDT"

lemmas power_switches =
  synopGMAC_pmt_int_enable_def synopGMAC_pmt_int_disable_def
  synopGMAC_power_down_enable_def synopGMAC_power_down_disable_def
  synopGMAC_enable_pmt_interrupt_def synopGMAC_disable_pmt_interrupt_def
  synopGMAC_magic_packet_enable_def synopGMAC_wakeup_frame_enable_def
  synopGMAC_pmt_unicast_enable_def synopGMAC_mmc_counters_stop_def
  synopGMAC_mmc_counters_resume_def synopGMAC_mmc_counters_set_selfclear_def
  synopGMAC_mmc_counters_reset_selfclear_def synopGMAC_mmc_counters_disable_rollover_def
  synopGMAC_mmc_counters_enable_rollover_def synopGMAC_disable_mmc_tx_interrupt_def
  synopGMAC_enable_mmc_tx_interrupt_def synopGMAC_disable_mmc_rx_interrupt_def
  synopGMAC_enable_mmc_rx_interrupt_def synopGMAC_disable_mmc_ipc_rx_interrupt_def
  synopGMAC_enable_mmc_ipc_rx_interrupt_def synopGMAC_enable_rx_chksum_offload_def
  synopGMAC_disable_rx_Ipchecksum_offload_def synopGMAC_rx_tcpip_chksum_drop_enable_def
  synopGMAC_rx_tcpip_chksum_drop_disable_def synopGMAC_TS_enable_def
  synopGMAC_TS_disable_def synopGMAC_TS_int_enable_def
  synopGMAC_TS_int_disable_def synopGMAC_TS_mac_addr_filt_enable_def
  synopGMAC_TS_mac_addr_filt_disable_def synopGMAC_TS_master_enable_def
  synopGMAC_TS_master_disable_def synopGMAC_TS_event_enable_def
  synopGMAC_TS_event_disable_def synopGMAC_TS_IPV4_enable_def
  synopGMAC_TS_IPV4_disable_def synopGMAC_TS_IPV6_enable_def
  synopGMAC_TS_IPV6_disable_def synopGMAC_TS_ptp_over_ethernet_enable_def
  synopGMAC_TS_ptp_over_ethernet_disable_def synopGMAC_TS_pkt_snoop_ver2_def
  synopGMAC_TS_pkt_snoop_ver1_def synopGMAC_TS_digital_rollover_enable_def
  synopGMAC_TS_binary_rollover_enable_def synopGMAC_TS_all_frames_enable_def
  synopGMAC_TS_all_frames_disable_def synopGMAC_TS_coarse_update_def
  synopGMAC_TS_fine_update_def

section \<open>Power management\<close>

definition synopGMAC_is_magic_packet_received :: "'s mmio32 \<Rightarrow> synopGMACdevice \<Rightarrow> 's \<Rightarrow> bool \<times> 's" where
  "synopGMAC_is_magic_packet_received hw g s =
     (case synopGMACReadReg hw (MacBase g) GmacPmtCtrlStatus s of
        (data, s) \<Rightarrow> (data AND GmacPmtMagicPktReceived = GmacPmtMagicPktReceived, s))"

definition synopGMAC_is_wakeup_frame_received :: "'s mmio32 \<Rightarrow> synopGMACdevice \<Rightarrow> 's \<Rightarrow> bool \<times> 's" where
  "synopGMAC_is_wakeup_frame_received hw g s =
     (case synopGMACReadReg hw (MacBase g) GmacPmtCtrlStatus s of
        (data, s) \<Rightarrow> (data AND GmacPmtWakeupFrameReceived = GmacPmtWakeupFrameReceived, s))"

abbreviation (input) WAKEUP_REG_LENGTH :: nat where "WAKEUP_REG_LENGTH \<equiv> 8"

definition synopGMAC_write_wakeup_frame_register ::
    "'s mmio32 \<Rightarrow> synopGMACdevice \<Rightarrow> u32 list \<Rightarrow> 's \<Rightarrow> 's res" where
  "synopGMAC_write_wakeup_frame_register hw g filter_contents s =
     for_list (\<lambda>i s. rbind (rd filter_contents i) (\<lambda>v.
         Inr (synopGMACWriteReg hw (MacBase g) GmacWakeupAddr v s)))
       [0..<WAKEUP_REG_LENGTH]
       (synopGMACSetBits hw (MacBase g) GmacPmtCtrlStatus GmacPmtFrmFilterPtrReset s)"

definition synopGMAC_wakeup_filter_config3 :: "u32 list" where
  "synopGMAC_wakeup_filter_config3 = [0x00000000, 0x000000FF, 0x00000000, 0x00000000,
     0x00000100, 0x00003200, 0x7eED0000, 0x00000000]"

text \<open>Into the power-down mode and out of it: the new value of \<open>GMAC_Power_down\<close>, and the device.\<close>

definition synopGMAC_linux_powerdown_mac :: "'s mmio32 \<Rightarrow> synopGMACdevice \<Rightarrow> 's \<Rightarrow> (u32 \<times> 's) res" where
  "synopGMAC_linux_powerdown_mac hw g s =
     (let s = synopGMAC_disable_dma_tx hw g s;
          s = synopGMAC_tx_disable hw g s;
          s = synopGMAC_rx_disable hw g s;
          s = synopGMAC_disable_dma_rx hw g s;
          s = synopGMAC_magic_packet_enable hw g s in
      rbind (synopGMAC_write_wakeup_frame_register hw g synopGMAC_wakeup_filter_config3 s) (\<lambda>s.
      let s = synopGMAC_wakeup_frame_enable hw g s;
          s = synopGMAC_rx_enable hw g s;
          s = synopGMAC_pmt_int_enable hw g s;
          s = synopGMAC_power_down_enable hw g s in
      Inr (1, s)))"

definition synopGMAC_linux_powerup_mac :: "'s mmio32 \<Rightarrow> synopGMACdevice \<Rightarrow> 's \<Rightarrow> u32 \<times> 's" where
  "synopGMAC_linux_powerup_mac hw g s =
     (let (_, s) = synopGMAC_is_magic_packet_received hw g s;
          (_, s) = synopGMAC_is_wakeup_frame_received hw g s;
          s = synopGMAC_pmt_int_disable hw g s;
          s = synopGMAC_rx_enable hw g s;
          s = synopGMAC_enable_dma_rx hw g s;
          s = synopGMAC_tx_enable hw g s;
          s = synopGMAC_enable_dma_tx hw g s in
      (0, s))"

section \<open>Counters and checksums\<close>

definition synopGMAC_read_mmc_counter :: "'s mmio32 \<Rightarrow> synopGMACdevice \<Rightarrow> u32 \<Rightarrow> 's \<Rightarrow> u32 \<times> 's" where
  "synopGMAC_read_mmc_counter hw g counter s = synopGMACReadReg hw (MacBase g) counter s"

definition synopGMAC_read_mmc_rx_int_status :: "'s mmio32 \<Rightarrow> synopGMACdevice \<Rightarrow> 's \<Rightarrow> u32 \<times> 's" where
  "synopGMAC_read_mmc_rx_int_status hw g s = synopGMACReadReg hw (MacBase g) GmacMmcIntrRx s"

definition synopGMAC_read_mmc_tx_int_status :: "'s mmio32 \<Rightarrow> synopGMACdevice \<Rightarrow> 's \<Rightarrow> u32 \<times> 's" where
  "synopGMAC_read_mmc_tx_int_status hw g s = synopGMACReadReg hw (MacBase g) GmacMmcIntrTx s"

definition synopGMAC_is_rx_checksum_error :: "u32 \<Rightarrow> u32" where
  "synopGMAC_is_rx_checksum_error stw =
     (if stw AND DescRxChkBit5 = 0 \<and> stw AND DescRxChkBit7 = 0 \<and> stw AND DescRxChkBit0 = 0
      then RxLenLT600
      else if stw AND DescRxChkBit5 = 0 \<and> stw AND DescRxChkBit7 = 0 \<and> stw AND DescRxChkBit0 \<noteq> 0
      then RxIpHdrPayLoadChkBypass
      else if stw AND DescRxChkBit5 = 0 \<and> stw AND DescRxChkBit7 \<noteq> 0 \<and> stw AND DescRxChkBit0 \<noteq> 0
      then RxChkBypass
      else if stw AND DescRxChkBit5 \<noteq> 0 \<and> stw AND DescRxChkBit7 = 0 \<and> stw AND DescRxChkBit0 = 0
      then RxNoChkError
      else if stw AND DescRxChkBit5 \<noteq> 0 \<and> stw AND DescRxChkBit7 = 0 \<and> stw AND DescRxChkBit0 \<noteq> 0
      then RxPayLoadChkError
      else if stw AND DescRxChkBit5 \<noteq> 0 \<and> stw AND DescRxChkBit7 \<noteq> 0 \<and> stw AND DescRxChkBit0 = 0
      then RxIpHdrChkError
      else if stw AND DescRxChkBit5 \<noteq> 0 \<and> stw AND DescRxChkBit7 \<noteq> 0 \<and> stw AND DescRxChkBit0 \<noteq> 0
      then RxIpHdrPayLoadChkError
      else RxIpHdrPayLoadRes)"

section \<open>Time stamps\<close>

definition synopGMAC_TS_set_clk_type :: "'s mmio32 \<Rightarrow> synopGMACdevice \<Rightarrow> u32 \<Rightarrow> 's \<Rightarrow> 's" where
  "synopGMAC_TS_set_clk_type hw g clk_type s =
     (case synopGMACReadReg hw (MacBase g) GmacTSControl s of
        (clkval, s) \<Rightarrow> synopGMACWriteReg hw (MacBase g) GmacTSControl (clkval OR clk_type) s)"

text \<open>The bounded wait for a bit of the control register to clear, and then setting it.\<close>

definition ts_command :: "'s mmio32 \<Rightarrow> synopGMACdevice \<Rightarrow> u32 \<Rightarrow> 's \<Rightarrow> int \<times> 's" where
  "ts_command hw g flag s =
     (let (loop_variable, s) = busy_wait hw (MacBase g) GmacTSControl flag 0 s in
      if loop_variable < DEFAULT_LOOP_VARIABLE
      then (0, synopGMACSetBits hw (MacBase g) GmacTSControl flag s) else (-2, s))"

definition synopGMAC_TS_addend_update :: "'s mmio32 \<Rightarrow> synopGMACdevice \<Rightarrow> u32 \<Rightarrow> 's \<Rightarrow> int \<times> 's" where
  "synopGMAC_TS_addend_update hw g addend_value s =
     ts_command hw g GmacTSADDREG (synopGMACWriteReg hw (MacBase g) GmacTSAddend addend_value s)"

definition synopGMAC_TS_timestamp_update ::
    "'s mmio32 \<Rightarrow> synopGMACdevice \<Rightarrow> u32 \<Rightarrow> u32 \<Rightarrow> 's \<Rightarrow> int \<times> 's" where
  "synopGMAC_TS_timestamp_update hw g high_value low_value s =
     ts_command hw g GmacTSUPDT (synopGMACWriteReg hw (MacBase g) GmacTSLowUpdate low_value
       (synopGMACWriteReg hw (MacBase g) GmacTSHighUpdate high_value s))"

definition synopGMAC_TS_timestamp_init ::
    "'s mmio32 \<Rightarrow> synopGMACdevice \<Rightarrow> u32 \<Rightarrow> u32 \<Rightarrow> 's \<Rightarrow> int \<times> 's" where
  "synopGMAC_TS_timestamp_init hw g high_value low_value s =
     ts_command hw g GmacTSINT (synopGMACWriteReg hw (MacBase g) GmacTSLowUpdate low_value
       (synopGMACWriteReg hw (MacBase g) GmacTSHighUpdate high_value s))"

definition synopGMAC_TS_subsecond_init :: "'s mmio32 \<Rightarrow> synopGMACdevice \<Rightarrow> u32 \<Rightarrow> 's \<Rightarrow> 's" where
  "synopGMAC_TS_subsecond_init hw g sub_sec_inc_value s =
     synopGMACWriteReg hw (MacBase g) GmacTSSubSecIncr (sub_sec_inc_value AND GmacSSINCMsk) s"

definition synopGMAC_TS_read_timestamp_higher_val ::
    "'s mmio32 \<Rightarrow> synopGMACdevice \<Rightarrow> 's \<Rightarrow> u16 \<times> 's" where
  "synopGMAC_TS_read_timestamp_higher_val hw g s =
     (case synopGMACReadReg hw (MacBase g) GmacTSHighWord s of
        (v, s) \<Rightarrow> (ucast (v AND GmacTSHighWordMask), s))"

definition synopGMAC_TS_read_timestamp ::
    "'s mmio32 \<Rightarrow> synopGMACdevice \<Rightarrow> 's \<Rightarrow> (u16 \<times> u32 \<times> u32) \<times> 's" where
  "synopGMAC_TS_read_timestamp hw g s =
     (case synopGMACReadReg hw (MacBase g) GmacTSHighWord s of (v, s) \<Rightarrow>
      case synopGMACReadReg hw (MacBase g) GmacTSHigh s of (sec, s) \<Rightarrow>
      case synopGMACReadReg hw (MacBase g) GmacTSLow s of (sub, s) \<Rightarrow>
      ((ucast (v AND GmacTSHighWordMask), sec, sub), s))"

definition synopGMAC_TS_load_timestamp_higher_val ::
    "'s mmio32 \<Rightarrow> synopGMACdevice \<Rightarrow> u32 \<Rightarrow> 's \<Rightarrow> 's" where
  "synopGMAC_TS_load_timestamp_higher_val hw g higher_sec_val s =
     synopGMACWriteReg hw (MacBase g) GmacTSHighWord (higher_sec_val AND GmacTSHighWordMask) s"

definition synopGMAC_TS_load_target_timestamp ::
    "'s mmio32 \<Rightarrow> synopGMACdevice \<Rightarrow> u32 \<Rightarrow> u32 \<Rightarrow> 's \<Rightarrow> 's" where
  "synopGMAC_TS_load_target_timestamp hw g sec_val sub_sec_val s =
     synopGMACWriteReg hw (MacBase g) GmacTSTargetTimeLow sub_sec_val
       (synopGMACWriteReg hw (MacBase g) GmacTSTargetTimeHigh sec_val s)"

definition synopGMAC_TS_read_target_timestamp ::
    "'s mmio32 \<Rightarrow> synopGMACdevice \<Rightarrow> 's \<Rightarrow> (u32 \<times> u32) \<times> 's" where
  "synopGMAC_TS_read_target_timestamp hw g s =
     (case synopGMACReadReg hw (MacBase g) GmacTSTargetTimeHigh s of (sec, s) \<Rightarrow>
      case synopGMACReadReg hw (MacBase g) GmacTSTargetTimeLow s of (sub, s) \<Rightarrow> ((sec, sub), s))"

section \<open>The checksum code\<close>

text \<open>The decision cascade reads the number formed by the status bits 5, 7 and 0.\<close>

lemma rx_checksum_code:
  "synopGMAC_is_rx_checksum_error stw = 4 * of_bool (bit stw 5) + 2 * of_bool (bit stw 7) + of_bool (bit stw 0)"
proof -
  have b: "stw AND DescRxChkBit5 = 0 \<longleftrightarrow> \<not> bit stw 5" "stw AND DescRxChkBit7 = 0 \<longleftrightarrow> \<not> bit stw 7"
    "stw AND DescRxChkBit0 = 0 \<longleftrightarrow> \<not> bit stw 0"
    using and_flag [of stw 5] and_flag [of stw 7] and_flag [of stw 0] by (auto simp: power_bits)
  show ?thesis
    unfolding synopGMAC_is_rx_checksum_error_def b
    by (simp add: RxLenLT600_def RxIpHdrPayLoadChkBypass_def RxIpHdrPayLoadRes_def RxChkBypass_def
        RxNoChkError_def RxPayLoadChkError_def RxIpHdrChkError_def RxIpHdrPayLoadChkError_def)
qed


section \<open>Properties of the transitions\<close>

text \<open>The registers of the transitions; the filter register is not among them, as its eight words
  are written to one address.\<close>

definition pm_area :: "synopGMACdevice \<Rightarrow> u64 set" where
  "pm_area g = {MacBase g + ucast GmacConfig, MacBase g + ucast GmacPmtCtrlStatus,
     MacBase g + ucast GmacInterruptMask, DmaBase g + ucast DmaControl}"

lemma pm_area_mem [simp]:
  "MacBase g + ucast GmacConfig \<in> pm_area g" "MacBase g + ucast GmacPmtCtrlStatus \<in> pm_area g"
  "MacBase g + ucast GmacInterruptMask \<in> pm_area g" "DmaBase g + ucast DmaControl \<in> pm_area g"
  by (simp_all add: pm_area_def)

lemma pm_distinct:
  assumes "DmaBase g = MacBase g + 0x1000"
  shows "(ucast GmacConfig :: u64) \<noteq> ucast GmacPmtCtrlStatus"
    "(ucast GmacConfig :: u64) \<noteq> ucast GmacInterruptMask"
    "(ucast GmacPmtCtrlStatus :: u64) \<noteq> ucast GmacInterruptMask"
    "MacBase g + ucast GmacConfig \<noteq> DmaBase g + ucast DmaControl"
    "MacBase g + ucast GmacPmtCtrlStatus \<noteq> DmaBase g + ucast DmaControl"
    "MacBase g + ucast GmacInterruptMask \<noteq> DmaBase g + ucast DmaControl"
    "MacBase g + ucast GmacWakeupAddr \<notin> pm_area g"
  using assms by (simp_all add: reg_offsets power_bits pm_area_def add.assoc)

text \<open>A register outside of the area does not matter to it.\<close>

definition off_area :: "'s mmio32 \<Rightarrow> ('s \<Rightarrow> u64 \<Rightarrow> u32) \<Rightarrow> u64 set \<Rightarrow> u64 \<Rightarrow> bool" where
  "off_area hw val A a \<longleftrightarrow> (\<forall>s v. \<forall>b\<in>A. val (write32 hw a v s) b = val s b)"

text \<open>
  Registers of which some bits hold what is written (\<open>keep\<close>) and the others clear themselves or
  belong to the hardware; \<open>view\<close> gives the former. \<open>plain_regs\<close> is the case of all bits.
\<close>

definition masked_regs :: "'s mmio32 \<Rightarrow> ('s \<Rightarrow> u64 \<Rightarrow> u32) \<Rightarrow> (u64 \<Rightarrow> u32) \<Rightarrow> u64 set \<Rightarrow> bool" where
  "masked_regs hw view keep A \<longleftrightarrow>
     (\<forall>s. \<forall>a\<in>A. fst (read32 hw a s) AND keep a = view s a \<and>
        (\<forall>b\<in>A. view (snd (read32 hw a s)) b = view s b \<and>
           (\<forall>v. view (write32 hw a v s) b = (if b = a then v AND keep a else view s b))))"

lemma masked_set:
  assumes "masked_regs hw view keep A" and "base + ucast off \<in> A" and "b \<in> A"
  shows "view (synopGMACSetBits hw base off m s) b =
    (if b = base + ucast off then view s b OR (m AND keep b) else view s b)"
proof -
  have "(fst (read32 hw (base + ucast off) s) OR m) AND keep (base + ucast off) =
      view s (base + ucast off) OR (m AND keep (base + ucast off))"
    using assms(1,2) by (simp add: masked_regs_def bit.conj_disj_distrib2)
  then show ?thesis
    using assms by (simp add: synopGMACSetBits_def synopGMACReadReg_def synopGMACWriteReg_def split_beta masked_regs_def)
qed

lemma masked_clear:
  assumes "masked_regs hw view keep A" and "base + ucast off \<in> A" and "b \<in> A"
  shows "view (synopGMACClearBits hw base off m s) b =
    (if b = base + ucast off then view s b AND NOT m else view s b)"
proof -
  have "(fst (read32 hw (base + ucast off) s) AND NOT m) AND keep (base + ucast off) =
      view s (base + ucast off) AND NOT m"
    using assms(1,2) by (auto simp: masked_regs_def ac_simps)
  then show ?thesis
    using assms by (simp add: synopGMACClearBits_def synopGMACReadReg_def synopGMACWriteReg_def split_beta masked_regs_def)
qed

lemma masked_read:
  "masked_regs hw view keep A \<Longrightarrow> base + ucast off \<in> A \<Longrightarrow> b \<in> A \<Longrightarrow>
     view (snd (synopGMACReadReg hw base off s)) b = view s b"
  by (simp add: masked_regs_def synopGMACReadReg_def)

lemmas masked_rules = masked_read masked_set masked_clear

lemma dma_switches:
  "synopGMAC_enable_dma_rx hw g = synopGMACSetBits hw (DmaBase g) DmaControl DmaRxStart"
  "synopGMAC_enable_dma_tx hw g = synopGMACSetBits hw (DmaBase g) DmaControl DmaTxStart"
  "synopGMAC_disable_dma_rx hw g = synopGMACClearBits hw (DmaBase g) DmaControl DmaRxStart"
  "synopGMAC_disable_dma_tx hw g = synopGMACClearBits hw (DmaBase g) DmaControl DmaTxStart"
  by (auto simp: fun_eq_iff synopGMAC_enable_dma_rx_def synopGMAC_enable_dma_tx_def
      synopGMAC_disable_dma_rx_def synopGMAC_disable_dma_tx_def synopGMACSetBits_def synopGMACClearBits_def)

text \<open>The bits that the transitions rely on; the power-down bit, which clears itself at a wake-up,
  is not among them.\<close>

definition wake_bits :: u32 where
  "wake_bits = GmacPmtMagicPktEnable OR GmacPmtWakeupFrameEnable"

definition pm_held :: "(u64 \<Rightarrow> u32) \<Rightarrow> synopGMACdevice \<Rightarrow> bool" where
  "pm_held keep g \<longleftrightarrow>
     (GmacTx OR GmacRx) AND keep (MacBase g + ucast GmacConfig) = GmacTx OR GmacRx \<and>
     (DmaTxStart OR DmaRxStart) AND keep (DmaBase g + ucast DmaControl) = DmaTxStart OR DmaRxStart \<and>
     GmacPmtIntMask AND keep (MacBase g + ucast GmacInterruptMask) = GmacPmtIntMask \<and>
     wake_bits AND keep (MacBase g + ucast GmacPmtCtrlStatus) = wake_bits"

lemma part_held: "(a OR b) AND (k :: u32) = a OR b \<Longrightarrow> a AND k = a \<and> b AND k = b"
proof -
  assume "(a OR b) AND k = a OR b"
  then have "bit a n \<or> bit b n \<Longrightarrow> bit k n" for n by (metis bit_and_iff bit_or_iff)
  then show ?thesis by (auto intro!: bit_word_eqI simp: bit_simps)
qed

lemma pm_heldD:
  assumes "pm_held keep g"
  shows "GmacTx AND keep (MacBase g + ucast GmacConfig) = GmacTx"
    "GmacRx AND keep (MacBase g + ucast GmacConfig) = GmacRx"
    "DmaTxStart AND keep (DmaBase g + ucast DmaControl) = DmaTxStart"
    "DmaRxStart AND keep (DmaBase g + ucast DmaControl) = DmaRxStart"
    "GmacPmtIntMask AND keep (MacBase g + ucast GmacInterruptMask) = GmacPmtIntMask"
    "GmacPmtMagicPktEnable AND keep (MacBase g + ucast GmacPmtCtrlStatus) = GmacPmtMagicPktEnable"
    "GmacPmtWakeupFrameEnable AND keep (MacBase g + ucast GmacPmtCtrlStatus) = GmacPmtWakeupFrameEnable"
  using assms part_held unfolding pm_held_def wake_bits_def by metis+

text \<open>The filter write resets the pointer and then writes the eight words in order.\<close>

lemma wakeup_written:
  "synopGMAC_write_wakeup_frame_register hw g synopGMAC_wakeup_filter_config3 s = Inr (foldl
     (\<lambda>s v. synopGMACWriteReg hw (MacBase g) GmacWakeupAddr v s)
     (synopGMACSetBits hw (MacBase g) GmacPmtCtrlStatus GmacPmtFrmFilterPtrReset s)
     synopGMAC_wakeup_filter_config3)"
  by (simp add: synopGMAC_write_wakeup_frame_register_def synopGMAC_wakeup_filter_config3_def
      upt_conv_Cons)

lemma foldl_off_area:
  assumes "off_area hw val A (base + ucast off)" and "b \<in> A"
  shows "val (foldl (\<lambda>s v. synopGMACWriteReg hw base off v s) s vs) b = val s b"
  using assms by (induction vs arbitrary: s) (simp_all add: off_area_def synopGMACWriteReg_def)


lemma powerdown_registers:
  assumes "masked_regs hw view keep (pm_area g)" and "DmaBase g = MacBase g + 0x1000"
    and "off_area hw view (pm_area g) (MacBase g + ucast GmacWakeupAddr)" and "pm_held keep g"
  shows "\<exists>t. synopGMAC_linux_powerdown_mac hw g s = Inr (1, t)
    \<and> view t (MacBase g + ucast GmacConfig) = view s (MacBase g + ucast GmacConfig) AND NOT GmacTx AND NOT GmacRx OR GmacRx
    \<and> view t (DmaBase g + ucast DmaControl) =
        view s (DmaBase g + ucast DmaControl) AND NOT DmaTxStart AND NOT DmaRxStart
    \<and> view t (MacBase g + ucast GmacInterruptMask) = view s (MacBase g + ucast GmacInterruptMask) AND NOT GmacPmtIntMask
    \<and> view t (MacBase g + ucast GmacPmtCtrlStatus) = view s (MacBase g + ucast GmacPmtCtrlStatus)
        OR GmacPmtMagicPktEnable OR (GmacPmtFrmFilterPtrReset AND keep (MacBase g + ucast GmacPmtCtrlStatus))
        OR GmacPmtWakeupFrameEnable OR (GmacPmtPowerDown AND keep (MacBase g + ucast GmacPmtCtrlStatus))"
proof -
  note d = pm_distinct [OF assms(2)]
  note rules = Let_def wakeup_written synopGMAC_linux_powerdown_mac_def mac_switches power_switches
    masked_rules [OF assms(1)] dma_switches foldl_off_area [OF assms(3)] pm_heldD [OF assms(4)] d d(1-6) [symmetric]
  show ?thesis
    by (simp add: rules or.assoc and.assoc)
qed

lemma powerup_registers:
  fixes s :: 's
  assumes "masked_regs hw view keep (pm_area g)" and "DmaBase g = MacBase g + 0x1000" and "pm_held keep g"
  defines "u \<equiv> snd (synopGMAC_linux_powerup_mac hw g s)"
  shows "fst (synopGMAC_linux_powerup_mac hw g s) = 0"
    and "view u (MacBase g + ucast GmacConfig) = view s (MacBase g + ucast GmacConfig) OR GmacRx OR GmacTx"
    and "view u (DmaBase g + ucast DmaControl) = view s (DmaBase g + ucast DmaControl) OR DmaRxStart OR DmaTxStart"
    and "view u (MacBase g + ucast GmacInterruptMask) = view s (MacBase g + ucast GmacInterruptMask) OR GmacPmtIntMask"
    and "view u (MacBase g + ucast GmacPmtCtrlStatus) = view s (MacBase g + ucast GmacPmtCtrlStatus)"
proof -
  note d = pm_distinct [OF assms(2)]
  note rules = Let_def u_def synopGMAC_linux_powerup_mac_def mac_switches power_switches split_beta
    synopGMAC_is_magic_packet_received_def synopGMAC_is_wakeup_frame_received_def
    masked_rules [OF assms(1)] dma_switches pm_heldD [OF assms(3)] d d(1-6) [symmetric]
  show "fst (synopGMAC_linux_powerup_mac hw g s) = 0"
    "view u (MacBase g + ucast GmacConfig) = view s (MacBase g + ucast GmacConfig) OR GmacRx OR GmacTx"
    "view u (DmaBase g + ucast DmaControl) = view s (DmaBase g + ucast DmaControl) OR DmaRxStart OR DmaTxStart"
    "view u (MacBase g + ucast GmacInterruptMask) = view s (MacBase g + ucast GmacInterruptMask) OR GmacPmtIntMask"
    "view u (MacBase g + ucast GmacPmtCtrlStatus) = view s (MacBase g + ucast GmacPmtCtrlStatus)"
    by (simp_all add: rules or.assoc)
qed

text \<open>Powering the controller down stops its transmitter and both DMA engines, switches the
  receiver on, unmasks the interrupt of power management and arms both wake-up conditions.
  Powering it up again switches transmitter, receiver and both engines on, so that
  the configuration and the DMA control of a running controller are what they were, and masks the
  interrupt of power management, whatever its mask was before; the wake-up conditions stay
  armed. Only the bits of these four registers that hold what is
  written are covered, which include those named.\<close>

theorem powerdown_powerup:
  assumes "masked_regs hw view keep (pm_area g)" and "DmaBase g = MacBase g + 0x1000"
    and "off_area hw view (pm_area g) (MacBase g + ucast GmacWakeupAddr)" and "pm_held keep g"
    and "cfg = MacBase g + ucast GmacConfig" and "dma = DmaBase g + ucast DmaControl"
    and "msk = MacBase g + ucast GmacInterruptMask" and "pmt = MacBase g + ucast GmacPmtCtrlStatus"
  shows "\<exists>t u. synopGMAC_linux_powerdown_mac hw g s = Inr (1, t)
    \<and> view t cfg = view s cfg AND NOT GmacTx OR GmacRx
    \<and> view t dma = view s dma AND NOT (DmaTxStart OR DmaRxStart)
    \<and> view t msk = view s msk AND NOT GmacPmtIntMask
    \<and> view t pmt AND wake_bits = wake_bits
    \<and> synopGMAC_linux_powerup_mac hw g t = (0, u)
    \<and> view u cfg = view s cfg OR GmacTx OR GmacRx
    \<and> view u dma = view s dma OR DmaTxStart OR DmaRxStart
    \<and> view u msk = view s msk OR GmacPmtIntMask
    \<and> view u pmt = view t pmt"
proof -
  obtain t where t: "synopGMAC_linux_powerdown_mac hw g s = Inr (1, t)"
    "view t cfg = view s cfg AND NOT GmacTx AND NOT GmacRx OR GmacRx"
    "view t dma = view s dma AND NOT DmaTxStart AND NOT DmaRxStart"
    "view t msk = view s msk AND NOT GmacPmtIntMask"
    "view t pmt = view s pmt OR GmacPmtMagicPktEnable OR (GmacPmtFrmFilterPtrReset AND keep pmt)
        OR GmacPmtWakeupFrameEnable OR (GmacPmtPowerDown AND keep pmt)"
    using powerdown_registers [OF assms(1-4)] unfolding assms(5-8) by blast
  obtain u where u: "synopGMAC_linux_powerup_mac hw g t = (0, u)"
    "view u cfg = view t cfg OR GmacRx OR GmacTx" "view u dma = view t dma OR DmaRxStart OR DmaTxStart"
    "view u msk = view t msk OR GmacPmtIntMask" "view u pmt = view t pmt"
    using powerup_registers [OF assms(1,2,4), of t] unfolding assms(5-8)
    by (cases "synopGMAC_linux_powerup_mac hw g t") simp
  have b: "x AND NOT a AND NOT c OR c = x AND NOT a OR c" "x AND NOT a AND NOT c = x AND NOT (a OR c)"
    "(x AND NOT a AND NOT c OR c) OR c OR a = x OR a OR c" "(x AND NOT a AND NOT c) OR c OR a = x OR a OR c"
    "x AND NOT a OR a = x OR a" for x a c :: u32
    by (auto intro!: bit_word_eqI simp: bit_simps)
  have "view t cfg = view s cfg AND NOT GmacTx OR GmacRx" "view t dma = view s dma AND NOT (DmaTxStart OR DmaRxStart)"
    "view u cfg = view s cfg OR GmacTx OR GmacRx" "view u dma = view s dma OR DmaTxStart OR DmaRxStart"
    "view u msk = view s msk OR GmacPmtIntMask"
    unfolding u(2-4) t(2-4) by (rule b)+
  note final = this
  have p: "view t pmt AND wake_bits = wake_bits"
    unfolding t(5) wake_bits_def by (rule bit_word_eqI) (auto simp: bit_simps)
  show ?thesis
    using t(1,4) u(1,5) p final by blast
qed

lemma reg_mem_off_area: "a \<notin> A \<Longrightarrow> off_area reg_mem (\<lambda>s. s) A a"
  by (auto simp: off_area_def reg_mem_def)

lemma example_bases: "DmaBase example_device = MacBase example_device + 0x1000"
  by (simp add: example_device_def)

text \<open>Memory in which the top bit of the power management register always reads as zero.\<close>

definition pmt_mem :: "(u64 \<Rightarrow> u32) mmio32" where
  "pmt_mem = \<lparr>read32 = (\<lambda>a s. (s a, s)),
     write32 = (\<lambda>a v s. s(a := (if a = 0x4004002C then v AND NOT GmacPmtFrmFilterPtrReset else v)))\<rparr>"

definition pmt_keep :: "u64 \<Rightarrow> u32" where
  "pmt_keep a = (if a = 0x4004002C then NOT GmacPmtFrmFilterPtrReset else - 1)"

lemma pmt_mem_masked: "masked_regs pmt_mem (\<lambda>s a. s a AND pmt_keep a) pmt_keep A"
  by (auto simp: masked_regs_def pmt_mem_def pmt_keep_def)

lemma pmt_mem_held: "pm_held pmt_keep example_device"
  by (simp add: pm_held_def pmt_keep_def example_device_def reg_offsets power_bits wake_bits_def
      mac_bits DmaTxStart_def DmaRxStart_def)

theorem powerdown_powerup_witness:
  "\<exists>t u. synopGMAC_linux_powerdown_mac pmt_mem example_device (\<lambda>_. 0x0000FFF7) = Inr (1, t)
    \<and> t (0x40040000 + ucast GmacConfig) = 0xFFF7 AND NOT GmacTx OR GmacRx
    \<and> synopGMAC_linux_powerup_mac pmt_mem example_device t = (0, u)
    \<and> u (0x40040000 + ucast GmacInterruptMask) = 0xFFFF"
proof -
  have off: "off_area pmt_mem (\<lambda>s a. s a AND pmt_keep a) (pm_area example_device) (MacBase example_device + ucast GmacWakeupAddr)"
    using pm_distinct(7) [OF example_bases] by (auto simp: off_area_def pmt_mem_def)
  have k: "pmt_keep (0x40040000 + ucast GmacConfig) = - 1" "pmt_keep (0x40040000 + ucast GmacInterruptMask) = - 1"
    by (simp_all add: pmt_keep_def reg_offsets power_bits)
  have m: "MacBase example_device = 0x40040000" by (simp add: example_device_def)
  show ?thesis
    using powerdown_powerup [OF pmt_mem_masked example_bases off pmt_mem_held refl refl refl refl, of "\<lambda>_. 0x0000FFF7"]
    unfolding m k by (auto simp: power_bits)
qed

text \<open>A command that waits for a bit to clear and sets it: what it may return.\<close>

definition ts_outcome :: "'s mmio32 \<Rightarrow> synopGMACdevice \<Rightarrow> u32 \<Rightarrow> 's \<Rightarrow> int \<times> 's \<Rightarrow> bool" where
  "ts_outcome hw g flag t r \<longleftrightarrow>
     (\<exists>k<10000. (\<forall>j<k. busy_at hw (MacBase g) GmacTSControl flag t j)
        \<and> \<not> busy_at hw (MacBase g) GmacTSControl flag t k
        \<and> r = (0, synopGMACSetBits hw (MacBase g) GmacTSControl flag
                   (polled hw (MacBase g) GmacTSControl (Suc k) t)))
     \<or> (\<forall>k<10000. busy_at hw (MacBase g) GmacTSControl flag t k)
        \<and> r = (-2, polled hw (MacBase g) GmacTSControl 10000 t)"

lemma ts_command_outcome: "ts_outcome hw g flag t (ts_command hw g flag t)"
proof (cases rule: wait_cases [of hw "MacBase g" GmacTSControl flag t])
  case (ready k)
  then have "busy_wait hw (MacBase g) GmacTSControl flag 0 t
      = (k, polled hw (MacBase g) GmacTSControl (Suc k) t)"
    using busy_wait_ready [of k hw "MacBase g" GmacTSControl flag t 0] by simp
  with ready show ?thesis
    unfolding ts_outcome_def
    by (intro disjI1 exI [of _ k]) (simp add: ts_command_def DEFAULT_LOOP_VARIABLE_def)
next
  case stuck
  then have "busy_wait hw (MacBase g) GmacTSControl flag 0 t
      = (10000, polled hw (MacBase g) GmacTSControl 10000 t)"
    using busy_wait_stuck [of 10000 hw "MacBase g" GmacTSControl flag t 0]
    by (simp add: DEFAULT_LOOP_VARIABLE_def)
  with stuck show ?thesis
    unfolding ts_outcome_def
    by (intro disjI2) (simp add: ts_command_def DEFAULT_LOOP_VARIABLE_def)
qed

text \<open>Every command of the time stamp unit returns: after writing its operands it waits for its
  bit of the control register to clear and sets it, or gives up with -2 after 10000 reads that show
  the bit.\<close>

theorem ts_commands_return:
  "ts_outcome hw g GmacTSADDREG (synopGMACWriteReg hw (MacBase g) GmacTSAddend v s)
      (synopGMAC_TS_addend_update hw g v s)
   \<and> ts_outcome hw g GmacTSUPDT (synopGMACWriteReg hw (MacBase g) GmacTSLowUpdate low
        (synopGMACWriteReg hw (MacBase g) GmacTSHighUpdate high s))
      (synopGMAC_TS_timestamp_update hw g high low s)
   \<and> ts_outcome hw g GmacTSINT (synopGMACWriteReg hw (MacBase g) GmacTSLowUpdate low
        (synopGMACWriteReg hw (MacBase g) GmacTSHighUpdate high s))
      (synopGMAC_TS_timestamp_init hw g high low s)"
  unfolding synopGMAC_TS_addend_update_def synopGMAC_TS_timestamp_update_def
    synopGMAC_TS_timestamp_init_def
  by (intro conjI ts_command_outcome)

text \<open>The switches of the time stamps act on the wrong bits: disabling time stamps does not touch
  their control register but unmasks their interrupt, and the two switches of their interrupt
  change the mask of the power management interrupt instead.\<close>

theorem ts_switches_misdirected:
  assumes "plain_regs hw val {MacBase g + ucast GmacTSControl, MacBase g + ucast GmacInterruptMask}"
    and "ctl = MacBase g + ucast GmacTSControl" and "msk = MacBase g + ucast GmacInterruptMask"
  shows "val (synopGMAC_TS_disable hw g (synopGMAC_TS_enable hw g s)) ctl = val s ctl OR GmacTSENA
    \<and> val (synopGMAC_TS_disable hw g s) msk = val s msk AND NOT GmacTSIntMask
    \<and> val (synopGMAC_TS_int_enable hw g s) msk = val s msk AND NOT GmacPmtIntMask
    \<and> val (synopGMAC_TS_int_disable hw g s) msk = val s msk OR GmacPmtIntMask
    \<and> val (synopGMAC_TS_int_enable hw g s) msk AND GmacTSIntMask = val s msk AND GmacTSIntMask"
proof -
  have d: "(ucast GmacTSControl :: u64) \<noteq> ucast GmacInterruptMask" by (simp add: power_bits)
  have "(x AND NOT GmacPmtIntMask) AND GmacTSIntMask = x AND GmacTSIntMask" for x
    by (simp add: and.assoc power_bits)
  then show ?thesis
    by (simp add: assms(2,3) power_switches plain_rules [OF assms(1)] d d [symmetric])
qed

theorem ts_switches_misdirected_witness:
  "synopGMAC_TS_disable reg_mem example_device (synopGMAC_TS_enable reg_mem example_device (\<lambda>_. 0))
      (0x40040000 + ucast GmacTSControl) = 1"
proof -
  have m: "MacBase example_device = 0x40040000" by (simp add: example_device_def)
  from ts_switches_misdirected [OF reg_mem_plain refl refl, of example_device "\<lambda>_. 0"]
  show ?thesis unfolding m by (simp add: GmacTSENA_def)
qed

end
