(* ===== verification/Gmac_Eth.thy ===== *)
theory Gmac_Eth
  imports Gmac_Net Gmac_Power
begin

unbundle bit_operations_syntax

text \<open>
  The life of the network device: its registration (\<open>rt_hw_eth_init\<close>), its initialisation
  (\<open>eth_init\<close>), its interrupt handler (\<open>eth_rx_irq\<close>) and its control operation (\<open>eth_control\<close>), all in
  \<open>synopGMAC.c\<close>, and the allocation of descriptors in \<open>synopGMAC_plat.c\<close>. Messages, the link timer's
  registration with the kernel and the delays are left out; \<open>eth_device_ready\<close>, which wakes the
  receiving thread of lwIP, is a counter. The theorems compose the rings, the registers, the PHY and
  the packet operations: a device that has been brought up is in the state that the theorems on
  packets require, and a fatal bus error leaves it in one in which nothing is received any more.
\<close>

section \<open>Constants\<close>

definition DmaFixedBurstEnable :: u32 where "DmaFixedBurstEnable = 0x00010000"
definition DmaBurstLength8 :: u32 where "DmaBurstLength8 = 0x00000800"
definition DmaBurstLength4 :: u32 where "DmaBurstLength4 = 0x00000400"
definition DmaDescriptorSkip1 :: u32 where "DmaDescriptorSkip1 = 0x00000004"
definition DmaTxSecondFrame :: u32 where "DmaTxSecondFrame = 0x00000004"
definition DmaRxThreshCtrl128 :: u32 where "DmaRxThreshCtrl128 = 0x00000018"
definition MACBASE :: u64 where "MACBASE = 0x0000"
definition DMABASE :: u64 where "DMABASE = 0x1000"
definition GMAC_PHY_BASE :: u64 where "GMAC_PHY_BASE = 1"
definition TRANSMIT_DESC_SIZE :: u32 where "TRANSMIT_DESC_SIZE = 36"

definition DEFAULT_MAC_ADDRESS :: "u8 list" where
  "DEFAULT_MAC_ADDRESS = [0x00, 0x55, 0x7B, 0xB5, 0x7D, 0xF7]"

section \<open>Descriptor memory\<close>

text \<open>
  A block aligned to 16 bytes, its DMA address, and the heap. The cached and the uncached segment are
  the same here, so the translation between them is the identity.
\<close>

definition plat_alloc_consistent_dmaable_memory ::
    "'s eth_env \<Rightarrow> u32 \<Rightarrow> blocks \<Rightarrow> u64 \<times> u32 \<times> blocks" where
  "plat_alloc_consistent_dmaable_memory env n h =
     (let (buf, block) = rt_malloc env (n + 16) h;
          i = (if buf mod 16 = 8 then buf + 8
               else if buf mod 16 = 4 then buf + 12
               else if buf mod 16 = 12 then buf + 4 else buf);
          phys = i - KSEG0BASE env
      in (phys + KSEG0BASE env, ucast phys, if buf = 0 then h else h(buf \<mapsto> block)))"

definition plat_free_consistent_dmaable_memory :: "u64 \<Rightarrow> blocks \<Rightarrow> blocks" where
  "plat_free_consistent_dmaable_memory a h = plat_free_memory a h"

text \<open>The argument of the setup of a queue: \<open>sizeof(DmaDesc)\<close> is 32.\<close>

definition desc_alloc :: "'s eth_env \<Rightarrow> u32 \<Rightarrow> blocks \<Rightarrow> (u64 \<times> u32) option \<times> blocks" where
  "desc_alloc env n h =
     (case plat_alloc_consistent_dmaable_memory env (32 * n) h of
        (p, d, h) \<Rightarrow> (if p = 0 then None else Some (p, d), h))"

section \<open>Bringing the device up\<close>

text \<open>\<open>synopGMAC_check_phy_init\<close> on the adapter, its result and the adapter after it.\<close>

definition check_phy ::
    "'s eth_env \<Rightarrow> ethtool_cmd \<Rightarrow> synopGMACdevice \<Rightarrow> mii_if_info \<Rightarrow> 's
      \<Rightarrow> (u32 \<times> synopGMACdevice \<times> mii_if_info \<times> 's) res" where
  "check_phy env cmd g mi s =
     rbind (synopGMAC_check_phy_init (ctrl env) cmd \<lparr>gmacdev = g, mii_info = mi\<rparr> s)
       (\<lambda>(data, a, s). Inr (data, gmacdev a, mii_info a, s))"

text \<open>The registers programmed after the queues exist, up to the filling of the receive ring.\<close>

definition eth_init_regs :: "'s mmio32 \<Rightarrow> synopGMACdevice \<Rightarrow> 's \<Rightarrow> 's" where
  "eth_init_regs hw g s =
     synopGMAC_dma_control_init hw g (DmaStoreAndForward OR DmaTxSecondFrame OR DmaRxThreshCtrl128)
       (synopGMAC_dma_bus_mode_init hw g (DmaBurstLength4 OR DmaDescriptorSkip1) s)"

definition eth_init_start :: "'s mmio32 \<Rightarrow> synopGMACdevice \<Rightarrow> 's \<Rightarrow> 's" where
  "eth_init_start hw g s =
     (let s = synopGMAC_clear_interrupt hw g s;
          s = synopGMAC_disable_mmc_tx_interrupt hw g 0xFFFFFFFF s;
          s = synopGMAC_disable_mmc_rx_interrupt hw g 0xFFFFFFFF s;
          s = synopGMAC_disable_mmc_ipc_rx_interrupt hw g 0xFFFFFFFF s;
          s = synopGMAC_enable_interrupt hw g DmaIntEnable s;
          s = synopGMAC_enable_dma_rx hw g s
      in synopGMAC_enable_dma_tx hw g s)"

text \<open>The last part: from empty rings on.\<close>

definition eth_init_tail ::
    "'s eth_env \<Rightarrow> ethtool_cmd \<Rightarrow> net_adapter \<Rightarrow> synopGMACdevice \<Rightarrow> 's eth \<Rightarrow> 's \<Rightarrow> (int \<times> 's eth) res" where
  "eth_init_tail env cmd ad g e s =
     rbind (check_phy env cmd g (mii ad) s) (\<lambda>(data, g, mi, s).
      let s = synopGMAC_pause_control (ctrl env) g (synopGMAC_mac_init (ctrl env) g s) in
      rbind (rx_fill env (sint data) g e) (\<lambda>(_, g, e).
      rbind (check_phy env cmd g mi (eth_init_start (ctrl env) g s)) (\<lambda>(_, g, mi, s).
      Inr (0, e\<lparr>hw_state := synopGMAC_mac_init (ctrl env) g s,
                priv := Some (ad\<lparr>synopGMACdev := Some g, mii := mi\<rparr>)\<rparr>))))"

text \<open>The queues, and their addresses in the registers.\<close>

definition eth_init_rings ::
    "'s eth_env \<Rightarrow> ethtool_cmd \<Rightarrow> net_adapter \<Rightarrow> synopGMACdevice \<Rightarrow> 's eth \<Rightarrow> 's \<Rightarrow> (int \<times> 's eth) res" where
  "eth_init_rings env cmd ad g e s =
     (let hw = ctrl env; (tx, h) = desc_alloc env TRANSMIT_DESC_SIZE (heap e) in
      rbind (synopGMAC_setup_tx_desc_queue tx TRANSMIT_DESC_SIZE g (descs e)) (\<lambda>(_, g, m).
      let s = synopGMAC_init_tx_desc_base hw g s;
          (rx, h) = desc_alloc env RECEIVE_DESC_SIZE h in
      rbind (synopGMAC_setup_rx_desc_queue rx RECEIVE_DESC_SIZE g m) (\<lambda>(_, g, m).
      let s = eth_init_regs hw g (synopGMAC_init_rx_desc_base hw g s) in
      eth_init_tail env cmd ad g (e\<lparr>descs := m, heap := h\<rparr>) s)))"

definition eth_init :: "'s eth_env \<Rightarrow> u64 \<Rightarrow> ethtool_cmd \<Rightarrow> 's eth \<Rightarrow> (int \<times> 's eth) res" where
  "eth_init env gmac_base cmd e =
     (case priv e of None \<Rightarrow> Inl NullPtr | Some ad \<Rightarrow>
      case synopGMACdev ad of None \<Rightarrow> Inl NullPtr | Some g \<Rightarrow>
      let hw = ctrl env; s = synopGMAC_reset hw g (hw_state e) in
      rbind (synopGMAC_attach hw (gmac_base + MACBASE) (gmac_base + DMABASE) GMAC_PHY_BASE
               DEFAULT_MAC_ADDRESS s) (\<lambda>(g, s).
      let (g, s) = synopGMAC_read_version hw g s;
          s = synopGMAC_set_mdc_clk_div hw g GmiiCsrClk3 s;
          (clk, s) = synopGMAC_get_mdc_clk_div hw g s;
          g = g\<lparr>ClockDivMdc := clk\<rparr> in
      rbind (init_phy hw g s) (\<lambda>(_, s).
      eth_init_rings env cmd ad g e s)))"

text \<open>
  The registration: the base address comes from the PCI configuration header, both structures are
  allocated and cleared (a null pointer is written through), and the semaphore starts at 1.
\<close>

definition zero_stats :: net_device_stats where
  "zero_stats = \<lparr>tx_packets = 0, tx_bytes = 0, rx_errors = 0, tx_errors = 0, collisions = 0,
     rx_length_errors = 0, rx_over_errors = 0, rx_crc_errors = 0, rx_frame_errors = 0,
     tx_aborted_errors = 0, tx_carrier_errors = 0\<rparr>"

definition rt_hw_eth_init ::
    "'s eth_env \<Rightarrow> u32 \<Rightarrow> u32 \<Rightarrow> u32 \<Rightarrow> 's eth \<Rightarrow> (u64 \<times> 's eth) res" where
  "rt_hw_eth_init env bar adapter_size device_size e =
     (let hw = ctrl env;
          gmac_base = 0x9000000000000000 OR ucast (bar AND 0xffffff00);
          (ad, block1) = rt_malloc env adapter_size (heap e) in
      if ad = 0 then Inl NullPtr
      else
        let h = (heap e)(ad \<mapsto> block1); (dev, block2) = rt_malloc env device_size h in
        if dev = 0 then Inl NullPtr
        else
          rbind (synopGMAC_attach hw (gmac_base + MACBASE) (gmac_base + DMABASE) GMAC_PHY_BASE
                   DEFAULT_MAC_ADDRESS (hw_state e)) (\<lambda>(g, s).
          rbind (init_phy hw g s) (\<lambda>(_, s).
          let s = synopGMAC_reset hw g s;
              mi = \<lparr>phy_id = ucast (PhyBase g), full_duplex = False, supports_gmii = False\<rparr> in
          rbind (mii_check_gmii_support (mdio_read hw g) mi s) (\<lambda>(gmii, s).
          Inr (gmac_base, e\<lparr>sem_lock := 1, dev_addr := DEFAULT_MAC_ADDRESS, heap := h(dev \<mapsto> block2),
            priv := Some \<lparr>synopGMACdev = Some g, synopGMACNetStats = zero_stats,
                          mii = mi\<lparr>supports_gmii := gmii\<rparr>\<rparr>, hw_state := s\<rparr>)))))"

text \<open>The only control command returns the station address into a buffer of the caller.\<close>

definition eth_control :: "int \<Rightarrow> int \<Rightarrow> u8 list option \<Rightarrow> 's eth \<Rightarrow> (int \<times> u8 list option) res" where
  "eth_control NIOCTL_GADDR cmd args e =
     (if cmd = NIOCTL_GADDR then
        case args of
          None \<Rightarrow> Inr (-1, None)
        | Some buf \<Rightarrow>
            if length buf < 6 then Inl OobWrite
            else Inr (0, Some (take 6 (dev_addr e) @ drop 6 buf))
      else Inr (0, args))"

section \<open>The interrupt handler\<close>

text \<open>The recovery from a fatal bus error.\<close>

definition irq_recover :: "'s mmio32 \<Rightarrow> synopGMACdevice \<Rightarrow> 's eth \<Rightarrow> (synopGMACdevice \<times> 's eth) res" where
  "irq_recover hw g e =
     (let e = on_hw (\<lambda>s. synopGMAC_disable_dma_rx hw g (synopGMAC_disable_dma_tx hw g s)) e in
      rbind (synopGMAC_take_desc_ownership_tx g (descs e)) (\<lambda>m.
      rbind (synopGMAC_take_desc_ownership_rx g m) (\<lambda>m.
      rbind (synopGMAC_init_tx_rx_desc_queue g m) (\<lambda>(_, g, m).
      let s = synopGMAC_reset hw g (hw_state e) in
      rbind (synopGMAC_set_mac_addr hw g GmacAddr0High GmacAddr0Low (take 6 (dev_addr e)) s) (\<lambda>s.
      let s = synopGMAC_dma_bus_mode_init hw g
                (DmaFixedBurstEnable OR DmaBurstLength8 OR DmaDescriptorSkip1) s;
          s = synopGMAC_dma_control_init hw g DmaStoreAndForward s;
          s = synopGMAC_init_rx_desc_base hw g s;
          s = synopGMAC_init_tx_desc_base hw g s;
          s = synopGMAC_mac_init hw g s;
          s = synopGMAC_enable_dma_rx hw g s;
          s = synopGMAC_enable_dma_tx hw g s
      in Inr (g, e\<lparr>descs := m, hw_state := s\<rparr>))))))"

text \<open>Overflow of the receiver: counted, and the DMA told to go on.\<close>

definition irq_rx_abnormal :: "'s mmio32 \<Rightarrow> synopGMACdevice \<Rightarrow> 's \<Rightarrow> 's" where
  "irq_rx_abnormal hw g s =
     synopGMAC_resume_dma_rx hw g (synopGMACWriteReg hw (DmaBase g) DmaStatus 0x80 s)"

text \<open>The transmitter has stopped: the descriptors are taken back and it is started again.\<close>

definition irq_tx_stopped :: "'s mmio32 \<Rightarrow> synopGMACdevice \<Rightarrow> 's eth \<Rightarrow> 's eth res" where
  "irq_tx_stopped hw g e =
     (let e = on_hw (synopGMAC_disable_dma_tx hw g) e in
      rbind (synopGMAC_take_desc_ownership_tx g (descs e)) (\<lambda>m.
      Inr (on_hw (synopGMAC_enable_dma_tx hw g) (e\<lparr>descs := m\<rparr>))))"

text \<open>
  The cause: nothing if the status reads as 0; otherwise interrupts are disabled and the status is
  read again and acknowledged.
\<close>

definition irq_cause :: "'s mmio32 \<Rightarrow> synopGMACdevice \<Rightarrow> 's \<Rightarrow> u32 option \<times> 's" where
  "irq_cause hw g s =
     (let (dma_status, s) = synopGMACReadReg hw (DmaBase g) DmaStatus s in
      if dma_status = 0 then (None, s)
      else
        let s = synopGMAC_disable_interrupt_all hw g s;
            s = snd (synopGMACReadReg hw (MacBase g) GmacStatus s);
            (interrupt, s) = synopGMAC_get_interrupt_type hw g s
        in (Some interrupt, s))"

definition count_overrun :: "bool \<Rightarrow> net_device_stats \<Rightarrow> net_device_stats" where
  "count_overrun over n = n\<lparr>rx_over_errors := rx_over_errors n + of_bool over\<rparr>"

text \<open>The causes other than an error.\<close>

definition irq_serve :: "'s mmio32 \<Rightarrow> u32 \<Rightarrow> net_adapter \<Rightarrow> synopGMACdevice \<Rightarrow> 's eth \<Rightarrow> 's eth res" where
  "irq_serve hw interrupt ad g e =
     (let e = (if interrupt AND synopGMACDmaRxNormal \<noteq> 0
               then e\<lparr>ready_calls := ready_calls e + 1\<rparr> else e);
          over = (interrupt AND synopGMACDmaRxAbnormal \<noteq> 0 \<and> GMAC_Power_down e = 0);
          e = (if over then on_hw (irq_rx_abnormal hw g) e else e);
          e = e\<lparr>priv := Some (ad\<lparr>synopGMACdev := Some g,
                  synopGMACNetStats := count_overrun over (synopGMACNetStats ad)\<rparr>)\<rparr> in
      rbind (if interrupt AND synopGMACDmaTxStopped \<noteq> 0 \<and> GMAC_Power_down e = 0
             then irq_tx_stopped hw g e else Inr e) (\<lambda>e.
      Inr (on_hw (synopGMAC_enable_interrupt hw g DmaIntEnable) e)))"

definition eth_rx_irq :: "'s eth_env \<Rightarrow> 's eth \<Rightarrow> 's eth res" where
  "eth_rx_irq env e =
     (case priv e of None \<Rightarrow> Inl NullPtr | Some ad \<Rightarrow>
      case synopGMACdev ad of None \<Rightarrow> Inl NullPtr | Some g \<Rightarrow>
      let hw = ctrl env; (cause, s) = irq_cause hw g (hw_state e); e = e\<lparr>hw_state := s\<rparr> in
      case cause of None \<Rightarrow> Inr e | Some interrupt \<Rightarrow>
        rbind (if interrupt AND synopGMACDmaError \<noteq> 0 then irq_recover hw g e else Inr (g, e))
          (\<lambda>(g, e). irq_serve hw interrupt ad g e))"

section \<open>The receive ring filled\<close>

text \<open>
  The contract of the allocator: while less than \<open>n\<close> blocks are in use it returns a new one of the
  size asked for.
\<close>

definition supplies :: "(u32 \<Rightarrow> blocks \<Rightarrow> u64 \<times> u8 list) \<Rightarrow> nat \<Rightarrow> bool" where
  "supplies alloc n \<longleftrightarrow> (\<forall>len h. card (dom h) < n \<longrightarrow>
     (\<exists>a block. alloc len h = (a, block) \<and> a \<noteq> 0 \<and> h a = None \<and> length block = unat len))"

lemma suppliesE:
  assumes "supplies alloc n" and "card (dom h) < n"
  obtains a block where "alloc len h = (a, block)" "a \<noteq> 0" "h a = None" "length block = unat len"
  using assms unfolding supplies_def by blast

lemma set_rx_shape:
  assumes "synopGMAC_set_rx_qptr b1 l1 v1 b2 l2 v2 g m = Inr (i, g', m')"
  shows "\<exists>x y z. g' = g\<lparr>RxNext := x, RxNextDesc := y, BusyRxDesc := z\<rparr>"
proof -
  have "\<exists>x y z. g = g\<lparr>RxNext := x, RxNextDesc := y, BusyRxDesc := z\<rparr>"
    by (rule exI [of _ "RxNext g"], rule exI [of _ "RxNextDesc g"], rule exI [of _ "BusyRxDesc g"]) simp
  with assms show ?thesis
    unfolding synopGMAC_set_rx_qptr_def set_rx_with_def Let_def
    by (auto simp: rbind_Inr_iff split: if_split_asm)
qed

text \<open>A descriptor that holds a new receive buffer.\<close>

definition rx_given :: "'s eth_env \<Rightarrow> blocks \<Rightarrow> DmaDesc \<Rightarrow> bool" where
  "rx_given env h d \<longleftrightarrow> status d = DescOwnByDma \<and> data1 d \<noteq> 0
     \<and> buffers d = ((plat_dma_map_single env (data1 d), RX_BUF_SIZE, data1 d), (0, 0, 0))
     \<and> (\<exists>block. h (data1 d) = Some block \<and> length block = 2522)"

text \<open>The rings with \<open>k\<close> buffers put into the receive ring since its setup.\<close>

definition filling :: "nat \<Rightarrow> synopGMACdevice \<Rightarrow> desc_mem \<Rightarrow> bool" where
  "filling k g m \<longleftrightarrow> rx.ok m (rx_ring g) \<and> tx.ok m (tx_ring g)
     \<and> ring_addrs (tx_ring g) \<inter> ring_addrs (rx_ring g) = {}
     \<and> RxDescCount g = RECEIVE_DESC_SIZE \<and> unat (BusyRxDesc g) = k \<and> (k < 36 \<longrightarrow> unat (RxNext g) = k)"

lemma rx_fill_addr: "rx.ok m (rx_ring g) \<Longrightarrow> RxNextDesc g \<in> ring_addrs (rx_ring g)"
  using ring_shape_next [of "rx_ring g"]
  by (auto simp: rx.ok_def ring_addrs_def) (auto simp: ring_shape_def)

lemma fill_step:
  assumes "filling k g m" and "k < 36"
  shows "\<exists>g' m' d. synopGMAC_set_rx_qptr b RX_BUF_SIZE a 0 0 0 g m = Inr (int k, g', m')
    \<and> filling (Suc k) g' m' \<and> tx_ring g' = tx_ring g \<and> (\<forall>x\<in>ring_addrs (tx_ring g). m' x = m x)
    \<and> queue m' (rx_ring g') = queue m (rx_ring g) @ [d] \<and> queue m' (tx_ring g') = queue m (tx_ring g)
    \<and> status d = DescOwnByDma \<and> buffers d = ((b, RX_BUF_SIZE, a), (0, 0, 0))"
proof -
  have f: "rx.ok m (rx_ring g)" "tx.ok m (tx_ring g)"
    "ring_addrs (tx_ring g) \<inter> ring_addrs (rx_ring g) = {}" "RxDescCount g = 36"
    "unat (BusyRxDesc g) = k" "unat (RxNext g) = k"
    using assms by (simp_all add: filling_def)
  have "BusyRxDesc g \<noteq> RxDescCount g" using assms(2) f(4,5) by auto
  moreover have "has_length 2522 0" by (simp add: has_length_def)
  moreover have "0 \<noteq> RxDesc g" using f(1) by (auto simp: rx.ok_def rx.descs_ok_def)
  ultimately obtain g' m' d where s: "synopGMAC_set_rx_qptr b 2522 a 0 0 0 g m = Inr (int k, g', m')"
    "rx.ok m' (rx_ring g')" "rx_ring g' = put_ring (rx_ring g)"
    "queue m' (rx_ring g') = queue m (rx_ring g) @ [d]"
    "status d = DescOwnByDma" "buffers d = given b 2522 a 0 0 0"
    using set_rx_queue [OF f(1), of 2522 0 0 DescOwnByDma b a 0] f(6)
    by (auto simp: synopGMAC_set_rx_qptr_def)
  note fr = set_rx_frame [OF s(1)]
  have same: "m' x = m x" if "x \<in> ring_addrs (tx_ring g)" for x
    using f(3) that rx_fill_addr [OF f(1)] by (intro fr(2)) blast
  have "tx.ok m' (tx_ring g')" "queue m' (tx_ring g') = queue m (tx_ring g)"
    unfolding fr(1) by (rule tx_local [OF f(2) same], assumption)+
  moreover have "ring_addrs (rx_ring g') = ring_addrs (rx_ring g)"
    by (simp add: ring_addrs_def s(3) put_ring_same)
  moreover have "RxDescCount g' = 36" using set_rx_shape [OF s(1)] f(4) by auto
  moreover have "unat (BusyRxDesc g') = Suc k" "unat (RxNext g') = (if k = 35 then 0 else Suc k)"
    using arg_cong [OF s(3), of used] arg_cong [OF s(3), of next_i] f(4-6)
    by (simp_all add: put_ring_def advance_def)
  ultimately show ?thesis
    using s f(3) fr(1) same by (intro exI [of _ g'] exI [of _ m'] exI [of _ d])
      (simp add: filling_def given_def)
qed

text \<open>The result of the loop: from \<open>ds\<close> descriptors on, and with \<open>h\<close> the heap before it.\<close>

definition fill_result :: "'s eth_env \<Rightarrow> blocks \<Rightarrow> blocks \<Rightarrow> DmaDesc list \<Rightarrow> bool" where
  "fill_result env h h' ds \<longleftrightarrow> (\<forall>d\<in>set ds. rx_given env h' d \<and> h (data1 d) = None)
     \<and> distinct (map data1 ds) \<and> (\<forall>a. a \<notin> data1 ` set ds \<longrightarrow> h' a = h a)"

lemma fill_result_Cons:
  assumes "fill_result env (h(data1 d \<mapsto> block)) h' ds" and "h (data1 d) = None"
    and "status d = DescOwnByDma" and "data1 d \<noteq> 0" and "length block = 2522"
    and "buffers d = ((plat_dma_map_single env (data1 d), RX_BUF_SIZE, data1 d), (0, 0, 0))"
  shows "fill_result env h h' (d # ds)"
proof -
  have n: "data1 d \<notin> data1 ` set ds" using assms(1) by (fastforce simp: fill_result_def)
  with assms(1) have "h' (data1 d) = Some block" by (simp add: fill_result_def)
  with assms(3-6) have "rx_given env h' d" by (simp add: rx_given_def)
  moreover have "h (data1 x) = None" if "x \<in> set ds" for x
  proof -
    have "data1 x \<noteq> data1 d" using n that by (metis imageI)
    with assms(1) that show ?thesis by (auto simp: fill_result_def)
  qed
  ultimately show ?thesis using assms(1,2) n by (simp add: fill_result_def)
qed

lemma dom_upd_card: "card (dom (h(a \<mapsto> b))) \<le> Suc (card (dom (h :: blocks)))"
  by (simp add: card_insert_if)

lemma rx_fill_fills:
  assumes "supplies (rt_malloc env) n" and "filling k g (descs e)" and "k < 36"
    and "card (dom (heap e)) + (36 - k) \<le> n"
  shows "\<exists>g' m' h' ds. rx_fill env r g e = Inr (35, g', e\<lparr>descs := m', heap := h'\<rparr>)
    \<and> filling 36 g' m' \<and> (\<exists>x y z. g' = g\<lparr>RxNext := x, RxNextDesc := y, BusyRxDesc := z\<rparr>)
    \<and> queue m' (tx_ring g') = queue (descs e) (tx_ring g)
    \<and> (\<forall>x\<in>ring_addrs (tx_ring g). m' x = descs e x)
    \<and> queue m' (rx_ring g') = queue (descs e) (rx_ring g) @ ds
    \<and> length ds = 36 - k \<and> fill_result env (heap e) h' ds"
  using assms(2-4)
proof (induction "36 - k" arbitrary: k g e r)
  case 0
  then show ?case by simp
next
  case (Suc j)
  obtain a block where a: "rt_malloc env 2522 (heap e) = (a, block)" "a \<noteq> 0" "heap e a = None"
    "length block = 2522"
    by (rule suppliesE [OF assms(1), of "heap e" 2522]) (use Suc.prems in auto)
  let ?e = "e\<lparr>heap := (heap e)(a \<mapsto> block)\<rparr>"
  from fill_step [OF Suc.prems(1,2), of "plat_dma_map_single env a" a] obtain g1 m1 d where
    s: "synopGMAC_set_rx_qptr (plat_dma_map_single env a) 2522 a 0 0 0 g (descs e) = Inr (int k, g1, m1)"
    "filling (Suc k) g1 m1" "queue m1 (rx_ring g1) = queue (descs e) (rx_ring g) @ [d]"
    "queue m1 (tx_ring g1) = queue (descs e) (tx_ring g)"
    "tx_ring g1 = tx_ring g" "\<forall>x\<in>ring_addrs (tx_ring g). m1 x = descs e x"
    "status d = DescOwnByDma" "buffers d = ((plat_dma_map_single env a, 2522, a), (0, 0, 0))" by auto
  have d: "data1 d = a" using s(8) by (simp add: buffers_def)
  let ?e1 = "?e\<lparr>descs := m1\<rparr>"
  have one: "fill_result env (heap e) h' (d # ds)"
    if "fill_result env ((heap e)(a \<mapsto> block)) h' ds" for h' ds
    using fill_result_Cons [of env "heap e" d block h' ds] that a(2-4) s(7,8) by (simp add: d)
  show ?case
  proof (cases "k = 35")
    case True
    then have "rx_fill env r g e = Inr (35, g1, e\<lparr>descs := m1, heap := (heap e)(a \<mapsto> block)\<rparr>)"
      by (subst rx_fill.simps) (simp add: a s(1))
    moreover have "fill_result env (heap e) ((heap e)(a \<mapsto> block)) [d]"
      by (rule one) (simp add: fill_result_def)
    ultimately show ?thesis using s(2-4,6) True set_rx_shape [OF s(1)]
      by (intro exI [of _ g1] exI [of _ m1] exI [of _ "(heap e)(a \<mapsto> block)"] exI [of _ "[d]"]) simp
  next
    case False
    have eq: "rx_fill env r g e = rx_fill env (int k) g1 ?e1"
      using False Suc.prems(2) by (subst rx_fill.simps) (simp add: a s(1))
    have "card (dom (heap ?e1)) + (36 - Suc k) \<le> n"
      using dom_upd_card [of "heap e" a block] Suc.prems(2,3) by simp
    moreover have "j = 36 - Suc k" "filling (Suc k) g1 (descs ?e1)" "Suc k < 36"
      using Suc.hyps(2) Suc.prems(2) s(2) False by simp_all
    ultimately obtain g' m' h' ds where t: "rx_fill env (int k) g1 ?e1 = Inr (35, g', ?e1\<lparr>descs := m', heap := h'\<rparr>)"
      "filling 36 g' m'" "\<exists>x y z. g' = g1\<lparr>RxNext := x, RxNextDesc := y, BusyRxDesc := z\<rparr>"
      "queue m' (tx_ring g') = queue (descs ?e1) (tx_ring g1)"
      "\<forall>x\<in>ring_addrs (tx_ring g1). m' x = descs ?e1 x"
      "queue m' (rx_ring g') = queue (descs ?e1) (rx_ring g1) @ ds" "length ds = 36 - Suc k"
      "fill_result env (heap ?e1) h' ds"
      using Suc.hyps(1) [of "Suc k" g1 ?e1 "int k"] by blast
    have "fill_result env (heap e) h' (d # ds)" using one [of h' ds] t(8) by simp
    moreover have "\<exists>x y z. g' = g\<lparr>RxNext := x, RxNextDesc := y, BusyRxDesc := z\<rparr>"
    proof -
      obtain x y z where "g' = g1\<lparr>RxNext := x, RxNextDesc := y, BusyRxDesc := z\<rparr>" using t(3) by blast
      moreover obtain x1 y1 z1 where "g1 = g\<lparr>RxNext := x1, RxNextDesc := y1, BusyRxDesc := z1\<rparr>"
        using set_rx_shape [OF s(1)] by blast
      ultimately show ?thesis by (intro exI [of _ x] exI [of _ y] exI [of _ z]) simp
    qed
    moreover have "rx_fill env r g e = Inr (35, g', e\<lparr>descs := m', heap := h'\<rparr>)"
      using eq t(1) by simp
    ultimately show ?thesis using t(2,4-7) s(3-6) Suc.prems(2)
      by (intro exI [of _ g'] exI [of _ m'] exI [of _ h'] exI [of _ "d # ds"] conjI) simp_all
  qed
qed

section \<open>What the initialisation ends with\<close>

lemma attach_ends:
  assumes "mdio_answers hw macBase ids" and "ucast phyBase < (32 :: u32)" and "length mac_addr = 6"
  shows "ends (\<lambda>(g, s). \<exists>j<32. g = zero_device\<lparr>MacBase := macBase, DmaBase := dmaBase,
      PhyBase := scast (j :: u32)\<rparr>) (synopGMAC_attach hw macBase dmaBase phyBase mac_addr s)"
proof -
  from phy_scan_finds [OF assms(1,2), of 32 None s] obtain j s' where
    j: "phy_scan hw macBase 32 (ucast phyBase) None s = Inr (j, s')" "\<exists>k. j = scan_addr (ucast phyBase) k"
    by blast
  obtain a0 a1 a2 a3 a4 a5 where "mac_addr = [a0, a1, a2, a3, a4, a5]"
    using assms(3) by (auto simp: numeral_eq_Suc length_Suc_conv)
  with j show ?thesis
    using scan_addr_less by (auto simp: synopGMAC_attach_def synopGMAC_set_mac_addr_def rd_def Let_def)
qed

lemma init_phy_ends:
  assumes "mdio_answers hw (MacBase g) ids" and "ucast (PhyBase g) < (32 :: u32)"
  shows "ends (\<lambda>_. True) (init_phy hw g s)"
proof -
  have r: "(2 :: u32) < 32" "(0x14 :: u32) < 32" "(0 :: u32) < 32" "(0x10 :: u32) < 32" by simp_all
  note read = mdio_answersE [OF assms]
  have "ends (\<lambda>_. True) (rtl88e1111_config_init hw g s)" for s
  proof -
    obtain s1 where s1: "synopGMAC_read_phy_reg hw (MacBase g) (ucast (PhyBase g)) 0x14 None s
        = (0, Some (ids (ucast (PhyBase g)) 0x14), s1)" by (rule read [OF r(2)])
    let ?v = "ids (ucast (PhyBase g)) 0x14 OR 0x82"
    obtain s2 where "synopGMAC_read_phy_reg hw (MacBase g) (ucast (PhyBase g)) 0 (Some ?v)
        (snd (synopGMAC_write_phy_reg hw (MacBase g) (ucast (PhyBase g)) 0x14 ?v s1))
        = (0, Some (ids (ucast (PhyBase g)) 0), s2)" by (rule read [OF r(3)])
    with s1 show ?thesis
      by (simp add: rtl88e1111_config_init_def got_def Let_def split_beta)
  qed
  moreover obtain s1 where s1: "synopGMAC_read_phy_reg hw (MacBase g) (ucast (PhyBase g)) 2 None s
      = (0, Some (ids (ucast (PhyBase g)) 2), s1)" by (rule read [OF r(1)])
  moreover obtain s2 where "synopGMAC_read_phy_reg hw (MacBase g) (ucast (PhyBase g)) 0x10
      (Some (ids (ucast (PhyBase g)) 2)) s1 = (0, Some (ids (ucast (PhyBase g)) 0x10), s2)"
    by (rule read [OF r(4)])
  ultimately show ?thesis
    by (auto simp: init_phy_def got_def Let_def split_beta elim!: endsE
        intro!: ends_bind [of "\<lambda>_. True"])
qed

lemma check_phy_ends:
  assumes "mdio_answers (ctrl env) (MacBase g) ids" and "phy_id mi < 32"
  shows "ends (\<lambda>(data, g', mi', s'). phy_id mi' = phy_id mi
      \<and> (\<exists>x y. g' = g\<lparr>DuplexMode := x, Speed := y\<rparr>)) (check_phy env cmd g mi s)"
proof -
  have live: "phy_live (ctrl env) (\<lambda>_ _. 0) g"
    using assms(1) unfolding phy_live_def mdio_answers_def by (metis (no_types))
  let ?rd = "mdio_read (ctrl env) g"
  obtain ok s1 where ok: "mii_link_ok ?rd mi s = Inr (ok, s1)"
    using link_ok_quiet [OF live assms(2), of s] by (auto simp: quiet_def)
  obtain ec mi1 s2 where "mii_ethtool_gset ?rd mi cmd s1 = Inr (ec, mi1, s2)" "phy_id mi1 = phy_id mi"
    using gset_quiet [OF live assms(2), of cmd s1] by blast
  with ok show ?thesis
    unfolding check_phy_def synopGMAC_check_phy_init_def Let_def
    by (cases ok) auto
qed

text \<open>The setup of either ring, with what it leaves alone.\<close>

lemma desc_block: "(\<forall>i<n. a \<noteq> desc_at p i) \<longleftrightarrow> a \<notin> desc_at p ` {..<n}"
  by auto

lemma setup_tx_ends:
  assumes "allocated m p 36" and "p \<noteq> 0"
  shows "ends (\<lambda>(_, g', m'). tx.ok m' (tx_ring g') \<and> BusyTxDesc g' = 0 \<and> TxNext g' = 0
      \<and> TxDescCount g' = 36 \<and> TxDesc g' = p \<and> MacBase g' = MacBase g \<and> DmaBase g' = DmaBase g
      \<and> PhyBase g' = PhyBase g \<and> done_by_dma (the (m' p))
      \<and> (\<forall>b. b \<notin> desc_at p ` {..<36} \<longrightarrow> m' b = m b)) (synopGMAC_setup_tx_desc_queue (Some (p, dma)) 36 g m)"
proof -
  have u: "unat (36 :: u32) = 36" and n: "(36 :: nat) = unat (36 :: u32)" "(36 :: nat) < 2 ^ 31"
    by simp_all
  obtain m' where
    m': "init_ring synopGMAC_tx_desc_init_ring p 36 m = Inr m'"
    "cleared synopGMAC_tx_desc_init_ring p 36 36 m m'"
    using init_ring_cleared [OF assms(1) n, of synopGMAC_tx_desc_init_ring] by blast
  define g' where "g' = g\<lparr>TxDescCount := 36, TxDesc := p, TxDescDma := dma, TxNext := 0, TxBusy := 0,
    TxNextDesc := p, TxBusyDesc := p, BusyTxDesc := 0\<rparr>"
  have s: "synopGMAC_setup_tx_desc_queue (Some (p, dma)) 36 g m = Inr (0, g', m')"
    by (simp add: synopGMAC_setup_tx_desc_queue_def m'(1) g'_def)
  have "tx.ok m' (tx_ring g')"
    using setup_tx_ok [of m p 36 dma g] assms s unfolding u by auto
  moreover have "\<forall>b. b \<notin> desc_at p ` {..<36} \<longrightarrow> m' b = m b"
    using m'(2) unfolding cleared_def desc_block by blast
  moreover have "done_by_dma (the (m' p))"
  proof -
    have "(0 :: nat) < 36" by simp
    with m'(2) have "m' (desc_at p 0)
        = Some (synopGMAC_tx_desc_init_ring (0 = (36 :: nat) - 1) (the (m (desc_at p 0))))"
      unfolding cleared_def by blast
    then show ?thesis
      by (simp add: synopGMAC_tx_desc_init_ring_def synopGMAC_is_desc_owned_by_dma_def DescOwnByDma_def)
  qed
  ultimately show ?thesis
    unfolding s ends_Inr prod.case by (intro conjI) (simp_all add: g'_def)
qed

lemma setup_rx_ends:
  assumes "allocated m p 36" and "p \<noteq> 0"
  shows "ends (\<lambda>(_, g', m'). rx.ok m' (rx_ring g') \<and> BusyRxDesc g' = 0 \<and> RxNext g' = 0
      \<and> RxDescCount g' = 36 \<and> RxDesc g' = p \<and> MacBase g' = MacBase g \<and> DmaBase g' = DmaBase g
      \<and> PhyBase g' = PhyBase g \<and> tx_ring g' = tx_ring g \<and> TxDescCount g' = TxDescCount g
      \<and> (\<forall>b. b \<notin> desc_at p ` {..<36} \<longrightarrow> m' b = m b)) (synopGMAC_setup_rx_desc_queue (Some (p, dma)) 36 g m)"
proof -
  have u: "unat (36 :: u32) = 36" and n: "(36 :: nat) = unat (36 :: u32)" "(36 :: nat) < 2 ^ 31"
    by simp_all
  obtain m' where
    m': "init_ring synopGMAC_rx_desc_init_ring p 36 m = Inr m'"
    "cleared synopGMAC_rx_desc_init_ring p 36 36 m m'"
    using init_ring_cleared [OF assms(1) n, of synopGMAC_rx_desc_init_ring] by blast
  define g' where "g' = g\<lparr>RxDescCount := 36, RxDesc := p, RxDescDma := dma, RxNext := 0, RxBusy := 0,
    RxNextDesc := p, RxBusyDesc := p, BusyRxDesc := 0\<rparr>"
  have s: "synopGMAC_setup_rx_desc_queue (Some (p, dma)) 36 g m = Inr (0, g', m')"
    by (simp add: synopGMAC_setup_rx_desc_queue_def m'(1) g'_def)
  have "rx.ok m' (rx_ring g')"
    using setup_rx_ok [of m p 36 dma g] assms s unfolding u by auto
  moreover have "\<forall>b. b \<notin> desc_at p ` {..<36} \<longrightarrow> m' b = m b"
    using m'(2) unfolding cleared_def desc_block by blast
  ultimately show ?thesis
    unfolding s ends_Inr prod.case by (intro conjI) (simp_all add: g'_def tx_ring_def)
qed

text \<open>The memory of the descriptors: both blocks hold 36 of them and they do not overlap.\<close>

definition dma_memory :: "'s eth_env \<Rightarrow> 's eth \<Rightarrow> u64 \<Rightarrow> u64 \<Rightarrow> bool" where
  "dma_memory env e p q \<longleftrightarrow> p \<noteq> 0 \<and> q \<noteq> 0 \<and> allocated (descs e) p 36 \<and> allocated (descs e) q 36
     \<and> desc_at p ` {..<36} \<inter> desc_at q ` {..<36} = {}
     \<and> (\<exists>dp dq h1 h2. desc_alloc env TRANSMIT_DESC_SIZE (heap e) = (Some (p, dp), h1)
          \<and> desc_alloc env RECEIVE_DESC_SIZE h1 = (Some (q, dq), h2))"

lemma desc_alloc_heap:
  assumes "desc_alloc env n h = (r, h')"
  shows "h' = h \<or> (\<exists>a b. a \<noteq> 0 \<and> h' = h(a \<mapsto> b))"
  using assms
  by (auto simp: desc_alloc_def plat_alloc_consistent_dmaable_memory_def Let_def split: prod.splits if_splits)

lemma desc_alloc_card: "desc_alloc env n h = (r, h') \<Longrightarrow> card (dom h') \<le> Suc (card (dom h))"
  using desc_alloc_heap [of env n h r h'] dom_upd_card [of h] by auto

text \<open>The device the interface is initialised to.\<close>

definition brought_up :: "'s eth_env \<Rightarrow> 's eth \<Rightarrow> 's eth \<Rightarrow> net_adapter \<Rightarrow> synopGMACdevice \<Rightarrow> bool" where
  "brought_up env e e' ad g \<longleftrightarrow> eth_up e' ad g \<and> sem_lock e' = sem_lock e
     \<and> TxDescCount g = TRANSMIT_DESC_SIZE \<and> RxDescCount g = RECEIVE_DESC_SIZE
     \<and> BusyTxDesc g = 0 \<and> queue (descs e') (tx_ring g) = []
     \<and> done_by_dma (desc_of (descs e') (tx_ring g) (unat (TxNext g)))
     \<and> length (queue (descs e') (rx_ring g)) = 36
     \<and> (\<forall>d\<in>set (queue (descs e') (rx_ring g)). rx_given env (heap e') d)
     \<and> distinct (map data1 (queue (descs e') (rx_ring g)))"

lemma filling_0:
  assumes "tx.ok m (tx_ring g)" and "rx.ok m' (rx_ring g')" and "tx_ring g' = tx_ring g"
    and "TxDesc g = p" and "TxDescCount g = 36" and "RxDesc g' = q" and "RxDescCount g' = 36"
    and "BusyRxDesc g' = 0" and "RxNext g' = 0"
    and "\<forall>b. b \<notin> desc_at q ` {..<36} \<longrightarrow> m' b = m b"
    and "desc_at p ` {..<36} \<inter> desc_at q ` {..<36} = {}"
  shows "filling 0 g' m'" and "queue m' (tx_ring g') = queue m (tx_ring g)"
    and "queue m' (rx_ring g') = []"
proof -
  have a: "ring_addrs (tx_ring g) = desc_at p ` {..<36}" "ring_addrs (rx_ring g') = desc_at q ` {..<36}"
    by (simp_all add: ring_addrs_def assms(4-7))
  have same: "m' x = m x" if "x \<in> ring_addrs (tx_ring g)" for x
    using assms(10,11) that unfolding a by blast
  show "queue m' (tx_ring g') = queue m (tx_ring g)"
    unfolding assms(3) by (rule tx_local(2) [OF assms(1) same])
  have "tx.ok m' (tx_ring g')" unfolding assms(3) by (rule tx_local(1) [OF assms(1) same])
  then show "filling 0 g' m'" using assms a by (simp add: filling_def)
  show "queue m' (rx_ring g') = []" using assms(8) by (simp add: queue_def)
qed

lemma same_rings:
  "tx_ring (g\<lparr>DuplexMode := x, Speed := y\<rparr>) = tx_ring g" "rx_ring (g\<lparr>DuplexMode := x, Speed := y\<rparr>) = rx_ring g"
  by (simp_all add: tx_ring_def rx_ring_def)

lemma init_tail_ends:
  assumes "filling 0 g (descs e)" and "TxDescCount g = TRANSMIT_DESC_SIZE" and "BusyTxDesc g = 0"
    and "queue (descs e) (tx_ring g) = []" and "queue (descs e) (rx_ring g) = []"
    and "done_by_dma (desc_of (descs e) (tx_ring g) (unat (TxNext g)))"
    and "mdio_answers (ctrl env) (MacBase g) ids" and "phy_id (mii ad) < 32"
    and "supplies (rt_malloc env) n" and "card (dom (heap e)) + 36 \<le> n"
  shows "ends (\<lambda>(r, e'). r = 0 \<and> (\<exists>ad' g'. brought_up env e e' ad' g')) (eth_init_tail env cmd ad g e s)"
  unfolding eth_init_tail_def
proof (rule ends_bind4 [OF check_phy_ends [OF assms(7,8)]], unfold prod.case Let_def, elim conjE exE)
  fix data g1 and mi1 :: mii_if_info and s1 x y
  assume g1: "g1 = g\<lparr>DuplexMode := x, Speed := y\<rparr>" and mi1: "phy_id mi1 = phy_id (mii ad)"
  let ?s = "\<lambda>g'. eth_init_start (ctrl env) g'
      (synopGMAC_pause_control (ctrl env) g1 (synopGMAC_mac_init (ctrl env) g1 s1))"
  have "filling 0 g1 (descs e)" "(0 :: nat) < 36" "card (dom (heap e)) + (36 - 0) \<le> n"
    using assms(1,10) by (simp_all add: g1 filling_def same_rings)
  from rx_fill_fills [OF assms(9) this, of "sint data"] obtain g2 m2 h2 ds where
    f: "rx_fill env (sint data) g1 e = Inr (35, g2, e\<lparr>descs := m2, heap := h2\<rparr>)" "filling 36 g2 m2"
    "\<exists>x y z. g2 = g1\<lparr>RxNext := x, RxNextDesc := y, BusyRxDesc := z\<rparr>"
    "queue m2 (tx_ring g2) = queue (descs e) (tx_ring g1)"
    "\<forall>x\<in>ring_addrs (tx_ring g1). m2 x = descs e x"
    "queue m2 (rx_ring g2) = queue (descs e) (rx_ring g1) @ ds" "length ds = 36 - 0"
    "fill_result env (heap e) h2 ds"
    by blast
  obtain u v w where g2: "g2 = g1\<lparr>RxNext := u, RxNextDesc := v, BusyRxDesc := w\<rparr>" using f(3) by blast
  have q: "queue m2 (tx_ring g2) = []" "queue m2 (rx_ring g2) = ds"
    using f(4,6) by (simp_all add: g1 same_rings assms(4,5))
  have mdio: "mdio_answers (ctrl env) (MacBase g2) ids" "phy_id mi1 < 32"
    using assms(7,8) by (simp_all add: g2 g1 mi1)
  have tx: "tx_ring g2 = tx_ring g" "unat (TxNext g2) < unat (TxDescCount g)"
    using assms(1) ring_shape_next [of "tx_ring g"]
    by (simp_all add: g2 g1 tx_ring_def filling_def tx.ok_def)
  have "m2 (desc_at (TxDesc g) (unat (TxNext g2))) = descs e (desc_at (TxDesc g) (unat (TxNext g2)))"
    using f(5) tx(2) by (auto simp: ring_addrs_def g1 same_rings)
  then have free: "done_by_dma (desc_of m2 (tx_ring g2) (unat (TxNext g2)))"
    using assms(6) by (simp add: desc_of_def tx(1) g2 g1)
  have up: "\<exists>ad' g'. brought_up env e (e\<lparr>descs := m2, heap := h2, hw_state := t, priv := Some
      (ad\<lparr>synopGMACdev := Some (g2\<lparr>DuplexMode := x, Speed := y\<rparr>), mii := mi\<rparr>)\<rparr>) ad' g'" for t x y mi
  proof (intro exI)
    show "brought_up env e (e\<lparr>descs := m2, heap := h2, hw_state := t, priv := Some
        (ad\<lparr>synopGMACdev := Some (g2\<lparr>DuplexMode := x, Speed := y\<rparr>), mii := mi\<rparr>)\<rparr>)
        (ad\<lparr>synopGMACdev := Some (g2\<lparr>DuplexMode := x, Speed := y\<rparr>), mii := mi\<rparr>)
        (g2\<lparr>DuplexMode := x, Speed := y\<rparr>)"
      using f(2,7,8) assms(2,3) free
      by (simp add: brought_up_def eth_up_def same_rings q filling_def fill_result_def) (simp add: g2 g1)
  qed
  show "ends (\<lambda>(r, e'). r = 0 \<and> (\<exists>ad' g'. brought_up env e e' ad' g'))
      (rbind (rx_fill env (sint data) g1 e) (\<lambda>(_, g, e).
        rbind (check_phy env cmd g mi1 (?s g)) (\<lambda>(_, g, mi, s).
        Inr (0, e\<lparr>hw_state := synopGMAC_mac_init (ctrl env) g s,
          priv := Some (ad\<lparr>synopGMACdev := Some g, mii := mi\<rparr>)\<rparr>))))"
    unfolding f(1) rbind_simps prod.case
    by (rule ends_bind4 [OF check_phy_ends [OF mdio]]) (use up in auto)
qed

lemma init_rings_ends:
  assumes "mdio_answers (ctrl env) (MacBase g) ids" and "phy_id (mii ad) < 32"
    and "supplies (rt_malloc env) n" and "card (dom (heap e)) + 38 \<le> n" and "dma_memory env e p q"
  shows "ends (\<lambda>(r, e'). r = 0 \<and> (\<exists>ad' g'. brought_up env e e' ad' g')) (eth_init_rings env cmd ad g e s)"
proof -
  obtain dp dq h1 h2 where a: "desc_alloc env TRANSMIT_DESC_SIZE (heap e) = (Some (p, dp), h1)"
    "desc_alloc env RECEIVE_DESC_SIZE h1 = (Some (q, dq), h2)" "p \<noteq> 0" "q \<noteq> 0"
    "allocated (descs e) p 36" "allocated (descs e) q 36"
    "desc_at p ` {..<36} \<inter> desc_at q ` {..<36} = {}"
    using assms(5) unfolding dma_memory_def by blast
  have c: "card (dom h2) + 36 \<le> n"
    using desc_alloc_card [OF a(1)] desc_alloc_card [OF a(2)] assms(4) by linarith
  obtain r1 g1 m1 where t: "synopGMAC_setup_tx_desc_queue (Some (p, dp)) 36 g (descs e) = Inr (r1, g1, m1)"
    "tx.ok m1 (tx_ring g1)" "BusyTxDesc g1 = 0" "TxNext g1 = 0" "TxDescCount g1 = 36" "TxDesc g1 = p"
    "MacBase g1 = MacBase g" "done_by_dma (the (m1 p))" "\<forall>b. b \<notin> desc_at p ` {..<36} \<longrightarrow> m1 b = descs e b"
    using setup_tx_ends [OF a(5,3), of g dp] by (auto elim: endsE)
  have "allocated m1 q 36"
    using a(6,7) t(9) unfolding allocated_def by (metis disjoint_iff image_eqI lessThan_iff)
  from setup_rx_ends [OF this a(4), of g1 dq] obtain r2 g2 m2 where
    r: "synopGMAC_setup_rx_desc_queue (Some (q, dq)) 36 g1 m1 = Inr (r2, g2, m2)"
    "rx.ok m2 (rx_ring g2)" "BusyRxDesc g2 = 0" "RxNext g2 = 0" "RxDescCount g2 = 36" "RxDesc g2 = q"
    "MacBase g2 = MacBase g1" "tx_ring g2 = tx_ring g1" "TxDescCount g2 = TxDescCount g1"
    "\<forall>b. b \<notin> desc_at q ` {..<36} \<longrightarrow> m2 b = m1 b" by (auto elim: endsE)
  note f = filling_0 [OF t(2) r(2,8) t(6,5) r(6,5,3,4,10) a(7)]
  have tx: "TxDesc g2 = p" "BusyTxDesc g2 = 0" "TxNext g2 = 0"
    using r(8) t(3,4,6) by (simp_all add: tx_ring_def unat_eq_0)
  have "p \<notin> desc_at q ` {..<36}" using a(7) image_eqI [of p "desc_at p" 0 "{..<36}"] by auto
  then have "done_by_dma (desc_of m2 (tx_ring g2) (unat (TxNext g2)))"
    using r(10) t(8) by (simp add: desc_of_def tx)
  then have "ends (\<lambda>(r, e'). r = 0 \<and> (\<exists>ad' g'. brought_up env (e\<lparr>descs := m2, heap := h2\<rparr>) e' ad' g'))
      (eth_init_tail env cmd ad g2 (e\<lparr>descs := m2, heap := h2\<rparr>) s)" for s
    using f tx r(7,9) t(5,7) assms(1-3) c
    by (intro init_tail_ends [where n = n and ids = ids]) (simp_all add: TRANSMIT_DESC_SIZE_def queue_def)
  then show ?thesis
    using a(1,2) t(1) r(1)
    by (simp add: eth_init_rings_def Let_def TRANSMIT_DESC_SIZE_def brought_up_def)
qed

text \<open>The initialisation of a registered device.\<close>

lemma default_phy: "ucast GMAC_PHY_BASE < (32 :: u32)" "length DEFAULT_MAC_ADDRESS = 6"
  by (simp_all add: GMAC_PHY_BASE_def DEFAULT_MAC_ADDRESS_def)

lemma phy_number: "ucast (scast (j :: u32) :: u64) = j"
  by (rule bit_word_eqI) (auto simp: bit_simps min_def dest: le_antisym [of 31])

lemma eth_init_brings_up:
  assumes "priv e = Some ad" and "synopGMACdev ad = Some g0" and "phy_id (mii ad) < 32"
    and "mdio_answers (ctrl env) gmac_base ids"
    and "supplies (rt_malloc env) n" and "card (dom (heap e)) + 38 \<le> n"
    and "dma_memory env e p q"
  shows "\<exists>e' ad' g'. eth_init env gmac_base cmd e = Inr (0, e') \<and> brought_up env e e' ad' g'"
proof -
  from attach_ends [OF assms(4) default_phy, of "gmac_base + DMABASE" "synopGMAC_reset (ctrl env) g0 (hw_state e)"]
  obtain j s1 where
    at: "synopGMAC_attach (ctrl env) gmac_base (gmac_base + DMABASE) GMAC_PHY_BASE DEFAULT_MAC_ADDRESS
        (synopGMAC_reset (ctrl env) g0 (hw_state e)) = Inr (zero_device\<lparr>MacBase := gmac_base,
          DmaBase := gmac_base + DMABASE, PhyBase := scast (j :: u32)\<rparr>, s1)" "j < 32"
    by (auto elim: endsE)
  have small: "ucast (scast j :: u64) < (32 :: u32)" using at(2) by (simp add: phy_number)
  let ?g = "zero_device\<lparr>MacBase := gmac_base, DmaBase := gmac_base + DMABASE, PhyBase := scast j\<rparr>"
  obtain v s2 where v: "synopGMAC_read_version (ctrl env) ?g s1 = (?g\<lparr>Version := v\<rparr>, s2)"
    by (simp add: synopGMAC_read_version_def split_beta)
  obtain c s3 where c: "synopGMAC_get_mdc_clk_div (ctrl env) (?g\<lparr>Version := v\<rparr>)
      (synopGMAC_set_mdc_clk_div (ctrl env) (?g\<lparr>Version := v\<rparr>) GmiiCsrClk3 s2) = (c, s3)"
    by fastforce
  define g2 where "g2 = ?g\<lparr>Version := v, ClockDivMdc := c\<rparr>"
  have g: "MacBase g2 = gmac_base" "ucast (PhyBase g2) < (32 :: u32)"
    using small by (simp_all add: g2_def)
  have eq: "eth_init env gmac_base cmd e
      = rbind (init_phy (ctrl env) g2 s3) (\<lambda>(_, s). eth_init_rings env cmd ad g2 e s)"
    using v c by (simp add: eth_init_def assms(1,2) at(1) MACBASE_def g2_def Let_def)
  from init_phy_ends [of "ctrl env" g2 ids s3] g assms(4) obtain r s4 where
    "init_phy (ctrl env) g2 s3 = Inr (r, s4)" by (auto elim: endsE)
  then show ?thesis
    using init_rings_ends [of env g2 ids ad n e p q cmd s4] assms(3-7) g eq by (auto simp: ends_def)
qed

text \<open>An allocator with 64 blocks, each with 64 KiB of addresses to itself.\<close>

definition pool_slots :: "u64 list" where
  "pool_slots = map (\<lambda>i. word_of_nat (65536 * Suc i)) [0..<64]"

definition pool_malloc :: "u32 \<Rightarrow> blocks \<Rightarrow> u64 \<times> u8 list" where
  "pool_malloc len h = (case find (\<lambda>a. h a = None) pool_slots of
     None \<Rightarrow> (0, []) | Some a \<Rightarrow> (a, replicate (unat len) 0))"

lemma pool_slots_distinct: "distinct pool_slots" "0 \<notin> set pool_slots"
proof -
  have u: "unat (word_of_nat (65536 * Suc i) :: u64) = 65536 * Suc i" if "i < 64" for i
    using that by (simp only: unat_of_nat) (simp add: take_bit_nat_eq_self)
  then have "inj_on (\<lambda>i. word_of_nat (65536 * Suc i) :: u64) {0..<64}"
    by (intro inj_onI) (metis atLeastLessThan_iff mult_cancel_left numeral_eq_Suc nat.inject old.nat.distinct(2))
  then show "distinct pool_slots" by (simp add: pool_slots_def distinct_map)
  have "(0 :: u64) \<noteq> word_of_nat (65536 * Suc i)" if "i < 64" for i
    using u [OF that] by (metis unsigned_0 mult_eq_0_iff nat.distinct(2) zero_neq_numeral)
  then show "0 \<notin> set pool_slots" by (auto simp: pool_slots_def)
qed

lemma pool_supplies: "supplies pool_malloc 64"
  unfolding supplies_def
proof (intro allI impI)
  fix len and h :: blocks
  assume c: "card (dom h) < 64"
  have "card (set pool_slots) = 64" using distinct_card [OF pool_slots_distinct(1)] by (simp add: pool_slots_def)
  then have "\<not> set pool_slots \<subseteq> dom h" using c card_mono [of "dom h" "set pool_slots"] by auto
  then obtain b where "b \<in> set pool_slots" "h b = None" by blast
  then obtain a where f: "find (\<lambda>a. h a = None) pool_slots = Some a"
    by (cases "find (\<lambda>a. h a = None) pool_slots") (auto simp: find_None_iff)
  then have "h a = None" "a \<in> set pool_slots" by (auto simp: find_Some_iff)
  then show "\<exists>a block. pool_malloc len h = (a, block) \<and> a \<noteq> 0 \<and> h a = None \<and> length block = unat len"
    using pool_slots_distinct(2) by (auto simp: pool_malloc_def f)
qed

lemma gmii_support_ends:
  assumes "mdio_answers hw (MacBase g) ids" and "phy_id mi < 32"
  shows "ends (\<lambda>_. True) (mii_check_gmii_support (mdio_read hw g) mi s)"
proof -
  have live: "phy_live hw (\<lambda>_ _. 0) g"
    using assms(1) unfolding phy_live_def mdio_answers_def by (metis (no_types))
  have r: "ends (\<lambda>_. True) (mdio_read hw g (phy_id mi) r s)" if "r < 32" for r s
    using mdio_read_quiet [OF live assms(2) that, of s] by (auto simp: quiet_def)
  show ?thesis
    unfolding mii_check_gmii_support_def
    by (rule ends_bind [OF r]) (auto simp: MII_BMSR_def MII_ESTATUS_def intro!: ends_bind [OF r])
qed

lemma registration_ends:
  assumes "mdio_answers (ctrl env) gmac_base ids" and "gmac_base = 0x9000000000000000 OR ucast (bar AND 0xffffff00)"
    and "supplies (rt_malloc env) n" and "card (dom (heap e)) + 2 \<le> n"
  shows "ends (\<lambda>(a, e1). a = gmac_base \<and> sem_lock e1 = 1 \<and> card (dom (heap e1)) \<le> card (dom (heap e)) + 2
      \<and> (\<exists>ad g. priv e1 = Some ad \<and> synopGMACdev ad = Some g \<and> phy_id (mii ad) < 32))
    (rt_hw_eth_init env bar adapter_size device_size e)"
proof -
  let ?hw = "ctrl env"
  obtain a b1 where a: "rt_malloc env adapter_size (heap e) = (a, b1)" "a \<noteq> 0"
    by (rule suppliesE [OF assms(3), of "heap e" adapter_size]) (use assms(4) in auto)
  let ?h = "(heap e)(a \<mapsto> b1)"
  have "card (dom ?h) < n" using dom_upd_card [of "heap e" a b1] assms(4) by linarith
  then obtain d b2 where d: "rt_malloc env device_size ?h = (d, b2)" "d \<noteq> 0"
    by (rule suppliesE [OF assms(3)])
  have c: "card (dom (?h(d \<mapsto> b2))) \<le> card (dom (heap e)) + 2"
    using dom_upd_card [of ?h d b2] dom_upd_card [of "heap e" a b1] by linarith
  obtain j s1 where at: "synopGMAC_attach ?hw gmac_base (gmac_base + DMABASE) GMAC_PHY_BASE
      DEFAULT_MAC_ADDRESS (hw_state e) = Inr (zero_device\<lparr>MacBase := gmac_base,
        DmaBase := gmac_base + DMABASE, PhyBase := scast (j :: u32)\<rparr>, s1)" "j < 32"
    using attach_ends [OF assms(1) default_phy, of "gmac_base + DMABASE" "hw_state e"]
    by (auto elim: endsE)
  define g where "g = zero_device\<lparr>MacBase := gmac_base, DmaBase := gmac_base + DMABASE, PhyBase := scast j\<rparr>"
  have g: "mdio_answers ?hw (MacBase g) ids" "ucast (PhyBase g) < (32 :: u32)"
    using assms(1) at(2) by (simp_all add: g_def phy_number)
  obtain r s2 where i: "init_phy ?hw g s1 = Inr (r, s2)" using init_phy_ends [OF g, of s1] by (auto elim: endsE)
  let ?mi = "\<lparr>phy_id = ucast (PhyBase g), full_duplex = False, supports_gmii = False\<rparr> :: mii_if_info"
  have "phy_id ?mi < 32" using g(2) by simp
  from gmii_support_ends [OF g(1) this, of "synopGMAC_reset ?hw g s2"] obtain gm s3 where
    "mii_check_gmii_support (mdio_read ?hw g) ?mi (synopGMAC_reset ?hw g s2) = Inr (gm, s3)"
    by (auto elim: endsE)
  then show ?thesis
    using a d c at(1) i g(2) unfolding g_def
    by (simp add: rt_hw_eth_init_def Let_def MACBASE_def flip: assms(2))
qed

text \<open>C6. On a management bus that answers, with 40 blocks left in the heap and descriptor memory where
  the allocator says, registering the interface and initialising it succeeds. The semaphore is
  free; both rings have 36 descriptors and do not overlap; the transmit ring is empty and its next
  descriptor free; and every descriptor of the receive ring is owned by the DMA and holds a buffer
  of 2522 bytes of its own. This is the state the theorems on sending and receiving start from.\<close>

theorem eth_device_comes_up:
  assumes "gmac_base = 0x9000000000000000 OR ucast (bar AND 0xffffff00)"
    and "mdio_answers (ctrl env) gmac_base ids"
    and "supplies (rt_malloc env) n" and "card (dom (heap e)) + 40 \<le> n"
    and "\<And>e1. rt_hw_eth_init env bar adapter_size device_size e = Inr (gmac_base, e1)
           \<Longrightarrow> \<exists>p q. dma_memory env e1 p q"
  shows "\<exists>e1 e2 ad g. rt_hw_eth_init env bar adapter_size device_size e = Inr (gmac_base, e1)
    \<and> eth_init env gmac_base cmd e1 = Inr (0, e2) \<and> brought_up env e1 e2 ad g \<and> sem_lock e2 = 1"
proof -
  have "card (dom (heap e)) + 2 \<le> n" using assms(4) by simp
  from registration_ends [OF assms(2,1,3) this, where adapter_size = adapter_size and
      device_size = device_size] obtain e1 ad g where
    r: "rt_hw_eth_init env bar adapter_size device_size e = Inr (gmac_base, e1)" "sem_lock e1 = 1"
    "card (dom (heap e1)) \<le> card (dom (heap e)) + 2" "priv e1 = Some ad" "synopGMACdev ad = Some g"
    "phy_id (mii ad) < 32" by (auto elim: endsE)
  then have "card (dom (heap e1)) + 38 \<le> n" using assms(4) by linarith
  moreover obtain p q where "dma_memory env e1 p q" using assms(5) [OF r(1)] by blast
  ultimately obtain e2 ad' g' where "eth_init env gmac_base cmd e1 = Inr (0, e2)" "brought_up env e1 e2 ad' g'"
    using eth_init_brings_up [OF r(4-6) assms(2,3)] by blast
  with r(1,2) show ?thesis
    by (intro exI [of _ e1] exI [of _ e2] exI [of _ ad'] exI [of _ g']) (simp add: brought_up_def)
qed

definition pool_env :: "u32 eth_env" where
  "pool_env = \<lparr>ctrl = mdio_sim 0x9000000040040000 gigabit_ids, rt_malloc = pool_malloc,
     pbuf_alloc = (\<lambda>n. Some (unat n)), KSEG0BASE = 0x9000000000000000\<rparr>"

definition dormant_eth :: "u32 eth" where
  "dormant_eth = \<lparr>sem_lock = 0, priv = None, dev_addr = [], GMAC_Power_down = 0, ready_calls = 0,
     descs = (\<lambda>_. Some blank_desc), heap = Map.empty, hw_state = 0\<rparr>"

lemma desc_at_unat:
  assumes "unat p + 32 * i < 2 ^ 64"
  shows "unat (desc_at p i) = unat p + 32 * i"
proof -
  have "desc_at p i = word_of_nat (unat p + 32 * i)" by (simp add: desc_at_def)
  then show ?thesis using assms by (simp only: unat_of_nat) (simp add: take_bit_nat_eq_self)
qed

lemma pool_slots_4:
  "pool_slots = 0x10000 # 0x20000 # 0x30000 # 0x40000 # map (\<lambda>i. word_of_nat (65536 * Suc i)) [4..<64]"
proof -
  have "[0..<64] = 0 # 1 # 2 # 3 # [4..<64]" by code_simp
  then show ?thesis by (simp only: pool_slots_def list.map) simp
qed

lemma pool_registered:
  assumes "rt_hw_eth_init pool_env bar n1 n2 dormant_eth = Inr (b, e1)"
  shows "heap e1 = [0x10000 \<mapsto> replicate (unat n1) 0, 0x20000 \<mapsto> replicate (unat n2) 0]"
    and "descs e1 = (\<lambda>_. Some blank_desc)"
  using assms
  by (auto simp: rt_hw_eth_init_def rbind_Inr_iff Let_def pool_env_def pool_malloc_def pool_slots_4
      dormant_eth_def)

lemma pool_dma_memory:
  assumes "heap e = [0x10000 \<mapsto> b1, 0x20000 \<mapsto> b2]" and "descs e = (\<lambda>_. Some blank_desc)"
  shows "dma_memory pool_env e 0x30000 0x40000"
proof -
  have a: "desc_alloc pool_env TRANSMIT_DESC_SIZE (heap e)
      = (Some (0x30000, 0x30000), (heap e)(0x30000 \<mapsto> replicate 1168 0))"
    by (simp add: assms(1) desc_alloc_def plat_alloc_consistent_dmaable_memory_def pool_env_def pool_malloc_def
        pool_slots_4 TRANSMIT_DESC_SIZE_def Let_def)
  have b: "desc_alloc pool_env RECEIVE_DESC_SIZE ((heap e)(0x30000 \<mapsto> replicate 1168 0))
      = (Some (0x40000, 0x40000), (heap e)(0x30000 \<mapsto> replicate 1168 0, 0x40000 \<mapsto> replicate 1168 0))"
    by (simp add: assms(1) desc_alloc_def plat_alloc_consistent_dmaable_memory_def pool_env_def pool_malloc_def
        pool_slots_4 Let_def)
  have "desc_at 0x30000 i \<noteq> desc_at 0x40000 j" if "i < 36" "j < 36" for i j
  proof -
    have "unat (desc_at 0x30000 i) < unat (desc_at 0x40000 j)"
      using that by (simp add: desc_at_unat)
    then show ?thesis by auto
  qed
  then have "desc_at 0x30000 ` {..<36} \<inter> desc_at 0x40000 ` {..<36} = {}" by auto
  with a b show ?thesis by (simp add: dma_memory_def assms(2) allocated_def)
qed

theorem eth_device_comes_up_witness:
  "\<forall>cmd. \<exists>e1 e2 ad g. rt_hw_eth_init pool_env 0x40040000 64 200 dormant_eth = Inr (0x9000000040040000, e1)
    \<and> eth_init pool_env 0x9000000040040000 cmd e1 = Inr (0, e2) \<and> brought_up pool_env e1 e2 ad g
    \<and> sem_lock e2 = 1"
proof
  fix cmd
  have "\<exists>p q. dma_memory pool_env e1 p q"
    if "rt_hw_eth_init pool_env 0x40040000 64 200 dormant_eth = Inr (0x9000000040040000, e1)" for e1
    using pool_dma_memory [OF pool_registered [OF that]] by blast
  then show "\<exists>e1 e2 ad g. rt_hw_eth_init pool_env 0x40040000 64 200 dormant_eth = Inr (0x9000000040040000, e1)
    \<and> eth_init pool_env 0x9000000040040000 cmd e1 = Inr (0, e2) \<and> brought_up pool_env e1 e2 ad g
    \<and> sem_lock e2 = 1"
    by (intro eth_device_comes_up [where n = 64 and ids = gigabit_ids])
      (simp_all add: dormant_eth_def pool_env_def mdio_sim_answers pool_supplies)
qed

section \<open>Interrupts\<close>

text \<open>Descriptors changed in a way that does not matter to a ring.\<close>

context ring_kind begin

lemma map_ok:
  assumes "ok m r" and "\<And>d. final (f d) = final d" and "\<And>d. chained (f d) = chained d"
    and "\<And>d. data2 (f d) = data2 d" and "\<And>d. desc_length (f d) = desc_length d"
  shows "ok (\<lambda>a. if a \<in> A then map_option f (m a) else m a) r"
proof -
  let ?m = "\<lambda>a. if a \<in> A then map_option f (m a) else m a"
  have k: "ring_shape r" "descs_ok m r" "fill_ok m r" using assms(1) by (simp_all add: ok_def)
  have d: "desc_of ?m r i = (if desc_at (base r) i \<in> A then f (desc_of m r i) else desc_of m r i)"
    if "i < count r" for i
    using k(2) that by (auto simp: desc_of_def descs_ok_def)
  have "descs_ok ?m r" using k(2) by (auto simp: descs_ok_def d assms(2-4))
  moreover have "fill_ok ?m r"
    using k(1,3) by (auto simp: fill_ok_def d assms(5) synopGMAC_is_desc_empty_def ring_shape_def)
  ultimately show ?thesis using k(1) by (simp add: ok_def)
qed

end

definition taken_back :: "u64 set \<Rightarrow> desc_mem \<Rightarrow> desc_mem" where
  "taken_back A m = (\<lambda>a. if a \<in> A then map_option synopGMAC_take_desc_ownership (m a) else m a)"

lemma take_marks:
  "tx_final (synopGMAC_take_desc_ownership d) = tx_final d"
  "synopGMAC_is_tx_desc_chained (synopGMAC_take_desc_ownership d) = synopGMAC_is_tx_desc_chained d"
  "rx_final (synopGMAC_take_desc_ownership d) = rx_final d"
  "synopGMAC_is_rx_desc_chained (synopGMAC_take_desc_ownership d) = synopGMAC_is_rx_desc_chained d"
  "data2 (synopGMAC_take_desc_ownership d) = data2 d"
  "desc_length (synopGMAC_take_desc_ownership d) = desc_length d"
  by (simp_all add: synopGMAC_take_desc_ownership_def tx_final_def rx_final_def and.assoc
      synopGMAC_is_tx_desc_chained_def synopGMAC_is_rx_desc_chained_def desc_bits)

lemma taken_back_ok:
  assumes "tx.ok m r"
  shows "tx.ok (taken_back A m) r"
  unfolding taken_back_def by (rule tx.map_ok [OF assms]) (simp_all add: take_marks)

lemma taken_back_rx_ok:
  assumes "rx.ok m r"
  shows "rx.ok (taken_back A m) r"
  unfolding taken_back_def by (rule rx.map_ok [OF assms]) (simp_all add: take_marks)

lemma take_loop_ring:
  assumes "m p \<noteq> None" and "\<not> chained (the (m p))" and "\<forall>i\<in>set is. m (desc_at p i) \<noteq> None"
    and "\<And>d. chained (synopGMAC_take_desc_ownership d) = chained d" and "distinct (map (desc_at p) is)"
  shows "take_loop chained is p m = Inr (taken_back (desc_at p ` set is) m)"
  using assms(1-3,5)
proof (induction "is" arbitrary: m)
  case Nil
  then show ?case by (simp add: taken_back_def)
next
  case (Cons i "is")
  obtain d x where d: "m p = Some d" "\<not> chained d" "m (desc_at p i) = Some x"
    using Cons.prems by auto
  let ?m = "m(desc_at p i \<mapsto> synopGMAC_take_desc_ownership x)"
  have "take_loop chained (i # is) p m = take_loop chained is p ?m"
    using d by (simp add: ld_def st_def)
  also have "\<dots> = Inr (taken_back (desc_at p ` set is) ?m)"
    using Cons.prems d assms(4) by (intro Cons.IH) auto
  also have "taken_back (desc_at p ` set is) ?m = taken_back (desc_at p ` set (i # is)) m"
    using Cons.prems(4) d by (auto simp: taken_back_def fun_eq_iff)
  finally show ?case .
qed

lemma desc_at_distinct: "n < 2 ^ 31 \<Longrightarrow> distinct (map (desc_at p) [0..<n])"
  by (auto simp: distinct_map intro!: inj_onI dest: desc_at_inj)

lemma take_tx_unchained:
  assumes "0 < unat (TxDescCount g)" and "unat (TxDescCount g) < 2 ^ 31"
    and "\<forall>i<unat (TxDescCount g). m (desc_at (TxDesc g) i) \<noteq> None
       \<and> \<not> synopGMAC_is_tx_desc_chained (the (m (desc_at (TxDesc g) i)))"
  shows "synopGMAC_take_desc_ownership_tx g m = Inr (taken_back (ring_addrs (tx_ring g)) m)"
proof -
  have "m (TxDesc g) \<noteq> None" "\<not> synopGMAC_is_tx_desc_chained (the (m (TxDesc g)))"
    using assms(3) [rule_format, OF assms(1)] by simp_all
  then show ?thesis
    using take_loop_ring [of m "TxDesc g" synopGMAC_is_tx_desc_chained "[0..<unat (TxDescCount g)]"] assms
    by (simp add: synopGMAC_take_desc_ownership_tx_def take_marks desc_at_distinct ring_addrs_def
        atLeast0LessThan)
qed

lemma take_tx:
  assumes "tx.ok m (tx_ring g)"
  shows "synopGMAC_take_desc_ownership_tx g m = Inr (taken_back (ring_addrs (tx_ring g)) m)"
  using assms
  by (intro take_tx_unchained) (auto simp: tx.ok_def ring_shape_def tx.descs_ok_def desc_of_def)

lemma take_rx:
  assumes "rx.ok m (rx_ring g)"
  shows "synopGMAC_take_desc_ownership_rx g m = Inr (taken_back (ring_addrs (rx_ring g)) m)"
proof -
  have r: "0 < unat (RxDescCount g)" "unat (RxDescCount g) < 2 ^ 31"
    "\<forall>i<unat (RxDescCount g). m (desc_at (RxDesc g) i) \<noteq> None
       \<and> \<not> synopGMAC_is_rx_desc_chained (the (m (desc_at (RxDesc g) i)))"
    using assms by (auto simp: rx.ok_def ring_shape_def rx.descs_ok_def desc_of_def)
  have "m (RxDesc g) \<noteq> None" "\<not> synopGMAC_is_rx_desc_chained (the (m (RxDesc g)))"
    using r(3) [rule_format, OF r(1)] by simp_all
  then show ?thesis
    using take_loop_ring [of m "RxDesc g" synopGMAC_is_rx_desc_chained "[0..<unat (RxDescCount g)]"] r
    by (simp add: synopGMAC_take_desc_ownership_rx_def take_marks desc_at_distinct ring_addrs_def
        atLeast0LessThan)
qed

lemma taken_back_apart:
  "a \<notin> A \<Longrightarrow> taken_back A m a = m a"
  by (simp add: taken_back_def)

lemma taken_back_queue:
  assumes "tx.ok m (tx_ring g)"
  shows "queue (taken_back (ring_addrs (tx_ring g)) m) (tx_ring g)
    = map synopGMAC_take_desc_ownership (queue m (tx_ring g))"
proof -
  have "desc_of (taken_back (ring_addrs (tx_ring g)) m) (tx_ring g) i
      = synopGMAC_take_desc_ownership (desc_of m (tx_ring g) i)" if "i < unat (TxDescCount g)" for i
    using assms that by (auto simp: desc_of_def taken_back_def ring_addrs_def tx.ok_def tx.descs_ok_def)
  moreover have "slot (tx_ring g) j < unat (TxDescCount g)" for j
    using assms slot_less [of "tx_ring g"] by (simp add: tx.ok_def ring_shape_def)
  ultimately show ?thesis by (simp add: queue_def)
qed

lemma irq_serve_ends:
  assumes "synopGMAC_take_desc_ownership_tx g (descs e) = Inr m"
  shows "ends (\<lambda>e'. \<exists>ad'. priv e' = Some ad' \<and> synopGMACdev ad' = Some g \<and> sem_lock e' = sem_lock e
      \<and> heap e' = heap e
      \<and> ready_calls e' = ready_calls e + of_bool (interrupt AND synopGMACDmaRxNormal \<noteq> 0)
      \<and> descs e' = (if interrupt AND synopGMACDmaTxStopped \<noteq> 0 \<and> GMAC_Power_down e = 0
                    then m else descs e)
      \<and> synopGMACNetStats ad' = count_overrun (interrupt AND synopGMACDmaRxAbnormal \<noteq> 0
          \<and> GMAC_Power_down e = 0) (synopGMACNetStats ad)) (irq_serve hw interrupt ad g e)"
  using assms
  by (cases "interrupt AND synopGMACDmaRxNormal = 0"; cases "interrupt AND synopGMACDmaRxAbnormal = 0";
      cases "interrupt AND synopGMACDmaTxStopped = 0"; cases "GMAC_Power_down e = 0")
    (simp_all add: irq_serve_def irq_tx_stopped_def on_hw_def)

text \<open>C10. Without a fatal bus error, the handler returns with the device as usable as before: the
  semaphore, the receive ring and the buffers are as they were, both rings are well formed, and
  lwIP is told of received frames exactly if the status says so. Only when the transmitter has
  stopped are the descriptors of the transmit ring taken back, all of them, whether they had been
  sent or not.\<close>

theorem irq_keeps_device_up:
  assumes "eth_up e ad g" and "irq_cause (ctrl env) g (hw_state e) = (Some interrupt, s)"
    and "interrupt AND synopGMACDmaError = 0"
  shows "\<exists>e' ad'. eth_rx_irq env e = Inr e' \<and> eth_up e' ad' g \<and> sem_lock e' = sem_lock e
    \<and> heap e' = heap e \<and> queue (descs e') (rx_ring g) = queue (descs e) (rx_ring g)
    \<and> ready_calls e' = ready_calls e + of_bool (interrupt AND synopGMACDmaRxNormal \<noteq> 0)
    \<and> queue (descs e') (tx_ring g)
        = (if interrupt AND synopGMACDmaTxStopped \<noteq> 0 \<and> GMAC_Power_down e = 0
           then map synopGMAC_take_desc_ownership (queue (descs e) (tx_ring g))
           else queue (descs e) (tx_ring g))
    \<and> synopGMACNetStats ad' = count_overrun (interrupt AND synopGMACDmaRxAbnormal \<noteq> 0
        \<and> GMAC_Power_down e = 0) (synopGMACNetStats ad)"
proof -
  have up: "priv e = Some ad" "synopGMACdev ad = Some g" "tx.ok (descs e) (tx_ring g)"
    "rx.ok (descs e) (rx_ring g)" "ring_addrs (tx_ring g) \<inter> ring_addrs (rx_ring g) = {}"
    using assms(1) by (simp_all add: eth_up_def)
  let ?m = "taken_back (ring_addrs (tx_ring g)) (descs e)"
  have m: "tx.ok ?m (tx_ring g)" "queue ?m (tx_ring g) = map synopGMAC_take_desc_ownership (queue (descs e) (tx_ring g))"
    by (rule taken_back_ok [OF up(3)], rule taken_back_queue [OF up(3)])
  have same: "?m a = descs e a" if "a \<in> ring_addrs (rx_ring g)" for a
    using up(5) that by (intro taken_back_apart) blast
  have r: "rx.ok ?m (rx_ring g)" "queue ?m (rx_ring g) = queue (descs e) (rx_ring g)"
    by (rule rx_local [OF up(4) same], assumption)+
  have eq: "eth_rx_irq env e = irq_serve (ctrl env) interrupt ad g (e\<lparr>hw_state := s\<rparr>)"
    using up(1,2) assms(2,3) by (simp add: eth_rx_irq_def)
  from irq_serve_ends [of g "e\<lparr>hw_state := s\<rparr>" ?m interrupt ad "ctrl env"] up(3) obtain e' ad' where
    i: "eth_rx_irq env e = Inr e'" "priv e' = Some ad'" "synopGMACdev ad' = Some g" "sem_lock e' = sem_lock e"
    "heap e' = heap e" "ready_calls e' = ready_calls e + of_bool (interrupt AND synopGMACDmaRxNormal \<noteq> 0)"
    "descs e' = (if interrupt AND synopGMACDmaTxStopped \<noteq> 0 \<and> GMAC_Power_down e = 0 then ?m else descs e)"
    "synopGMACNetStats ad' = count_overrun (interrupt AND synopGMACDmaRxAbnormal \<noteq> 0
        \<and> GMAC_Power_down e = 0) (synopGMACNetStats ad)"
    by (auto simp: eq take_tx elim!: endsE)
  then show ?thesis
    using up m r by (intro exI [of _ e'] exI [of _ ad']) (simp add: eth_up_def)
qed

text \<open>The recovery leaves a receive ring without buffers.\<close>

definition rx_bare :: "synopGMACdevice \<Rightarrow> desc_mem \<Rightarrow> bool" where
  "rx_bare g m \<longleftrightarrow> unat (RxBusy g) < unat (RxDescCount g)
     \<and> (\<forall>a\<in>ring_addrs (rx_ring g). \<exists>d. m a = Some d \<and> synopGMAC_is_desc_empty d \<and> data1 d = 0)
     \<and> RxBusyDesc g \<in> ring_addrs (rx_ring g)"

lemma rx_bare_nothing:
  assumes "rx_bare g m" and "\<forall>a d. m a = Some d \<longrightarrow> (\<exists>v. m' a = Some (d\<lparr>status := v\<rparr>))"
  shows "synopGMAC_get_rx_qptr w g m' = Inr (-1, w, g, m')"
proof -
  obtain d where d: "m (RxBusyDesc g) = Some d" "synopGMAC_is_desc_empty d"
    using assms(1) unfolding rx_bare_def by blast
  with assms(2) obtain v where "m' (RxBusyDesc g) = Some (d\<lparr>status := v\<rparr>)" by blast
  moreover have "synopGMAC_is_desc_empty (d\<lparr>status := v\<rparr>)"
    using d(2) by (simp add: synopGMAC_is_desc_empty_def)
  ultimately show ?thesis unfolding synopGMAC_get_rx_qptr_def Let_def ld_def by simp
qed

lemma recover_ends:
  assumes "tx.ok (descs e) (tx_ring g)" and "rx.ok (descs e) (rx_ring g)"
    and "ring_addrs (tx_ring g) \<inter> ring_addrs (rx_ring g) = {}" and "6 \<le> length (dev_addr e)"
  shows "ends (\<lambda>(g', e'). e' = e\<lparr>descs := descs e', hw_state := hw_state e'\<rparr> \<and> rx_bare g' (descs e')
      \<and> synopGMAC_take_desc_ownership_tx g' (descs e')
          = Inr (taken_back (ring_addrs (tx_ring g)) (descs e'))
      \<and> rx_ring g' = (rx_ring g)\<lparr>next_i := 0, busy_i := 0\<rparr>)
    (irq_recover hw g e)"
proof -
  let ?m1 = "taken_back (ring_addrs (tx_ring g)) (descs e)"
  let ?m2 = "taken_back (ring_addrs (rx_ring g)) ?m1"
  let ?g = "g\<lparr>TxNext := 0, TxBusy := 0, RxNext := 0, RxBusy := 0\<rparr>"
  have ok: "rx.ok ?m1 (rx_ring g)" "tx.ok ?m2 (tx_ring g)" "rx.ok ?m2 (rx_ring g)" "rings_apart g"
    using assms(1-3) by (auto simp: taken_back_ok taken_back_rx_ok rings_apart_def ring_addrs_def)
  obtain m3 where m3: "synopGMAC_init_tx_rx_desc_queue g ?m2 = Inr (0, ?g, m3)"
    "\<forall>i<unat (TxDescCount g). \<exists>d. m3 (desc_at (TxDesc g) i)
        = Some (synopGMAC_tx_desc_init_ring (i = unat (TxDescCount g) - 1) d)"
    "\<forall>i<unat (RxDescCount g). \<exists>d. m3 (desc_at (RxDesc g) i)
        = Some (synopGMAC_rx_desc_init_ring (i = unat (RxDescCount g) - 1) d)"
    using reset_queues [OF ok(2-4)] by blast
  have n: "0 < unat (RxDescCount g)" "RxBusyDesc g \<in> ring_addrs (rx_ring g)"
    "0 < unat (TxDescCount g)" "unat (TxDescCount g) < 2 ^ 31"
    using assms(1,2) by (auto simp: rx.ok_def tx.ok_def ring_shape_def ring_addrs_def)
  have "rx_bare ?g m3"
    using m3(3) n rx.empty_clear
    by (fastforce simp: rx_bare_def ring_addrs_def synopGMAC_rx_desc_init_ring_def)
  moreover have "synopGMAC_take_desc_ownership_tx ?g m3 = Inr (taken_back (ring_addrs (tx_ring g)) m3)"
    using take_tx_unchained [of ?g m3] m3(2) n(3,4) tx.chained_clear by (fastforce simp: ring_addrs_def)
  moreover have mac: "ends (\<lambda>_. True)
      (synopGMAC_set_mac_addr hw ?g GmacAddr0High GmacAddr0Low (take 6 (dev_addr e)) s)" for s
    using assms(4) by (simp add: synopGMAC_set_mac_addr_def rd_def Let_def)
  moreover have "rx_ring ?g = (rx_ring g)\<lparr>next_i := 0, busy_i := 0\<rparr>" by (simp add: rx_ring_def)
  ultimately show ?thesis
    using m3(1) take_tx [OF assms(1)] take_rx [OF ok(1)]
    by (auto simp: irq_recover_def Let_def on_hw_def intro!: ends_bind [OF mac])
qed

lemma rx_nothing_left:
  assumes "priv e = Some ad" and "synopGMACdev ad = Some g" and "0 < sem_lock e" and "rx_bare g m"
    and "\<forall>a d. m a = Some d \<longrightarrow> (\<exists>v. descs e a = Some (d\<lparr>status := v\<rparr>))"
  shows "rt_eth_rx env e = Inr (None, e)"
proof -
  have "synopGMAC_get_rx_qptr rx_outputs g (descs e) = Inr (-1, rx_outputs, g, descs e)"
    by (rule rx_bare_nothing [OF assms(4,5)])
  moreover have "ad\<lparr>synopGMACdev := Some g, synopGMACNetStats := synopGMACNetStats ad\<rparr> = ad"
    using assms(2) by simp
  ultimately show ?thesis
    using assms(1-3) by (simp add: rt_eth_rx_def rt_sem_take_def rt_sem_release_def)
qed

text \<open>C32. After a fatal bus error nothing is ever received again: the handler returns, but no
  descriptor of the receive ring holds a buffer any more, although the buffers stay allocated, and
  whatever statuses the DMA stores from then on, a reception delivers nothing and leaves the device
  as it is.\<close>

theorem irq_bus_error_ends_reception:
  assumes "eth_up e ad g" and "irq_cause (ctrl env) g (hw_state e) = (Some interrupt, s)"
    and "interrupt AND synopGMACDmaError \<noteq> 0" and "6 \<le> length (dev_addr e)" and "0 < sem_lock e"
  shows "\<exists>e'. eth_rx_irq env e = Inr e' \<and> heap e' = heap e \<and> sem_lock e' = sem_lock e
    \<and> (\<forall>a\<in>ring_addrs (rx_ring g). \<exists>d. descs e' a = Some d \<and> data1 d = 0)
    \<and> (\<forall>env' m. (\<forall>a d. descs e' a = Some d \<longrightarrow> (\<exists>v. m a = Some (d\<lparr>status := v\<rparr>)))
        \<longrightarrow> rt_eth_rx env' (e'\<lparr>descs := m\<rparr>) = Inr (None, e'\<lparr>descs := m\<rparr>))"
proof -
  have up: "priv e = Some ad" "synopGMACdev ad = Some g" "tx.ok (descs e) (tx_ring g)"
    "rx.ok (descs e) (rx_ring g)" "ring_addrs (tx_ring g) \<inter> ring_addrs (rx_ring g) = {}"
    using assms(1) by (simp_all add: eth_up_def)
  let ?e = "e\<lparr>hw_state := s\<rparr>"
  obtain g1 e1 where r: "irq_recover (ctrl env) g ?e = Inr (g1, e1)"
    "e1 = ?e\<lparr>descs := descs e1, hw_state := hw_state e1\<rparr>" "rx_bare g1 (descs e1)"
    "synopGMAC_take_desc_ownership_tx g1 (descs e1) = Inr (taken_back (ring_addrs (tx_ring g)) (descs e1))"
    "rx_ring g1 = (rx_ring g)\<lparr>next_i := 0, busy_i := 0\<rparr>"
    using recover_ends [of ?e g "ctrl env"] up(3-5) assms(4) by (auto elim: endsE)
  have a: "ring_addrs (rx_ring g1) = ring_addrs (rx_ring g)" by (simp add: ring_addrs_def r(5))
  let ?m = "taken_back (ring_addrs (tx_ring g)) (descs e1)"
  have "\<forall>a\<in>ring_addrs (rx_ring g). ?m a = descs e1 a"
    using up(5) by (auto intro!: taken_back_apart)
  with r(3) have bare: "rx_bare g1 ?m" unfolding rx_bare_def a by simp
  have f: "heap e1 = heap e" "sem_lock e1 = sem_lock e"
    by (subst r(2), simp)+
  obtain e2 ad2 where e2: "eth_rx_irq env e = Inr e2" "priv e2 = Some ad2" "synopGMACdev ad2 = Some g1"
    "heap e2 = heap e" "sem_lock e2 = sem_lock e" "descs e2 = descs e1 \<or> descs e2 = ?m"
  proof -
    have "eth_rx_irq env e = irq_serve (ctrl env) interrupt ad g1 e1"
      using up(1,2) assms(2,3) r(1) by (simp add: eth_rx_irq_def)
    then show thesis
      using irq_serve_ends [OF r(4), of interrupt ad "ctrl env"] f that
      by (auto elim!: endsE split: if_splits)
  qed
  have b: "rx_bare g1 (descs e2)" using e2(6) r(3) bare by auto
  moreover have "rt_eth_rx env' (e2\<lparr>descs := m\<rparr>) = Inr (None, e2\<lparr>descs := m\<rparr>)"
    if "\<forall>a d. descs e2 a = Some d \<longrightarrow> (\<exists>v. m a = Some (d\<lparr>status := v\<rparr>))" for env' m
    by (rule rx_nothing_left [of _ ad2 g1, OF _ _ _ b]) (use e2 assms(5) that in simp_all)
  ultimately show ?thesis
    using e2(1,4,5) unfolding rx_bare_def a by blast
qed

lemmas dma_ints = DmaIntErrorMask_def DmaIntBusError_def DmaIntRxNormMask_def DmaIntRxCompleted_def
  DmaIntRxAbnMask_def DmaIntRxNoBuffer_def DmaIntRxStoppedMask_def DmaIntRxStopped_def
  DmaIntTxNormMask_def DmaIntTxCompleted_def DmaIntTxAbnMask_def DmaIntTxUnderflow_def
  DmaIntTxStoppedMask_def DmaIntTxStopped_def synopGMACDmaError_def synopGMACDmaRxNormal_def
  synopGMACDmaRxAbnormal_def synopGMACDmaRxStopped_def synopGMACDmaTxNormal_def
  synopGMACDmaTxAbnormal_def synopGMACDmaTxStopped_def

lemma irq_sim_cause:
  assumes "v \<noteq> 0"
  shows "irq_cause reg_mem busy_dev (\<lambda>_. v)
    = (Some (interrupt_types v), snd (irq_cause reg_mem busy_dev (\<lambda>_. v)))"
  using assms
  by (simp add: irq_cause_def reg_mem_def synopGMACReadReg_def synopGMACWriteReg_def Let_def
      synopGMAC_disable_interrupt_all_def synopGMAC_get_interrupt_type_def busy_dev_def blank_dev_def
      DmaStatus_def DmaInterrupt_def)

lemma busy_idle_up:
  "eth_up (example_eth busy_dev (busy_mem 0 0x00400300))
     \<lparr>synopGMACdev = Some busy_dev, synopGMACNetStats = no_stats, mii = no_mii\<rparr> busy_dev"
  by (rule busy_up) simp

theorem irq_keeps_device_up_witness:
  "\<exists>e'. eth_rx_irq (example_env None) ((example_eth busy_dev (busy_mem 0 0x00400300))\<lparr>hw_state := \<lambda>_. 0x40\<rparr>)
      = Inr e' \<and> ready_calls e' = 1"
proof -
  let ?e = "(example_eth busy_dev (busy_mem 0 0x00400300))\<lparr>hw_state := \<lambda>_. 0x40\<rparr>"
  have up: "eth_up ?e \<lparr>synopGMACdev = Some busy_dev, synopGMACNetStats = no_stats, mii = no_mii\<rparr> busy_dev"
    using busy_idle_up by (simp add: eth_up_def)
  let ?c = "irq_cause reg_mem busy_dev (\<lambda>_. 0x40)"
  have "interrupt_types 0x40 = 1"
    by (simp add: interrupt_types_def dma_ints)
  then have "irq_cause (ctrl (example_env None)) busy_dev (hw_state ?e) = (Some 1, snd ?c)"
    using irq_sim_cause [of "0x40"] by (simp add: example_env_def)
  moreover have "1 AND synopGMACDmaError = 0" by (simp add: synopGMACDmaError_def)
  moreover have "1 AND synopGMACDmaRxNormal \<noteq> 0" by (simp add: synopGMACDmaRxNormal_def)
  moreover have "ready_calls ?e = 0" by (simp add: example_eth_def)
  ultimately show ?thesis
    using irq_keeps_device_up [OF up, of "example_env None" 1 "snd ?c"] by auto
qed

theorem irq_bus_error_ends_reception_witness:
  "\<exists>e'. eth_rx_irq (example_env None) ((example_eth busy_dev (busy_mem 0 0x00400300))
        \<lparr>hw_state := \<lambda>_. 0x2000, dev_addr := DEFAULT_MAC_ADDRESS\<rparr>) = Inr e'
    \<and> rt_eth_rx (example_env (Some 2000)) e' = Inr (None, e')"
proof -
  let ?e = "(example_eth busy_dev (busy_mem 0 0x00400300))
        \<lparr>hw_state := \<lambda>_. 0x2000, dev_addr := DEFAULT_MAC_ADDRESS\<rparr>"
  have up: "eth_up ?e \<lparr>synopGMACdev = Some busy_dev, synopGMACNetStats = no_stats, mii = no_mii\<rparr> busy_dev"
    using busy_idle_up by (simp add: eth_up_def)
  have i: "interrupt_types 0x2000 = 0x80"
    by (simp add: interrupt_types_def dma_ints)
  have "\<exists>e'. eth_rx_irq (example_env None) ?e = Inr e' \<and> heap e' = heap ?e \<and> sem_lock e' = sem_lock ?e
    \<and> (\<forall>a\<in>ring_addrs (rx_ring busy_dev). \<exists>d. descs e' a = Some d \<and> data1 d = 0)
    \<and> (\<forall>env' m. (\<forall>a d. descs e' a = Some d \<longrightarrow> (\<exists>v. m a = Some (d\<lparr>status := v\<rparr>)))
        \<longrightarrow> rt_eth_rx env' (e'\<lparr>descs := m\<rparr>) = Inr (None, e'\<lparr>descs := m\<rparr>))"
    using i irq_sim_cause [of "0x2000"]
    by (intro irq_bus_error_ends_reception [OF up, of "example_env None" "0x80" "snd (irq_cause reg_mem busy_dev (\<lambda>_. 0x2000))"])
      (simp_all add: example_env_def example_eth_def synopGMACDmaError_def DEFAULT_MAC_ADDRESS_def)
  then obtain e' where e': "eth_rx_irq (example_env None) ?e = Inr e'"
    "\<forall>env' m. (\<forall>a d. descs e' a = Some d \<longrightarrow> (\<exists>v. m a = Some (d\<lparr>status := v\<rparr>)))
        \<longrightarrow> rt_eth_rx env' (e'\<lparr>descs := m\<rparr>) = Inr (None, e'\<lparr>descs := m\<rparr>)" by blast
  have "\<exists>v. descs e' a = Some (d\<lparr>status := v\<rparr>)" if "descs e' a = Some d" for a d
    using that by (intro exI [of _ "status d"]) simp
  then have "rt_eth_rx (example_env (Some 2000)) (e'\<lparr>descs := descs e'\<rparr>) = Inr (None, e'\<lparr>descs := descs e'\<rparr>)"
    using e'(2) by blast
  then show ?thesis using e'(1) by simp
qed

end
