(* ===== verification/Spi.thy ===== *)
theory Spi
  imports Mmio
begin

unbundle bit_operations_syntax

text \<open>
  The SPI controller driver \<open>ls2kdev_record/drivers/drv_spi.c\<close>: initialisation, chip selects, the
  exchange of a byte, the transfer of a message for RT-Thread's SPI device, and the console
  commands. The controller, the pins and the clock are parameters; messages to the console
  are left out. What the controller does is a contract over two views of its state: the chip-select
  register, and the bytes that were sent, each with the slaves that were selected at that time.
\<close>

section \<open>The board\<close>

text \<open>
  The memory-mapped controller, RT-Thread's pin device with the number of a pin and a mode
  (\<open>PIN_MODE_OUTPUT\<close> is 0, \<open>PIN_MODE_INPUT\<close> is 1) or level, and \<open>rt_thread_mdelay\<close>.
\<close>

record 's board =
  spi_dev :: "'s mmio"
  rt_pin_mode :: "nat \<Rightarrow> nat \<Rightarrow> 's \<Rightarrow> 's"
  rt_pin_write :: "nat \<Rightarrow> nat \<Rightarrow> 's \<Rightarrow> 's"
  rt_pin_read :: "nat \<Rightarrow> 's \<Rightarrow> nat \<times> 's"
  rt_mdelay :: "nat \<Rightarrow> 's \<Rightarrow> 's"

definition SPI_BASE :: u64 where "SPI_BASE = 0x1fff0220"
definition SPCR :: u64 where "SPCR = 0x0"
definition SPSR :: u64 where "SPSR = 0x1"
definition TXFIFO :: u64 where "TXFIFO = 0x2"
definition RXFIFO :: u64 where "RXFIFO = 0x2"
definition SPER :: u64 where "SPER = 0x3"
definition PARAM :: u64 where "PARAM = 0x4"
definition SOFTCS :: u64 where "SOFTCS = 0x5"
definition PARAM2 :: u64 where "PARAM2 = 0x6"
definition RFEMPTY :: u8 where "RFEMPTY = 1"

lemmas spi_regs = SPCR_def SPSR_def TXFIFO_def RXFIFO_def SPER_def PARAM_def SOFTCS_def PARAM2_def

definition spi_addr :: "u64 \<Rightarrow> u64" where
  "spi_addr r = 0xffffffffa0000000 OR (SPI_BASE + r)"

definition SET_SPI :: "'s board \<Rightarrow> u64 \<Rightarrow> u8 \<Rightarrow> 's \<Rightarrow> 's" where
  "SET_SPI b r v s = write8 (spi_dev b) (spi_addr r) v s"

definition GET_SPI :: "'s board \<Rightarrow> u64 \<Rightarrow> 's \<Rightarrow> u8 \<times> 's" where
  "GET_SPI b r s = read8 (spi_dev b) (spi_addr r) s"

section \<open>The driver\<close>

definition spi_init :: "'s board \<Rightarrow> u8 \<Rightarrow> u8 \<Rightarrow> u8 \<Rightarrow> 's \<Rightarrow> 's" where
  "spi_init b spre_spr copl cpha s =
     (let s = SET_SPI b SPSR (0xc0 OR (spre_spr AND 0x03)) s;
          s = SET_SPI b PARAM 0x40 s;
          s = SET_SPI b PARAM2 0x01 s;
          s = SET_SPI b SPER (drop_bit 2 (spre_spr AND 0x0c)) s;
          s = SET_SPI b SPCR (0x50 OR push_bit 3 copl OR push_bit 2 cpha) s
      in SET_SPI b SOFTCS 0xff s)"

definition spi_set_csn :: "'s board \<Rightarrow> u8 \<Rightarrow> 's \<Rightarrow> 's" where
  "spi_set_csn b v s = SET_SPI b SOFTCS v s"

text \<open>The bits of a chip select, its enable in the low half and its level in the high half.\<close>

definition cs_bits :: "nat \<Rightarrow> nat \<Rightarrow> u8 \<Rightarrow> u8" where
  "cs_bits n new_status v =
     (let v = v OR push_bit n 0x01 in
      if new_status \<noteq> 0 then v OR push_bit n 0x10 else v AND NOT (push_bit n 0x10))"

text \<open>Numbers from 4 on are pins of the pin device.\<close>

definition spi_set_cs :: "'s board \<Rightarrow> u8 \<Rightarrow> nat \<Rightarrow> 's \<Rightarrow> 's" where
  "spi_set_cs b cs new_status s =
     (if cs < 4 then
        case GET_SPI b SOFTCS s of (v, s) \<Rightarrow> SET_SPI b SOFTCS (cs_bits (unat cs) new_status v) s
      else rt_pin_write b (unat cs) new_status (rt_pin_mode b (unat cs) 0 s))"

definition spi_write_for_response :: "'s board \<Rightarrow> u8 \<Rightarrow> 's \<Rightarrow> (u8 \<times> 's) res" where
  "spi_write_for_response b data s =
     rbind (returning (poll (spi_dev b) (spi_addr SPSR) RFEMPTY (SET_SPI b TXFIFO data s))) (\<lambda>s.
     Inr (GET_SPI b RXFIFO s))"

text \<open>RT-Thread's SPI bus: \<open>configure\<close> with the two mode bits of its header, \<open>xfer\<close> of a message.\<close>

definition configure :: "u8 \<Rightarrow> u8 \<Rightarrow> 's board \<Rightarrow> u8 \<Rightarrow> 's \<Rightarrow> int \<times> 's" where
  "configure RT_SPI_CPOL RT_SPI_CPHA b mode s =
     (0, spi_init b 0b1011 (if mode AND RT_SPI_CPOL \<noteq> 0 then 1 else 0)
           (if mode AND RT_SPI_CPHA \<noteq> 0 then 1 else 0) s)"

record spi_message =
  send_buf :: "u8 list option"
  recv_buf :: "u8 list option"
  msg_length :: u32
  cs_take :: bool
  cs_release :: bool

fun xfer_loop :: "'s board \<Rightarrow> u8 list option \<Rightarrow> u8 list option \<Rightarrow> nat list \<Rightarrow> 's \<Rightarrow> (u8 list option \<times> 's) res" where
  "xfer_loop b snd_buf rcv [] s = Inr (rcv, s)"
| "xfer_loop b snd_buf rcv (i # is) s =
     rbind (case snd_buf of None \<Rightarrow> Inr 0xFF | Some buf \<Rightarrow> rd buf i) (\<lambda>data.
     rbind (spi_write_for_response b data s) (\<lambda>(r, s).
     rbind (case rcv of None \<Rightarrow> Inr None | Some buf \<Rightarrow> rbind (wr buf i r) (\<lambda>buf. Inr (Some buf))) (\<lambda>rcv.
     xfer_loop b snd_buf rcv is s)))"

definition xfer :: "'s board \<Rightarrow> u8 \<Rightarrow> spi_message \<Rightarrow> 's \<Rightarrow> (u32 \<times> spi_message \<times> 's) res" where
  "xfer b cs msg s =
     (let s = (if cs_take msg then spi_set_cs b cs 0 s else s) in
      rbind (xfer_loop b (send_buf msg) (recv_buf msg) [0..<unat (msg_length msg)] s) (\<lambda>(rcv, s).
      let s = (if cs_release msg then spi_set_cs b cs 1 s else s) in
      Inr (msg_length msg, msg\<lparr>recv_buf := rcv\<rparr>, s)))"

text \<open>The console commands; what they print is left out. The mode arguments are read and dropped.\<close>

definition cmd_spi_init :: "'s board \<Rightarrow> string list \<Rightarrow> 's \<Rightarrow> 's" where
  "cmd_spi_init b argv s =
     (if length argv = 2 \<or> length argv = 4 then spi_init b (word_of_nat (strtoul0 (argv ! 1))) 0 0 s else s)"

definition cmd_spi_set_csn :: "'s board \<Rightarrow> string list \<Rightarrow> 's \<Rightarrow> 's" where
  "cmd_spi_set_csn b argv s =
     (if length argv = 3 then
        spi_set_cs b (word_of_nat (strtoul0 (argv ! 1)))
          (unat (word_of_nat (strtoul0 (argv ! 2)) :: u8)) s
      else s)"

definition cmd_spi_write :: "'s board \<Rightarrow> string list \<Rightarrow> 's \<Rightarrow> (u8 option \<times> 's) res" where
  "cmd_spi_write b argv s =
     (if length argv = 2 then
        rbind (spi_write_for_response b (word_of_nat (strtoul0 (argv ! 1))) s) (\<lambda>(r, s). Inr (Some r, s))
      else Inr (None, s))"

section \<open>The contract of the controller\<close>

text \<open>A slave is selected if its line is driven and low.\<close>

definition selected :: "u8 \<Rightarrow> nat set" where
  "selected v = {n. n < 4 \<and> bit v n \<and> \<not> bit v (n + 4)}"

text \<open>
  What a slave can see: the bytes, each with the slaves selected, and (used by the VS1003) the
  moments its request line was found high. \<open>reply\<close> is the answer to the last byte.
\<close>

datatype bus_event = Sent (sel: "nat set") (byte: u8) | Ready

definition select_laws :: "'s board \<Rightarrow> ('s \<Rightarrow> u8) \<Rightarrow> ('s \<Rightarrow> bus_event list) \<Rightarrow> bool" where
  "select_laws b cs log \<longleftrightarrow> (\<forall>s v.
     fst (GET_SPI b SOFTCS s) = cs s
     \<and> cs (snd (GET_SPI b SOFTCS s)) = cs s \<and> log (snd (GET_SPI b SOFTCS s)) = log s
     \<and> cs (SET_SPI b SOFTCS v s) = v \<and> log (SET_SPI b SOFTCS v s) = log s
     \<and> (\<forall>r\<in>{SPSR, PARAM, PARAM2, SPER, SPCR}. cs (SET_SPI b r v s) = cs s \<and> log (SET_SPI b r v s) = log s))"

definition byte_laws :: "'s board \<Rightarrow> ('s \<Rightarrow> u8) \<Rightarrow> ('s \<Rightarrow> bus_event list) \<Rightarrow> (bus_event list \<Rightarrow> u8) \<Rightarrow> bool" where
  "byte_laws b cs log reply \<longleftrightarrow>
     (\<exists>rank. settles (spi_dev b) (spi_addr SPSR) RFEMPTY rank)
     \<and> (\<forall>s v. cs (SET_SPI b TXFIFO v s) = cs s \<and> log (SET_SPI b TXFIFO v s) = log s @ [Sent (selected (cs s)) v]
        \<and> cs (snd (GET_SPI b SPSR s)) = cs s \<and> log (snd (GET_SPI b SPSR s)) = log s
        \<and> cs (snd (GET_SPI b RXFIFO s)) = cs s \<and> log (snd (GET_SPI b RXFIFO s)) = log s
        \<and> (fst (GET_SPI b SPSR s) AND RFEMPTY = 0
           \<longrightarrow> fst (GET_SPI b RXFIFO (snd (GET_SPI b SPSR s))) = reply (log s)))"

definition spi_contract ::
    "'s board \<Rightarrow> ('s \<Rightarrow> u8) \<Rightarrow> ('s \<Rightarrow> bus_event list) \<Rightarrow> (bus_event list \<Rightarrow> u8) \<Rightarrow> bool" where
  "spi_contract b cs log reply \<longleftrightarrow> select_laws b cs log \<and> byte_laws b cs log reply"

lemma selected_idle [simp]: "selected 0xff = {}"
proof -
  have "(0xff :: u8) = mask 8" by (simp add: mask_eq_exp_minus_1)
  then have "selected 0xff = selected (mask 8)" by (rule arg_cong)
  also have "\<dots> = {}" unfolding selected_def by (auto simp: bit_mask_iff simp del: mask_numeral)
  finally show ?thesis .
qed

lemma cs_bits_bit:
  assumes "n < 4" and "i < 8"
  shows "bit (cs_bits n level v) i = (if i = n then True else if i = n + 4 then level \<noteq> 0 else bit v i)"
proof -
  have one: "bit (push_bit n (0x01 :: u8)) i \<longleftrightarrow> i = n"
    using assms by (auto simp: bit_push_bit_iff bit_1_iff simp del: push_bit_of_1)
  have ten: "bit (push_bit n (push_bit 4 (1 :: u8))) i \<longleftrightarrow> i = n + 4"
    using assms by (auto simp: bit_push_bit_iff bit_1_iff simp del: push_bit_of_1 push_bit_push_bit)
  have "(0x10 :: u8) = push_bit 4 1" by simp
  with assms one ten show ?thesis
    unfolding cs_bits_def Let_def
    by (auto simp: bit_or_iff bit_and_iff bit_not_iff simp del: push_bit_of_1 push_bit_push_bit push_bit_numeral)
qed

lemma selected_cs_bits:
  assumes "n < 4"
  shows "selected (cs_bits n level v) = (if level = 0 then insert n (selected v) else selected v - {n})"
  using assms unfolding selected_def by (auto simp: cs_bits_bit split: if_splits)

lemma set_csn_view:
  assumes "spi_contract b cs log reply"
  shows "cs (spi_set_csn b v s) = v" and "log (spi_set_csn b v s) = log s"
  using assms by (simp_all add: spi_contract_def select_laws_def spi_set_csn_def)

lemma set_cs_view:
  assumes "spi_contract b cs log reply" and "n < 4"
  shows "cs (spi_set_cs b n st' s) = cs_bits (unat n) st' (cs s)" and "log (spi_set_cs b n st' s) = log s"
  using assms by (simp_all add: spi_contract_def select_laws_def spi_set_cs_def split_beta)

lemma init_view:
  assumes "spi_contract b cs log reply"
  shows "cs (spi_init b d l h s) = 0xff" and "log (spi_init b d l h s) = log s"
  using assms by (simp_all add: spi_contract_def select_laws_def spi_init_def Let_def)

text \<open>The answers to a sequence of bytes, and the log after it.\<close>

fun talk :: "(bus_event list \<Rightarrow> u8) \<Rightarrow> nat set \<Rightarrow> u8 list \<Rightarrow> bus_event list \<Rightarrow> u8 list \<times> bus_event list" where
  "talk reply S [] lg = ([], lg)"
| "talk reply S (v # vs) lg =
     (let lg = lg @ [Sent S v]; (rs, lg') = talk reply S vs lg in (reply lg # rs, lg'))"

lemma talk_log [simp]: "snd (talk reply S vs lg) = lg @ map (Sent S) vs"
  by (induction vs arbitrary: lg) (simp_all add: Let_def split_beta)

lemma talk_length [simp]: "length (fst (talk reply S vs lg)) = length vs"
  by (induction vs arbitrary: lg) (simp_all add: Let_def split_beta)

text \<open>
  What the drivers of the slaves rely on: an exchange of a byte ends, puts the byte on the bus once
  with the chip selects as they are, and returns the answer to it.
\<close>

locale serial_bus =
  fixes ok :: "'b \<Rightarrow> ('s \<Rightarrow> u8) \<Rightarrow> ('s \<Rightarrow> bus_event list) \<Rightarrow> (bus_event list \<Rightarrow> u8) \<Rightarrow> bool"
    and exchange :: "'b \<Rightarrow> u8 \<Rightarrow> 's \<Rightarrow> (u8 \<times> 's) res"
  assumes exchange_ends: "ok b cs log reply \<Longrightarrow>
    ends (\<lambda>(r, s'). cs s' = cs s \<and> log s' = log s @ [Sent (selected (cs s)) v] \<and> r = reply (log s'))
      (exchange b v s)"
begin

text \<open>A buffer is sent byte by byte.\<close>

lemma send_ends:
  assumes "ok b cs log reply"
  shows "ends (\<lambda>s'. cs s' = cs s \<and> log s' = log s @ map (Sent (selected (cs s))) vs)
    (for_list (\<lambda>v s. rbind (exchange b v s) (\<lambda>(r, s). Inr s)) vs s)"
proof (induction vs arbitrary: s)
  case Nil
  then show ?case by simp
next
  case (Cons v vs)
  have "ends (\<lambda>t. cs t = cs s \<and> log t = log s @ [Sent (selected (cs s)) v])
      (rbind (exchange b v s) (\<lambda>(r, s). Inr s))"
    by (rule ends_bind2 [OF exchange_ends [OF assms]]) simp
  then show ?case
    unfolding for_list.simps by (rule ends_bind) (rule ends_cong [OF Cons.IH], auto)
qed

end

lemma spi_exchange:
  assumes "spi_contract b cs log reply"
  shows "ends (\<lambda>(r, s'). cs s' = cs s \<and> log s' = log s @ [Sent (selected (cs s)) v] \<and> r = reply (log s'))
    (spi_write_for_response b v s)"
proof -
  have l: "byte_laws b cs log reply" using assms by (simp add: spi_contract_def)
  then obtain rank where rank: "settles (spi_dev b) (spi_addr SPSR) RFEMPTY rank"
    by (auto simp: byte_laws_def)
  let ?P = "\<lambda>t. cs t = cs s \<and> log t = log s @ [Sent (selected (cs s)) v]"
  have keep: "?P (snd (read8 (spi_dev b) (spi_addr SPSR) t))" if "?P t" for t
    using l that by (simp add: byte_laws_def GET_SPI_def)
  have "?P (SET_SPI b TXFIFO v s)" using l by (simp add: byte_laws_def)
  from poll_returns [where P = ?P, OF rank keep this] obtain t where
    "?P t" "fst (GET_SPI b SPSR t) AND RFEMPTY = 0"
    "poll (spi_dev b) (spi_addr SPSR) RFEMPTY (SET_SPI b TXFIFO v s) = Some (snd (GET_SPI b SPSR t))"
    by (auto simp: GET_SPI_def)
  then show ?thesis using l by (simp add: spi_write_for_response_def byte_laws_def split_beta)
qed

interpretation spi: serial_bus spi_contract spi_write_for_response
  by unfold_locales (rule spi_exchange)

section \<open>A message\<close>

text \<open>The bytes of a message: its buffer, or as many bytes of ones as the answer is long.\<close>

definition outgoing :: "spi_message \<Rightarrow> u8 list" where
  "outgoing msg = (case send_buf msg of None \<Rightarrow> replicate (unat (msg_length msg)) 0xFF
     | Some buf \<Rightarrow> take (unat (msg_length msg)) buf)"

text \<open>A message whose buffers are as long as it says.\<close>

definition fits_message :: "spi_message \<Rightarrow> bool" where
  "fits_message msg \<longleftrightarrow> (\<forall>buf. send_buf msg = Some buf \<or> recv_buf msg = Some buf
     \<longrightarrow> unat (msg_length msg) \<le> length buf)"

lemma xfer_loop_ends:
  assumes "spi_contract b cs log reply"
    and "i \<le> n" and "case send of None \<Rightarrow> vs = replicate (n - i) 0xFF | Some buf \<Rightarrow> n \<le> length buf \<and> vs = take (n - i) (drop i buf)"
    and "\<And>buf. rcv = Some buf \<Longrightarrow> n \<le> length buf"
  shows "ends (\<lambda>(rcv', s'). cs s' = cs s \<and> log s' = log s @ map (Sent (selected (cs s))) vs \<and>
      rcv' = map_option (\<lambda>buf. take i buf @ fst (talk reply (selected (cs s)) vs (log s)) @ drop n buf) rcv)
    (xfer_loop b send rcv [i..<n] s)"
  using assms(2-)
proof (induction "n - i" arbitrary: i vs rcv s)
  case 0
  then show ?case by (cases rcv) (auto split: option.splits)
next
  case (Suc m)
  then have i: "i < n" and m: "m = n - Suc i" by simp_all
  obtain v ws where vs: "vs = v # ws" and out: "(case send of None \<Rightarrow> Inr 0xFF | Some buf \<Rightarrow> rd buf i) = Inr v"
    and ws: "case send of None \<Rightarrow> ws = replicate (n - Suc i) 0xFF
      | Some buf \<Rightarrow> n \<le> length buf \<and> ws = take (n - Suc i) (drop (Suc i) buf)"
  proof (cases send)
    case None
    with Suc.prems(2) have "vs = 0xFF # replicate m 0xFF" by (simp add: Suc.hyps(2) [symmetric])
    with None m show ?thesis by (intro that) auto
  next
    case (Some buf)
    with Suc.prems(2) i have "i < length buf" "vs = take (Suc m) (drop i buf)" by (simp_all add: Suc.hyps(2))
    then have "vs = buf ! i # take m (drop (Suc i) buf)" by (simp add: Cons_nth_drop_Suc [symmetric])
    with Some Suc.prems(2) m \<open>i < length buf\<close> show ?thesis by (intro that) auto
  qed
  let ?S = "selected (cs s)"
  let ?put = "\<lambda>r. case rcv of None \<Rightarrow> Inr None | Some buf \<Rightarrow> rbind (wr buf i r) (\<lambda>buf. Inr (Some buf))"
  have put: "?put r = Inr (map_option (\<lambda>buf. buf[i := r]) rcv)" for r
    using Suc.prems(3) i by (auto split: option.splits)
  have rest: "ends (\<lambda>(rcv', s'). cs s' = cs s \<and> log s' = log s @ map (Sent ?S) vs \<and>
      rcv' = map_option (\<lambda>buf. take i buf @ fst (talk reply ?S vs (log s)) @ drop n buf) rcv)
    (xfer_loop b send (map_option (\<lambda>buf. buf[i := r]) rcv) [Suc i..<n] t)"
    if t: "cs t = cs s" "log t = log s @ [Sent ?S v]" and r: "r = reply (log t)" for r t
  proof -
    have "rcv' = map_option (\<lambda>buf. take i buf @ fst (talk reply ?S vs (log s)) @ drop n buf) rcv"
      if "rcv' = map_option (\<lambda>buf. take (Suc i) buf @ fst (talk reply ?S ws (log t)) @ drop n buf)
          (map_option (\<lambda>buf. buf[i := r]) rcv)" for rcv'
      using that Suc.prems(3) i t r
      by (cases rcv) (auto simp: vs Let_def split_beta take_Suc_conv_app_nth)
    then show ?thesis
      using Suc.hyps(1) [OF m _ ws, of "map_option (\<lambda>buf. buf[i := r]) rcv" t] Suc.prems(3) i t
      by (force simp: vs elim!: ends_cong)
  qed
  show ?case
    unfolding upt_conv_Cons [OF i] xfer_loop.simps out rbind_simps
    by (rule ends_bind2 [OF spi.exchange_ends [OF assms(1)]]) (simp add: put rest)
qed

lemma fits_sends:
  assumes "fits_message msg"
  shows "case send_buf msg of None \<Rightarrow> outgoing msg = replicate (unat (msg_length msg) - 0) 0xFF
    | Some buf \<Rightarrow> unat (msg_length msg) \<le> length buf
        \<and> outgoing msg = take (unat (msg_length msg) - 0) (drop 0 buf)"
  using assms by (auto simp: fits_message_def outgoing_def split: option.split)

text \<open>The slaves that are selected while a message is on the bus, and afterwards.\<close>

definition during :: "nat \<Rightarrow> spi_message \<Rightarrow> nat set \<Rightarrow> nat set" where
  "during n msg S = (if cs_take msg then insert n S else S)"

definition afterwards :: "nat \<Rightarrow> spi_message \<Rightarrow> nat set \<Rightarrow> nat set" where
  "afterwards n msg S = (if cs_release msg then during n msg S - {n} else during n msg S)"

lemma chip_number: "chip < 4 \<Longrightarrow> unat chip < 4" for chip :: u8
  by (simp add: word_less_nat_alt)

lemma take_view:
  assumes "spi_contract b cs log reply" and "chip < 4"
    and "t = (if cs_take msg then spi_set_cs b chip 0 s else s)"
  shows "selected (cs t) = during (unat chip) msg (selected (cs s))" and "log t = log s"
  using assms by (simp_all add: during_def set_cs_view selected_cs_bits chip_number)

lemma release_view:
  assumes "spi_contract b cs log reply" and "chip < 4"
    and "selected (cs s) = during (unat chip) msg S"
    and "t = (if cs_release msg then spi_set_cs b chip 1 s else s)"
  shows "selected (cs t) = afterwards (unat chip) msg S" and "log t = log s"
  using assms by (simp_all add: afterwards_def set_cs_view selected_cs_bits chip_number)

text \<open>C11. 
  On a controller that keeps its contract, \<open>xfer\<close> returns for every message whose buffers are as
  long as it says, with that length: the slave sees exactly the bytes of the send buffer (ones if
  there is none), in order, while its chip select is low and no other is newly selected; the
  receive buffer, if any, then holds the slave's answers and is unchanged beyond them; and the
  chip select is as the message asks.
\<close>

theorem xfer_exchanges_message:
  assumes "spi_contract b cs log reply" and "fits_message msg" and "chip < 4"
  shows "\<exists>s'. xfer b chip msg s = Inr (msg_length msg,
      msg\<lparr>recv_buf := map_option (overwrite
        (fst (talk reply (during (unat chip) msg (selected (cs s))) (outgoing msg) (log s)))) (recv_buf msg)\<rparr>, s')
    \<and> log s' = log s @ map (Sent (during (unat chip) msg (selected (cs s)))) (outgoing msg)
    \<and> selected (cs s') = afterwards (unat chip) msg (selected (cs s))"
proof -
  let ?n = "unat (msg_length msg)" and ?S = "during (unat chip) msg (selected (cs s))"
  obtain t where t: "t = (if cs_take msg then spi_set_cs b chip 0 s else s)" by simp
  note view = take_view [OF assms(1,3) t]
  have len: "?n = length (outgoing msg)"
    using assms(2) by (auto simp: fits_message_def outgoing_def split: option.split)
  have "?n \<le> length buf" if "recv_buf msg = Some buf" for buf
    using assms(2) that by (auto simp: fits_message_def)
  from xfer_loop_ends [OF assms(1) le0 fits_sends [OF assms(2)] this, where s = t]
  have "ends (\<lambda>(rcv, t'). selected (cs t') = ?S \<and> log t' = log s @ map (Sent ?S) (outgoing msg)
      \<and> rcv = map_option (overwrite (fst (talk reply ?S (outgoing msg) (log s)))) (recv_buf msg))
    (xfer_loop b (send_buf msg) (recv_buf msg) [0..<?n] t)"
    by (rule ends_cong) (auto simp: view overwrite_def [abs_def] len)
  then obtain t' where t': "selected (cs t') = ?S" "log t' = log s @ map (Sent ?S) (outgoing msg)"
    "xfer_loop b (send_buf msg) (recv_buf msg) [0..<?n] t = Inr
      (map_option (overwrite (fst (talk reply ?S (outgoing msg) (log s)))) (recv_buf msg), t')"
    by (auto simp: ends_def)
  show ?thesis
    unfolding xfer_def Let_def t [symmetric] t'(3)
    using release_view [OF assms(1,3) t'(1) refl] t'(2) by simp
qed

section \<open>A controller for the witnesses\<close>

text \<open>It needs one more read of its status after each byte; the request line of the VS1003 is high.\<close>

record sim =
  sim_cs :: u8
  sim_log :: "bus_event list"
  sim_busy :: nat

definition sim_board :: "(bus_event list \<Rightarrow> u8) \<Rightarrow> sim board" where
  "sim_board reply = \<lparr>
     spi_dev = \<lparr>
       read8 = (\<lambda>a s. if a = spi_addr SOFTCS then (sim_cs s, s)
          else if a = spi_addr SPSR then
            (if sim_busy s = 0 then (0, s) else (1, s\<lparr>sim_busy := sim_busy s - 1\<rparr>))
          else (reply (sim_log s), s)),
       write8 = (\<lambda>a v s. if a = spi_addr SOFTCS then s\<lparr>sim_cs := v\<rparr>
          else if a = spi_addr TXFIFO then
            s\<lparr>sim_log := sim_log s @ [Sent (selected (sim_cs s)) v], sim_busy := 1\<rparr>
          else s)\<rparr>,
     rt_pin_mode = (\<lambda>p m s. s),
     rt_pin_write = (\<lambda>p v s. s),
     rt_pin_read = (\<lambda>p s. (1, if p = 38 then s\<lparr>sim_log := sim_log s @ [Ready]\<rparr> else s)),
     rt_mdelay = (\<lambda>t s. s)\<rparr>"

definition sim_start :: sim where
  "sim_start = \<lparr>sim_cs = 0xff, sim_log = [], sim_busy = 0\<rparr>"

lemma spi_sim_contract: "spi_contract (sim_board reply) sim_cs sim_log reply"
  unfolding spi_contract_def select_laws_def byte_laws_def settles_def
  by (auto simp: sim_board_def GET_SPI_def SET_SPI_def spi_addr_def SPI_BASE_def spi_regs RFEMPTY_def
      intro!: exI [of _ sim_busy])

definition sample_message :: spi_message where
  "sample_message = \<lparr>send_buf = Some [0x9f, 0x12], recv_buf = Some [0, 0, 7], msg_length = 2,
     cs_take = True, cs_release = True\<rparr>"

theorem xfer_exchanges_message_witness:
  "\<exists>s'. xfer (sim_board (\<lambda>lg. of_nat (length lg))) 1 sample_message sim_start =
      Inr (2, sample_message\<lparr>recv_buf := Some [1, 2, 7]\<rparr>, s')
    \<and> sim_log s' = [Sent {1} 0x9f, Sent {1} 0x12] \<and> selected (sim_cs s') = {}"
proof -
  have "fits_message sample_message" by (auto simp: fits_message_def sample_message_def)
  from xfer_exchanges_message [OF spi_sim_contract this, of 1 "\<lambda>lg. of_nat (length lg)" sim_start]
  show ?thesis
    by (simp add: sample_message_def outgoing_def during_def afterwards_def sim_start_def
        overwrite_def Let_def)
qed

end
