(* ===== verification/Vs1003.thy ===== *)
theory Vs1003
  imports Spi
begin

unbundle bit_operations_syntax

text \<open>
  The driver of the VS1003 codec, \<open>ls2kdev_record/applications/vs1003/vs1003.c\<close>, on the SPI
  driver: the waits for the chip's request line, register accesses, the data stream, and the set-up
  for playing and recording. Busy-waiting for a microsecond and messages to the console have no
  effect on the chip and are left out. What the driver puts on the bus is compared with the chip's
  protocol: register frames under one chip select, data under the other, at most 32 bytes of data
  for each time the request line was high.
\<close>

section \<open>Constants\<close>

definition xDreq :: nat where "xDreq = 38"
definition xReset :: nat where "xReset = 37"
definition xDcs :: u8 where "xDcs = 1"
definition xCs :: u8 where "xCs = 2"
definition PIN_LOW :: nat where "PIN_LOW = 0"
definition PIN_HIGH :: nat where "PIN_HIGH = 1"
definition PIN_MODE_OUTPUT :: nat where "PIN_MODE_OUTPUT = 0"
definition PIN_MODE_INPUT :: nat where "PIN_MODE_INPUT = 1"
definition VS1003_CHUNK_SIZE :: nat where "VS1003_CHUNK_SIZE = 32"
definition VS_WRITE_COMMAND :: u8 where "VS_WRITE_COMMAND = 0x02"
definition VS_READ_COMMAND :: u8 where "VS_READ_COMMAND = 0x03"
definition SCI_MODE :: u8 where "SCI_MODE = 0x0"
definition SCI_BASS :: u8 where "SCI_BASS = 0x2"
definition SCI_CLOCKF :: u8 where "SCI_CLOCKF = 0x3"
definition SCI_AUDATA :: u8 where "SCI_AUDATA = 0x5"
definition SCI_HDAT0 :: u8 where "SCI_HDAT0 = 0x8"
definition SCI_HDAT1 :: u8 where "SCI_HDAT1 = 0x9"
definition SCI_VOL :: u8 where "SCI_VOL = 0xb"
definition SCI_AICTRL0 :: u8 where "SCI_AICTRL0 = 0xc"
definition SCI_AICTRL1 :: u8 where "SCI_AICTRL1 = 0xd"
definition SM_RESET :: nat where "SM_RESET = 2"
definition SM_SDINEW :: nat where "SM_SDINEW = 11"

lemmas vs_consts = xDreq_def xReset_def xDcs_def xCs_def VS_WRITE_COMMAND_def VS_READ_COMMAND_def
  VS1003_CHUNK_SIZE_def

lemmas sci_regs = SCI_MODE_def SCI_BASS_def SCI_CLOCKF_def SCI_AUDATA_def SCI_HDAT0_def SCI_HDAT1_def
  SCI_VOL_def SCI_AICTRL0_def SCI_AICTRL1_def

section \<open>The driver\<close>

definition amplifer_enable :: "'s board \<Rightarrow> 's \<Rightarrow> 's" where
  "amplifer_enable b s = rt_pin_write b 21 0 (rt_pin_mode b 21 0 s)"

definition amplifer_disable :: "'s board \<Rightarrow> 's \<Rightarrow> 's" where
  "amplifer_disable b s = rt_pin_write b 21 1 (rt_pin_mode b 21 0 s)"

definition control_mode_on :: "'s board \<Rightarrow> 's \<Rightarrow> 's" where
  "control_mode_on b s = spi_set_cs b xDcs 1 (spi_set_cs b xCs 0 s)"

definition control_mode_off :: "'s board \<Rightarrow> 's \<Rightarrow> 's" where
  "control_mode_off b s = spi_set_csn b 0xff s"

definition data_mode_on :: "'s board \<Rightarrow> 's \<Rightarrow> 's" where
  "data_mode_on b s = spi_set_cs b xDcs 0 (spi_set_cs b xCs 1 s)"

definition data_mode_off :: "'s board \<Rightarrow> 's \<Rightarrow> 's" where
  "data_mode_off b s = spi_set_csn b 0xff s"

partial_function (option) dreq_loop :: "'s board \<Rightarrow> 's \<Rightarrow> 's option" where
  "dreq_loop b s = (case rt_pin_read b xDreq s of (v, s') \<Rightarrow> if v = 0 then dreq_loop b s' else Some s')"

definition await_data_request :: "'s board \<Rightarrow> 's \<Rightarrow> 's res" where
  "await_data_request b s = returning (dreq_loop b s)"

definition vs1003_reset :: "'s board \<Rightarrow> 's \<Rightarrow> 's" where
  "vs1003_reset b s = rt_pin_write b xReset PIN_HIGH (rt_mdelay b 1 (rt_pin_write b xReset PIN_LOW s))"

definition read_register :: "'s board \<Rightarrow> u8 \<Rightarrow> 's \<Rightarrow> (u16 \<times> 's) res" where
  "read_register b reg s =
     rbind (await_data_request b s) (\<lambda>s.
     let s = control_mode_on b s in
     rbind (spi_write_for_response b VS_READ_COMMAND s) (\<lambda>(r, s).
     rbind (spi_write_for_response b reg s) (\<lambda>(r, s).
     rbind (spi_write_for_response b 0xFF s) (\<lambda>(response1, s).
     rbind (spi_write_for_response b 0xFF s) (\<lambda>(response2, s).
     let s = control_mode_off b s in
     Inr (ucast (push_bit 8 (ucast response1 :: u32) OR ucast (response2 AND 0xFF)), s))))))"

definition write_register :: "'s board \<Rightarrow> u8 \<Rightarrow> u16 \<Rightarrow> 's \<Rightarrow> 's res" where
  "write_register b reg v s =
     (let s = control_mode_on b s in
     rbind (spi_write_for_response b VS_WRITE_COMMAND s) (\<lambda>(r, s).
     rbind (spi_write_for_response b reg s) (\<lambda>(r, s).
     rbind (spi_write_for_response b (ucast (drop_bit 8 v)) s) (\<lambda>(r, s).
     rbind (spi_write_for_response b (ucast (v AND 0xff)) s) (\<lambda>(r, s).
     rbind (await_data_request b s) (\<lambda>s.
     Inr (control_mode_off b s)))))))"

definition vs1003_set_volume :: "'s board \<Rightarrow> u8 \<Rightarrow> 's \<Rightarrow> 's res" where
  "vs1003_set_volume b vol s =
     (let v = ucast vol :: u16; v = push_bit 8 v; v = v OR ucast vol in write_register b SCI_VOL v s)"

text \<open>The data pointer is the position \<open>pos\<close> in the buffer.\<close>

definition send_chunk :: "'s board \<Rightarrow> u8 list \<Rightarrow> nat \<Rightarrow> nat \<Rightarrow> 's \<Rightarrow> 's res" where
  "send_chunk b dat pos chunk s =
     for_list (\<lambda>i s. rbind (rd dat i) (\<lambda>v. rbind (spi_write_for_response b v s) (\<lambda>(r, s). Inr s)))
       [pos..<pos + chunk] s"

function sdi_loop :: "'s board \<Rightarrow> u8 list \<Rightarrow> nat \<Rightarrow> nat \<Rightarrow> 's \<Rightarrow> 's res" where
  "sdi_loop b dat pos len s =
     (if len = 0 then Inr s
      else rbind (await_data_request b s) (\<lambda>s.
        let chunk_length = min len VS1003_CHUNK_SIZE in
        rbind (send_chunk b dat pos chunk_length s)
          (sdi_loop b dat (pos + chunk_length) (len - chunk_length))))"
  by pat_completeness auto
termination by (relation "measure (\<lambda>(b, dat, pos, len, s). len)") (auto simp: VS1003_CHUNK_SIZE_def)

declare sdi_loop.simps [simp del]

definition sdi_send_buffer :: "'s board \<Rightarrow> u8 list \<Rightarrow> nat \<Rightarrow> 's \<Rightarrow> 's res" where
  "sdi_send_buffer b dat len s =
     rbind (sdi_loop b dat 0 len (data_mode_on b s)) (\<lambda>s. Inr (data_mode_off b s))"

definition vs1003_play_chunk :: "'s board \<Rightarrow> u8 list \<Rightarrow> nat \<Rightarrow> 's \<Rightarrow> 's res" where
  "vs1003_play_chunk b dat len s = sdi_send_buffer b dat len s"

definition vs1003_play_mode_init :: "'s board \<Rightarrow> 's \<Rightarrow> 's res" where
  "vs1003_play_mode_init b s =
     (let s = rt_pin_mode b xReset PIN_MODE_OUTPUT s;
          s = rt_pin_write b xReset PIN_LOW s;
          s = spi_set_cs b xCs 1 s;
          s = spi_set_cs b xDcs 1 s;
          s = rt_pin_mode b xDreq PIN_MODE_INPUT s;
          s = rt_mdelay b 1 s;
          s = spi_init b 0b1011 0 0 s;
          s = rt_pin_write b xReset PIN_HIGH s in
     rbind (write_register b SCI_VOL 0xffff s) (\<lambda>s.
     rbind (write_register b SCI_AUDATA 10 s) (\<lambda>s.
     let s = rt_mdelay b 100 s in
     rbind (write_register b SCI_VOL 0xfefe s) (\<lambda>s.
     rbind (write_register b SCI_AUDATA 44101 s) (\<lambda>s.
     rbind (write_register b SCI_VOL 0x2020 s) (\<lambda>s.
     rbind (write_register b SCI_MODE (push_bit SM_SDINEW 1 OR push_bit SM_RESET 1) s) (\<lambda>s.
     let s = rt_mdelay b 1 s in
     rbind (await_data_request b s) (\<lambda>s.
     rbind (write_register b SCI_CLOCKF 0xB800 s) (\<lambda>s.
     let s = rt_mdelay b 1 s in
     rbind (await_data_request b s) (\<lambda>s.
     Inr (spi_init b 0b1000 0 0 s)))))))))))"

definition vs1003_record_mode_init :: "'s board \<Rightarrow> 's \<Rightarrow> 's res" where
  "vs1003_record_mode_init b s =
     (let s = rt_pin_mode b xReset PIN_MODE_OUTPUT s;
          s = rt_pin_mode b xDreq PIN_MODE_INPUT s;
          s = rt_pin_write b xReset PIN_LOW s;
          s = spi_init b 0b1000 0 0 s;
          s = spi_set_csn b 0xff s;
          s = rt_pin_write b xReset PIN_HIGH s in
     rbind (write_register b SCI_BASS 0 s) (\<lambda>s.
     rbind (write_register b SCI_CLOCKF 0x4430 s) (\<lambda>s.
     let s = rt_mdelay b 10 s in
     rbind (write_register b SCI_AICTRL0 12 s) (\<lambda>s.
     let s = rt_mdelay b 10 s in
     rbind (write_register b SCI_AICTRL1 1024 s) (\<lambda>s.
     let s = rt_mdelay b 10 s in
     rbind (write_register b SCI_MODE 0x3804 s) (\<lambda>s.
     let s = rt_mdelay b 10 s in
     write_register b SCI_VOL 0xfefe s))))))"

section \<open>The contract of the board with the codec\<close>

text \<open>
  The pins and the clock are not on the bus, and the request line is high in the end; the log has
  the moments it was found high.
\<close>

definition pin_laws :: "'s board \<Rightarrow> ('s \<Rightarrow> u8) \<Rightarrow> ('s \<Rightarrow> bus_event list) \<Rightarrow> bool" where
  "pin_laws b cs log \<longleftrightarrow>
     (\<exists>rank :: 's \<Rightarrow> nat. \<forall>s. case rt_pin_read b xDreq s of (v, s') \<Rightarrow>
        cs s' = cs s \<and> log s' = log s @ (if v = 0 then [] else [Ready])
        \<and> (v = 0 \<longrightarrow> rank s' < rank s))
     \<and> (\<forall>p v s. cs (rt_pin_mode b p v s) = cs s \<and> log (rt_pin_mode b p v s) = log s
        \<and> cs (rt_pin_write b p v s) = cs s \<and> log (rt_pin_write b p v s) = log s)
     \<and> (\<forall>t s. cs (rt_mdelay b t s) = cs s \<and> log (rt_mdelay b t s) = log s)"

definition vs_contract ::
    "'s board \<Rightarrow> ('s \<Rightarrow> u8) \<Rightarrow> ('s \<Rightarrow> bus_event list) \<Rightarrow> (bus_event list \<Rightarrow> u8) \<Rightarrow> bool" where
  "vs_contract b cs log reply \<longleftrightarrow> spi_contract b cs log reply \<and> pin_laws b cs log"

lemma vs_spi: "vs_contract b cs log reply \<Longrightarrow> spi_contract b cs log reply"
  by (simp add: vs_contract_def)

lemma pins_view:
  assumes "vs_contract b cs log reply"
  shows "cs (rt_pin_mode b p v s) = cs s" and "log (rt_pin_mode b p v s) = log s"
    and "cs (rt_pin_write b p v s) = cs s" and "log (rt_pin_write b p v s) = log s"
    and "cs (rt_mdelay b t s) = cs s" and "log (rt_mdelay b t s) = log s"
  using assms by (simp_all add: vs_contract_def pin_laws_def)

text \<open>The chip alone is on the bus.\<close>

definition lone :: "nat set \<Rightarrow> bool" where
  "lone S \<longleftrightarrow> S \<subseteq> {unat xCs, unat xDcs}"

lemma control_view:
  assumes "vs_contract b cs log reply" and "lone (selected (cs s))"
  shows "selected (cs (control_mode_on b s)) = {2}" and "log (control_mode_on b s) = log s"
  using assms(2)
  by (auto simp: control_mode_on_def set_cs_view [OF vs_spi [OF assms(1)]] selected_cs_bits vs_consts lone_def)

lemma data_view:
  assumes "vs_contract b cs log reply" and "lone (selected (cs s))"
  shows "selected (cs (data_mode_on b s)) = {1}" and "log (data_mode_on b s) = log s"
  using assms(2)
  by (auto simp: data_mode_on_def set_cs_view [OF vs_spi [OF assms(1)]] selected_cs_bits vs_consts lone_def)

lemma mode_off_view:
  assumes "vs_contract b cs log reply"
  shows "cs (control_mode_off b s) = 0xff" and "log (control_mode_off b s) = log s"
    and "cs (data_mode_off b s) = 0xff" and "log (data_mode_off b s) = log s"
  using set_csn_view [OF vs_spi [OF assms]] by (simp_all add: control_mode_off_def data_mode_off_def)

lemma lone_off [simp]: "lone {}"
  by (simp add: lone_def)

lemma dreq_ends:
  assumes "vs_contract b cs log reply"
  shows "ends (\<lambda>s'. cs s' = cs s \<and> log s' = log s @ [Ready]) (await_data_request b s)"
proof -
  obtain rank :: "'a \<Rightarrow> nat" where rank: "\<forall>s. case rt_pin_read b xDreq s of (v, s') \<Rightarrow>
      cs s' = cs s \<and> log s' = log s @ (if v = 0 then [] else [Ready]) \<and> (v = 0 \<longrightarrow> rank s' < rank s)"
    using assms by (auto simp: vs_contract_def pin_laws_def)
  have "\<exists>s'. dreq_loop b s = Some s' \<and> cs s' = cs s \<and> log s' = log s @ [Ready]"
  proof (induction "rank s" arbitrary: s rule: less_induct)
    case less
    obtain v t where v: "rt_pin_read b xDreq s = (v, t)" by fastforce
    with rank have t: "cs t = cs s" "log t = log s @ (if v = 0 then [] else [Ready])"
      "v = 0 \<longrightarrow> rank t < rank s" by (auto dest: spec [of _ s])
    with less.hyps [of t] v show ?case
      by (subst dreq_loop.simps) (auto simp: dreq_loop.simps [of b s])
  qed
  then show ?thesis by (auto simp: await_data_request_def)
qed

section \<open>Register accesses\<close>

text \<open>The frames on the bus, and the value the chip answers with.\<close>

definition sci_write :: "u8 \<Rightarrow> u16 \<Rightarrow> bus_event list" where
  "sci_write reg v = map (Sent {2}) [2, reg, ucast (drop_bit 8 v), ucast v] @ [Ready]"

definition sci_read :: "(bus_event list \<Rightarrow> u8) \<Rightarrow> u8 \<Rightarrow> bus_event list \<Rightarrow> u16 \<times> bus_event list" where
  "sci_read reply reg lg =
     (let (rs, lg') = talk reply {2} [3, reg, 0xFF, 0xFF] (lg @ [Ready])
      in (word_cat (rs ! 2) (rs ! 3), lg'))"

lemma low_byte: "(ucast (v AND 0xff) :: u8) = ucast v" for v :: u16
proof -
  have "(0xff :: u16) = mask 8" by (simp add: mask_eq_exp_minus_1)
  then have "(ucast (v AND 0xff) :: u8) = ucast (v AND mask 8)" by (rule arg_cong)
  also have "\<dots> = ucast v"
    by (rule bit_word_eqI) (simp add: bit_ucast_iff bit_and_iff bit_mask_iff del: mask_numeral)
  finally show ?thesis .
qed

lemma word_of_answers: "(ucast (push_bit 8 (ucast h :: u32) OR ucast (l AND 0xFF)) :: u16) = word_cat h l"
  for h l :: u8
proof -
  have "(0xFF :: u8) = - 1" by simp
  then have "l AND 0xFF = l" by (simp only: and.right_neutral)
  then show ?thesis
    by (intro bit_word_eqI) (auto simp: bit_word_cat_iff bit_simps dest: bit_imp_le_length)
qed

lemma reg_write_ends:
  assumes "vs_contract b cs log reply" and "lone (selected (cs s))"
  shows "ends (\<lambda>s'. cs s' = 0xff \<and> log s' = log s @ sci_write reg v) (write_register b reg v s)"
  unfolding write_register_def Let_def
  apply ((rule ends_bind2 [OF spi.exchange_ends [OF vs_spi [OF assms(1)]]], simp only: prod.case)+)
  apply (rule ends_bind [OF dreq_ends [OF assms(1)]])
  apply (simp add: mode_off_view [OF assms(1)] control_view [OF assms] sci_write_def vs_consts low_byte)
  done

lemma reg_read_ends:
  assumes "vs_contract b cs log reply" and "lone (selected (cs s))"
  shows "ends (\<lambda>(v, s'). cs s' = 0xff \<and> (v, log s') = sci_read reply reg (log s)) (read_register b reg s)"
  unfolding read_register_def Let_def
  apply (rule ends_bind [OF dreq_ends [OF assms(1)]])
  apply ((rule ends_bind2 [OF spi.exchange_ends [OF vs_spi [OF assms(1)]]], simp only: prod.case)+)
  apply (simp add: mode_off_view [OF assms(1)] control_view [OF assms(1)] assms(2) sci_read_def vs_consts
      word_of_answers Let_def split_beta)
  done

section \<open>The data stream\<close>

text \<open>Data in chunks of at most 32 bytes, each after the request line was high.\<close>

function sdi_stream :: "u8 list \<Rightarrow> bus_event list" where
  "sdi_stream vs = (if vs = [] then [] else Ready # map (Sent {1}) (take 32 vs) @ sdi_stream (drop 32 vs))"
  by pat_completeness auto
termination by (relation "measure length") auto

declare sdi_stream.simps [simp del]

lemma sdi_stream_Nil [simp]: "sdi_stream [] = []"
  by (simp add: sdi_stream.simps)

lemma sdi_loop_ends:
  assumes "vs_contract b cs log reply"
  shows "pos + len \<le> length dat \<Longrightarrow> len \<le> n \<Longrightarrow> selected (cs s) = {1} \<Longrightarrow>
    ends (\<lambda>s'. selected (cs s') = {1} \<and> log s' = log s @ sdi_stream (take len (drop pos dat)))
      (sdi_loop b dat pos len s)"
proof (induction n arbitrary: pos len s)
  case 0
  then show ?case by (subst sdi_loop.simps) simp
next
  case (Suc n)
  show ?case
  proof (cases "len = 0")
    case True
    with Suc.prems show ?thesis by (subst sdi_loop.simps) simp
  next
    case False
    let ?c = "min len 32"
    let ?vs = "take ?c (drop pos dat)"
    have sent: "ends (\<lambda>u. cs u = cs t \<and> log u = log t @ map (Sent (selected (cs t))) ?vs)
        (send_chunk b dat pos ?c t)" for t
    proof -
      have "length ?vs = ?c" using Suc.prems(1) by simp
      then have "map ((!) dat) [pos..<pos + ?c] = ?vs"
        using Suc.prems(1) by (intro nth_equalityI) simp_all
      moreover have "send_chunk b dat pos ?c t =
          for_list (\<lambda>i s. rbind (spi_write_for_response b (dat ! i) s) (\<lambda>(r, s). Inr s)) [pos..<pos + ?c] t"
        unfolding send_chunk_def using Suc.prems(1) by (intro for_list_cong) (auto simp: rd_def)
      moreover have "\<dots> = for_list (\<lambda>v s. rbind (spi_write_for_response b v s) (\<lambda>(r, s). Inr s))
          (map ((!) dat) [pos..<pos + ?c]) t"
        by (simp only: for_list_map)
      ultimately show ?thesis
        by (simp only: spi.send_ends [OF vs_spi [OF assms]])
    qed
    have stream: "sdi_stream (take len (drop pos dat)) =
        Ready # map (Sent {1}) ?vs @ sdi_stream (take (len - ?c) (drop (pos + ?c) dat))"
      using False Suc.prems(1)
      by (subst sdi_stream.simps) (cases "len \<le> 32", simp_all add: min_def drop_take add.commute)
    show ?thesis
      unfolding sdi_loop.simps [of b dat pos len s]
      using False apply (simp only: if_False Let_def VS1003_CHUNK_SIZE_def)
      apply (rule ends_bind [OF dreq_ends [OF assms]])
      apply (rule ends_bind [OF sent])
      apply (rule ends_cong [OF Suc.IH])
      using Suc.prems apply (simp_all add: stream)
      done
  qed
qed

lemma play_ends:
  assumes "vs_contract b cs log reply" and "lone (selected (cs s))" and "len \<le> length dat"
  shows "ends (\<lambda>s'. cs s' = 0xff \<and> log s' = log s @ sdi_stream (take len dat)) (vs1003_play_chunk b dat len s)"
  unfolding vs1003_play_chunk_def sdi_send_buffer_def
  using sdi_loop_ends [OF assms(1), of 0 len dat len "data_mode_on b s"] assms(3)
  by (intro ends_bind) (auto simp: data_view [OF assms(1,2)] mode_off_view [OF assms(1)] elim!: ends_cong)

text \<open>
  The chip takes 32 bytes of data once its request line was high: \<open>paced k\<close> says that no byte is
  sent without such a credit, of which there are \<open>k\<close> at the start.
\<close>

fun paced :: "nat \<Rightarrow> bus_event list \<Rightarrow> bool" where
  "paced k [] = True"
| "paced k (Ready # es) = paced 32 es"
| "paced k (Sent S v # es) = (if 1 \<in> S then 0 < k \<and> paced (k - 1) es else paced k es)"

text \<open>The bytes the data interface of the chip receives.\<close>

fun data_bytes :: "bus_event list \<Rightarrow> u8 list" where
  "data_bytes [] = []"
| "data_bytes (Ready # es) = data_bytes es"
| "data_bytes (Sent S v # es) = (if 1 \<in> S then v # data_bytes es else data_bytes es)"

text \<open>The register writes the control interface of the chip receives; reads are frames as long.\<close>

fun sci_writes :: "bus_event list \<Rightarrow> (u8 \<times> u16) list" where
  "sci_writes (Sent S c # Sent S1 r # Sent S2 h # Sent S3 l # es) =
     (if 2 \<in> S \<and> c = 2 then (r, word_cat h l) # sci_writes es
      else if 2 \<in> S then sci_writes es
      else sci_writes (Sent S1 r # Sent S2 h # Sent S3 l # es))"
| "sci_writes (e # es) = sci_writes es"
| "sci_writes [] = []"

text \<open>Exactly one of the two interfaces is selected for every byte.\<close>

definition one_selected :: "bus_event list \<Rightarrow> bool" where
  "one_selected lg \<longleftrightarrow> (\<forall>e\<in>set lg. case e of Ready \<Rightarrow> True | Sent S v \<Rightarrow> S = {1} \<or> S = {2})"

lemma one_selected_append [simp]: "one_selected (a @ c) \<longleftrightarrow> one_selected a \<and> one_selected c"
  by (auto simp: one_selected_def)

lemma one_selected_Ready [simp]: "one_selected (Ready # es) \<longleftrightarrow> one_selected es" "one_selected []"
  by (simp_all add: one_selected_def)

lemma one_selected_write [simp]: "one_selected (sci_write r v)"
  by (simp add: one_selected_def sci_write_def)

lemma data_bytes_append [simp]: "data_bytes (a @ c) = data_bytes a @ data_bytes c"
  by (induction a rule: data_bytes.induct) auto

lemma data_bytes_write [simp]: "data_bytes (sci_write r v) = []"
  by (simp add: sci_write_def)

lemma data_bytes_run [simp]: "1 \<in> S \<Longrightarrow> data_bytes (map (Sent S) vs) = vs"
  by (induction vs) simp_all

lemma sci_writes_run [simp]: "2 \<notin> S \<Longrightarrow> sci_writes (map (Sent S) vs @ Ready # es) = sci_writes es"
proof (induction vs)
  case (Cons v vs)
  then show ?case by (cases vs; cases "tl vs"; cases "tl (tl vs)") auto
qed simp

lemma cat_of_bytes: "word_cat (ucast (drop_bit 8 v) :: u8) (ucast v :: u8) = v" for v :: u16
  by (intro bit_word_eqI) (auto simp: bit_word_cat_iff bit_simps)

lemma sci_writes_write [simp]: "sci_writes (sci_write r v @ es) = (r, v) # sci_writes es"
  by (simp add: sci_write_def cat_of_bytes)

lemma paced_run: "paced (length vs + k) (map (Sent {1}) vs @ es) = paced k es"
  by (induction vs) simp_all

lemma paced_less: "paced k es \<Longrightarrow> k \<le> m \<Longrightarrow> paced m es"
  by (induction k es arbitrary: m rule: paced.induct) (auto split: if_splits)

lemma paced_write [simp]: "paced k (sci_write r v @ es) = paced 32 es"
  by (simp add: sci_write_def)

lemma sdi_stream_cases:
  obtains "sdi_stream vs = []" | es where "sdi_stream vs = Ready # es"
  by (cases "vs = []") (auto simp: sdi_stream.simps [of vs])

lemma data_bytes_stream [simp]: "data_bytes (sdi_stream vs) = vs"
  by (induction vs rule: sdi_stream.induct) (subst sdi_stream.simps, auto)

lemma one_selected_stream [simp]: "one_selected (sdi_stream vs)"
proof (induction vs rule: sdi_stream.induct)
  case (1 vs)
  then show ?case by (subst sdi_stream.simps) (auto simp: one_selected_def)
qed

lemma paced_stream: "paced k (sdi_stream vs)"
proof (induction vs arbitrary: k rule: sdi_stream.induct)
  case (1 vs)
  have "paced 32 (map (Sent {1}) (take 32 vs) @ sdi_stream (drop 32 vs))" if "vs \<noteq> []"
    using 1 [OF that, of "32 - length (take 32 vs)"]
      paced_run [of "take 32 vs" "32 - length (take 32 vs)" "sdi_stream (drop 32 vs)"] by simp
  then show ?case by (subst sdi_stream.simps) simp
qed

lemma sci_writes_short [simp]: "2 \<notin> S \<Longrightarrow> sci_writes (map (Sent S) vs) = []"
proof (induction vs)
  case (Cons v vs)
  then show ?case by (cases vs; cases "tl vs"; cases "tl (tl vs)") auto
qed simp

lemma sci_writes_Ready [simp]: "sci_writes (Ready # es) = sci_writes es"
  by simp

lemma sci_writes_stream [simp]: "sci_writes (sdi_stream vs) = []"
proof (induction vs rule: sdi_stream.induct)
  case (1 vs)
  show ?case
  proof (cases "drop 32 vs")
    case Nil
    then show ?thesis by (subst sdi_stream.simps) simp
  next
    case (Cons w ws)
    then obtain es where "sdi_stream (drop 32 vs) = Ready # es"
      by (metis list.distinct(1) sdi_stream.simps)
    with 1 show ?thesis by (subst sdi_stream.simps) auto
  qed
qed

text \<open>C16. 
  A chunk of any length that the buffer has is played: \<open>vs1003_play_chunk\<close> returns, the data
  interface of the chip receives exactly the bytes of the chunk in order, its control interface
  receives nothing, one of the two is selected for each byte, no byte goes out unless the request
  line was high within the last 32 of them, and in the end nothing is selected.
\<close>

theorem play_chunk_streams:
  assumes "vs_contract b cs log reply" and "lone (selected (cs s))" and "len \<le> length dat"
  shows "\<exists>s' new. vs1003_play_chunk b dat len s = Inr s' \<and> log s' = log s @ new
    \<and> data_bytes new = take len dat \<and> sci_writes new = [] \<and> one_selected new \<and> paced 0 new
    \<and> selected (cs s') = {}"
proof -
  obtain s' where "vs1003_play_chunk b dat len s = Inr s'" "cs s' = 0xff"
    "log s' = log s @ sdi_stream (take len dat)"
    using play_ends [OF assms] by (auto elim: endsE)
  moreover have "data_bytes (sdi_stream (take len dat)) = take len dat
      \<and> sci_writes (sdi_stream (take len dat)) = [] \<and> one_selected (sdi_stream (take len dat))
      \<and> paced 0 (sdi_stream (take len dat))"
    by (simp add: paced_stream)
  ultimately show ?thesis by (metis selected_idle)
qed

lemma sim_vs_contract: "vs_contract (sim_board reply) sim_cs sim_log reply"
proof -
  have "pin_laws (sim_board reply) sim_cs sim_log"
    by (simp add: pin_laws_def sim_board_def xDreq_def)
  then show ?thesis by (simp add: vs_contract_def spi_sim_contract)
qed

theorem play_chunk_streams_witness:
  "\<exists>s' new. vs1003_play_chunk (sim_board (\<lambda>lg. 0)) (replicate 40 7) 33 sim_start = Inr s'
    \<and> sim_log s' = new \<and> data_bytes new = replicate 33 7 \<and> sci_writes new = [] \<and> one_selected new
    \<and> paced 0 new \<and> selected (sim_cs s') = {}"
  using play_chunk_streams [OF sim_vs_contract, of sim_start 33 "replicate 40 7" "\<lambda>lg. 0"]
  by (simp add: sim_start_def)

section \<open>Setting up\<close>

definition play_init_frames :: "bus_event list" where
  "play_init_frames = concat (map (\<lambda>(r, v). sci_write r v)
     [(0xb, 0xffff), (0x5, 10), (0xb, 0xfefe), (0x5, 44101), (0xb, 0x2020), (0x0, 0x804)])
   @ [Ready] @ sci_write 0x3 0xB800 @ [Ready]"

definition record_init_frames :: "bus_event list" where
  "record_init_frames = concat (map (\<lambda>(r, v). sci_write r v)
     [(0x2, 0), (0x3, 0x4430), (0xc, 12), (0xd, 1024), (0x0, 0x3804), (0xb, 0xfefe)])"

lemma setup_view:
  assumes "vs_contract b cs log reply"
  shows "cs (spi_init b d l h s) = 0xff" and "log (spi_init b d l h s) = log s"
    and "cs (spi_set_csn b v s) = v" and "log (spi_set_csn b v s) = log s"
    and "log (spi_set_cs b 1 n s) = log s" and "log (spi_set_cs b 2 n s) = log s"
  using init_view [OF vs_spi [OF assms]] set_csn_view [OF vs_spi [OF assms]]
    set_cs_view [OF vs_spi [OF assms]] by simp_all

lemma play_init_ends:
  assumes "vs_contract b cs log reply"
  shows "ends (\<lambda>s'. cs s' = 0xff \<and> log s' = log s @ play_init_frames) (vs1003_play_mode_init b s)"
proof -
  note w = reg_write_ends [OF assms] and d = dreq_ends [OF assms]
    and v = pins_view [OF assms] setup_view [OF assms]
  show ?thesis
    unfolding vs1003_play_mode_init_def Let_def
    apply (rule ends_bind [OF w], simp add: v)+
    apply (rule ends_bind [OF d])
    apply (rule ends_bind [OF w], simp add: v)
    apply (rule ends_bind [OF d])
    apply (simp add: v play_init_frames_def sci_regs vs_consts SM_RESET_def SM_SDINEW_def)
    done
qed

lemma record_init_ends:
  assumes "vs_contract b cs log reply"
  shows "ends (\<lambda>s'. cs s' = 0xff \<and> log s' = log s @ record_init_frames) (vs1003_record_mode_init b s)"
proof -
  note w = reg_write_ends [OF assms] and v = pins_view [OF assms] setup_view [OF assms]
  show ?thesis
    unfolding vs1003_record_mode_init_def Let_def
    apply (rule ends_bind [OF w], simp add: v)+
    apply (rule ends_cong [OF w])
    apply (simp_all add: v record_init_frames_def sci_regs)
    done
qed

lemma volume_ends:
  assumes "vs_contract b cs log reply" and "lone (selected (cs s))"
  shows "ends (\<lambda>s'. cs s' = 0xff \<and> log s' = log s @ sci_write 0xb (word_cat vol vol))
    (vs1003_set_volume b vol s)"
proof -
  have "push_bit 8 (ucast vol) OR ucast vol = (word_cat vol vol :: u16)"
    by (intro bit_word_eqI) (auto simp: bit_word_cat_iff bit_simps dest: bit_imp_le_length)
  then show ?thesis
    using reg_write_ends [OF assms, of "0xb" "word_cat vol vol"]
    by (simp add: vs1003_set_volume_def SCI_VOL_def)
qed

end
