(* ===== verification/Vs1003_App.thy ===== *)
theory Vs1003_App
  imports Vs1003
begin

unbundle bit_operations_syntax

text \<open>
  Recording and playing with the VS1003: the recorder thread of
  \<open>ls2kdev_record/applications/vs1003/vs1003.c\<close> and, of \<open>vs1003_example.c\<close>, the header of a
  recorded file and the commands \<open>vs1003_record\<close>, \<open>vs1003_play_once\<close> and \<open>vs1003_play_wav\<close>. Both
  recorders drain the FIFO of the chip with the same loop, which is a function of what is done with
  a batch. The file system is a parameter; memory allocation succeeds. What
  \<open>vs1003_example.c\<close> does with a batch beside writing it to a file is in \<open>Vs1003_Filter\<close>.
\<close>

section \<open>Draining the FIFO\<close>

definition VS1003_ADPCM_BATCH_SIZE :: nat where "VS1003_ADPCM_BATCH_SIZE = 256"

text \<open>\<open>for (i = 0; i < VS1003_ADPCM_BATCH_SIZE * 2; i = i + 2)\<close>\<close>

definition read_batch :: "'s board \<Rightarrow> u8 list \<Rightarrow> 's \<Rightarrow> (u8 list \<times> 's) res" where
  "read_batch b db s =
     for_list (\<lambda>i (db, s).
       rbind (read_register b SCI_HDAT0 s) (\<lambda>(w, s).
       rbind (wr db i (ucast (drop_bit 8 w))) (\<lambda>db.
       rbind (wr db (i + 1) (ucast (w AND 0xFF))) (\<lambda>db. Inr (db, s)))))
     (map (\<lambda>k. 2 * k) [0..<VS1003_ADPCM_BATCH_SIZE]) (db, s)"

function drain_loop :: "'s board \<Rightarrow> (u8 list \<Rightarrow> 'u \<Rightarrow> 'u res) \<Rightarrow> u16 \<Rightarrow> u8 list \<Rightarrow> 'u \<Rightarrow> 's \<Rightarrow>
    (u8 list \<times> 'u \<times> 's) res" where
  "drain_loop b act t db u s =
     (if 256 \<le> t then
        if 896 \<le> t then Inr (db, u, s)
        else rbind (read_batch b db s) (\<lambda>(db, s).
          rbind (act db u) (\<lambda>u. drain_loop b act (t - 256) db u s))
      else Inr (db, u, s))"
  by pat_completeness auto
termination
  by (relation "measure (\<lambda>(b, act, t, db, u, s). unat t)")
    (auto simp: word_le_nat_alt unat_sub)

declare drain_loop.simps [simp del]

section \<open>The recorder thread\<close>

text \<open>One turn of \<open>while (1)\<close>; the callback acts on a state of its own.\<close>

definition record_thread_turn :: "'s board \<Rightarrow> (u8 list \<Rightarrow> 'u \<Rightarrow> 'u) \<Rightarrow> u8 list \<times> 'u \<times> 's \<Rightarrow> (u8 list \<times> 'u \<times> 's) res" where
  "record_thread_turn b callback_p = (\<lambda>(db, u, s).
     rbind (read_register b SCI_HDAT1 s) (\<lambda>(t, s).
     drain_loop b (\<lambda>db u. Inr (callback_p db u)) t db u s))"

text \<open>The thread never ends; these are its first \<open>n\<close> turns, from an uninitialised buffer \<open>db\<close>.\<close>

definition vs1003_start_record_thread ::
    "nat \<Rightarrow> 's board \<Rightarrow> (u8 list \<Rightarrow> 'u \<Rightarrow> 'u) \<Rightarrow> u8 list \<Rightarrow> 'u \<Rightarrow> 's \<Rightarrow> (u8 list \<times> 'u \<times> 's) res" where
  "vs1003_start_record_thread n b callback_p db u s =
     rbind (vs1003_record_mode_init b (amplifer_disable b s)) (\<lambda>s.
     for_list (\<lambda>i. record_thread_turn b callback_p) [0..<n] (db, u, s))"

section \<open>The header of a recorded file\<close>

definition header :: "u8 list" where
  "header = [
     0x52, 0x49, 0x46, 0x46, 0x1c, 0x10, 0x00, 0x00,
     0x57, 0x41, 0x56, 0x45, 0x66, 0x6d, 0x74, 0x20,
     0x14, 0x00, 0x00, 0x00, 0x11, 0x00, 0x01, 0x00,
     0x40, 0x1f, 0x00, 0x00, 0x75, 0x12, 0x00, 0x00,
     0x00, 0x01, 0x04, 0x00, 0x02, 0x00, 0xf9, 0x01,
     0x66, 0x61, 0x63, 0x74, 0x04, 0x00, 0x00, 0x00,
     0x5c, 0x1f, 0x00, 0x00, 0x64, 0x61, 0x74, 0x61,
     0xe8, 0x0f, 0x00, 0x00]"

text \<open>\<open>bit_converter.d = d; for (i = 0; i < 4; i++) header[off + i] = bit_converter.b[i];\<close>\<close>

definition put_field :: "nat \<Rightarrow> u32 \<Rightarrow> u8 list \<Rightarrow> u8 list res" where
  "put_field off d h = for_list (\<lambda>i h. wr h (off + i) (ucast (drop_bit (8 * i) d))) [0..<4] h"

text \<open>The result is the header array and what was written to the file.\<close>

definition wrtie_header :: "u8 list \<Rightarrow> u32 \<Rightarrow> u32 \<Rightarrow> (u8 list \<times> u8 list) res" where
  "wrtie_header h n fs =
     (let F = n * 256 + 52; R = fs; B = fs * 256 div 505; S = n * 505; D = n * 256 in
      rbind (put_field 4 F h) (\<lambda>h.
      rbind (put_field 24 R h) (\<lambda>h.
      rbind (put_field 28 B h) (\<lambda>h.
      rbind (put_field 48 S h) (\<lambda>h.
      rbind (put_field 56 D h) (\<lambda>h.
      Inr (h, h)))))))"

section \<open>The commands\<close>

text \<open>A batch goes to the file, and \<open>len\<close>, an \<open>int\<close>, is decremented.\<close>

definition keep_batch :: "u8 list \<Rightarrow> u8 list \<times> int \<Rightarrow> (u8 list \<times> int) res" where
  "keep_batch db = (\<lambda>(f, len). if len = - (2 ^ 31) then Inl Overflow else Inr (f @ db, len - 1))"

text \<open>\<open>while (len)\<close>; \<open>None\<close> if it runs forever.\<close>

partial_function (option) record_loop ::
    "'s board \<Rightarrow> u8 list \<Rightarrow> u8 list \<Rightarrow> int \<Rightarrow> 's \<Rightarrow> (u8 list \<times> u8 list \<times> 's) res option" where
  "record_loop b db f len s =
     (if len = 0 then Some (Inr (db, f, s))
      else case rbind (read_register b SCI_HDAT1 s) (\<lambda>(t, s). drain_loop b keep_batch t db (f, len) s) of
        Inl e \<Rightarrow> Some (Inl e)
      | Inr (db, (f, len), s) \<Rightarrow> record_loop b db f len s)"

text \<open>
  The result is the header array, the batch buffer and the file written. \<open>fopen\<close> says whether a
  file of that name can be created; the code does not test it.
\<close>

definition vs1003_record :: "'s board \<Rightarrow> (string \<Rightarrow> bool) \<Rightarrow> string list \<Rightarrow> u8 list \<Rightarrow> u8 list \<Rightarrow> 's \<Rightarrow>
    (u8 list \<times> u8 list \<times> (string \<times> u8 list) option \<times> 's) res" where
  "vs1003_record b fopen argv h db s =
     (if length argv = 3 then
        rbind (vs1003_record_mode_init b s) (\<lambda>s.
        let len = to_int32 (strtoul0 (argv ! 2)) in
        if 2 * len < - (2 ^ 31) \<or> 2 ^ 31 \<le> 2 * len then Inl Overflow
        else if \<not> fopen (argv ! 1) then Inl NullPtr
        else
          rbind (wrtie_header h (word_of_int (2 * len)) 8000) (\<lambda>(h, f).
          case record_loop b db f len s of
            None \<Rightarrow> Inl NoReturn
          | Some r \<Rightarrow> rbind r (\<lambda>(db, f, s).
              Inr (h, db, Some (argv ! 1, f), vs1003_reset b s))))
      else Inr (h, db, None, s))"

text \<open>\<open>Morse1_MP3\<close> is the array of \<open>morse1_mp3.h\<close>.\<close>

definition vs1003_play_once :: "'s board \<Rightarrow> u8 list \<Rightarrow> 's \<Rightarrow> 's res" where
  "vs1003_play_once b Morse1_MP3 s =
     rbind (vs1003_play_mode_init b s) (\<lambda>s.
     rbind (vs1003_set_volume b 0x00 s) (\<lambda>s.
     rbind (vs1003_play_chunk b Morse1_MP3 (length Morse1_MP3) s) (\<lambda>s.
     Inr (rt_mdelay b 500 s))))"

text \<open>\<open>files\<close> has the contents of a file that can be opened; the code does not test that either.\<close>

definition vs1003_play_wav :: "'s board \<Rightarrow> (string \<Rightarrow> u8 list option) \<Rightarrow> string list \<Rightarrow> 's \<Rightarrow> 's res" where
  "vs1003_play_wav b files argv s =
     (if length argv = 2 then
        case files (argv ! 1) of
          None \<Rightarrow> Inl NullPtr
        | Some fbuffer \<Rightarrow>
            rbind (vs1003_play_mode_init b s) (\<lambda>s.
            rbind (vs1003_set_volume b 0x00 s) (\<lambda>s.
            vs1003_play_chunk b fbuffer (length fbuffer) s))
      else Inr s)"

section \<open>What is recorded\<close>

text \<open>
  The samples as a function of the chip's answers alone: the words read from its FIFO, the batches
  of a turn, of which there are as many as the fill level allows (none if it is near overflow), and
  those of the first turns.
\<close>

fun sci_reads :: "(bus_event list \<Rightarrow> u8) \<Rightarrow> nat \<Rightarrow> bus_event list \<Rightarrow> u16 list \<times> bus_event list" where
  "sci_reads reply 0 lg = ([], lg)"
| "sci_reads reply (Suc n) lg =
     (let (ws, lg) = sci_reads reply n lg; (w, lg) = sci_read reply SCI_HDAT0 lg in (ws @ [w], lg))"

definition big_endian :: "u16 list \<Rightarrow> u8 list" where
  "big_endian ws = concat (map (\<lambda>w. [ucast (drop_bit 8 w), ucast w]) ws)"

fun batch_reads :: "(bus_event list \<Rightarrow> u8) \<Rightarrow> nat \<Rightarrow> bus_event list \<Rightarrow> u8 list list \<times> bus_event list" where
  "batch_reads reply 0 lg = ([], lg)"
| "batch_reads reply (Suc k) lg =
     (let (ws, lg) = sci_reads reply 256 lg; (bs, lg) = batch_reads reply k lg in (big_endian ws # bs, lg))"

definition batches :: "u16 \<Rightarrow> nat" where
  "batches t = (if 256 \<le> t \<and> t < 896 then unat t div 256 else 0)"

definition turn :: "(bus_event list \<Rightarrow> u8) \<Rightarrow> bus_event list \<Rightarrow> u8 list list \<times> bus_event list" where
  "turn reply lg = (let (t, lg) = sci_read reply SCI_HDAT1 lg in batch_reads reply (batches t) lg)"

fun turns :: "(bus_event list \<Rightarrow> u8) \<Rightarrow> nat \<Rightarrow> bus_event list \<Rightarrow> u8 list list \<times> bus_event list" where
  "turns reply 0 lg = ([], lg)"
| "turns reply (Suc n) lg =
     (let (bs, lg) = turn reply lg; (bs', lg) = turns reply n lg in (bs @ bs', lg))"

lemma sci_reads_length [simp]: "length (fst (sci_reads reply n lg)) = n"
  by (induction n arbitrary: lg) (simp_all add: Let_def split_beta)

lemma big_endian_append [simp]: "big_endian (vs @ ws) = big_endian vs @ big_endian ws"
  by (simp add: big_endian_def)

lemma big_endian_simps [simp]:
  "big_endian [] = []" "big_endian (w # ws) = ucast (drop_bit 8 w) # ucast w # big_endian ws"
  by (simp_all add: big_endian_def)

lemma big_endian_length [simp]: "length (big_endian ws) = 2 * length ws"
  by (induction ws) simp_all

lemma batch_reads_length:
  "length (fst (batch_reads reply k lg)) = k \<and> (\<forall>x\<in>set (fst (batch_reads reply k lg)). length x = 512)"
  by (induction k arbitrary: lg) (simp_all add: Let_def split_beta)

text \<open>A buffer of which the first bytes have been overwritten.\<close>

lemma overwrite_store:
  assumes "length new + 2 \<le> length old" and "m = length new"
  shows "(overwrite new old)[m := x, Suc m := y] = overwrite (new @ [x, y]) old"
  using assms
  by (auto simp: overwrite_def list_update_append Cons_nth_drop_Suc [symmetric] drop_Suc nth_append
      intro!: nth_equalityI split: nat.splits)

lemma batch_prefix_ends:
  assumes "vs_contract b cs log reply" and "lone (selected (cs s))" and "length db = 512" and "n \<le> 256"
  shows "ends (\<lambda>(db', s'). lone (selected (cs s')) \<and> log s' = snd (sci_reads reply n (log s))
      \<and> db' = overwrite (big_endian (fst (sci_reads reply n (log s)))) db)
    (for_list (\<lambda>i (db, s).
       rbind (read_register b SCI_HDAT0 s) (\<lambda>(w, s).
       rbind (wr db i (ucast (drop_bit 8 w))) (\<lambda>db.
       rbind (wr db (i + 1) (ucast (w AND 0xFF))) (\<lambda>db. Inr (db, s)))))
     (map (\<lambda>k. 2 * k) [0..<n]) (db, s))"
  using assms(4)
proof (induction n)
  case 0
  then show ?case using assms(2) by (simp add: overwrite_def)
next
  case (Suc n)
  let ?ws = "fst (sci_reads reply n (log s))"
  have n: "2 * n = length (big_endian ?ws)" by simp
  show ?case
    unfolding upt_Suc_append [OF le0] map_append for_list_append
    apply (rule ends_bind2 [OF Suc.IH])
    using Suc.prems apply simp
    apply (simp only: list.map for_list.simps prod.case rbind_assoc)
    apply (rule ends_bind2 [OF reg_read_ends [OF assms(1)]])
     apply simp
    apply (simp only: prod.case)
    subgoal premises prems for d t w u
    proof -
      have "2 * length ?ws + 2 \<le> length db" using Suc.prems assms(3) by simp
      then show ?thesis
        using prems by (simp add: overwrite_store low_byte Let_def split_beta prod_eq_iff)
    qed
    done
qed

lemma read_batch_ends:
  assumes "vs_contract b cs log reply" and "lone (selected (cs s))" and "length db = 512"
  shows "ends (\<lambda>(db', s'). lone (selected (cs s')) \<and> log s' = snd (sci_reads reply 256 (log s))
      \<and> db' = big_endian (fst (sci_reads reply 256 (log s)))) (read_batch b db s)"
  unfolding read_batch_def VS1003_ADPCM_BATCH_SIZE_def
  by (rule ends_cong [OF batch_prefix_ends [OF assms order_refl]]) (auto simp: overwrite_def assms(3))

lemma drain_unfolds:
  assumes "256 \<le> t" and "t < 896"
  shows "batches t = Suc (batches (t - 256))"
proof -
  have "unat t = unat (t - 256) + 256" using assms(1) by (simp add: unat_sub word_le_nat_alt)
  moreover have "t - 256 < 896" using assms by (simp add: word_less_nat_alt word_le_nat_alt unat_sub)
  ultimately show ?thesis using assms by (auto simp: batches_def word_le_nat_alt word_less_nat_alt)
qed

text \<open>The loop hands the batches to what is done with them, in order, and leaves a buffer of the same size.\<close>

lemma drain_hands_over:
  assumes "vs_contract b cs log reply" and "lone (selected (cs s))" and "length db = 512"
  shows "\<exists>db' s'. length db' = 512 \<and> lone (selected (cs s')) \<and> log s' = snd (batch_reads reply (batches t) (log s))
    \<and> drain_loop b act t db u s =
        rbind (for_list act (fst (batch_reads reply (batches t) (log s))) u) (\<lambda>u. Inr (db', u, s'))"
  using assms(2,3)
proof (induction "batches t" arbitrary: t db u s)
  case 0
  then have "\<not> 256 \<le> t \<or> 896 \<le> t"
    by (auto simp: batches_def word_le_nat_alt word_less_nat_alt split: if_splits)
  then have "drain_loop b act t db u s = Inr (db, u, s)"
    by (subst drain_loop.simps) auto
  with 0 show ?case by (intro exI [of _ db] exI [of _ s]) (simp add: 0(1) [symmetric])
next
  case (Suc k)
  then have t: "256 \<le> t" "t < 896" by (auto simp: batches_def split: if_splits)
  with Suc.hyps(2) have k: "k = batches (t - 256)" by (simp add: drain_unfolds)
  obtain d v where batch: "read_batch b db s = Inr (d, v)" "lone (selected (cs v))"
    "log v = snd (sci_reads reply 256 (log s))" "d = big_endian (fst (sci_reads reply 256 (log s)))"
    using read_batch_ends [OF assms(1) Suc.prems] by (auto elim: endsE)
  then have "length d = 512" by simp
  show ?case
  proof (cases "act d u")
    case (Inl e)
    obtain db' :: "u8 list" and s' where "length db' = 512" "lone (selected (cs s'))" "log s' = snd (batch_reads reply k (log v))"
      using Suc.hyps(1) [OF k batch(2) \<open>length d = 512\<close>, of u] unfolding k by blast
    moreover have "drain_loop b act t db u s = Inl e"
      using t by (subst drain_loop.simps) (auto simp: batch(1) Inl)
    ultimately show ?thesis
      using Inl batch(3,4) by (intro exI [of _ db'] exI [of _ s'])
        (simp add: Suc.hyps(2) [symmetric] Let_def split_beta)
  next
    case (Inr u')
    have "drain_loop b act t db u s = drain_loop b act (t - 256) d u' v"
      using t by (subst drain_loop.simps) (auto simp: batch(1) Inr)
    with Suc.hyps(1) [OF k batch(2) \<open>length d = 512\<close>, of u'] Inr batch(3,4) show ?thesis
      by (simp add: Suc.hyps(2) [symmetric] k [symmetric] Let_def split_beta)
  qed
qed

lemma turn_hands_over:
  assumes "vs_contract b cs log reply" and "lone (selected (cs s))" and "length db = 512"
  shows "\<exists>db' s'. length db' = 512 \<and> lone (selected (cs s')) \<and> log s' = snd (turn reply (log s))
    \<and> rbind (read_register b SCI_HDAT1 s) (\<lambda>(t, s). drain_loop b act t db u s) =
        rbind (for_list act (fst (turn reply (log s))) u) (\<lambda>u. Inr (db', u, s'))"
proof -
  obtain t v where t: "read_register b SCI_HDAT1 s = Inr (t, v)" "cs v = 0xff"
    "(t, log v) = sci_read reply SCI_HDAT1 (log s)"
    using reg_read_ends [OF assms(1,2), of SCI_HDAT1] by (auto elim: endsE)
  then have "lone (selected (cs v))" by simp
  from drain_hands_over [OF assms(1) this assms(3), of t act u] t show ?thesis
    by (simp add: turn_def t(3) [symmetric])
qed

text \<open>The callback of the recorder thread gets the batches of its turns, in order.\<close>

lemma for_list_total: "for_list (\<lambda>x u. Inr (f x u)) xs u = Inr (fold f xs u)"
  by (induction xs arbitrary: u) simp_all

lemma thread_turns:
  assumes "vs_contract b cs log reply" and "lone (selected (cs s))" and "length db = 512"
  shows "ends (\<lambda>(db', u', s'). u' = fold callback (fst (turns reply (length is) (log s))) u)
    (for_list (\<lambda>i. record_thread_turn b callback) is (db, u, s))"
  using assms(2,3)
proof (induction "is" arbitrary: db u s)
  case Nil
  then show ?case by simp
next
  case (Cons i "is")
  obtain d v where v: "length d = 512" "lone (selected (cs v))" "log v = snd (turn reply (log s))"
    "record_thread_turn b callback (db, u, s) = Inr (d, fold callback (fst (turn reply (log s))) u, v)"
    using turn_hands_over [OF assms(1) Cons.prems, of "\<lambda>db u. Inr (callback db u)" u]
    by (auto simp: record_thread_turn_def for_list_total)
  show ?case
    using Cons.IH [OF v(2,1), of "fold callback (fst (turn reply (log s))) u"]
    by (auto simp: v(3,4) Let_def split_beta elim!: ends_cong)
qed

text \<open>C19. 
  In its first \<open>n\<close> turns, for any \<open>n\<close>, the recorder thread hands its callback exactly the batches
  the chip's FIFO held, in order and each of 512 bytes, high byte first: as many per turn as the
  fill level allows, and none while the FIFO is about to overflow. It never faults or hangs.
\<close>

theorem recorder_delivers_batches:
  assumes "vs_contract b cs log reply" and "length db = 512"
  shows "\<exists>db' s'. vs1003_start_record_thread n b callback_p db u s =
      Inr (db', fold callback_p (fst (turns reply n (log s @ record_init_frames))) u, s')
    \<and> (\<forall>x\<in>set (fst (turns reply n (log s @ record_init_frames))). length x = 512)"
proof -
  obtain v where v: "vs1003_record_mode_init b (amplifer_disable b s) = Inr v" "cs v = 0xff"
    "log v = log s @ record_init_frames"
    using record_init_ends [OF assms(1), of "amplifer_disable b s"]
    by (auto simp: amplifer_disable_def pins_view [OF assms(1)] elim: endsE)
  have "\<forall>x\<in>set (fst (turns reply n lg)). length x = 512" for lg
  proof (induction n arbitrary: lg)
    case (Suc n)
    then show ?case
      using batch_reads_length by (auto simp: turn_def Let_def split_beta)
  qed simp
  moreover have "lone (selected (cs v))" using v(2) by simp
  note thread_turns [OF assms(1) this assms(2), of callback_p "[0..<n]" u]
  ultimately show ?thesis
    by (auto simp: vs1003_start_record_thread_def v elim!: endsE)
qed

text \<open>A chip that answers every byte with the same one.\<close>

lemma constant_reads:
  "fst (sci_read (\<lambda>_. r) reg lg) = word_cat r r"
  "fst (batch_reads (\<lambda>_. r) k lg) = replicate k (replicate 512 r)"
  "fst (turn (\<lambda>_. r) lg) = replicate (batches (word_cat r r)) (replicate 512 r)"
proof -
  show s: "fst (sci_read (\<lambda>_. r) reg lg) = word_cat r r" for reg lg
    by (simp add: sci_read_def Let_def)
  have w: "fst (sci_reads (\<lambda>_. r) n lg) = replicate n (word_cat r r)" for n lg
    by (induction n) (simp_all add: Let_def split_beta s replicate_append_same)
  have "(ucast (drop_bit 8 (word_cat r r :: u16)) :: u8) = r" "(ucast (word_cat r r :: u16) :: u8) = r"
    by (intro bit_word_eqI; auto simp: bit_word_cat_iff bit_simps)+
  then have "big_endian (replicate n (word_cat r r)) = replicate (2 * n) r" for n
    by (induction n) simp_all
  then show br: "fst (batch_reads (\<lambda>_. r) k lg) = replicate k (replicate 512 r)" for k lg
    by (induction k arbitrary: lg) (simp_all add: Let_def split_beta w)
  show "fst (turn (\<lambda>_. r) lg) = replicate (batches (word_cat r r)) (replicate 512 r)"
    by (simp add: turn_def split_beta s br)
qed

theorem recorder_delivers_batches_witness:
  "\<exists>db' s'. vs1003_start_record_thread 1 (sim_board (\<lambda>_. 2)) (#) (replicate 512 0) [] sim_start =
    Inr (db', [replicate 512 2, replicate 512 2], s')"
proof -
  have "batches (word_cat (2 :: u8) (2 :: u8)) = 2" by (simp add: batches_def word_cat_eq)
  then show ?thesis
    using recorder_delivers_batches [OF sim_vs_contract, of "replicate 512 0" 1 "\<lambda>_. 2" "(#)" "[]" sim_start]
    by (simp add: Let_def split_beta constant_reads numeral_2_eq_2)
qed

section \<open>When a recording ends\<close>

lemma keep_batches:
  "for_list keep_batch bs (f, len) = (if len - int (length bs) < - (2 ^ 31) \<and> - (2 ^ 31) \<le> len
     then Inl Overflow else Inr (f @ concat bs, len - int (length bs)))" if "- (2 ^ 31) \<le> len"
  using that by (induction bs arbitrary: f len) (auto simp: keep_batch_def)

text \<open>The counter is an \<open>int\<close>; the loop ends in a turn after which it is 0.\<close>

lemma record_loop_step:
  assumes "vs_contract b cs log reply" and "lone (selected (cs s))" and "length db = 512" and "- (2 ^ 31) \<le> len"
    and "len \<noteq> 0"
  shows "\<exists>db' s'. length db' = 512 \<and> lone (selected (cs s')) \<and> log s' = snd (turn reply (log s))
    \<and> record_loop b db f len s =
       (let bs = fst (turn reply (log s)) in
        if len - int (length bs) < - (2 ^ 31) then Some (Inl Overflow)
        else record_loop b db' (f @ concat bs) (len - int (length bs)) s')"
proof -
  from turn_hands_over [OF assms(1-3), of keep_batch "(f, len)"] obtain db' s' where
    t: "length db' = 512" "lone (selected (cs s'))" "log s' = snd (turn reply (log s))"
    "rbind (read_register b SCI_HDAT1 s) (\<lambda>(t, s). drain_loop b keep_batch t db (f, len) s) =
      rbind (for_list keep_batch (fst (turn reply (log s))) (f, len)) (\<lambda>u. Inr (db', u, s'))" by blast
  then have "record_loop b db f len s =
      (let bs = fst (turn reply (log s)) in
        if len - int (length bs) < - (2 ^ 31) then Some (Inl Overflow)
        else record_loop b db' (f @ concat bs) (len - int (length bs)) s')"
    using assms(4,5) by (subst record_loop.simps) (simp add: keep_batches Let_def)
  with t(1-3) show ?thesis by blast
qed

lemma record_loop_ends:
  assumes "vs_contract b cs log reply"
  shows "lone (selected (cs s)) \<Longrightarrow> length db = 512 \<Longrightarrow> int (length (fst (turns reply n (log s)))) = len \<Longrightarrow>
    \<exists>db' s'. record_loop b db f len s = Some (Inr (db', f @ concat (fst (turns reply n (log s))), s'))"
proof (induction n arbitrary: db f len s)
  case 0
  then show ?case by (simp add: record_loop.simps)
next
  case (Suc n)
  let ?bs = "fst (turn reply (log s))"
  let ?rest = "fst (turns reply n (snd (turn reply (log s))))"
  have all: "fst (turns reply (Suc n) (log s)) = ?bs @ ?rest" by (simp add: Let_def split_beta)
  show ?case
  proof (cases "len = 0")
    case True
    with Suc.prems(3) all have "fst (turns reply (Suc n) (log s)) = []" by simp
    with True show ?thesis by (simp add: record_loop.simps)
  next
    case False
    from Suc.prems(3) have len: "len - int (length ?bs) = int (length ?rest)" unfolding all by simp
    from Suc.prems(3) have "0 \<le> len" by (metis of_nat_0_le_iff)
    then have "- (2 ^ 31) \<le> len" by simp
    from record_loop_step [OF assms Suc.prems(1,2) this False, of f] obtain d v where
      v: "length d = 512" "lone (selected (cs v))" "log v = snd (turn reply (log s))"
      "record_loop b db f len s = record_loop b d (f @ concat ?bs) (int (length ?rest)) v"
      by (auto simp: Let_def len)
    from Suc.IH [OF v(2,1), of "int (length ?rest)" "f @ concat ?bs"] show ?thesis
      unfolding v(4) all by (simp add: v(3))
  qed
qed

lemma record_loop_only:
  assumes contract: "vs_contract b cs log reply"
    and run: "record_loop b db f len s = Some (Inr res)"
    and start: "lone (selected (cs s))" "length db = 512" "- (2 ^ 31) \<le> len"
  shows "\<exists>n. int (length (fst (turns reply n (log s)))) = len"
proof -
  define P where "P = (\<lambda>c db (f :: u8 list) len s (r :: (u8 list \<times> u8 list \<times> 'a) res). c = b \<longrightarrow> (\<exists>res. r = Inr res) \<longrightarrow>
    lone (selected (cs s)) \<longrightarrow> length (db :: u8 list) = 512 \<longrightarrow> - (2 ^ 31) \<le> len \<longrightarrow>
    (\<exists>n. int (length (fst (turns reply n (log s)))) = len))"
  have "P b db f len s (Inr res)"
  proof (rule record_loop.raw_induct [OF _ run])
    fix rec :: "'a board \<Rightarrow> u8 list \<Rightarrow> u8 list \<Rightarrow> int \<Rightarrow> 'a \<Rightarrow> (u8 list \<times> u8 list \<times> 'a) res option"
      and c db f len s r
    assume IH: "\<And>b db f len s r. rec b db f len s = Some r \<Longrightarrow> P b db f len s r"
      and body: "(if len = 0 then Some (Inr (db, f, s))
        else case rbind (read_register c SCI_HDAT1 s) (\<lambda>(t, s). drain_loop c keep_batch t db (f, len) s) of
          Inl e \<Rightarrow> Some (Inl e) | Inr (db, (f, len), s) \<Rightarrow> rec c db f len s) = Some r"
    show "P c db f len s r"
      unfolding P_def
    proof (intro impI)
      assume c: "c = b" and r: "\<exists>res. r = Inr res" and s: "lone (selected (cs s))"
        and db: "length db = 512" and len: "- (2 ^ 31) \<le> len"
      show "\<exists>n. int (length (fst (turns reply n (log s)))) = len"
      proof (cases "len = 0")
        case True
        then show ?thesis by (intro exI [of _ 0]) simp
      next
        case False
        let ?bs = "fst (turn reply (log s))"
        from turn_hands_over [OF contract s db, of keep_batch "(f, len)"] obtain d v where
          v: "length d = 512" "lone (selected (cs v))" "log v = snd (turn reply (log s))"
          "rbind (read_register b SCI_HDAT1 s) (\<lambda>(t, s). drain_loop b keep_batch t db (f, len) s) =
            rbind (for_list keep_batch ?bs (f, len)) (\<lambda>u. Inr (d, u, v))" by blast
        with body False len r c have more: "- (2 ^ 31) \<le> len - int (length ?bs)"
          and "rec b d (f @ concat ?bs) (len - int (length ?bs)) v = Some r"
          by (auto simp: keep_batches split: if_splits)
        from IH [OF this(2)] r v(1,2) more obtain n where
          "int (length (fst (turns reply n (log v)))) = len - int (length ?bs)"
          unfolding P_def by blast
        then show ?thesis
          by (intro exI [of _ "Suc n"]) (simp add: v(3) Let_def split_beta)
      qed
    qed
  qed
  then show ?thesis using start by (cases res) (simp add: P_def)
qed

section \<open>The recorded file\<close>

text \<open>A little-endian field, and the part of a header that is the same in every file.\<close>

definition field :: "u8 list \<Rightarrow> nat \<Rightarrow> u32" where
  "field h off = ucast (h ! off) OR push_bit 8 (ucast (h ! (off + 1))) OR push_bit 16 (ucast (h ! (off + 2)))
     OR push_bit 24 (ucast (h ! (off + 3)))"

definition fixed_part :: "nat list" where
  "fixed_part = [0..<4] @ [8..<24] @ [32..<48] @ [52..<56]"

definition header_ok :: "u8 list \<Rightarrow> bool" where
  "header_ok h \<longleftrightarrow> length h = 60 \<and> (\<forall>i\<in>set fixed_part. h ! i = header ! i)"

definition put4 :: "nat \<Rightarrow> u32 \<Rightarrow> u8 list \<Rightarrow> u8 list" where
  "put4 off d h = h[off := ucast d, off + 1 := ucast (drop_bit 8 d), off + 2 := ucast (drop_bit 16 d),
     off + 3 := ucast (drop_bit 24 d)]"

lemma put_field_eq: "off + 3 < length h \<Longrightarrow> put_field off d h = Inr (put4 off d h)"
  by (simp add: put_field_def put4_def upt_rec numeral_eq_Suc)

lemma length_put4 [simp]: "length (put4 off d h) = length h"
  by (simp add: put4_def)

lemma nth_put4 [simp]: "i < off \<or> off + 3 < i \<Longrightarrow> put4 off d h ! i = h ! i"
  by (auto simp: put4_def)

lemma word_of_bytes:
  "ucast (ucast d :: u8) OR push_bit 8 (ucast (ucast (drop_bit 8 d) :: u8))
    OR push_bit 16 (ucast (ucast (drop_bit 16 d) :: u8)) OR push_bit 24 (ucast (ucast (drop_bit 24 d) :: u8)) = d"
  for d :: u32
proof (rule bit_word_eqI)
  fix n
  assume "n < LENGTH(32)"
  then consider "n < 8" | "8 \<le> n" "n < 16" | "16 \<le> n" "n < 24" | "24 \<le> n" "n < 32" by force
  then show "bit (ucast (ucast d :: u8) OR push_bit 8 (ucast (ucast (drop_bit 8 d) :: u8))
      OR push_bit 16 (ucast (ucast (drop_bit 16 d) :: u8)) OR push_bit 24 (ucast (ucast (drop_bit 24 d) :: u8)) :: u32) n
    = bit d n"
    by cases (auto simp: bit_or_iff bit_push_bit_iff bit_ucast_iff bit_drop_bit_eq)
qed

lemma field_put4 [simp]: "off + 3 < length h \<Longrightarrow> field (put4 off d h) off = d"
  by (simp add: field_def put4_def word_of_bytes)

lemma field_other [simp]: "off + 3 < o' \<or> o' + 3 < off \<Longrightarrow> field (put4 o' d h) off = field h off"
  by (auto simp: field_def)

lemma header_written:
  assumes "header_ok h"
  shows "ends (\<lambda>(h', f). f = h' \<and> header_ok h' \<and> field h' 4 = n * 256 + 52 \<and> field h' 24 = fs
      \<and> field h' 28 = fs * 256 div 505 \<and> field h' 48 = n * 505 \<and> field h' 56 = n * 256)
    (wrtie_header h n fs)"
proof -
  have len: "length h = 60" using assms by (simp add: header_ok_def)
  have keep: "header_ok (put4 off d g)" if "header_ok g" "\<forall>i\<in>set fixed_part. i < off \<or> off + 3 < i" for off d g
    using that by (simp add: header_ok_def)
  have apart: "\<forall>off\<in>{4, 24, 28, 48, 56}. \<forall>i\<in>set fixed_part. i < off \<or> off + 3 < i"
    by (simp add: fixed_part_def ball_Un)
  have "header_ok (put4 56 z (put4 48 y (put4 28 x (put4 24 w (put4 4 v h)))))" for v w x y z
    by (intro keep assms) (use apart in blast)+
  then show ?thesis
    using len by (simp add: wrtie_header_def put_field_eq Let_def)
qed

text \<open>The command up to its loop.\<close>

lemma record_command:
  assumes "vs_contract b cs log reply" and "header_ok h" and "fopen name"
    and "to_int32 (strtoul0 arg) = int len" and "len < 2 ^ 30"
  shows "\<exists>h' v. header_ok h' \<and> field h' 4 = of_nat (512 * len + 52) \<and> field h' 24 = 8000 \<and> field h' 28 = 4055
    \<and> field h' 48 = of_nat (1010 * len) \<and> field h' 56 = of_nat (512 * len)
    \<and> lone (selected (cs v)) \<and> log v = log s @ record_init_frames
    \<and> vs1003_record b fopen [cmd, name, arg] h db s =
       (case record_loop b db h' (int len) v of None \<Rightarrow> Inl NoReturn
        | Some r \<Rightarrow> rbind r (\<lambda>(db, f, s). Inr (h', db, Some (name, f), vs1003_reset b s)))"
proof -
  obtain v where v: "vs1003_record_mode_init b s = Inr v" "cs v = 0xff" "log v = log s @ record_init_frames"
    using record_init_ends [OF assms(1), of s] by (auto elim: endsE)
  have n: "(word_of_int (2 * int len) :: u32) = 2 * of_nat len" by simp
  obtain h' where h': "wrtie_header h (2 * of_nat len) 8000 = Inr (h', h')" "header_ok h'"
    "field h' 4 = 2 * of_nat len * 256 + 52" "field h' 24 = 8000" "field h' 28 = 8000 * 256 div 505"
    "field h' 48 = 2 * of_nat len * 505" "field h' 56 = 2 * of_nat len * 256"
    using header_written [OF assms(2), of "2 * of_nat len" 8000] by (auto elim: endsE)
  have nth: "[cmd, name, arg] ! 1 = name" by simp
  have "\<not> (2 * int len < - (2 ^ 31) \<or> 2 ^ 31 \<le> 2 * int len)" using assms(5) by simp
  then have "vs1003_record b fopen [cmd, name, arg] h db s =
       (case record_loop b db h' (int len) v of None \<Rightarrow> Inl NoReturn
        | Some r \<Rightarrow> rbind r (\<lambda>(db, f, s). Inr (h', db, Some (name, f), vs1003_reset b s)))"
    using assms(3) nth by (simp add: vs1003_record_def v(1) assms(4) Let_def n h'(1) cong: option.case_cong)
  moreover have "field h' 28 = 4055" by (simp add: h'(5))
  moreover have "field h' 4 = of_nat (512 * len + 52)" "field h' 48 = of_nat (1010 * len)"
    "field h' 56 = of_nat (512 * len)"
    by (simp_all add: h'(3,6,7))
  moreover have "lone (selected (cs v))" using v(2) by simp
  ultimately show ?thesis using h'(2,4) v(3) by blast
qed

text \<open>C18. 
  The command \<open>vs1003_record\<close> for \<open>len\<close> batches returns if and only if after some number of turns
  exactly \<open>len\<close> batches have been read: a turn that reads more than are wanted leaves the loop
  condition behind.
\<close>

theorem record_returns_iff:
  assumes "vs_contract b cs log reply" and "header_ok h" and "length db = 512" and "fopen name"
    and "to_int32 (strtoul0 arg) = int len" and "len < 2 ^ 30"
  shows "(\<exists>r. vs1003_record b fopen [cmd, name, arg] h db s = Inr r)
    \<longleftrightarrow> (\<exists>n. length (fst (turns reply n (log s @ record_init_frames))) = len)"
proof -
  obtain h' v where v: "lone (selected (cs v))" "log v = log s @ record_init_frames"
    "vs1003_record b fopen [cmd, name, arg] h db s =
       (case record_loop b db h' (int len) v of None \<Rightarrow> Inl NoReturn
        | Some r \<Rightarrow> rbind r (\<lambda>(db, f, s). Inr (h', db, Some (name, f), vs1003_reset b s)))"
    using record_command [where fopen = fopen and name = name, OF assms(1,2,4-6)] by blast
  have "(\<exists>r. vs1003_record b fopen [cmd, name, arg] h db s = Inr r)
      \<longleftrightarrow> (\<exists>res. record_loop b db h' (int len) v = Some (Inr res))"
    unfolding v(3) by (auto simp: rbind_Inr_iff split: option.splits prod.splits)
  also have "\<dots> \<longleftrightarrow> (\<exists>n. length (fst (turns reply n (log v))) = len)"
    using record_loop_only [OF assms(1) _ v(1) assms(3)] record_loop_ends [OF assms(1) v(1) assms(3)]
    by fastforce
  finally show ?thesis by (simp only: v(2))
qed

theorem record_returns_iff_witness:
  "\<not> (\<exists>r. vs1003_record (sim_board (\<lambda>_. 2)) (\<lambda>_. True) [''record'', ''a'', ''1''] header (replicate 512 0)
      sim_start = Inr r)"
proof -
  have b: "batches (word_cat (2 :: u8) (2 :: u8)) = 2" by (simp add: batches_def word_cat_eq)
  have "even (length (fst (turns (\<lambda>_. 2) n lg)))" for n lg
    by (induction n arbitrary: lg) (simp_all add: Let_def split_beta constant_reads b)
  then have "\<not> (\<exists>n. length (fst (turns (\<lambda>_. 2) n (sim_log sim_start @ record_init_frames))) = 1)"
    by (metis odd_one)
  moreover have "header_ok header" by (simp add: header_ok_def header_def)
  moreover have "to_int32 (strtoul0 ''1'') = int 1"
    by (simp add: strtoul0_def strtoul_unsigned_def c_isspace_def digit_of_def Let_def to_int32_def)
  ultimately show ?thesis
    using record_returns_iff [OF sim_vs_contract, of header "replicate 512 0" "\<lambda>_. True" "''a''" "''1''" 1 "\<lambda>_. 2"
      "''record''" sim_start] by simp
qed

lemma record_file:
  assumes "vs_contract b cs log reply" and "header_ok h" and "length db = 512" and "fopen name"
    and "to_int32 (strtoul0 arg) = int len" and "len < 2 ^ 22"
    and "length (fst (turns reply n (log s @ record_init_frames))) = len"
  shows "\<exists>h' db' f s'. vs1003_record b fopen [cmd, name, arg] h db s = Inr (h', db', Some (name, f), s')
    \<and> header_ok h' \<and> f = h' @ concat (fst (turns reply n (log s @ record_init_frames)))
    \<and> length f = 60 + 512 * len \<and> unat (field f 4) = length f - 8 \<and> unat (field f 56) = length f - 60
    \<and> unat (field f 48) = 505 * (2 * len) \<and> field f 24 = 8000 \<and> field f 28 = 4055"
proof -
  have len: "len < 2 ^ 30" using assms(6) by simp
  obtain h' v where v: "lone (selected (cs v))" "log v = log s @ record_init_frames"
    "vs1003_record b fopen [cmd, name, arg] h db s =
       (case record_loop b db h' (int len) v of None \<Rightarrow> Inl NoReturn
        | Some r \<Rightarrow> rbind r (\<lambda>(db, f, s). Inr (h', db, Some (name, f), vs1003_reset b s)))"
    and h': "header_ok h'" "field h' 4 = of_nat (512 * len + 52)" "field h' 24 = 8000" "field h' 28 = 4055"
    "field h' 48 = of_nat (1010 * len)" "field h' 56 = of_nat (512 * len)"
    using record_command [where fopen = fopen and name = name, OF assms(1,2,4,5) len] by blast
  let ?bs = "fst (turns reply n (log v))" and ?f = "h' @ concat (fst (turns reply n (log v)))"
  obtain db' s' where loop: "record_loop b db h' (int len) v = Some (Inr (db', ?f, s'))"
    using record_loop_ends [OF assms(1) v(1) assms(3)] assms(7) v(2) by force
  have h60: "length h' = 60" using h'(1) by (simp add: header_ok_def)
  have "length (concat (fst (turns reply n lg))) = 512 * length (fst (turns reply n lg))" for lg
  proof (induction n arbitrary: lg)
    case (Suc n)
    have "length (concat bs) = 512 * length bs" if "\<forall>x\<in>set bs. length x = 512" for bs :: "u8 list list"
      using that by (induction bs) simp_all
    then show ?case using Suc batch_reads_length by (simp add: turn_def Let_def split_beta)
  qed simp
  then have f: "length ?f = 60 + 512 * len" using h60 assms(7) v(2) by simp
  have "field ?f off = field h' off" if "off + 3 < 60" for off
    using that h60 by (simp add: field_def nth_append)
  then have fields: "field ?f 4 = of_nat (512 * len + 52)" "field ?f 24 = 8000" "field ?f 28 = 4055"
    "field ?f 48 = of_nat (1010 * len)" "field ?f 56 = of_nat (512 * len)"
    using h' by simp_all
  have u: "unat (of_nat m :: u32) = m" if "m < 2 ^ 32" for m
    using that by (simp add: unat_of_nat)
  have "unat (field ?f 4) = length ?f - 8" "unat (field ?f 56) = length ?f - 60"
    "unat (field ?f 48) = 505 * (2 * len)"
    unfolding fields f using assms(6) u [of "512 * len + 52"] u [of "512 * len"] u [of "1010 * len"]
    by (simp_all del: of_nat_add of_nat_mult)
  then show ?thesis
    using loop f h'(1) fields(2,3) v(2,3) by simp
qed

text \<open>C7. 
  When the recording ends, the file is a header of 60 bytes and the batches read from the chip,
  in order; the lengths in the header are those of the file, of its data (512 bytes for each batch)
  and of its samples (505 for each block of 256 bytes), the rates are 8000 samples and 4055 bytes a
  second, and the header is fit for the next recording.
\<close>

theorem record_writes_wav:
  assumes "vs_contract b cs log reply" and "header_ok h" and "length db = 512" and "fopen name"
    and "to_int32 (strtoul0 arg) = int len" and "len < 2 ^ 22"
    and "length (fst (turns reply n (log s @ record_init_frames))) = len"
  shows "\<exists>h' db' f s'. vs1003_record b fopen [cmd, name, arg] h db s = Inr (h', db', Some (name, f), s')
    \<and> header_ok h' \<and> f = h' @ concat (fst (turns reply n (log s @ record_init_frames)))
    \<and> length f = 60 + 512 * len \<and> unat (field f 4) = length f - 8 \<and> unat (field f 56) = length f - 60
    \<and> unat (field f 48) = 505 * (2 * len) \<and> field f 24 = 8000 \<and> field f 28 = 4055"
  by (rule record_file [where fopen = fopen and name = name, OF assms(1-6), where s = s and n = n, OF assms(7)])

theorem record_writes_wav_witness:
  "\<exists>h' db' f s'. vs1003_record (sim_board (\<lambda>_. 1)) (\<lambda>_. True) [''record'', ''a'', ''1''] header (replicate 512 0)
      sim_start = Inr (h', db', Some (''a'', f), s')
    \<and> f = h' @ replicate 512 1 \<and> length f = 572 \<and> unat (field f 56) = 512"
proof -
  have b: "batches (word_cat (1 :: u8) (1 :: u8)) = 1" by (simp add: batches_def word_cat_eq)
  have t: "fst (turns (\<lambda>_. 1) 1 lg) = [replicate 512 1]" for lg
    by (simp add: Let_def split_beta constant_reads b)
  have "header_ok header" by (simp add: header_ok_def header_def)
  moreover have "to_int32 (strtoul0 ''1'') = int 1"
    by (simp add: strtoul0_def strtoul_unsigned_def c_isspace_def digit_of_def Let_def to_int32_def)
  moreover have "(1 :: nat) < 2 ^ 22" "True" by simp_all
  moreover have "length (fst (turns (\<lambda>_. 1) 1 (sim_log sim_start @ record_init_frames))) = 1" by (simp only: t) simp
  moreover have "length (replicate 512 (0 :: u8)) = 512" by simp
  ultimately obtain h' db' f s' where "vs1003_record (sim_board (\<lambda>_. 1)) (\<lambda>_. True) [''record'', ''a'', ''1'']
      header (replicate 512 0) sim_start = Inr (h', db', Some (''a'', f), s')"
    "f = h' @ concat (fst (turns (\<lambda>_. 1) 1 (sim_log sim_start @ record_init_frames)))"
    "length f = 60 + 512 * 1" "unat (field f 56) = length f - 60"
    using record_writes_wav [OF sim_vs_contract, where h = header and db = "replicate 512 0"
      and fopen = "\<lambda>_. True" and name = "''a''" and arg = "''1''" and len = 1 and reply = "\<lambda>_. 1" and n = 1
      and s = sim_start and cmd = "''record''"] by blast
  then show ?thesis unfolding t by simp
qed

section \<open>Playing a file\<close>

text \<open>What a player puts on the bus: the set-up, full volume, and the data.\<close>

definition played :: "u8 list \<Rightarrow> bus_event list" where
  "played dat = play_init_frames @ sci_write 0xb 0 @ sdi_stream dat"

lemma player_ends:
  assumes "vs_contract b cs log reply"
  shows "ends (\<lambda>s'. cs s' = 0xff \<and> log s' = log s @ played dat)
    (rbind (vs1003_play_mode_init b s) (\<lambda>s. rbind (vs1003_set_volume b 0x00 s) (\<lambda>s.
      vs1003_play_chunk b dat (length dat) s)))"
  apply (rule ends_bind [OF play_init_ends [OF assms]])
  apply (rule ends_bind [OF volume_ends [OF assms]])
   apply simp
  apply (rule ends_cong [OF play_ends [OF assms]])
    apply (simp_all add: played_def word_cat_eq)
  done

lemma played_facts:
  "data_bytes (played dat) = dat" "one_selected (played dat)" "paced 0 (played dat)"
  "sci_writes (played dat) = [(0xb, 0xffff), (0x5, 10), (0xb, 0xfefe), (0x5, 44101), (0xb, 0x2020),
     (0x0, 0x804), (0x3, 0xB800), (0xb, 0)]"
  by (simp_all add: played_def play_init_frames_def paced_stream)

text \<open>C12. 
  A file that can be opened is played, whatever it holds and whatever was selected before:
  \<open>vs1003_play_wav\<close> returns, the chip's registers are written in the order and with the values that
  boot it, ending in the clock of \<open>0xB800\<close>, the sample rate 44101 and full volume, its data
  interface receives exactly the bytes of the file, no more than 32 for each time the request line
  was high, and one interface is selected for every byte.
\<close>

theorem play_wav_plays_file:
  assumes "vs_contract b cs log reply" and "files name = Some fbuffer"
  shows "\<exists>s' new. vs1003_play_wav b files [cmd, name] s = Inr s' \<and> log s' = log s @ new
    \<and> sci_writes new = [(SCI_VOL, 0xffff), (SCI_AUDATA, 10), (SCI_VOL, 0xfefe), (SCI_AUDATA, 44101),
        (SCI_VOL, 0x2020), (SCI_MODE, 0x804), (SCI_CLOCKF, 0xB800), (SCI_VOL, 0)]
    \<and> data_bytes new = fbuffer \<and> paced 0 new \<and> one_selected new \<and> selected (cs s') = {}"
proof -
  obtain s' where "vs1003_play_wav b files [cmd, name] s = Inr s'" "cs s' = 0xff"
    "log s' = log s @ played fbuffer"
    using player_ends [OF assms(1), of s fbuffer] assms(2) by (auto simp: vs1003_play_wav_def elim: endsE)
  then show ?thesis
    using played_facts [of fbuffer] unfolding sci_regs
    by (intro exI [of _ s'] exI [of _ "played fbuffer"]) (simp del: sci_writes.simps)
qed

theorem play_wav_plays_file_witness:
  "\<exists>s' new. vs1003_play_wav (sim_board (\<lambda>_. 0)) [''a'' \<mapsto> [1, 2, 3]] [''play'', ''a''] sim_start = Inr s'
    \<and> sim_log s' = new \<and> data_bytes new = [1, 2, 3] \<and> paced 0 new"
  using play_wav_plays_file [OF sim_vs_contract, of "[''a'' \<mapsto> [1, 2, 3]]" "''a''" "[1, 2, 3]" "\<lambda>_. 0" "''play''"
      sim_start]
  by (force simp: sim_start_def)

end
