(* ===== verification/Ads1118.thy ===== *)
theory Ads1118
  imports Spi
begin

unbundle bit_operations_syntax

text \<open>
  The driver of the ADS1118 converter, \<open>ls2kdev_record/applications/ads1118/ads1118.c\<close> and
  \<open>ads1118.h\<close>, on the SPI driver: the configuration register with its bit-fields (the first one in
  the lowest bits, as the compiler of this little-endian machine lays them out), the setters, and
  the conversion. The scaling to millivolts is in floating point; its integer part, the sign and
  magnitude of the reading, is modelled.
\<close>

section \<open>The configuration register\<close>

record Bits =
  reserved :: u8
  noOperation :: u8
  pullUp :: u8
  sensorMode :: u8
  rate :: u8
  operatingMode :: u8
  pga :: u8
  mux :: u8
  singleStart :: u8

text \<open>A store to a bit-field of width \<open>w\<close> keeps the low bits.\<close>

definition bitfield :: "nat \<Rightarrow> u8 \<Rightarrow> u8" where
  "bitfield w v = take_bit w v"

text \<open>The register as a word, and its two bytes.\<close>

definition config_word :: "Bits \<Rightarrow> u16" where
  "config_word c = ucast (reserved c) OR push_bit 1 (ucast (noOperation c)) OR push_bit 3 (ucast (pullUp c))
     OR push_bit 4 (ucast (sensorMode c)) OR push_bit 5 (ucast (rate c)) OR push_bit 8 (ucast (operatingMode c))
     OR push_bit 9 (ucast (pga c)) OR push_bit 12 (ucast (mux c)) OR push_bit 15 (ucast (singleStart c))"

definition byte_lsb :: "Bits \<Rightarrow> u8" where "byte_lsb c = ucast (config_word c)"
definition byte_msb :: "Bits \<Rightarrow> u8" where "byte_msb c = ucast (drop_bit 8 (config_word c))"

definition RESERVED :: u8 where "RESERVED = 1"
definition VALID_CFG :: u8 where "VALID_CFG = 0b01"
definition DOUT_PULLUP :: u8 where "DOUT_PULLUP = 1"
definition DOUT_NO_PULLUP :: u8 where "DOUT_NO_PULLUP = 0"
definition ADC_MODE :: u8 where "ADC_MODE = 0"
definition CONTINUOUS :: u8 where "CONTINUOUS = 0"
definition SINGLE_SHOT :: u8 where "SINGLE_SHOT = 1"
definition START_NOW :: u8 where "START_NOW = 1"
definition DIFF_0_1 :: u8 where "DIFF_0_1 = 0b000"
definition AIN_0 :: u8 where "AIN_0 = 0b100"
definition FSR_2048 :: u8 where "FSR_2048 = 0b010"
definition FSR_0256 :: u8 where "FSR_0256 = 0b111"
definition RATE_8SPS :: u8 where "RATE_8SPS = 0b000"
definition RATE_860SPS :: u8 where "RATE_860SPS = 0b111"

lemmas ads_consts = RESERVED_def VALID_CFG_def DOUT_PULLUP_def DOUT_NO_PULLUP_def ADC_MODE_def
  CONTINUOUS_def SINGLE_SHOT_def START_NOW_def DIFF_0_1_def AIN_0_def FSR_2048_def FSR_0256_def
  RATE_8SPS_def RATE_860SPS_def

definition bits :: Bits where
  "bits = \<lparr>reserved = RESERVED, noOperation = VALID_CFG, pullUp = DOUT_PULLUP, sensorMode = ADC_MODE,
     rate = RATE_8SPS, operatingMode = SINGLE_SHOT, pga = FSR_0256, mux = DIFF_0_1, singleStart = START_NOW\<rparr>"

definition CONV_TIME :: "nat list" where "CONV_TIME = [125, 63, 32, 16, 8, 4, 3, 2]"

text \<open>The driver's globals; \<open>lastSensorMode\<close> starts as 3 and no code assigns it.\<close>

record ads_state =
  configRegister :: Bits
  lastSensorMode :: u8

section \<open>The driver\<close>

definition ads1118_begin :: "'s board \<Rightarrow> ads_state \<Rightarrow> 's \<Rightarrow> ads_state \<times> 's" where
  "ads1118_begin b g s =
     (let s = spi_set_csn b 0xff s; s = spi_init b 0xb 0x0 0x1 s in (g\<lparr>configRegister := bits\<rparr>, s))"

definition ads1118_setSamplingRate :: "u8 \<Rightarrow> ads_state \<Rightarrow> ads_state" where
  "ads1118_setSamplingRate samplingRate g =
     g\<lparr>configRegister := (configRegister g)\<lparr>rate := bitfield 3 samplingRate\<rparr>\<rparr>"

definition ads1118_setFullScaleRange :: "u8 \<Rightarrow> ads_state \<Rightarrow> ads_state" where
  "ads1118_setFullScaleRange fsr g = g\<lparr>configRegister := (configRegister g)\<lparr>pga := bitfield 3 fsr\<rparr>\<rparr>"

definition ads1118_setInputSelected :: "u8 \<Rightarrow> ads_state \<Rightarrow> ads_state" where
  "ads1118_setInputSelected input g = g\<lparr>configRegister := (configRegister g)\<lparr>mux := bitfield 3 input\<rparr>\<rparr>"

definition ads1118_setContinuousMode :: "ads_state \<Rightarrow> ads_state" where
  "ads1118_setContinuousMode g =
     g\<lparr>configRegister := (configRegister g)\<lparr>operatingMode := bitfield 1 CONTINUOUS\<rparr>\<rparr>"

definition ads1118_setSingleShotMode :: "ads_state \<Rightarrow> ads_state" where
  "ads1118_setSingleShotMode g =
     g\<lparr>configRegister := (configRegister g)\<lparr>operatingMode := bitfield 1 SINGLE_SHOT\<rparr>\<rparr>"

definition ads1118_disablePullup :: "ads_state \<Rightarrow> ads_state" where
  "ads1118_disablePullup g =
     g\<lparr>configRegister := (configRegister g)\<lparr>operatingMode := bitfield 1 DOUT_NO_PULLUP\<rparr>\<rparr>"

definition ads1118_enablePullup :: "ads_state \<Rightarrow> ads_state" where
  "ads1118_enablePullup g =
     g\<lparr>configRegister := (configRegister g)\<lparr>operatingMode := bitfield 1 DOUT_PULLUP\<rparr>\<rparr>"

text \<open>\<open>for (i = 0; i < n; i++) rt_thread_mdelay (1);\<close>\<close>

fun delay_loop :: "'s board \<Rightarrow> nat \<Rightarrow> 's \<Rightarrow> 's" where
  "delay_loop b 0 s = s"
| "delay_loop b (Suc n) s = delay_loop b n (rt_mdelay b 1 s)"

text \<open>One turn of the loop of \<open>ads1118_getADCValue\<close>, with the two data bytes.\<close>

definition adc_turn :: "'s board \<Rightarrow> Bits \<Rightarrow> 's \<Rightarrow> (u8 \<times> u8 \<times> 's) res" where
  "adc_turn b c s =
     (let s = spi_set_csn b 0xbf s in
      rbind (spi_write_for_response b (byte_msb c) s) (\<lambda>(dataMSB, s).
      rbind (spi_write_for_response b (byte_lsb c) s) (\<lambda>(dataLSB, s).
      rbind (spi_write_for_response b (byte_msb c) s) (\<lambda>(configMSB, s).
      rbind (spi_write_for_response b (byte_lsb c) s) (\<lambda>(configLSB, s).
      let s = spi_set_csn b 0xff s in
      rbind (rd CONV_TIME (unat (rate c))) (\<lambda>t.
      Inr (dataMSB, dataLSB, delay_loop b t s)))))))"

definition ads1118_getADCValue :: "'s board \<Rightarrow> u8 \<Rightarrow> ads_state \<Rightarrow> 's \<Rightarrow> (u16 \<times> ads_state \<times> 's) res" where
  "ads1118_getADCValue b inputs g s =
     (let once = (lastSensorMode g = ADC_MODE);
          c = (if once then configRegister g else (configRegister g)\<lparr>sensorMode := bitfield 1 ADC_MODE\<rparr>);
          c = c\<lparr>mux := bitfield 3 inputs\<rparr> in
      rbind (adc_turn b c s) (\<lambda>(m, l, s).
      rbind (if once then Inr (m, l, s) else adc_turn b c s) (\<lambda>(m, l, s).
      Inr (push_bit 8 (ucast m) OR ucast l, g\<lparr>configRegister := c\<rparr>, s))))"

text \<open>The sign and magnitude of \<open>ads1118_getMilliVolts\<close>, before it is scaled.\<close>

definition sign_magnitude :: "u16 \<Rightarrow> bool \<times> u16" where
  "sign_magnitude v = (if 0x8000 \<le> v then (True, NOT v + 1) else (False, v))"

text \<open>
  The test command: it sets up the converter, then takes readings of input 0 until the character
  read after one is a \<open>q\<close>. At the end of the input no character is read any more and the loop goes
  on. The result is the readings.
\<close>

fun test_loop :: "'s board \<Rightarrow> string \<Rightarrow> ads_state \<Rightarrow> 's \<Rightarrow> ((bool \<times> u16) list \<times> ads_state \<times> 's) res" where
  "test_loop b [] g s = rbind (ads1118_getADCValue b AIN_0 g s) (\<lambda>_. Inl NoReturn)"
| "test_loop b (ch # chs) g s =
     rbind (ads1118_getADCValue b AIN_0 g s) (\<lambda>(v, g, s).
     if ch = CHR ''q'' then Inr ([sign_magnitude v], g, s)
     else rbind (test_loop b chs g s) (\<lambda>(vs, g, s). Inr (sign_magnitude v # vs, g, s)))"

definition ads1118_test :: "'s board \<Rightarrow> string \<Rightarrow> ads_state \<Rightarrow> 's \<Rightarrow> ((bool \<times> u16) list \<times> ads_state \<times> 's) res" where
  "ads1118_test b chs g s =
     (case ads1118_begin b g s of (g, s) \<Rightarrow>
        let g = ads1118_setSamplingRate RATE_860SPS g;
            g = ads1118_setInputSelected AIN_0 g;
            g = ads1118_setFullScaleRange FSR_2048 g;
            g = ads1118_setContinuousMode g;
            g = ads1118_disablePullup g
        in test_loop b chs g s)"

section \<open>The fields and the word\<close>

text \<open>A value of the bit-field type: every field fits its width.\<close>

definition narrow :: "nat \<Rightarrow> u8 \<Rightarrow> bool" where
  "narrow w v \<longleftrightarrow> take_bit w v = v"

definition wf_bits :: "Bits \<Rightarrow> bool" where
  "wf_bits c \<longleftrightarrow> narrow 1 (reserved c) \<and> narrow 2 (noOperation c) \<and> narrow 1 (pullUp c) \<and> narrow 1 (sensorMode c)
     \<and> narrow 3 (rate c) \<and> narrow 1 (operatingMode c) \<and> narrow 3 (pga c) \<and> narrow 3 (mux c) \<and> narrow 1 (singleStart c)"

lemma narrow_bit: "narrow w v \<Longrightarrow> w \<le> n \<Longrightarrow> \<not> bit v n"
  unfolding narrow_def by (metis bit_take_bit_iff not_less)

lemma narrow_bitfield [simp]: "narrow w (bitfield w v)"
  by (simp add: narrow_def bitfield_def)

text \<open>The bits of a word that is put together from fields.\<close>

lemma config_bit:
  assumes "wf_bits c" and "n < 16"
  shows "bit (config_word c) n =
    (if n < 1 then bit (reserved c) n else if n < 3 then bit (noOperation c) (n - 1)
     else if n < 4 then bit (pullUp c) (n - 3) else if n < 5 then bit (sensorMode c) (n - 4)
     else if n < 8 then bit (rate c) (n - 5) else if n < 9 then bit (operatingMode c) (n - 8)
     else if n < 12 then bit (pga c) (n - 9) else if n < 15 then bit (mux c) (n - 12)
     else bit (singleStart c) (n - 15))"
proof -
  have z: "1 \<le> m \<Longrightarrow> \<not> bit (reserved c) m" "2 \<le> m \<Longrightarrow> \<not> bit (noOperation c) m" "1 \<le> m \<Longrightarrow> \<not> bit (pullUp c) m"
    "1 \<le> m \<Longrightarrow> \<not> bit (sensorMode c) m" "3 \<le> m \<Longrightarrow> \<not> bit (rate c) m" "1 \<le> m \<Longrightarrow> \<not> bit (operatingMode c) m"
    "3 \<le> m \<Longrightarrow> \<not> bit (pga c) m" "3 \<le> m \<Longrightarrow> \<not> bit (mux c) m" "1 \<le> m \<Longrightarrow> \<not> bit (singleStart c) m" for m
    using assms(1) unfolding wf_bits_def by (blast dest: narrow_bit)+
  from assms(2) have "n \<in> {15, 14, 13, 12, 11, 10, 9, 8, 7, 6, 5, 4, 3, 2, 1, 0}" by (simp, arith)
  then show ?thesis
    by (elim insertE)
      (simp_all add: config_word_def bit_or_iff bit_push_bit_iff bit_ucast_iff z del: bit_0 push_bit_Suc)
qed

lemma word_of_config: "word_cat (byte_msb c) (byte_lsb c) = config_word c"
  unfolding byte_msb_def byte_lsb_def
  by (intro bit_word_eqI) (auto simp: bit_word_cat_iff bit_ucast_iff bit_drop_bit_eq)

lemma wf_default [simp]: "wf_bits bits"
  by (simp add: wf_bits_def narrow_def bits_def ads_consts take_bit_eq_mod)

lemma wf_set:
  assumes "wf_bits c"
  shows "wf_bits (c\<lparr>rate := bitfield 3 v\<rparr>)" "wf_bits (c\<lparr>pga := bitfield 3 v\<rparr>)" "wf_bits (c\<lparr>mux := bitfield 3 v\<rparr>)"
    "wf_bits (c\<lparr>operatingMode := bitfield 1 v\<rparr>)" "wf_bits (c\<lparr>sensorMode := bitfield 1 v\<rparr>)"
  using assms by (simp_all add: wf_bits_def)

lemma bit_bitfield: "bit (bitfield w v) k \<longleftrightarrow> k < w \<and> bit v k"
  by (simp add: bitfield_def bit_take_bit_iff)

text \<open>C28. 
  The word the converter gets, bit by bit, after \<open>ads1118_begin\<close> and after each setter: the sampling
  rate goes to bits 5 to 7, the full scale range to 9 to 11, the input to 12 to 14 (each the low
  three bits of the argument), the modes clear and set bit 8, and every other bit stays; but
  \<open>ads1118_disablePullup\<close> and \<open>ads1118_enablePullup\<close> clear and set bit 8 as well and leave the
  pull-up, bit 3, alone. Every field keeps its width.
\<close>

theorem setters_write_fields:
  assumes "wf_bits (configRegister g)" and "n < 16" and "word = (\<lambda>g. config_word (configRegister g))"
  shows "word (fst (ads1118_begin b g s)) = 0x8F0B \<and> wf_bits (configRegister (fst (ads1118_begin b g s))) \<and>
    (bit (word (ads1118_setSamplingRate v g)) n \<longleftrightarrow> (if 5 \<le> n \<and> n < 8 then bit v (n - 5) else bit (word g) n)) \<and>
    (bit (word (ads1118_setFullScaleRange v g)) n \<longleftrightarrow> (if 9 \<le> n \<and> n < 12 then bit v (n - 9) else bit (word g) n)) \<and>
    (bit (word (ads1118_setInputSelected v g)) n \<longleftrightarrow> (if 12 \<le> n \<and> n < 15 then bit v (n - 12) else bit (word g) n)) \<and>
    (bit (word (ads1118_setContinuousMode g)) n \<longleftrightarrow> n \<noteq> 8 \<and> bit (word g) n) \<and>
    (bit (word (ads1118_setSingleShotMode g)) n \<longleftrightarrow> n = 8 \<or> bit (word g) n) \<and>
    (bit (word (ads1118_disablePullup g)) n \<longleftrightarrow> n \<noteq> 8 \<and> bit (word g) n) \<and>
    (bit (word (ads1118_enablePullup g)) n \<longleftrightarrow> n = 8 \<or> bit (word g) n) \<and>
    list_all (\<lambda>g'. wf_bits (configRegister g')) [ads1118_setSamplingRate v g, ads1118_setFullScaleRange v g,
      ads1118_setInputSelected v g, ads1118_setContinuousMode g, ads1118_setSingleShotMode g,
      ads1118_disablePullup g, ads1118_enablePullup g]"
proof -
  note wf = wf_set [OF assms(1)] and b = config_bit [OF assms(1,2)]
  note set_bit = config_bit [OF wf(1) assms(2)] config_bit [OF wf(2) assms(2)] config_bit [OF wf(3) assms(2)]
    config_bit [OF wf(4) assms(2)]
  have "config_word bits = 0x8F0B" by (simp add: config_word_def bits_def ads_consts)
  then have start: "word (fst (ads1118_begin b g s)) = 0x8F0B \<and> wf_bits (configRegister (fst (ads1118_begin b g s)))"
    by (simp add: assms(3) ads1118_begin_def Let_def)
  have fields: "(bit (word (ads1118_setSamplingRate v g)) n \<longleftrightarrow> (if 5 \<le> n \<and> n < 8 then bit v (n - 5) else bit (word g) n))"
    "(bit (word (ads1118_setFullScaleRange v g)) n \<longleftrightarrow> (if 9 \<le> n \<and> n < 12 then bit v (n - 9) else bit (word g) n))"
    "(bit (word (ads1118_setInputSelected v g)) n \<longleftrightarrow> (if 12 \<le> n \<and> n < 15 then bit v (n - 12) else bit (word g) n))"
    by (auto simp: assms(3) ads1118_setSamplingRate_def ads1118_setFullScaleRange_def ads1118_setInputSelected_def
        set_bit b bit_bitfield simp del: bit_0)
  have mode: "bit (config_word ((configRegister g)\<lparr>operatingMode := bitfield 1 m\<rparr>)) n \<longleftrightarrow>
      (if n = 8 then bit m 0 else bit (word g) n)" for m
    unfolding set_bit using assms(2) by (auto simp: assms(3) b bit_bitfield simp del: bit_0)
  have bits01: "\<not> bit (0 :: u8) 0" "bit (1 :: u8) 0" by simp_all
  show ?thesis
    using start fields mode [of 0] mode [of 1] wf bits01
    by (auto simp: assms(3) ads1118_setSamplingRate_def ads1118_setFullScaleRange_def ads1118_setInputSelected_def
        ads1118_setContinuousMode_def ads1118_setSingleShotMode_def ads1118_disablePullup_def
        ads1118_enablePullup_def ads_consts simp del: bit_0 One_nat_def)
qed

theorem setters_write_fields_witness:
  "bit (config_word (configRegister (ads1118_disablePullup \<lparr>configRegister = bits, lastSensorMode = 3\<rparr>))) 3"
proof -
  let ?g = "\<lparr>configRegister = bits, lastSensorMode = 3\<rparr>"
  have w: "wf_bits (configRegister ?g)" by simp
  have "bit (config_word bits) 3" by (simp add: config_word_def bits_def ads_consts)
  then have "bit (config_word (configRegister ?g)) 3" by simp
  moreover have n: "(3 :: nat) < 16" by simp
  note setters_write_fields [OF w n refl, THEN conjunct2, THEN conjunct2, THEN conjunct2, THEN conjunct2,
    THEN conjunct2, THEN conjunct2, THEN conjunct2, THEN conjunct1]
  ultimately show ?thesis by (simp only:) simp
qed

section \<open>A conversion on the bus\<close>

lemma converter_selected: "selected 0xbf = {2}"
proof -
  have "cs_bits 2 0 0xff = 0xbf" by (simp add: cs_bits_def)
  then show ?thesis using selected_cs_bits [of 2 0 "0xff"] by simp
qed

text \<open>The clock is not on the bus.\<close>

definition ads_contract ::
    "'s board \<Rightarrow> ('s \<Rightarrow> u8) \<Rightarrow> ('s \<Rightarrow> bus_event list) \<Rightarrow> (bus_event list \<Rightarrow> u8) \<Rightarrow> bool" where
  "ads_contract b cs log reply \<longleftrightarrow> spi_contract b cs log reply
     \<and> (\<forall>t s. cs (rt_mdelay b t s) = cs s \<and> log (rt_mdelay b t s) = log s)"

definition ads_frame :: "Bits \<Rightarrow> bus_event list" where
  "ads_frame c = map (Sent {2}) [byte_msb c, byte_lsb c, byte_msb c, byte_lsb c]"

text \<open>The word the converter answers the first half of a frame with.\<close>

definition ads_answer :: "(bus_event list \<Rightarrow> u8) \<Rightarrow> Bits \<Rightarrow> bus_event list \<Rightarrow> u16" where
  "ads_answer reply c lg = word_cat (reply (lg @ [Sent {2} (byte_msb c)]))
     (reply (lg @ [Sent {2} (byte_msb c), Sent {2} (byte_lsb c)]))"

lemma delay_view:
  assumes "ads_contract b cs log reply"
  shows "cs (delay_loop b n s) = cs s" and "log (delay_loop b n s) = log s"
  using assms by (induction n arbitrary: s) (simp_all add: ads_contract_def)

lemma narrow_less: "narrow k v \<Longrightarrow> unat v < 2 ^ k"
  unfolding narrow_def by (metis take_bit_nat_less_exp unsigned_take_bit_eq)

lemma turn_ends:
  assumes "ads_contract b cs log reply" and "wf_bits c"
  shows "ends (\<lambda>(m, l, s'). cs s' = 0xff \<and> log s' = log s @ ads_frame c
      \<and> push_bit 8 (ucast m) OR ucast l = ads_answer reply c (log s)) (adc_turn b c s)"
proof -
  have spi: "spi_contract b cs log reply" using assms(1) by (simp add: ads_contract_def)
  have "unat (rate c) < length CONV_TIME"
    using assms(2) narrow_less [of 3 "rate c"] by (simp add: wf_bits_def CONV_TIME_def)
  then have rate: "rd CONV_TIME (unat (rate c)) = Inr (CONV_TIME ! unat (rate c))" by simp
  have "push_bit 8 (ucast m) OR ucast l = (word_cat m l :: u16)" for m l :: u8
    by (intro bit_word_eqI) (auto simp: bit_word_cat_iff bit_simps dest: bit_imp_le_length)
  then show ?thesis
    unfolding adc_turn_def Let_def rate rbind_simps
    apply -
    apply ((rule ends_bind2 [OF spi.exchange_ends [OF spi]], simp only: prod.case)+)
    apply (simp add: set_csn_view [OF spi] delay_view [OF assms(1)] ads_frame_def ads_answer_def converter_selected)
    done
qed

text \<open>The configuration of a conversion of one input.\<close>

definition adc_config :: "u8 \<Rightarrow> ads_state \<Rightarrow> Bits" where
  "adc_config inputs g = (configRegister g)\<lparr>sensorMode := 0, mux := bitfield 3 inputs\<rparr>"

lemma wf_adc_config: "wf_bits (configRegister g) \<Longrightarrow> wf_bits (adc_config inputs g)"
  by (simp add: adc_config_def wf_bits_def narrow_def bitfield_def)

lemma conversion:
  assumes "ads_contract b cs log reply" and "wf_bits (configRegister g)" and "lastSensorMode g = 3"
  shows "\<exists>s'. ads1118_getADCValue b inputs g s =
      Inr (ads_answer reply (adc_config inputs g) (log s @ ads_frame (adc_config inputs g)),
        g\<lparr>configRegister := adc_config inputs g\<rparr>, s')
    \<and> log s' = log s @ ads_frame (adc_config inputs g) @ ads_frame (adc_config inputs g)
    \<and> selected (cs s') = {} \<and> wf_bits (adc_config inputs g)"
proof -
  let ?c = "adc_config inputs g"
  note wf = wf_adc_config [OF assms(2), of inputs]
  obtain m l t where t: "adc_turn b ?c s = Inr (m, l, t)" "log t = log s @ ads_frame ?c"
    using turn_ends [OF assms(1) wf, of s] by (auto elim: endsE)
  obtain m' l' s' where s': "adc_turn b ?c t = Inr (m', l', s')" "log s' = log t @ ads_frame ?c" "cs s' = 0xff"
    "push_bit 8 (ucast m') OR ucast l' = ads_answer reply ?c (log t)"
    using turn_ends [OF assms(1) wf, of t] by (auto elim: endsE)
  have "(configRegister g)\<lparr>sensorMode := bitfield 1 ADC_MODE\<rparr>\<lparr>mux := bitfield 3 inputs\<rparr> = ?c"
    by (simp add: adc_config_def bitfield_def ADC_MODE_def)
  moreover have "lastSensorMode g \<noteq> ADC_MODE" using assms(3) by (simp add: ADC_MODE_def)
  ultimately have "ads1118_getADCValue b inputs g s =
      Inr (ads_answer reply ?c (log t), g\<lparr>configRegister := ?c\<rparr>, s')"
    by (simp only: ads1118_getADCValue_def Let_def if_False t(1) s'(1,4) rbind_simps prod.case)
  then show ?thesis using s'(2,3) t(2) wf by simp
qed

text \<open>C27. 
  A conversion returns: since the last mode is never recorded it always takes two frames of four
  bytes, each the configuration word twice, high byte first, in external mode and for the input
  asked for, under chip select 2 and no other (the control select of the VS1003); the result is the
  answer to the first half of the second frame, and the configuration stays well-formed.
\<close>

theorem adc_value_takes_two_frames:
  assumes "ads_contract b cs log reply" and "wf_bits (configRegister g)" and "lastSensorMode g = 3"
  shows "\<exists>s'. ads1118_getADCValue b inputs g s =
      Inr (ads_answer reply (adc_config inputs g) (log s @ ads_frame (adc_config inputs g)),
        g\<lparr>configRegister := adc_config inputs g\<rparr>, s')
    \<and> log s' = log s @ ads_frame (adc_config inputs g) @ ads_frame (adc_config inputs g)
    \<and> selected (cs s') = {} \<and> wf_bits (adc_config inputs g)"
  by (rule conversion [OF assms])

lemma sim_ads_contract: "ads_contract (sim_board reply) sim_cs sim_log reply"
  by (simp add: ads_contract_def spi_sim_contract) (simp add: sim_board_def)

theorem adc_value_takes_two_frames_witness:
  "\<exists>g' s'. ads1118_getADCValue (sim_board (\<lambda>lg. of_nat (length lg))) AIN_0
      \<lparr>configRegister = bits, lastSensorMode = 3\<rparr> sim_start = Inr (0x0506, g', s') \<and> length (sim_log s') = 8"
proof -
  let ?g = "\<lparr>configRegister = bits, lastSensorMode = 3\<rparr>"
  have "ads_answer (\<lambda>lg. of_nat (length lg)) c (sim_log sim_start @ ads_frame c) = 0x0506" for c
    by (simp add: ads_answer_def ads_frame_def sim_start_def word_cat_eq)
  then show ?thesis
    using adc_value_takes_two_frames [OF sim_ads_contract, where g = ?g and inputs = AIN_0 and reply = "\<lambda>lg. of_nat (length lg)" and s = sim_start]
    by (auto simp: sim_start_def ads_frame_def)
qed

text \<open>The two's-complement reading is its sign and magnitude.\<close>

lemma sign_magnitude_value:
  "sint v = (if fst (sign_magnitude v) then - int (unat (snd (sign_magnitude v)))
     else int (unat (snd (sign_magnitude v))))"
proof -
  let ?u = "uint v"
  have u: "0 \<le> ?u" "?u < 65536" using uint_lt2p [of v] by simp_all
  have s: "sint v = (?u + 32768) mod 65536 - 32768"
    by (simp add: sint_uint signed_take_bit_eq_take_bit_shift take_bit_eq_mod)
  have neg: "int (unat (NOT v + 1)) = (- ?u) mod 65536"
    by (simp add: minus_eq_not_plus_1 [symmetric] uint_word_ariths)
  show ?thesis
  proof (cases "0x8000 \<le> v")
    case True
    then have "32768 \<le> ?u" by (simp add: word_le_def)
    moreover have "(?u + 32768) mod 65536 = ?u - 32768"
      using mod_add_self2 [of "?u - 32768" 65536] u \<open>32768 \<le> ?u\<close> by (simp add: mod_pos_pos_trivial add.commute)
    moreover have "(- ?u) mod 65536 = 65536 - ?u"
      using u \<open>32768 \<le> ?u\<close> by (simp add: zmod_zminus1_eq_if mod_pos_pos_trivial)
    moreover have "sign_magnitude v = (True, NOT v + 1)" using True by (simp add: sign_magnitude_def)
    ultimately show ?thesis by (simp only: s neg fst_conv snd_conv if_True)
  next
    case False
    then have "?u < 32768" by (simp add: word_le_def)
    with u(1) have "(?u + 32768) mod 65536 = ?u + 32768" by (simp add: mod_pos_pos_trivial)
    with False show ?thesis by (simp add: sign_magnitude_def s)
  qed
qed

section \<open>The test command\<close>

text \<open>The readings of a number of conversions, each the answer after the frames before it.\<close>

definition nth_reading :: "(bus_event list \<Rightarrow> u8) \<Rightarrow> Bits \<Rightarrow> bus_event list \<Rightarrow> nat \<Rightarrow> u16" where
  "nth_reading reply c lg k = ads_answer reply c (lg @ concat (replicate (2 * k + 1) (ads_frame c)))"

lemma nth_reading_Suc: "nth_reading reply c lg (Suc k) = nth_reading reply c (lg @ ads_frame c @ ads_frame c) k"
  by (simp add: nth_reading_def)

lemma test_loop_ends:
  assumes "ads_contract b cs log reply"
  shows "wf_bits (configRegister g) \<Longrightarrow> lastSensorMode g = 3 \<Longrightarrow> CHR ''q'' \<notin> set chs \<Longrightarrow>
    ends (\<lambda>(vs, g', s'). vs = map (\<lambda>k. sign_magnitude (nth_reading reply (adc_config AIN_0 g) (log s) k)) [0..<Suc (length chs)]
        \<and> log s' = log s @ concat (replicate (2 * Suc (length chs)) (ads_frame (adc_config AIN_0 g))))
      (test_loop b (chs @ CHR ''q'' # rest) g s)"
proof (induction chs arbitrary: g s)
  case Nil
  from conversion [OF assms Nil(1,2), of AIN_0 s] show ?case
    by (auto simp: nth_reading_def numeral_2_eq_2)
next
  case (Cons ch chs)
  let ?c = "adc_config AIN_0 g" and ?g = "g\<lparr>configRegister := adc_config AIN_0 g\<rparr>"
  obtain t where t: "ads1118_getADCValue b AIN_0 g s = Inr (nth_reading reply ?c (log s) 0, ?g, t)"
    "log t = log s @ ads_frame ?c @ ads_frame ?c"
    using conversion [OF assms Cons.prems(1,2), of AIN_0 s] by (auto simp: nth_reading_def)
  have c: "adc_config AIN_0 ?g = ?c" by (simp add: adc_config_def)
  have "[0..<Suc (Suc (length chs))] = 0 # map Suc [0..<Suc (length chs)]"
    using upt_conv_Cons [of 0 "Suc (Suc (length chs))"] map_Suc_upt [of 0 "Suc (length chs)"] by simp
  then have readings: "map (\<lambda>k. sign_magnitude (nth_reading reply ?c (log s) k)) [0..<Suc (length (ch # chs))]
      = sign_magnitude (nth_reading reply ?c (log s) 0)
        # map (\<lambda>k. sign_magnitude (nth_reading reply ?c (log t) k)) [0..<Suc (length chs)]"
    by (simp only: list.map list.size add_Suc_right add_0_right map_map o_def nth_reading_Suc t(2))
  have step: "test_loop b ((ch # chs) @ CHR ''q'' # rest) g s =
      rbind (test_loop b (chs @ CHR ''q'' # rest) ?g t)
        (\<lambda>(vs, g, s). Inr (sign_magnitude (nth_reading reply ?c (log s') 0) # vs, g, s))"
    if "log s' = log s" for s'
    using Cons.prems(3) t(1) that by auto
  have "wf_bits (configRegister ?g)" "lastSensorMode ?g = 3" "CHR ''q'' \<notin> set chs"
    using Cons.prems wf_adc_config by simp_all
  from Cons.IH [OF this, of t] show ?case
    unfolding step [OF refl] readings c
    by (rule ends_bind3) (simp add: t(2))
qed

text \<open>
  The test command takes a reading for every character up to and including the first \<open>q\<close> and then
  ends, in whatever state the driver's configuration was: each reading is two frames of the word
  \<open>0xC4EB\<close> (input 0, 860 samples a second, 2.048 V, continuous), twice per frame, and nothing else
  goes out.
\<close>

theorem test_reads_until_quit:
  assumes "ads_contract b cs log reply" and "lastSensorMode g = 3" and "CHR ''q'' \<notin> set chs"
  shows "\<exists>vs g' s'. ads1118_test b (chs @ CHR ''q'' # rest) g s = Inr (vs, g', s')
    \<and> length vs = Suc (length chs)
    \<and> log s' = log s @ concat (replicate (2 * Suc (length chs)) (map (Sent {2}) [0xC4, 0xEB, 0xC4, 0xEB]))"
proof -
  have spi: "spi_contract b cs log reply" using assms(1) by (simp add: ads_contract_def)
  define g1 where "g1 = ads1118_disablePullup (ads1118_setContinuousMode (ads1118_setFullScaleRange FSR_2048
    (ads1118_setInputSelected AIN_0 (ads1118_setSamplingRate RATE_860SPS (g\<lparr>configRegister := bits\<rparr>)))))"
  obtain t where t: "ads1118_begin b g s = (g\<lparr>configRegister := bits\<rparr>, t)" "log t = log s"
    by (simp add: ads1118_begin_def Let_def init_view [OF spi] set_csn_view [OF spi])
  have c: "configRegister g1 = bits\<lparr>rate := 7, mux := 4, pga := 2, operatingMode := 0\<rparr>"
    by (simp add: g1_def ads1118_disablePullup_def ads1118_setContinuousMode_def ads1118_setFullScaleRange_def
        ads1118_setInputSelected_def ads1118_setSamplingRate_def bitfield_def ads_consts take_bit_eq_mod)
  have wf: "wf_bits (configRegister g1)"
    by (simp add: c wf_bits_def narrow_def bits_def ads_consts take_bit_eq_mod)
  have g1: "lastSensorMode g1 = 3"
    using assms(2) by (simp add: g1_def ads1118_disablePullup_def ads1118_setContinuousMode_def
        ads1118_setFullScaleRange_def ads1118_setInputSelected_def ads1118_setSamplingRate_def)
  have "config_word (adc_config AIN_0 g1) = 0xC4EB"
    by (simp add: adc_config_def c config_word_def bits_def ads_consts bitfield_def take_bit_eq_mod)
  then have frame: "ads_frame (adc_config AIN_0 g1) = map (Sent {2}) [0xC4, 0xEB, 0xC4, 0xEB]"
    by (simp add: ads_frame_def byte_msb_def byte_lsb_def)
  have "ads1118_test b (chs @ CHR ''q'' # rest) g s = test_loop b (chs @ CHR ''q'' # rest) g1 t"
    by (simp add: ads1118_test_def t(1) g1_def Let_def)
  with test_loop_ends [OF assms(1) wf g1 assms(3), of t rest] show ?thesis
    unfolding frame t(2) by (auto elim!: endsE simp del: replicate.simps)
qed

theorem test_reads_until_quit_witness:
  "\<exists>vs g' s'. ads1118_test (sim_board (\<lambda>_. 0)) ''aq'' \<lparr>configRegister = bits, lastSensorMode = 3\<rparr> sim_start = Inr (vs, g', s')
    \<and> length vs = 2 \<and> length (sim_log s') = 16"
  using test_reads_until_quit [OF sim_ads_contract, of "\<lparr>configRegister = bits, lastSensorMode = 3\<rparr>" "''a''"
      "\<lambda>_. 0" "[]" sim_start]
  by (force simp: sim_start_def numeral_2_eq_2)

end
