(* ===== verification/Uart.thy ===== *)
theory Uart
  imports Mmio Interrupt
begin

unbundle bit_operations_syntax

text \<open>
  The serial driver \<open>drivers/drv_uart.c\<close> of both trees: set-up, interrupt control, sending and
  receiving a character, the interrupt handler, and the installation of the handler, which is for
  one port in the player and for two in the recorder. The port's registers are a parameter, as are
  the address map \<open>CKSEG1ADDR\<close> and RT-Thread's \<open>rt_hw_serial_isr\<close>; registering the port with
  RT-Thread is left out.
\<close>

section \<open>Registers and constants\<close>

record rt_uart_ls2k =
  uart_base :: u64
  IRQ :: nat

definition UARTx_BASE :: "(u64 \<Rightarrow> u64) \<Rightarrow> u64 \<Rightarrow> u64" where
  "UARTx_BASE CKSEG1ADDR x = CKSEG1ADDR 0xbfe00000 OR push_bit 12 0x0 OR push_bit 8 x"

definition UART_DAT :: "u64 \<Rightarrow> u64" where "UART_DAT a = a + 0x00"
definition UART_IER :: "u64 \<Rightarrow> u64" where "UART_IER a = a + 0x01"
definition UART_IIR :: "u64 \<Rightarrow> u64" where "UART_IIR a = a + 0x02"
definition UART_FCR :: "u64 \<Rightarrow> u64" where "UART_FCR a = a + 0x02"
definition UART_LCR :: "u64 \<Rightarrow> u64" where "UART_LCR a = a + 0x03"
definition UART_MCR :: "u64 \<Rightarrow> u64" where "UART_MCR a = a + 0x04"
definition UART_LSR :: "u64 \<Rightarrow> u64" where "UART_LSR a = a + 0x05"
definition UART_MSR :: "u64 \<Rightarrow> u64" where "UART_MSR a = a + 0x06"
definition IER_IRxE :: u8 where "IER_IRxE = 0x1"
definition IER_ILE :: u8 where "IER_ILE = 0x4"
definition IIR_RXTOUT :: u8 where "IIR_RXTOUT = 0xc"
definition IIR_RLS :: u8 where "IIR_RLS = 0x6"
definition IIR_RXRDY :: u8 where "IIR_RXRDY = 0x4"
definition LSR_RXRDY :: u8 where "LSR_RXRDY = 0x01"
definition UARTLSR_TE :: u8 where "UARTLSR_TE = push_bit 6 1"
definition UARTLSR_TFE :: u8 where "UARTLSR_TFE = push_bit 5 1"
definition LS2K_UART_0_1_2_3_IRQ :: nat where "LS2K_UART_0_1_2_3_IRQ = 0"
definition LS2K_UART_4_5_6_7_IRQ :: nat where "LS2K_UART_4_5_6_7_IRQ = 1"

lemmas iir_codes = IIR_RXTOUT_def IIR_RLS_def IIR_RXRDY_def

section \<open>The driver\<close>

definition ls2k_uart_configure :: "'s mmio \<Rightarrow> rt_uart_ls2k \<Rightarrow> 's \<Rightarrow> int \<times> 's" where
  "ls2k_uart_configure d uart_dev s =
     (let a = uart_base uart_dev;
          s = write8 d (UART_IER a) 0 s;
          s = write8 d (UART_FCR a) 0xc1 s;
          s = write8 d (UART_LCR a) 0x3 s;
          s = write8 d (UART_MCR a) 0x3 s;
          s = write8 d (UART_LSR a) 0x60 s;
          s = write8 d (UART_MSR a) 0xb0 s
      in (0, s))"

datatype device_ctrl = RT_DEVICE_CTRL_CLR_INT | RT_DEVICE_CTRL_SET_INT | RT_DEVICE_CTRL_OTHER

definition ls2k_uart_control ::
    "'s mmio \<Rightarrow> rt_uart_ls2k \<Rightarrow> device_ctrl \<Rightarrow> ('p, 'q) intc \<Rightarrow> 's \<Rightarrow> int \<times> ('p, 'q) intc \<times> 's" where
  "ls2k_uart_control d uart_dev cmd c s =
     (case cmd of
        RT_DEVICE_CTRL_CLR_INT \<Rightarrow> (0, rt_hw_interrupt_mask (IRQ uart_dev) c, s)
      | RT_DEVICE_CTRL_SET_INT \<Rightarrow>
          let c = rt_hw_interrupt_umask (IRQ uart_dev) c;
              (v, s) = read8 d (UART_IER (uart_base uart_dev)) s;
              s = write8 d (UART_IER (uart_base uart_dev)) (v OR (IER_IRxE OR IER_ILE)) s
          in (0, c, s)
      | RT_DEVICE_CTRL_OTHER \<Rightarrow> (0, c, s))"

definition uart_is_transmit_empty :: "'s mmio \<Rightarrow> rt_uart_ls2k \<Rightarrow> 's \<Rightarrow> bool \<times> 's" where
  "uart_is_transmit_empty d uart_dev s =
     (case read8 d (UART_LSR (uart_base uart_dev)) s of (v, s) \<Rightarrow>
        (v AND (UARTLSR_TE OR UARTLSR_TFE) \<noteq> 0, s))"

text \<open>\<open>while (FALSE == uart_is_transmit_empty (uart_dev));\<close>\<close>

partial_function (option) putc_wait :: "'s mmio \<Rightarrow> rt_uart_ls2k \<Rightarrow> 's \<Rightarrow> 's option" where
  "putc_wait d uart_dev s =
     (case uart_is_transmit_empty d uart_dev s of (e, s') \<Rightarrow> if e then Some s' else putc_wait d uart_dev s')"

definition ls2k_uart_putc :: "'s mmio \<Rightarrow> rt_uart_ls2k \<Rightarrow> u8 \<Rightarrow> 's \<Rightarrow> (int \<times> 's) res" where
  "ls2k_uart_putc d uart_dev ch s =
     rbind (returning (putc_wait d uart_dev s)) (\<lambda>s.
     Inr (1, write8 d (UART_DAT (uart_base uart_dev)) ch s))"

definition ls2k_uart_getc :: "'s mmio \<Rightarrow> rt_uart_ls2k \<Rightarrow> 's \<Rightarrow> int \<times> 's" where
  "ls2k_uart_getc d uart_dev s =
     (case read8 d (UART_LSR (uart_base uart_dev)) s of (v, s) \<Rightarrow>
        if LSR_RXRDY AND v \<noteq> 0 then
          case read8 d (UART_DAT (uart_base uart_dev)) s of (x, s) \<Rightarrow> (uint x, s)
        else (-1, s))"

text \<open>The parameter of the handler is the port; RT-Thread's handler works on the port and the system.\<close>

definition uart_irq_handler ::
    "'s mmio \<Rightarrow> (rt_uart_ls2k \<Rightarrow> 's \<Rightarrow> 's) \<Rightarrow> (rt_uart_ls2k, 's) isr_handler" where
  "uart_irq_handler d rt_hw_serial_isr vector p s =
     (case p of
        None \<Rightarrow> Inl NullPtr
      | Some uart_dev \<Rightarrow>
          case read8 d (UART_IIR (uart_base uart_dev)) s of (iir, s) \<Rightarrow>
            Inr (if IIR_RXTOUT AND iir \<noteq> 0 \<or> IIR_RXRDY AND iir \<noteq> 0 then rt_hw_serial_isr uart_dev s else s))"

definition uart_dev0 :: "(u64 \<Rightarrow> u64) \<Rightarrow> rt_uart_ls2k" where
  "uart_dev0 CKSEG1ADDR = \<lparr>uart_base = UARTx_BASE CKSEG1ADDR 0, IRQ = LS2K_UART_0_1_2_3_IRQ\<rparr>"

definition uart_dev4 :: "(u64 \<Rightarrow> u64) \<Rightarrow> rt_uart_ls2k" where
  "uart_dev4 CKSEG1ADDR = \<lparr>uart_base = UARTx_BASE CKSEG1ADDR 4, IRQ = LS2K_UART_4_5_6_7_IRQ\<rparr>"

definition install_uart ::
    "'s mmio \<Rightarrow> (rt_uart_ls2k \<Rightarrow> 's \<Rightarrow> 's) \<Rightarrow> rt_uart_ls2k \<Rightarrow> (rt_uart_ls2k, 's) intc \<Rightarrow> (rt_uart_ls2k, 's) intc" where
  "install_uart d rt_hw_serial_isr uart c =
     snd (rt_hw_interrupt_install (int (IRQ uart)) (Some (uart_irq_handler d rt_hw_serial_isr)) (Some uart) c)"

text \<open>The two trees.\<close>

definition play_uart_init ::
    "'s mmio \<Rightarrow> (rt_uart_ls2k \<Rightarrow> 's \<Rightarrow> 's) \<Rightarrow> (u64 \<Rightarrow> u64) \<Rightarrow> (rt_uart_ls2k, 's) intc \<Rightarrow> (rt_uart_ls2k, 's) intc" where
  "play_uart_init d rt_hw_serial_isr ck c = install_uart d rt_hw_serial_isr (uart_dev0 ck) c"

definition rt_hw_uart_init ::
    "'s mmio \<Rightarrow> (rt_uart_ls2k \<Rightarrow> 's \<Rightarrow> 's) \<Rightarrow> (u64 \<Rightarrow> u64) \<Rightarrow> (rt_uart_ls2k, 's) intc \<Rightarrow> (rt_uart_ls2k, 's) intc" where
  "rt_hw_uart_init d rt_hw_serial_isr ck c =
     install_uart d rt_hw_serial_isr (uart_dev4 ck) (install_uart d rt_hw_serial_isr (uart_dev0 ck) c)"

section \<open>Characters\<close>

text \<open>
  The contract of a port: the status register shows whether a character was received and, in the
  end, that one can be sent; a character written then goes out, and those received are read in
  order. A character written too early may be lost.
\<close>

definition uart_contract ::
    "'s mmio \<Rightarrow> rt_uart_ls2k \<Rightarrow> ('s \<Rightarrow> bool) \<Rightarrow> ('s \<Rightarrow> u8 list) \<Rightarrow> ('s \<Rightarrow> u8 list) \<Rightarrow> bool" where
  "uart_contract d u ready sent pending \<longleftrightarrow>
     (\<exists>rank :: 's \<Rightarrow> nat. \<forall>s. let (v, s') = read8 d (UART_LSR (uart_base u)) s in
        sent s' = sent s \<and> pending s' = pending s \<and> (bit v 0 \<longleftrightarrow> pending s \<noteq> [])
        \<and> (if bit v 5 \<or> bit v 6 then ready s' else rank s' < rank s))
     \<and> (\<forall>s v. ready s \<longrightarrow> sent (write8 d (UART_DAT (uart_base u)) v s) = sent s @ [v]
          \<and> pending (write8 d (UART_DAT (uart_base u)) v s) = pending s)
     \<and> (\<forall>s x xs. pending s = x # xs \<longrightarrow>
          (let (v, s') = read8 d (UART_DAT (uart_base u)) s in v = x \<and> pending s' = xs \<and> sent s' = sent s))"

lemma nonzero_bit: "w \<noteq> 0 \<longleftrightarrow> (\<exists>k. bit w k)" for w :: u8
  by (metis bit_0_eq bot_apply bot_bool_def bit_eqI)

lemma flag_bits:
  "LSR_RXRDY AND v \<noteq> 0 \<longleftrightarrow> bit v 0" "v AND (UARTLSR_TE OR UARTLSR_TFE) \<noteq> 0 \<longleftrightarrow> bit v 5 \<or> bit v 6"
proof -
  have "bit (LSR_RXRDY AND v) k \<longleftrightarrow> k = 0 \<and> bit v 0" for k
    by (auto simp: LSR_RXRDY_def bit_and_iff bit_1_iff)
  then show "LSR_RXRDY AND v \<noteq> 0 \<longleftrightarrow> bit v 0" by (simp add: nonzero_bit del: bit_0)
  have "bit (v AND (UARTLSR_TE OR UARTLSR_TFE)) k \<longleftrightarrow> (k = 5 \<or> k = 6) \<and> bit v k" for k
    unfolding UARTLSR_TE_def UARTLSR_TFE_def
    by (auto simp: bit_and_iff bit_or_iff bit_push_bit_iff bit_1_iff simp del: push_bit_of_1)
  then show "v AND (UARTLSR_TE OR UARTLSR_TFE) \<noteq> 0 \<longleftrightarrow> bit v 5 \<or> bit v 6" by (auto simp: nonzero_bit)
qed

lemma status_view:
  assumes "uart_contract d u ready sent pending" and "read8 d (UART_LSR (uart_base u)) s = (v, t)"
  shows "sent t = sent s" and "pending t = pending s" and "bit v 0 \<longleftrightarrow> pending s \<noteq> []"
proof -
  obtain rank :: "'a \<Rightarrow> nat" where "\<forall>s. let (v, s') = read8 d (UART_LSR (uart_base u)) s in
        sent s' = sent s \<and> pending s' = pending s \<and> (bit v 0 \<longleftrightarrow> pending s \<noteq> [])
        \<and> (if bit v 5 \<or> bit v 6 then ready s' else rank s' < rank s)"
    using assms(1) by (auto simp: uart_contract_def)
  from this [rule_format, of s] show "sent t = sent s" and "pending t = pending s" and "bit v 0 \<longleftrightarrow> pending s \<noteq> []"
    unfolding assms(2) Let_def prod.case by blast+
qed

lemma data_read:
  assumes "uart_contract d u ready sent pending" and "pending s = x # xs"
  shows "\<exists>t. read8 d (UART_DAT (uart_base u)) s = (x, t) \<and> pending t = xs \<and> sent t = sent s"
proof -
  obtain w t where w: "read8 d (UART_DAT (uart_base u)) s = (w, t)" by fastforce
  from assms(1) have "\<forall>s x xs. pending s = x # xs \<longrightarrow>
      (let (v, s') = read8 d (UART_DAT (uart_base u)) s in v = x \<and> pending s' = xs \<and> sent s' = sent s)"
    by (simp add: uart_contract_def)
  from this [rule_format, OF assms(2)] show ?thesis unfolding w Let_def prod.case by blast
qed

lemma putc_ends:
  assumes "uart_contract d u ready sent pending"
  shows "ends (\<lambda>(r, s'). r = 1 \<and> sent s' = sent s @ [c] \<and> pending s' = pending s) (ls2k_uart_putc d u c s)"
proof -
  obtain rank :: "'a \<Rightarrow> nat" where rank: "\<And>s. let (v, s') = read8 d (UART_LSR (uart_base u)) s in
        sent s' = sent s \<and> pending s' = pending s \<and> (bit v 0 \<longleftrightarrow> pending s \<noteq> [])
        \<and> (if bit v 5 \<or> bit v 6 then ready s' else rank s' < rank s)"
    using assms by (auto simp: uart_contract_def)
  have "\<exists>t. putc_wait d u s = Some t \<and> ready t \<and> sent t = sent s \<and> pending t = pending s"
  proof (induction "rank s" arbitrary: s rule: less_induct)
    case less
    obtain v t where v: "read8 d (UART_LSR (uart_base u)) s = (v, t)" by fastforce
    note t = rank [of s, unfolded v Let_def prod.case]
    show ?case
    proof (cases "bit v 5 \<or> bit v 6")
      case True
      then have "putc_wait d u s = Some t"
        by (subst putc_wait.simps) (simp add: uart_is_transmit_empty_def v flag_bits)
      with True t show ?thesis by auto
    next
      case False
      then have "putc_wait d u s = putc_wait d u t"
        by (subst putc_wait.simps) (simp add: uart_is_transmit_empty_def v flag_bits)
      with False t less [of t] show ?thesis by auto
    qed
  qed
  then show ?thesis using assms by (auto simp: ls2k_uart_putc_def uart_contract_def)
qed

text \<open>Characters read until there is none.\<close>

fun getcs :: "nat \<Rightarrow> 's mmio \<Rightarrow> rt_uart_ls2k \<Rightarrow> 's \<Rightarrow> int list \<times> 's" where
  "getcs 0 d u s = ([], s)"
| "getcs (Suc n) d u s = (let (r, s) = ls2k_uart_getc d u s; (rs, s) = getcs n d u s in (r # rs, s))"

lemma getc_view:
  assumes "uart_contract d u ready sent pending"
  shows "case ls2k_uart_getc d u s of (r, s') \<Rightarrow> sent s' = sent s
    \<and> (case pending s of [] \<Rightarrow> r = - 1 \<and> pending s' = [] | x # xs \<Rightarrow> r = uint x \<and> pending s' = xs)"
proof -
  obtain v t where v: "read8 d (UART_LSR (uart_base u)) s = (v, t)" by fastforce
  note t = status_view [OF assms v]
  show ?thesis
  proof (cases "pending s")
    case Nil
    then show ?thesis using t by (simp add: ls2k_uart_getc_def v flag_bits del: bit_0)
  next
    case (Cons x xs)
    with data_read [OF assms, of t x xs] t show ?thesis
      by (auto simp: ls2k_uart_getc_def v flag_bits simp del: bit_0)
  qed
qed

text \<open>C23. 
  On a port that keeps its contract every character sent goes out, once and in order, and
  nothing that was received is lost by sending; and reading until there is no character returns
  those received, in order, and then -1.
\<close>

theorem uart_carries_characters:
  assumes "uart_contract d u ready sent pending"
  shows "(\<exists>s'. for_list (\<lambda>c s. rbind (ls2k_uart_putc d u c s) (\<lambda>(r, s). Inr s)) cs s = Inr s'
      \<and> sent s' = sent s @ cs \<and> pending s' = pending s)
    \<and> fst (getcs (Suc (length (pending s))) d u s) = map uint (pending s) @ [- 1]"
proof
  show "\<exists>s'. for_list (\<lambda>c s. rbind (ls2k_uart_putc d u c s) (\<lambda>(r, s). Inr s)) cs s = Inr s'
      \<and> sent s' = sent s @ cs \<and> pending s' = pending s"
  proof (induction cs arbitrary: s)
    case Nil
    then show ?case by simp
  next
    case (Cons c cs)
    from putc_ends [OF assms, of s c] obtain t where
      "ls2k_uart_putc d u c s = Inr (1, t)" "sent t = sent s @ [c]" "pending t = pending s"
      by (auto elim: endsE)
    with Cons [of t] show ?case by simp
  qed
  show "fst (getcs (Suc (length (pending s))) d u s) = map uint (pending s) @ [- 1]"
  proof (induction "pending s" arbitrary: s)
    case Nil
    obtain r t where r: "ls2k_uart_getc d u s = (r, t)" by fastforce
    with getc_view [OF assms, of s] have "r = - 1" by (simp add: Nil [symmetric])
    then show ?case by (simp add: Nil [symmetric] r Let_def)
  next
    case (Cons x xs)
    obtain r t where r: "ls2k_uart_getc d u s = (r, t)" by fastforce
    with getc_view [OF assms, of s] have "r = uint x" "xs = pending t"
      by (simp_all add: Cons.hyps(2) [symmetric])
    with Cons.hyps(1) [of t] show ?case
      by (simp add: r Let_def split_beta Cons.hyps(2) [symmetric])
  qed
qed

text \<open>A port for the witness: the second read of the status shows that a character can be sent.\<close>

record port =
  went_out :: "u8 list"
  came_in :: "u8 list"
  port_ready :: bool

definition port_sim :: "u64 \<Rightarrow> port mmio" where
  "port_sim a = \<lparr>
     read8 = (\<lambda>r s. if r = UART_LSR a then
          ((if port_ready s then 0x20 else 0) OR (if came_in s = [] then 0 else 1), s\<lparr>port_ready := True\<rparr>)
        else if r = UART_IIR a then (0xc4, s)
        else case came_in s of [] \<Rightarrow> (0, s) | x # xs \<Rightarrow> (x, s\<lparr>came_in := xs\<rparr>)),
     write8 = (\<lambda>r v s. if r = UART_DAT a \<and> port_ready s then s\<lparr>went_out := went_out s @ [v], port_ready := False\<rparr>
        else s)\<rparr>"

lemma port_contract: "uart_contract (port_sim (uart_base u)) u port_ready went_out came_in"
proof -
  have b: "bit (0x20 :: u8) 5" "\<not> bit (0x20 :: u8) 0" "bit (1 :: u8) 0" "\<not> bit (1 :: u8) 5" "\<not> bit (1 :: u8) 6"
    "\<not> bit (0x20 :: u8) 6" by simp_all
  have r: "uart_base u + 5 \<noteq> uart_base u" by simp
  show ?thesis
    unfolding uart_contract_def Let_def
    by (intro conjI exI [of _ "\<lambda>s. if port_ready s then 0 else 1"] allI impI)
      (auto simp: port_sim_def UART_LSR_def UART_DAT_def UART_IIR_def r bit_or_iff b simp del: bit_0 split: list.split)
qed

theorem uart_carries_characters_witness:
  "\<exists>s'. for_list (\<lambda>c s. rbind (ls2k_uart_putc (port_sim 0) \<lparr>uart_base = 0, IRQ = 0\<rparr> c s) (\<lambda>(r, s). Inr s)) [72, 105]
      \<lparr>went_out = [], came_in = [13], port_ready = False\<rparr> = Inr s' \<and> went_out s' = [72, 105] \<and> came_in s' = [13]"
  using uart_carries_characters [OF port_contract, where u = "\<lparr>uart_base = 0, IRQ = 0\<rparr>"
      and s = "\<lparr>went_out = [], came_in = [13], port_ready = False\<rparr>" and cs = "[72, 105]"]
  by simp

section \<open>The interrupt\<close>

text \<open>The identification codes the handler takes for received characters.\<close>

lemma iir_bits: "IIR_RXTOUT AND v \<noteq> 0 \<or> IIR_RXRDY AND v \<noteq> 0 \<longleftrightarrow> bit v 2 \<or> bit v 3"
proof -
  have c: "IIR_RXTOUT = push_bit 2 1 OR push_bit 3 1" "IIR_RXRDY = push_bit 2 1" by (simp_all add: iir_codes)
  have "bit (IIR_RXTOUT AND v) k \<longleftrightarrow> (k = 2 \<or> k = 3) \<and> bit v k" "bit (IIR_RXRDY AND v) k \<longleftrightarrow> k = 2 \<and> bit v k" for k
    unfolding c by (auto simp: bit_and_iff bit_or_iff bit_push_bit_iff bit_1_iff simp del: push_bit_of_1)
  then show ?thesis by (auto simp: nonzero_bit)
qed

text \<open>What is installed for the two lines.\<close>

lemma installed_at:
  assumes "length (irq_handle_table c) = 64" and "IRQ u < 64"
  shows "irq_handle_table (install_uart d isr u c) =
    (irq_handle_table c)[IRQ u := \<lparr>handler = Some (uart_irq_handler d isr), param = Some u\<rparr>]"
    and "bank0 (install_uart d isr u c) = bank0 c"
  using assms by (simp_all add: install_uart_def rt_hw_interrupt_install_def Let_def)

text \<open>A word with a lowest bit that is not its only one has another, higher one.\<close>

lemma second_bit:
  fixes w :: u32
  assumes "bit w k" and "\<forall>i < k. \<not> bit w i" and "w \<noteq> push_bit k 1"
  shows "\<exists>j > k. bit w j"
proof (rule ccontr)
  assume none: "\<not> (\<exists>j > k. bit w j)"
  have "k < 32" using bit_imp_le_length [OF assms(1)] by simp
  then have "bit w n \<longleftrightarrow> bit (push_bit k (1 :: u32)) n" for n
    using none assms(1,2) by (cases n k rule: linorder_cases) (auto simp: bit_push_bit_iff bit_1_iff simp del: push_bit_of_1)
  then have "w = push_bit k 1" by (intro bit_word_eqI) simp
  with assms(3) show False by simp
qed

text \<open>C22. 
  From the initialisation of the interrupt controller and the serial ports on, with the handlers
  of the recorder's two ports still installed, an interrupt with the line of one of the ports
  pending: when no other line of the bank is pending, RT-Thread's receiver is called for that port,
  once, if and only if bit 2 or 3 of the port's identification register is set (so for received
  data and a receive timeout, but also for a line-status error, code 6), and the line is
  enabled again; when any other line of the bank is pending too, the service routine never returns.
\<close>

theorem uart_interrupt_reaches_port:
  assumes "first_set_bit ffs" and "c = rt_hw_uart_init d isr ck (rt_hw_interrupt_init c0)"
    and "length (irq_handle_table ctl) = 64" and "take 2 (irq_handle_table ctl) = take 2 (irq_handle_table c)"
    and "line = 0 \<and> u = uart_dev0 ck \<or> line = 1 \<and> u = uart_dev4 ck"
    and "bit (intisr (bank0 ctl)) line" and "read8 d (UART_IIR (uart_base u)) s = (iir, t)"
  shows "rt_do_mips_cpu_irq ffs timer 2 ctl s =
    (if intisr (bank0 ctl) = push_bit line 1
     then Some (Inr
       (if bit iir 2 \<or> bit iir 3 then isr u t else t,
        ctl\<lparr>bank0 := (bank0 ctl)\<lparr>en_mask := en_mask (bank0 ctl) OR push_bit line 1\<rparr>\<rparr>))
     else None)"
proof -
  let ?table = "irq_handle_table ctl" and ?h = "Some (uart_irq_handler d isr)"
  have irqs: "IRQ (uart_dev0 ck) = 0" "IRQ (uart_dev4 ck) = 1"
    by (simp_all add: uart_dev0_def uart_dev4_def LS2K_UART_0_1_2_3_IRQ_def LS2K_UART_4_5_6_7_IRQ_def)
  have "length (irq_handle_table (rt_hw_interrupt_init c0)) = 64"
    by (simp add: rt_hw_interrupt_init_def liointc_init_def Let_def)
  then have c: "irq_handle_table c ! 0 = \<lparr>handler = ?h, param = Some (uart_dev0 ck)\<rparr>"
    "irq_handle_table c ! 1 = \<lparr>handler = ?h, param = Some (uart_dev4 ck)\<rparr>"
    by (simp_all add: assms(2) rt_hw_uart_init_def installed_at irqs)
  have same: "?table ! i = irq_handle_table c ! i" if "i < 2" for i
    using arg_cong [OF assms(4), of "\<lambda>xs. xs ! i"] that by simp
  have runs: "runs_through ?table (k + 0)" if "k < 2" for k
    using same [OF that] c that assms(3) by (auto simp: runs_through_def uart_irq_handler_def less_2_cases_iff split_beta)
  have line: "line < 2" using assms(5) by auto
  have entry: "handler (?table ! line) = ?h" "param (?table ! line) = Some u"
    using same [OF line] c assms(5) by auto
  show ?thesis
  proof (cases "intisr (bank0 ctl) = push_bit line 1")
    case True
    from isr_one_bank [OF assms(1) _ True, of 0 ?table "uart_irq_handler d isr" s] entry line assms(3)
    have "liointc_isr ffs ?table (bank0 ctl) 0 s = Some (rbind (uart_irq_handler d isr line (Some u) s)
        (\<lambda>s'. Inr (s', (bank0 ctl)\<lparr>en_mask := en_mask (bank0 ctl) OR push_bit line 1\<rparr>)))" by simp
    moreover have "uart_irq_handler d isr line (Some u) s = Inr (if bit iir 2 \<or> bit iir 3 then isr u t else t)"
      by (simp only: uart_irq_handler_def assms(7) option.case prod.case iir_bits)
    ultimately show ?thesis using True by (simp add: rt_do_mips_cpu_irq_def)
  next
    case False
    define k where "k = (if bit (intisr (bank0 ctl)) 0 then 0 else line)"
    have k: "bit (intisr (bank0 ctl)) k" "\<forall>i < k. \<not> bit (intisr (bank0 ctl)) i" "k < 2"
      using assms(6) line by (auto simp: k_def less_2_cases_iff)
    have "\<exists>j > k. bit (intisr (bank0 ctl)) j"
    proof (cases "k = line")
      case True
      then show ?thesis using second_bit [OF k(1,2)] False by simp
    next
      case False
      then have "k < line" by (auto simp: k_def split: if_splits)
      then show ?thesis using assms(6) by blast
    qed
    then obtain j where j: "k < j" "bit (intisr (bank0 ctl)) j" by blast
    have "liointc_isr ffs ?table (bank0 ctl) 0 s = None"
      by (rule isr_stuck_bank [OF assms(1) k(1) j(2,1) k(2) runs [OF k(3)]])
    then show ?thesis using False by (simp add: rt_do_mips_cpu_irq_def)
  qed
qed

text \<open>The recorder's controller after the initialisation, with the given lines pending; a received
  character on the second port alone, and with the first port pending as well.\<close>

definition sim_installed :: "(rt_uart_ls2k, port) intc" where
  "sim_installed = rt_hw_uart_init (port_sim (UARTx_BASE id 4)) (\<lambda>u. snd \<circ> ls2k_uart_getc (port_sim (UARTx_BASE id 4)) u) id
     (rt_hw_interrupt_init \<lparr>bank0 = \<lparr>route = [], en_mask = 0, pol = 0, edge = 0, intisr = 0\<rparr>,
       bank1 = \<lparr>route = [], en_mask = 0, pol = 0, edge = 0, intisr = 0\<rparr>, irq_handle_table = [], cpu_unmasked = []\<rparr>)"

definition sim_intc :: "u32 \<Rightarrow> (rt_uart_ls2k, port) intc" where
  "sim_intc w = sim_installed\<lparr>bank0 := \<lparr>route = [], en_mask = 0, pol = 0, edge = 0, intisr = w\<rparr>\<rparr>"

lemma sim_intc_table:
  "irq_handle_table (sim_intc w) = irq_handle_table sim_installed" "length (irq_handle_table (sim_intc w)) = 64"
  "bank0 (sim_intc w) = \<lparr>route = [], en_mask = 0, pol = 0, edge = 0, intisr = w\<rparr>"
  by (simp_all add: sim_intc_def sim_installed_def rt_hw_uart_init_def installed_at rt_hw_interrupt_init_def
      liointc_init_def Let_def uart_dev0_def uart_dev4_def LS2K_UART_0_1_2_3_IRQ_def LS2K_UART_4_5_6_7_IRQ_def)

theorem uart_interrupt_reaches_port_witness:
  "(\<exists>c'. rt_do_mips_cpu_irq rt_ffs Inr 2 (sim_intc (push_bit 1 1)) \<lparr>went_out = [], came_in = [13], port_ready = True\<rparr> =
      Some (Inr (\<lparr>went_out = [], came_in = [], port_ready = True\<rparr>, c'))) \<and>
   rt_do_mips_cpu_irq rt_ffs Inr 2 (sim_intc 3) \<lparr>went_out = [], came_in = [13], port_ready = True\<rparr> = None"
proof -
  let ?d = "port_sim (UARTx_BASE id 4)" and ?s = "\<lparr>went_out = [], came_in = [13], port_ready = True\<rparr>"
  let ?isr = "\<lambda>u. snd \<circ> ls2k_uart_getc ?d u"
  have iir: "read8 ?d (UART_IIR (uart_base (uart_dev4 id))) ?s = (0xc4, ?s)"
    by (simp add: port_sim_def uart_dev4_def UART_IIR_def UART_LSR_def)
  have b: "bit (0xc4 :: u8) 2" "bit (3 :: u32) 1" "(3 :: u32) \<noteq> push_bit 1 1" by simp_all
  have r: "?isr (uart_dev4 id) ?s = \<lparr>went_out = [], came_in = [], port_ready = True\<rparr>"
    by (simp add: ls2k_uart_getc_def port_sim_def uart_dev4_def UART_LSR_def UART_DAT_def UART_IIR_def LSR_RXRDY_def)
  have f: "rt_do_mips_cpu_irq rt_ffs Inr 2 (sim_intc w) ?s =
    (if w = push_bit 1 1
     then Some (Inr (?isr (uart_dev4 id) ?s, (sim_intc w)\<lparr>bank0 := (bank0 (sim_intc w))
        \<lparr>en_mask := en_mask (bank0 (sim_intc w)) OR push_bit 1 1\<rparr>\<rparr>))
     else None)" if w: "bit w 1" for w
    using uart_interrupt_reaches_port [OF kernel.first_set_bit_axioms sim_installed_def sim_intc_table(2)
        _ _ _ iir, where line = 1 and timer = Inr] w b(1)
    by (simp only: sim_intc_table liointc.simps simp_thms if_True)
  show ?thesis using f [of "push_bit 1 1"] f [of 3] b(2,3) by (simp only: r) auto
qed

end
