(* ===== verification/Clk.thy ===== *)
theory Clk
  imports Prelude
begin

unbundle bit_operations_syntax

text \<open>
  The clock rates of \<open>drivers/clk.c\<close> (both trees), computed in megahertz from the registers of the
  phase-locked loops. The divisions are those of C's \<open>int\<close>: one by a register field that is 0 traps.
\<close>

record loongson_pll =
  PLL_SYS_0 :: u64
  PLL_SYS_1 :: u64
  PLL_DDR_0 :: u64
  PLL_DDR_1 :: u64
  PLL_DC_0 :: u64
  PLL_DC_1 :: u64
  PLL_PIX0_0 :: u64
  PLL_PIX0_1 :: u64
  PLL_PIX1_0 :: u64
  PLL_PIX1_1 :: u64
  FREQSCALE :: u64

text \<open>\<open>M64\<close>, \<open>RBF64\<close>, \<open>BF64_1\<close> and \<open>BF64\<close> are the macros \<open>__M\<close>, \<open>__RBF\<close>, \<open>__BF\<close> and \<open>BF\<close> of this file.\<close>

definition M64 :: "nat \<Rightarrow> u64" where "M64 n = NOT (push_bit n (NOT 0))"
definition RBF64 :: "u64 \<Rightarrow> nat \<Rightarrow> u64" where "RBF64 number n = number AND M64 n"
definition BF64_1 :: "u64 \<Rightarrow> nat \<Rightarrow> nat \<Rightarrow> u64" where
  "BF64_1 number n m = RBF64 (drop_bit m number) (n - m + 1)"
definition BF64 :: "u64 \<Rightarrow> nat \<Rightarrow> nat \<Rightarrow> u64" where
  "BF64 number n m = (if m < n then BF64_1 number n m else BF64_1 number m n)"

definition refclk :: int where "refclk = 100"
definition gmac_clock :: int where "gmac_clock = 125"

text \<open>\<open>-RT_ENOSYS\<close>, with RT-Thread's number for it, as an \<open>unsigned long\<close>.\<close>

definition clk_get_pll_rate :: "u64 \<Rightarrow> u64" where "clk_get_pll_rate RT_ENOSYS = - RT_ENOSYS"
definition clk_get_dc_rate :: "u64 \<Rightarrow> u64" where "clk_get_dc_rate RT_ENOSYS = - RT_ENOSYS"

definition clk_get_cpu_rate :: "loongson_pll \<Rightarrow> u64 res" where
  "clk_get_cpu_rate pll =
     (let l1_div_ref = uint (BF64 (PLL_SYS_0 pll) 26 31);
          l1_div_loopc = uint (BF64 (PLL_SYS_0 pll) 32 41);
          l2_div_out_node = uint (BF64 (PLL_SYS_1 pll) 5 0) in
      rbind (cdivE refclk l1_div_ref) (\<lambda>q.
      rbind (cdivE (q * l1_div_loopc) l2_div_out_node) (\<lambda>node_clock.
      Inr (word_of_int node_clock))))"

definition clk_get_ddr_rate :: "loongson_pll \<Rightarrow> u64 res" where
  "clk_get_ddr_rate pll =
     (let l1_div_ref = uint (BF64 (PLL_DDR_0 pll) 26 31);
          l1_div_loopc = uint (BF64 (PLL_DDR_0 pll) 32 41);
          l2_div_out_ddr = uint (BF64 (PLL_DDR_1 pll) 0 5) in
      rbind (cdivE refclk l1_div_ref) (\<lambda>q.
      rbind (cdivE (q * l1_div_loopc) l2_div_out_ddr) (\<lambda>ddr_clock.
      Inr (word_of_int ddr_clock))))"

definition clk_get_apb_rate :: "loongson_pll \<Rightarrow> u64 res" where
  "clk_get_apb_rate pll =
     (let apb_freqscale = uint (BF64 (FREQSCALE pll) 22 20) in
      rbind (cdivE (gmac_clock * (apb_freqscale + 1)) 8) (\<lambda>apb_clock. Inr (word_of_int apb_clock)))"

section \<open>Fields\<close>

lemma M64_mask: "M64 n = mask n"
  by (rule bit_word_eqI) (simp add: M64_def bit_not_iff bit_push_bit_iff bit_mask_iff)

text \<open>The bits from the lower to the higher of two positions, in either order.\<close>

lemma BF64_take_bit:
  "BF64 w n m = take_bit (max n m - min n m + 1) (drop_bit (min n m) w)"
  by (auto simp: BF64_def BF64_1_def RBF64_def M64_mask take_bit_eq_mask max_def min_def)

definition uint_field :: "nat \<Rightarrow> nat \<Rightarrow> u64 \<Rightarrow> nat" where
  "uint_field lo width w = unat w div 2 ^ lo mod 2 ^ width"

lemma BF64_field: "uint (BF64 w n m) = int (uint_field (min n m) (max n m - min n m + 1) w)"
proof -
  let ?k = "max n m - min n m + 1"
  have "take_bit 64 (uint w) = uint w" using uint_lt2p [of w] by (simp add: take_bit_int_eq_self)
  then have "uint (take_bit ?k (drop_bit (min n m) w)) = take_bit ?k (drop_bit (min n m) (uint w))"
    by (simp only: unsigned_take_bit_eq) (simp add: unsigned_drop_bit_eq)
  also have "\<dots> = int (uint_field (min n m) ?k w)"
    by (simp add: uint_field_def take_bit_eq_mod drop_bit_eq_div zmod_int zdiv_int)
  finally show ?thesis by (simp only: BF64_take_bit)
qed

lemma uint_field_less: "uint_field lo width w < 2 ^ width"
  by (simp add: uint_field_def)

lemma cdiv_of_nat: "0 < n \<Longrightarrow> cdiv (int m) (int n) = int (m div n)"
  by (simp add: cdiv_nonneg zdiv_int)

text \<open>The fields of a loop's registers: reference divider, multiplier, output divider.\<close>

definition div_ref :: "u64 \<Rightarrow> nat" where "div_ref = uint_field 26 6"
definition loopc :: "u64 \<Rightarrow> nat" where "loopc = uint_field 32 10"
definition div_out :: "u64 \<Rightarrow> nat" where "div_out = uint_field 0 6"

text \<open>The field of the bus clock.\<close>

definition apb_scale :: "u64 \<Rightarrow> nat" where "apb_scale = uint_field 20 3"

text \<open>The rate as the code computes it, on the three fields.\<close>

definition rate_of :: "nat \<Rightarrow> nat \<Rightarrow> nat \<Rightarrow> u64 res" where
  "rate_of ref mul out = (if ref = 0 \<or> out = 0 then Inl DivZero else Inr (of_nat (100 div ref * mul div out)))"

lemma rate_fields:
  "rbind (cdivE 100 (int ref)) (\<lambda>q. rbind (cdivE (q * int mul) (int out)) (\<lambda>r. Inr (word_of_int r))) = rate_of ref mul out"
proof (cases "ref = 0 \<or> out = 0")
  case False
  then have "cdiv 100 (int ref) = int (100 div ref)" using cdiv_of_nat [of ref 100] by simp
  moreover have "cdiv (int (100 div ref) * int mul) (int out) = int (100 div ref * mul div out)"
    using False cdiv_of_nat [of out "100 div ref * mul"] by (simp only: of_nat_mult) simp
  ultimately show ?thesis using False by (simp add: rate_of_def del: of_nat_div of_nat_mult zdiv_int)
qed (cases "ref = 0"; simp add: rate_of_def)

text \<open>C35. 
  The rates of the processor and of the memory trap if the reference divider (bits 26 to 31) or
  the output divider (bits 0 to 5) is 0, and are otherwise \<open>100 div ref * loopc div out\<close> MHz, at most
  102300, with the multiplier in bits 32 to 41; that is \<open>100 * loopc / (ref * out)\<close> rounded down if
  the reference divider divides 100, and at most that if it does not. The bus rate never
  traps: it is \<open>125 * (scale + 1) div 8\<close> MHz, with the scale in bits 20 to 22 of \<open>FREQSCALE\<close>, so
  between 15 and 125 MHz.
\<close>

theorem clock_rates:
  "clk_get_cpu_rate pll = rate_of (div_ref (PLL_SYS_0 pll)) (loopc (PLL_SYS_0 pll)) (div_out (PLL_SYS_1 pll))
    \<and> clk_get_ddr_rate pll = rate_of (div_ref (PLL_DDR_0 pll)) (loopc (PLL_DDR_0 pll)) (div_out (PLL_DDR_1 pll))
    \<and> (\<forall>a b. div_ref a = 0 \<or> div_out b = 0 \<or> 100 div div_ref a * loopc a div div_out b \<le> 102300
        \<and> 100 div div_ref a * loopc a div div_out b \<le> 100 * loopc a div (div_ref a * div_out b)
        \<and> (div_ref a dvd 100 \<longrightarrow> 100 div div_ref a * loopc a div div_out b = 100 * loopc a div (div_ref a * div_out b)))
    \<and> (\<exists>r. clk_get_apb_rate pll = Inr r \<and> unat r = 125 * (apb_scale (FREQSCALE pll) + 1) div 8
        \<and> 15 \<le> unat r \<and> unat r \<le> 125)"
proof (intro conjI allI)
  show "clk_get_cpu_rate pll = rate_of (div_ref (PLL_SYS_0 pll)) (loopc (PLL_SYS_0 pll)) (div_out (PLL_SYS_1 pll))"
    by (simp only: clk_get_cpu_rate_def Let_def refclk_def BF64_field rate_fields div_ref_def loopc_def div_out_def) simp
  show "clk_get_ddr_rate pll = rate_of (div_ref (PLL_DDR_0 pll)) (loopc (PLL_DDR_0 pll)) (div_out (PLL_DDR_1 pll))"
    by (simp only: clk_get_ddr_rate_def Let_def refclk_def BF64_field rate_fields div_ref_def loopc_def div_out_def) simp
next
  fix a b
  have "loopc a \<le> 1023" using uint_field_less [of 32 10 a] by (simp add: loopc_def)
  then have "100 div div_ref a * loopc a \<le> 100 * 1023" by (intro mult_le_mono) simp_all
  then have bound: "100 div div_ref a * loopc a div div_out b \<le> 102300"
    using div_le_dividend [of "100 div div_ref a * loopc a" "div_out b"] by linarith
  have assoc: "100 * loopc a div (div_ref a * div_out b) = 100 * loopc a div div_ref a div div_out b" by (simp add: div_mult2_eq)
  have "100 div div_ref a * loopc a \<le> 100 * loopc a div div_ref a"
    by (cases "div_ref a = 0") (simp_all add: less_eq_div_iff_mult_less_eq)
  then have below: "100 div div_ref a * loopc a div div_out b \<le> 100 * loopc a div (div_ref a * div_out b)"
    unfolding assoc by (rule div_le_mono)
  have "100 div div_ref a * loopc a = 100 * loopc a div div_ref a" if "div_ref a dvd 100"
    using that by (simp add: div_mult_swap mult.commute)
  then show "div_ref a = 0 \<or> div_out b = 0 \<or> 100 div div_ref a * loopc a div div_out b \<le> 102300
        \<and> 100 div div_ref a * loopc a div div_out b \<le> 100 * loopc a div (div_ref a * div_out b)
        \<and> (div_ref a dvd 100 \<longrightarrow> 100 div div_ref a * loopc a div div_out b = 100 * loopc a div (div_ref a * div_out b))"
    using bound below assoc by simp
next
  let ?n = "apb_scale (FREQSCALE pll)"
  have "?n \<le> 7" using uint_field_less [of 20 3 "FREQSCALE pll"] by (simp add: apb_scale_def)
  then have le: "15 \<le> 125 * (?n + 1) div 8" "125 * (?n + 1) div 8 \<le> 125" by simp_all
  have "cdiv (125 * (int ?n + 1)) 8 = int (125 * (?n + 1) div 8)"
    using cdiv_of_nat [of 8 "125 * (?n + 1)"] by (simp only: of_nat_mult of_nat_add) simp
  then have "clk_get_apb_rate pll = Inr (of_nat (125 * (?n + 1) div 8))"
    by (simp only: clk_get_apb_rate_def gmac_clock_def BF64_field Let_def apb_scale_def) (simp del: of_nat_div)
  then show "\<exists>r. clk_get_apb_rate pll = Inr r \<and> unat r = 125 * (?n + 1) div 8 \<and> 15 \<le> unat r \<and> unat r \<le> 125"
    using le by (intro exI conjI) (assumption, simp_all add: unat_of_nat)
qed

theorem clock_rates_witness:
  "clk_get_cpu_rate \<lparr>PLL_SYS_0 = 0x2810000000, PLL_SYS_1 = 1, PLL_DDR_0 = 0, PLL_DDR_1 = 0, PLL_DC_0 = 0,
     PLL_DC_1 = 0, PLL_PIX0_0 = 0, PLL_PIX0_1 = 0, PLL_PIX1_0 = 0, PLL_PIX1_1 = 0, FREQSCALE = 0\<rparr> = Inr 1000
   \<and> 100 div div_ref 0x2810000000 * loopc 0x2810000000 div div_out 1 = 100 * loopc 0x2810000000 div (div_ref 0x2810000000 * div_out 1)"
proof -
  have f: "div_ref 0x2810000000 = 4" "loopc 0x2810000000 = 40" "div_out 1 = 1"
    by (simp_all add: div_ref_def loopc_def div_out_def uint_field_def)
  show ?thesis
    using clock_rates [of "\<lparr>PLL_SYS_0 = 0x2810000000, PLL_SYS_1 = 1, PLL_DDR_0 = 0, PLL_DDR_1 = 0, PLL_DC_0 = 0,
     PLL_DC_1 = 0, PLL_PIX0_0 = 0, PLL_PIX0_1 = 0, PLL_PIX1_0 = 0, PLL_PIX1_1 = 0, FREQSCALE = 0\<rparr>"]
    by (simp add: f rate_of_def)
qed

end
