(* ===== verification/Vs1003_Filter.thy ===== *)
theory Vs1003_Filter
  imports Vs1003_App Adpcm
begin

text \<open>
  The analysis of recorded batches in \<open>ls2kdev_record/applications/vs1003/vs1003_example.c\<close>: the
  conversion of a batch to samples for the Goertzel filter, and the command \<open>filter\<close> that analyses a
  recorded file. The filter itself (\<open>c-goertzel\<close>, which is not part of the sources) computes with
  floating-point numbers; what the code does with it, a rounded logarithm of its energy after a
  number of samples, is a parameter. So are the contents of freshly allocated memory.
\<close>

section \<open>The code\<close>

definition convert :: "int \<Rightarrow> u16" where
  "convert in' = 32768 + word_of_int in'"

text \<open>
  \<open>mag\<close> is \<open>(int) log10 (1 + goertzel_get_squared_magnitude (&s1))\<close> after the samples, and \<open>junk\<close> the
  contents of the memory \<open>rt_malloc\<close> returns.
\<close>

definition adpcm_goertzel_decode :: "(u16 list \<Rightarrow> int) \<Rightarrow> int list \<Rightarrow> u8 list \<Rightarrow> nat \<Rightarrow> int res" where
  "adpcm_goertzel_decode mag junk buffer buffersize =
     (let samples_n = buffersize * 2 in
      rbind (adpcm_decode_block junk buffer buffersize 1) (\<lambda>(n, pcm_buffer).
      rbind (for_list (\<lambda>i fed. rbind (rd pcm_buffer i) (\<lambda>x. Inr (fed @ [convert x]))) [0..<samples_n] []) (\<lambda>fed.
      Inr (mag fed))))"

text \<open>One turn of the loop of \<open>filter_thread\<close>: the bytes it writes for a batch.\<close>

definition filter_batch :: "(u16 list \<Rightarrow> int) \<Rightarrow> int list \<Rightarrow> u8 list \<Rightarrow> u8 list res" where
  "filter_batch mag junk xbuffer =
     rbind (adpcm_decode_block junk xbuffer (VS1003_ADPCM_BATCH_SIZE * 2) 1) (\<lambda>(n, pcm_buffer).
     rbind (for_list (\<lambda>i (fed, z). rbind (rd pcm_buffer i) (\<lambda>x.
              let fed = fed @ [convert x] in Inr (fed, z @ [word_of_int (mag fed) :: u16])))
              [0..<VS1003_ADPCM_BATCH_SIZE * 4] ([], [])) (\<lambda>(fed, zbuffer).
     for_list (\<lambda>i g. rbind (rd zbuffer i) (\<lambda>z. Inr (g @ [ucast z]))) [0..<VS1003_ADPCM_BATCH_SIZE * 2] []))"

text \<open>\<open>for (i = 0; i < VS1003_ADPCM_BATCH_SIZE * 2; i++)\<close>, the batch number \<open>k\<close> of the file.\<close>

definition file_batch :: "u8 list \<Rightarrow> nat \<Rightarrow> u8 list res" where
  "file_batch buffer k =
     for_list (\<lambda>i xbuffer. rbind (rd buffer (k * VS1003_ADPCM_BATCH_SIZE * 2 + i + 60)) (\<lambda>x. Inr (xbuffer @ [x])))
       [0..<VS1003_ADPCM_BATCH_SIZE * 2] []"

text \<open>
  The thread, with the contents of the files that can be opened and of the memory allocated in each
  turn; the result is what is written to \<open>wav_filter\<close>. A length below 60 gives no batch.
\<close>

definition filter_thread :: "(u16 list \<Rightarrow> int) \<Rightarrow> (nat \<Rightarrow> int list) \<Rightarrow> (string \<Rightarrow> u8 list option) \<Rightarrow> string list \<Rightarrow>
    u8 list option res" where
  "filter_thread mag junk files argv =
     (if length argv = 2 then
        case files (argv ! 1) of
          None \<Rightarrow> Inl NullPtr
        | Some buffer \<Rightarrow>
            let flen = int (length buffer); buffersize = flen - 60;
                num = nat (cdiv buffersize (int VS1003_ADPCM_BATCH_SIZE * 2)) in
            rbind (for_list (\<lambda>k g. rbind (file_batch buffer k) (\<lambda>xbuffer.
                rbind (filter_batch mag (junk k) xbuffer) (\<lambda>bs. Inr (g @ bs)))) [0..<num] []) (\<lambda>g.
            Inr (Some g))
      else Inr None)"

section \<open>The loops\<close>

lemma collect_loop:
  "n \<le> length xs \<Longrightarrow>
    for_list (\<lambda>i ys. rbind (rd xs i) (\<lambda>x. Inr (ys @ [g x]))) [0..<n] ys = Inr (ys @ map g (take n xs))"
proof -
  have "for_list (\<lambda>x ys. Inr (ys @ [g x])) zs ys = Inr (ys @ map g zs)" for zs ys
    by (induction zs arbitrary: ys) simp_all
  then show "n \<le> length xs \<Longrightarrow> ?thesis" by (simp add: for_list_rd)
qed

text \<open>The energies after one, two, ... of the samples.\<close>

definition energies :: "(u16 list \<Rightarrow> int) \<Rightarrow> int list \<Rightarrow> u16 list" where
  "energies mag xs = map (\<lambda>i. word_of_int (mag (map convert (take (Suc i) xs)))) [0..<length xs]"

lemma energies_snoc: "energies mag (xs @ [x]) = energies mag xs @ [word_of_int (mag (map convert (xs @ [x])))]"
  by (simp add: energies_def)

lemma energies_fold:
  "for_list (\<lambda>x (fed, z). let fed = fed @ [convert x] in Inr (fed, z @ [word_of_int (mag fed) :: u16])) xs ([], [])
    = Inr (map convert xs, energies mag xs)"
proof (induction xs rule: rev_induct)
  case Nil
  then show ?case by (simp add: energies_def)
next
  case (snoc x xs)
  then show ?case by (simp add: for_list_append energies_snoc Let_def)
qed

lemma energy_loop:
  assumes "n \<le> length xs"
  shows "for_list (\<lambda>i (fed, z). rbind (rd xs i) (\<lambda>x.
      let fed = fed @ [convert x] in Inr (fed, z @ [word_of_int (mag fed) :: u16]))) [0..<n] ([], [])
    = Inr (map convert (take n xs), energies mag (take n xs))"
proof -
  have "for_list (\<lambda>i (fed, z). rbind (rd xs i) (\<lambda>x.
        let fed = fed @ [convert x] in Inr (fed, z @ [word_of_int (mag fed) :: u16]))) [0..<n] ([], [])
      = for_list (\<lambda>i s. rbind (rd xs i) (\<lambda>x. (\<lambda>x (fed, z).
        let fed = fed @ [convert x] in Inr (fed, z @ [word_of_int (mag fed) :: u16])) x s)) [0..<n] ([], [])"
    by (intro for_list_cong) (simp add: split_beta)
  also have "\<dots> = for_list (\<lambda>x (fed, z).
        let fed = fed @ [convert x] in Inr (fed, z @ [word_of_int (mag fed) :: u16])) (take n xs) ([], [])"
    by (rule for_list_rd [OF assms])
  finally show ?thesis by (simp add: energies_fold)
qed

lemma length_energies [simp]: "length (energies mag xs) = length xs"
  by (simp add: energies_def)

section \<open>A batch\<close>

lemma decode_batch_total:
  assumes "length junk = 1024" and "list_all pcm_ok junk" and "length xs = 512"
  shows "\<exists>n out. adpcm_decode_block junk xs 512 1 = Inr (n, out) \<and> length out = 1024"
proof -
  have "\<exists>n out. adpcm_decode_block junk xs 512 1 = Inr (n, out) \<and> length out = length junk \<and>
      list_all pcm_ok out \<and> (n = 0 \<or> n = 1 + (512 - 1 * 4) div (1 * 4) * 8)"
    by (rule decode_block_safe_run) (use assms in simp_all)
  then show ?thesis using assms(1) by auto
qed

lemma filter_batch_total:
  assumes "length junk = 1024" and "list_all pcm_ok junk" and "length xs = 512"
  shows "\<exists>n out. adpcm_decode_block junk xs 512 1 = Inr (n, out) \<and>
    filter_batch mag junk xs = Inr (map ucast (take 512 (energies mag out)))"
proof -
  obtain n out where d: "adpcm_decode_block junk xs 512 1 = Inr (n, out)" "length out = 1024"
    using decode_batch_total [OF assms] by blast
  then have "filter_batch mag junk xs = Inr (map ucast (take 512 (energies mag out)))"
    unfolding filter_batch_def VS1003_ADPCM_BATCH_SIZE_def
    using energy_loop [of 1024 out mag] collect_loop [of 512 "energies mag out" "ucast :: u16 \<Rightarrow> u8" "[]"]
    by simp
  with d(1) show ?thesis by blast
qed

lemma file_batch_slice:
  assumes "512 * k + 572 \<le> length buffer"
  shows "file_batch buffer k = Inr (take 512 (drop (60 + 512 * k) buffer))"
proof -
  have "for_list (\<lambda>i xs. rbind (rd buffer (k * 256 * 2 + i + 60)) (\<lambda>x. Inr (xs @ [x]))) [0..<n] [] =
      for_list (\<lambda>i xs. rbind (rd (drop (60 + 512 * k) buffer) i) (\<lambda>x. Inr (xs @ [id x]))) [0..<n] []"
    if "n \<le> 512" for n
    using that assms by (intro for_list_cong) (auto simp: rd_def algebra_simps)
  from this [of "256 * 2"] show ?thesis
    using collect_loop [of "256 * 2" "drop (60 + 512 * k) buffer" id "[]"] assms
    unfolding file_batch_def VS1003_ADPCM_BATCH_SIZE_def by simp
qed

section \<open>Recording and analysing\<close>

lemma slice_concat:
  "\<forall>x\<in>set bs. length x = n \<Longrightarrow> k < length bs \<Longrightarrow> take n (drop (n * k) (concat bs)) = bs ! k"
proof (induction bs arbitrary: k)
  case (Cons b bs)
  then show ?case by (cases k) simp_all
qed simp

lemma length_concat_same: "\<forall>x\<in>set bs. length x = n \<Longrightarrow> length (concat bs) = n * length bs"
  by (induction bs) simp_all

lemma turns_lengths: "\<forall>x\<in>set (fst (turns reply n lg)). length x = 512"
  by (induction n arbitrary: lg) (auto simp: turn_def Let_def split_beta batch_reads_length)

text \<open>The bytes the analysis writes for a batch.\<close>

definition batch_energies :: "(u16 list \<Rightarrow> int) \<Rightarrow> int list \<Rightarrow> u8 list \<Rightarrow> u8 list" where
  "batch_energies mag junk xs = (case adpcm_decode_block junk xs 512 1 of
     Inl _ \<Rightarrow> [] | Inr (n, pcm) \<Rightarrow> map ucast (take 512 (energies mag pcm)))"

lemma filter_loop:
  assumes "\<And>k. k < n \<Longrightarrow> f k = Inr (g k)"
  shows "for_list (\<lambda>k acc. rbind (f k) (\<lambda>bs. Inr (acc @ bs))) [0..<n] acc = Inr (acc @ concat (map g [0..<n]))"
proof -
  have "for_list (\<lambda>k acc. rbind (f k) (\<lambda>bs. Inr (acc @ bs))) [0..<n] acc =
      for_list (\<lambda>k acc. Inr (acc @ g k)) [0..<n] acc"
    using assms by (intro for_list_cong) simp
  moreover have "for_list (\<lambda>k acc. Inr (acc @ g k)) ks acc = Inr (acc @ concat (map g ks))" for ks :: "nat list"
    by (induction ks arbitrary: acc) simp_all
  ultimately show ?thesis by simp
qed

lemma filter_splits:
  assumes "length h = 60" and "\<forall>x\<in>set bs. length x = 512"
    and "\<And>k. length (junk k) = 1024 \<and> list_all pcm_ok (junk k)"
  shows "filter_thread mag junk [name \<mapsto> h @ concat bs] [cmd, name]
    = Inr (Some (concat (map (\<lambda>k. batch_energies mag (junk k) (bs ! k)) [0..<length bs])))"
proof -
  define buf where "buf = h @ concat bs"
  have len: "length buf = 60 + 512 * length bs"
    using assms(1,2) by (simp add: length_concat_same buf_def)
  have n: "nat (cdiv (int (length buf) - 60) (int VS1003_ADPCM_BATCH_SIZE * 2)) = length bs"
    unfolding len by (cases "bs = []") (simp_all add: cdiv_def VS1003_ADPCM_BATCH_SIZE_def sgn_if)
  have turn: "rbind (file_batch buf k) (filter_batch mag (junk k)) = Inr (batch_energies mag (junk k) (bs ! k))"
    if k: "k < length bs" for k
  proof -
    have "512 * k + 572 \<le> length buf" using k unfolding len by simp
    then have "file_batch buf k = Inr (bs ! k)"
      using slice_concat [OF assms(2) k] assms(1) by (simp add: file_batch_slice buf_def)
    moreover have "length (bs ! k) = 512" using assms(2) k by simp
    ultimately show ?thesis
      using filter_batch_total [of "junk k" "bs ! k" mag] assms(3) [of k] by (auto simp: batch_energies_def)
  qed
  have "for_list (\<lambda>k acc. rbind (rbind (file_batch buf k) (filter_batch mag (junk k))) (\<lambda>bs. Inr (acc @ bs)))
      [0..<length bs] [] = Inr ([] @ concat (map (\<lambda>k. batch_energies mag (junk k) (bs ! k)) [0..<length bs]))"
    by (rule filter_loop) (rule turn)
  then show ?thesis
    unfolding filter_thread_def buf_def [symmetric] by (simp add: n Let_def rbind_assoc)
qed

text \<open>C17. 
  What \<open>record\<close> writes, \<open>filter\<close> takes apart: the command analyses exactly the batches that were
  recorded, in order, each as one block of 512 bytes decoded into the memory it got, and writes 512
  bytes for each. It needs no more than that the memory holds 16-bit numbers.
\<close>

theorem recording_is_filtered:
  assumes "vs_contract b cs log reply" and "header_ok h" and "length db = 512" and "fopen name"
    and "to_int32 (strtoul0 arg) = int len" and "len < 2 ^ 22"
    and "bs = fst (turns reply n (log s @ record_init_frames))" and "length bs = len"
    and "\<And>k. length (junk k) = 1024 \<and> list_all pcm_ok (junk k)"
  shows "\<exists>h' db' f s'. vs1003_record b fopen [cmd, name, arg] h db s = Inr (h', db', Some (name, f), s')
    \<and> filter_thread mag junk [name \<mapsto> f] [cmd', name]
      = Inr (Some (concat (map (\<lambda>k. batch_energies mag (junk k) (bs ! k)) [0..<len])))"
proof -
  obtain h' db' f s' where r: "vs1003_record b fopen [cmd, name, arg] h db s = Inr (h', db', Some (name, f), s')"
    "header_ok h'" "f = h' @ concat bs"
    using record_file [where fopen = fopen and name = name and cmd = cmd, OF assms(1-6), where s = s and n = n]
      assms(7,8) by blast
  have "length h' = 60" "\<forall>x\<in>set bs. length x = 512"
    using r(2) assms(7) turns_lengths by (auto simp: header_ok_def)
  from filter_splits [OF this assms(9), where mag = mag and name = name and cmd = cmd'] show ?thesis
    using r(1,3) assms(8) by auto
qed

theorem recording_is_filtered_witness:
  "\<exists>h' db' f s'. vs1003_record (sim_board (\<lambda>_. 1)) (\<lambda>_. True) [''record'', ''a'', ''1''] header (replicate 512 0)
      sim_start = Inr (h', db', Some (''a'', f), s')
    \<and> filter_thread (\<lambda>_. 0) (\<lambda>_. replicate 1024 0) [''a'' \<mapsto> f] [''filter'', ''a'']
      = Inr (Some (batch_energies (\<lambda>_. 0) (replicate 1024 0) (replicate 512 1)))"
proof -
  have b: "batches (word_cat (1 :: u8) (1 :: u8)) = 1" by (simp add: batches_def word_cat_eq)
  have t: "fst (turns (\<lambda>_. 1) 1 lg) = [replicate 512 1]" for lg
    by (simp add: Let_def split_beta constant_reads b)
  have "header_ok header" by (simp add: header_ok_def header_def)
  moreover have "to_int32 (strtoul0 ''1'') = int 1"
    by (simp add: strtoul0_def strtoul_unsigned_def c_isspace_def digit_of_def Let_def to_int32_def)
  moreover have "(1 :: nat) < 2 ^ 22" "True" by simp_all
  moreover have "[replicate 512 1] = fst (turns (\<lambda>_. 1) 1 (sim_log sim_start @ record_init_frames))" by (simp only: t)
  moreover have "length [replicate 512 (1 :: u8)] = 1" by simp
  moreover have "length (replicate 512 (0 :: u8)) = 512" by simp
  moreover have "length (replicate 1024 (0 :: int)) = 1024 \<and> list_all pcm_ok (replicate 1024 0)"
    by (simp add: list_all_iff pcm_ok_def)
  ultimately have "\<exists>h' db' f s'. vs1003_record (sim_board (\<lambda>_. 1)) (\<lambda>_. True) [''record'', ''a'', ''1'']
      header (replicate 512 0) sim_start = Inr (h', db', Some (''a'', f), s')
    \<and> filter_thread (\<lambda>_. 0) (\<lambda>_. replicate 1024 0) [''a'' \<mapsto> f] [''filter'', ''a'']
      = Inr (Some (concat (map (\<lambda>k. batch_energies (\<lambda>_. 0) (replicate 1024 0) ([replicate 512 1] ! k)) [0..<1])))"
    by (intro recording_is_filtered [OF sim_vs_contract])
  then show ?thesis by simp
qed

section \<open>A batch holds two blocks\<close>

definition block_samples :: "int \<Rightarrow> int \<Rightarrow> u8 list \<Rightarrow> int list" where
  "block_samples p i bs = p # samples (p, i) bs"

lemma decode_half:
  assumes "pcm_ok p" and "index_ok i" and "length bs = 252" and "length junk = 1024" and "list_all pcm_ok junk"
  shows "adpcm_decode_block junk (header_bytes p i @ bs) 256 1 = Inr (505, block_samples p i bs @ drop 505 junk)"
  using decode_block_mono [of p i junk bs 63 "[]"] assms by (simp add: write_at_def block_samples_def)

text \<open>C34. 
  A batch of 512 bytes is two blocks of the chip, each with a header. \<open>adpcm_goertzel_decode\<close>
  decodes it as one: it feeds the filter with the samples of the first block, then takes the header
  of the second for eight samples and reads its bytes in the state they leave, and ends with the
  seven numbers the memory held before. Each block alone decodes to the 505 samples it stands for.
\<close>

theorem batch_is_misread:
  assumes "pcm_ok p" and "index_ok i" and "pcm_ok q" and "index_ok j" and "length b1 = 252" and "length b2 = 252"
    and "length junk = 1024" and "list_all pcm_ok junk"
  shows "adpcm_goertzel_decode mag junk (header_bytes p i @ b1 @ header_bytes q j @ b2) 512 = Inr (mag (map convert
      (block_samples p i b1 @ samples (bytes_state (p, i) b1) (header_bytes q j @ b2) @ drop 1017 junk)))
    \<and> adpcm_decode_block junk (header_bytes p i @ b1) 256 1 = Inr (505, block_samples p i b1 @ drop 505 junk)
    \<and> adpcm_decode_block junk (header_bytes q j @ b2) 256 1 = Inr (505, block_samples q j b2 @ drop 505 junk)"
proof -
  let ?all = "block_samples p i b1 @ samples (bytes_state (p, i) b1) (header_bytes q j @ b2) @ drop 1017 junk"
  have "adpcm_decode_block junk (header_bytes p i @ b1 @ header_bytes q j @ b2) 512 1 = Inr (1017, ?all)"
    using decode_block_mono [of p i junk "b1 @ header_bytes q j @ b2" 127 "[]"] assms
    by (simp add: write_at_def block_samples_def samples_append)
  moreover have "length ?all = 1024" using assms(5-7) by (simp add: block_samples_def)
  ultimately show ?thesis
    unfolding adpcm_goertzel_decode_def using collect_loop [of 1024 ?all convert "[]"] decode_half assms
    by (simp add: Let_def)
qed

theorem batch_is_misread_witness:
  "adpcm_goertzel_decode (\<lambda>xs. int (length xs)) (replicate 1024 0)
      (header_bytes 5 0 @ replicate 252 0 @ header_bytes (- 9) 3 @ replicate 252 0) 512 = Inr 1024"
proof -
  have "pcm_ok 5" "index_ok 0" "pcm_ok (- 9)" "index_ok 3" "length (replicate 252 (0 :: u8)) = 252"
    "length (replicate 1024 (0 :: int)) = 1024" "list_all pcm_ok (replicate 1024 0)"
    by (simp_all add: pcm_ok_def index_ok_def)
  from batch_is_misread [where mag = "\<lambda>xs. int (length xs)", OF this(1-5) this(5-7)] show ?thesis
    by (simp add: block_samples_def)
qed

end
