(* ===== verification/Pci.thy ===== *)
theory Pci
  imports Mmio
begin

unbundle bit_operations_syntax

text \<open>
  Access to the configuration space of the PCI bus: \<open>drivers/pci/ls2k_pci.c\<close> and the tags of
  \<open>drivers/pci/pci_machdep.c\<close>. The space is a parameter, read and written 32 bits at a time at
  64-bit addresses; the table of the buses and PCI's number for a root port are the record
  \<open>pci_env\<close>. Messages to the console are left out. The allocation of windows and the start-up of
  the bus, which work on structures whose headers are not in the sources, are not modelled.
\<close>

section \<open>Tags\<close>

text \<open>\<open>_pci_make_tag\<close> gets three \<open>int\<close>s and returns an \<open>unsigned long\<close>.\<close>

definition pci_make_tag :: "u32 \<Rightarrow> u32 \<Rightarrow> u32 \<Rightarrow> u64" where
  "pci_make_tag bus device function = scast (push_bit 16 bus OR push_bit 11 device OR push_bit 8 function)"

definition pci_break_tag :: "u64 \<Rightarrow> u32 \<times> u32 \<times> u32" where
  "pci_break_tag tag =
     (ucast (drop_bit 16 tag AND 255), ucast (drop_bit 11 tag AND 31), ucast (drop_bit 8 tag AND 7))"

section \<open>Buses\<close>

record pci_device =
  secbus_num :: int
  pribus_num :: int
  pcie_type :: int

text \<open>The entries of \<open>_pci_bus\<close> below \<open>_max_pci_bus\<close>, and \<open>PCI_EXP_TYPE_ROOT_PORT\<close>.\<close>

record pci_env =
  pci_buses :: "pci_device option list"
  ROOT_PORT :: int

fun root_port_loop :: "int \<Rightarrow> pci_device option list \<Rightarrow> int \<Rightarrow> bool" where
  "root_port_loop rp [] bus = False"
| "root_port_loop rp (None # pds) bus = False"
| "root_port_loop rp (Some pd # pds) bus =
     (if secbus_num pd = bus then
        if pribus_num pd = 0 then True else if pcie_type pd = rp then True else False
      else root_port_loop rp pds bus)"

definition is_pcie_root_port :: "pci_env \<Rightarrow> int \<Rightarrow> bool" where
  "is_pcie_root_port env bus =
     (if bus = 0 then False else root_port_loop (ROOT_PORT env) (drop 1 (pci_buses env)) bus)"

section \<open>Words of the configuration space\<close>

definition HT_MAP_TYPE0_CONF_ADDR :: u64 where "HT_MAP_TYPE0_CONF_ADDR = 0x900000fe00000000"
definition HT_MAP_TYPE1_CONF_ADDR :: u64 where "HT_MAP_TYPE1_CONF_ADDR = 0x900000fe10000000"

definition pci_read_type0_config32 :: "'s mmio32 \<Rightarrow> u32 \<Rightarrow> u32 \<Rightarrow> u32 \<Rightarrow> 's \<Rightarrow> u32 \<times> 's" where
  "pci_read_type0_config32 d dev func reg s =
     (let addr = HT_MAP_TYPE0_CONF_ADDR;
          addr = addr OR ucast (push_bit 11 dev OR push_bit 8 func OR (reg AND 0xff));
          addr = (if reg > 0xff then addr OR ucast (push_bit 24 (drop_bit 8 reg AND 0xf)) else addr)
      in read32 d addr s)"

definition pci_write_type0_config32 :: "'s mmio32 \<Rightarrow> u32 \<Rightarrow> u32 \<Rightarrow> u32 \<Rightarrow> u32 \<Rightarrow> 's \<Rightarrow> 's" where
  "pci_write_type0_config32 d dev func reg val s =
     (let addr = HT_MAP_TYPE0_CONF_ADDR;
          addr = addr OR ucast (push_bit 11 dev OR push_bit 8 func OR (reg AND 0xff));
          addr = (if reg > 0xff then addr OR ucast (push_bit 24 (drop_bit 8 reg AND 0xf)) else addr);
          addr = addr OR ucast (push_bit 11 dev OR push_bit 8 func OR reg)
      in write32 d addr val s)"

definition pci_read_type1_config32 :: "'s mmio32 \<Rightarrow> u32 \<Rightarrow> u32 \<Rightarrow> u32 \<Rightarrow> u32 \<Rightarrow> 's \<Rightarrow> u32 \<times> 's" where
  "pci_read_type1_config32 d bus dev func reg s =
     (let addr = HT_MAP_TYPE1_CONF_ADDR;
          addr = addr OR ucast (push_bit 16 bus OR push_bit 11 dev OR push_bit 8 func OR (reg AND 0xff));
          addr = (if reg > 0xff then addr OR ucast (push_bit 24 (drop_bit 8 reg AND 0xf)) else addr)
      in read32 d addr s)"

definition pci_write_type1_config32 ::
    "'s mmio32 \<Rightarrow> u32 \<Rightarrow> u32 \<Rightarrow> u32 \<Rightarrow> u32 \<Rightarrow> u32 \<Rightarrow> 's \<Rightarrow> 's" where
  "pci_write_type1_config32 d bus dev func reg val s =
     (let addr = HT_MAP_TYPE1_CONF_ADDR;
          addr = addr OR ucast (push_bit 16 bus OR push_bit 11 dev OR push_bit 8 func OR (reg AND 0xff));
          addr = (if reg > 0xff then addr OR ucast (push_bit 24 (drop_bit 8 reg AND 0xf)) else addr);
          addr = addr OR ucast (push_bit 16 bus OR push_bit 11 dev OR push_bit 8 func OR reg)
      in write32 d addr val s)"

section \<open>Registers\<close>

text \<open>Registers and widths are \<open>int\<close>s; \<open>NOT 0\<close> is what an access that is refused returns.\<close>

definition bad_reg :: "u32 \<Rightarrow> u32 \<Rightarrow> bool" where
  "bad_reg reg width \<longleftrightarrow> reg AND (width - 1) \<noteq> 0 \<or> sint reg < 0 \<or> 0x1000 \<le> sint reg"

definition pci_conf_readn :: "'s mmio32 \<Rightarrow> pci_env \<Rightarrow> u64 \<Rightarrow> u32 \<Rightarrow> u32 \<Rightarrow> 's \<Rightarrow> u32 \<times> 's" where
  "pci_conf_readn d env tag reg width s =
     (if bad_reg reg width then (NOT 0, s)
      else case pci_break_tag tag of (bus, device, function) \<Rightarrow>
        if bus = 0 \<and> device = 2 then (- 1, s)
        else if bus = 0 \<and> (device \<ge> 9 \<and> device \<le> 14) \<and> reg = 0x8 then (0x06040001, s)
        else
          let move = \<lambda>(dat, s).
            (if width = 1 then drop_bit (unat (push_bit 3 (reg AND 3))) dat AND 0xff
             else if width = 2 then drop_bit (unat (push_bit 3 (reg AND 3))) dat AND 0xffff
             else dat, s) in
          if bus = 0 then
            if device > 31 \<or> function > 7 then (NOT 0, s)
            else move (pci_read_type0_config32 d device function (reg AND NOT 3) s)
          else if is_pcie_root_port env (uint bus) \<and> device > 0 then (NOT 0, s)
          else if bus > 255 \<or> device > 31 \<or> function > 7 then (NOT 0, s)
          else move (pci_read_type1_config32 d bus device function (reg AND NOT 3) s))"

definition pci_conf_read :: "'s mmio32 \<Rightarrow> pci_env \<Rightarrow> u64 \<Rightarrow> u32 \<Rightarrow> 's \<Rightarrow> u32 \<times> 's" where
  "pci_conf_read d env tag reg s = pci_conf_readn d env tag reg 4 s"

definition pci_conf_read32 :: "'s mmio32 \<Rightarrow> pci_env \<Rightarrow> u64 \<Rightarrow> u32 \<Rightarrow> 's \<Rightarrow> u32 \<times> 's" where
  "pci_conf_read32 d env tag reg s = pci_conf_readn d env tag reg 4 s"

definition pci_conf_read8 :: "'s mmio32 \<Rightarrow> pci_env \<Rightarrow> u64 \<Rightarrow> u32 \<Rightarrow> 's \<Rightarrow> u8 \<times> 's" where
  "pci_conf_read8 d env tag reg s =
     (let new_reg = reg AND 0xfc;
          (dat, s) = pci_conf_readn d env tag new_reg 4 s;
          offset = reg AND 3;
          dat = drop_bit (unat (offset * 8)) dat;
          dat = dat AND 0xff
      in (ucast dat, s))"

definition pci_conf_read16 :: "'s mmio32 \<Rightarrow> pci_env \<Rightarrow> u64 \<Rightarrow> u32 \<Rightarrow> 's \<Rightarrow> u16 \<times> 's" where
  "pci_conf_read16 d env tag reg s =
     (let new_reg = reg AND 0xfc;
          (dat, s) = pci_conf_readn d env tag new_reg 4 s;
          offset = reg AND 2;
          dat = drop_bit (unat (push_bit 3 offset)) dat;
          dat = dat AND 0xffff
      in (ucast dat, s))"

definition pci_conf_writen :: "'s mmio32 \<Rightarrow> pci_env \<Rightarrow> u64 \<Rightarrow> u32 \<Rightarrow> u32 \<Rightarrow> u32 \<Rightarrow> 's \<Rightarrow> 's" where
  "pci_conf_writen d env tag reg val width s =
     (if bad_reg reg width then s
      else case pci_break_tag tag of (bus, device, function) \<Rightarrow>
        if bus = 0 \<and> (device > 31 \<or> function > 7) then s
        else if bus \<noteq> 0 \<and> is_pcie_root_port env (uint bus) \<and> device > 0 then s
        else if bus \<noteq> 0 \<and> (bus > 255 \<or> device > 31 \<or> function > 7) then s
        else
          let sh = unat (push_bit 3 (reg AND 3));
              (dat, s) =
                (if width = 4 then (val, s)
                 else case pci_conf_read d env tag (reg AND NOT 3) s of (dat, s) \<Rightarrow>
                   (if width = 1 then (dat AND NOT (push_bit sh 0xff)) OR push_bit sh val
                    else if width = 2 then (dat AND NOT (push_bit sh 0xffff)) OR push_bit sh val
                    else dat, s)) in
          if bus = 0 then pci_write_type0_config32 d device function (reg AND NOT 3) dat s
          else pci_write_type1_config32 d bus device function (reg AND NOT 3) dat s)"

definition pci_conf_write :: "'s mmio32 \<Rightarrow> pci_env \<Rightarrow> u64 \<Rightarrow> u32 \<Rightarrow> u32 \<Rightarrow> 's \<Rightarrow> 's" where
  "pci_conf_write d env tag reg dat s = pci_conf_writen d env tag reg dat 4 s"

definition pci_conf_write32 :: "'s mmio32 \<Rightarrow> pci_env \<Rightarrow> u64 \<Rightarrow> u32 \<Rightarrow> u32 \<Rightarrow> 's \<Rightarrow> 's" where
  "pci_conf_write32 d env tag reg dat s = pci_conf_writen d env tag reg dat 4 s"

definition pci_conf_write8 :: "'s mmio32 \<Rightarrow> pci_env \<Rightarrow> u64 \<Rightarrow> u32 \<Rightarrow> u8 \<Rightarrow> 's \<Rightarrow> 's" where
  "pci_conf_write8 d env tag reg dat s = pci_conf_writen d env tag reg (ucast dat) 1 s"

definition pci_conf_write16 :: "'s mmio32 \<Rightarrow> pci_env \<Rightarrow> u64 \<Rightarrow> u32 \<Rightarrow> u16 \<Rightarrow> 's \<Rightarrow> 's" where
  "pci_conf_write16 d env tag reg dat s = pci_conf_writen d env tag reg (ucast dat) 2 s"

section \<open>Addresses\<close>

text \<open>
  The tag's bits 8 to 23 and the register's bits 0 to 7 in place, its bits 8 to 11 moved to 24;
  the upper bits tell the two kinds of access apart.
\<close>

definition conf_addr :: "u64 \<Rightarrow> u32 \<Rightarrow> u64" where
  "conf_addr tag reg =
     (if drop_bit 16 tag AND 255 = 0 then HT_MAP_TYPE0_CONF_ADDR else HT_MAP_TYPE1_CONF_ADDR) OR
     (tag AND 0xffff00) OR ucast (reg AND 0xff) OR push_bit 16 (ucast (reg AND 0xf00))"

lemma mask_bits:
  "bit (0xff :: 'a :: len word) k \<longleftrightarrow> k < min 8 LENGTH('a)" "bit (255 :: 'a word) k \<longleftrightarrow> k < min 8 LENGTH('a)"
  "bit (0xf :: 'a word) k \<longleftrightarrow> k < min 4 LENGTH('a)" "bit (31 :: 'a word) k \<longleftrightarrow> k < min 5 LENGTH('a)"
  "bit (7 :: 'a word) k \<longleftrightarrow> k < min 3 LENGTH('a)" "bit (3 :: 'a word) k \<longleftrightarrow> k < min 2 LENGTH('a)"
  using bit_mask_iff [where 'a = "'a word" and m = 8 and n = k] bit_mask_iff [where 'a = "'a word" and m = 4 and n = k]
    bit_mask_iff [where 'a = "'a word" and m = 5 and n = k] bit_mask_iff [where 'a = "'a word" and m = 3 and n = k]
    bit_mask_iff [where 'a = "'a word" and m = 2 and n = k]
  by (auto simp: mask_eq_exp_minus_1 bit_imp_le_length)

lemma wide_masks:
  "bit (0xffff :: u32) k \<longleftrightarrow> k < 16" "bit (0xf00 :: u32) k \<longleftrightarrow> 8 \<le> k \<and> k < 12" "bit (0xffff00 :: u64) k \<longleftrightarrow> 8 \<le> k \<and> k < 24"
proof -
  have "(0xffff :: u32) = mask 16" "(0xf00 :: u32) = push_bit 8 0xf" "(0xffff00 :: u64) = push_bit 8 (mask 16)"
    by (simp_all add: mask_eq_exp_minus_1)
  then show "bit (0xffff :: u32) k \<longleftrightarrow> k < 16" "bit (0xf00 :: u32) k \<longleftrightarrow> 8 \<le> k \<and> k < 12" "bit (0xffff00 :: u64) k \<longleftrightarrow> 8 \<le> k \<and> k < 24"
    by (auto simp only: bit_push_bit_iff mask_bits bit_mask_iff) auto
qed

lemmas conf_bits = bit_or_iff bit_and_iff bit_not_iff bit_push_bit_iff bit_drop_bit_eq bit_ucast_iff mask_bits wide_masks

lemma base_bits:
  assumes "k < 28"
  shows "\<not> bit HT_MAP_TYPE0_CONF_ADDR k \<and> \<not> bit HT_MAP_TYPE1_CONF_ADDR k"
proof -
  have b: "HT_MAP_TYPE0_CONF_ADDR = push_bit 28 0x900000fe0" "HT_MAP_TYPE1_CONF_ADDR = push_bit 28 0x900000fe1"
    by (simp_all add: HT_MAP_TYPE0_CONF_ADDR_def HT_MAP_TYPE1_CONF_ADDR_def)
  have "\<not> bit (push_bit 28 x) k" for x :: u64 using assms by (simp add: bit_push_bit_iff)
  then show ?thesis unfolding b by blast
qed

lemma conf_addr_bits:
  "k < 28 \<Longrightarrow> bit (conf_addr tag reg) k \<longleftrightarrow>
     (if k < 8 then bit reg k else if k < 24 then bit tag k else bit reg (k - 16))"
  by (auto simp: conf_addr_def conf_bits base_bits simp del: bit_numeral_word_iff)

text \<open>The same register of the same function of the same device.\<close>

definition same_function :: "u64 \<Rightarrow> u64 \<Rightarrow> bool" where
  "same_function t t' \<longleftrightarrow> t AND 0xffff00 = t' AND 0xffff00"

lemma same_function_bits: "same_function t t' \<longleftrightarrow> (\<forall>k. 8 \<le> k \<and> k < 24 \<longrightarrow> bit t k = bit t' k)"
proof -
  have "bit (t AND 0xffff00) k \<longleftrightarrow> bit t k \<and> 8 \<le> k \<and> k < 24" for t :: u64 and k
    by (simp only: bit_and_iff wide_masks)
  moreover have "a = b \<longleftrightarrow> (\<forall>k. bit a k = bit b k)" for a b :: u64
    using bit_eqI by blast
  ultimately show ?thesis unfolding same_function_def by auto
qed

lemma bit_bounded:
  fixes w :: u32
  assumes "uint w < 2 ^ m" and "bit w k"
  shows "k < m"
proof (rule ccontr)
  assume "\<not> k < m"
  then have "(2 :: int) ^ m \<le> 2 ^ k" by (intro power_increasing) simp_all
  with assms(1) have "uint w < 2 ^ k" by linarith
  then have "uint w div 2 ^ k = 0" by (simp add: div_pos_pos_trivial)
  moreover have "bit (uint w) k" using assms(2) bit_imp_le_length [OF assms(2)] by (simp add: bit_uint_iff)
  ultimately show False by (simp add: bit_iff_odd)
qed

lemma small_reg_bits: "reg < 0x1000 \<Longrightarrow> bit reg k \<Longrightarrow> k < 12" for reg :: u32
  by (rule bit_bounded) (simp_all add: word_less_def)

lemma conf_addr_eq:
  assumes "reg < 0x1000" and "reg' < 0x1000"
  shows "conf_addr tag reg = conf_addr tag' reg' \<longleftrightarrow> same_function tag tag' \<and> reg = reg'"
proof
  assume eq: "conf_addr tag reg = conf_addr tag' reg'"
  have low: "bit reg k = bit reg' k" if "k < 8" for k
    using that conf_addr_bits [of k tag reg] conf_addr_bits [of k tag' reg'] eq by simp
  have high: "bit reg k = bit reg' k" if "8 \<le> k" "k < 12" for k
    using that conf_addr_bits [of "k + 16" tag reg] conf_addr_bits [of "k + 16" tag' reg'] eq by simp
  have "bit reg k = bit reg' k" for k
    by (metis low high assms not_less small_reg_bits)
  moreover have "bit tag k = bit tag' k" if "8 \<le> k \<and> k < 24" for k
    using that conf_addr_bits [of k tag reg] conf_addr_bits [of k tag' reg'] eq by simp
  ultimately show "same_function tag tag' \<and> reg = reg'" by (simp add: bit_eq_iff same_function_bits)
next
  assume a: "same_function tag tag' \<and> reg = reg'"
  then have "drop_bit 16 tag AND 255 = drop_bit 16 tag' AND 255"
    by (auto simp: bit_eq_iff conf_bits same_function_bits simp del: bit_numeral_word_iff)
  with a show "conf_addr tag reg = conf_addr tag' reg'" by (simp add: conf_addr_def same_function_def)
qed

lemma tag_bits:
  assumes "pci_break_tag tag = (b, v, f)"
  shows "bit (push_bit 16 b OR push_bit 11 v OR push_bit 8 f) k \<longleftrightarrow> 8 \<le> k \<and> k < 24 \<and> bit tag k"
proof -
  have "bit (push_bit 16 b) k \<longleftrightarrow> 16 \<le> k \<and> k < 24 \<and> bit tag k" "bit (push_bit 11 v) k \<longleftrightarrow> 11 \<le> k \<and> k < 16 \<and> bit tag k"
    "bit (push_bit 8 f) k \<longleftrightarrow> 8 \<le> k \<and> k < 11 \<and> bit tag k"
    using assms by (auto simp: pci_break_tag_def conf_bits simp del: bit_numeral_word_iff)
  then show ?thesis unfolding bit_or_iff by linarith
qed

lemma high_part_bits:
  fixes reg :: u32 and a :: u64
  assumes "reg < 0x1000"
  shows "bit (if reg > 0xff then a OR ucast (push_bit 24 (drop_bit 8 reg AND 0xf)) else a) k \<longleftrightarrow>
    bit a k \<or> 24 \<le> k \<and> k < 28 \<and> bit reg (k - 16)"
proof -
  have high: "bit (ucast (push_bit 24 (drop_bit 8 reg AND 0xf)) :: u64) k \<longleftrightarrow> 24 \<le> k \<and> k < 28 \<and> bit reg (k - 16)"
    by (auto simp: conf_bits simp del: bit_numeral_word_iff push_bit_and)
  have "\<not> bit reg n" if "\<not> reg > 0xff" "8 \<le> n" for n
    using that bit_bounded [of reg 8 n] by (auto simp: word_less_def not_less word_le_def)
  then show ?thesis by (cases "reg > 0xff") (auto simp only: bit_or_iff high if_True if_False, force)
qed

lemma part_bits:
  "bit (tag AND 0xffff00) k \<longleftrightarrow> 8 \<le> k \<and> k < 24 \<and> bit tag k"
  "bit (ucast (reg AND 0xff) :: u64) k \<longleftrightarrow> k < 8 \<and> bit reg k"
  "bit (push_bit 16 (ucast (reg AND 0xf00)) :: u64) k \<longleftrightarrow> 24 \<le> k \<and> k < 28 \<and> bit reg (k - 16)"
  for tag :: u64 and reg :: u32
  by (auto simp: conf_bits simp del: bit_numeral_word_iff push_bit_and)

text \<open>The address of a read, and that of a write, which has the upper bits of the register twice.\<close>

lemma read_addr:
  assumes "reg < 0x1000" and "pci_break_tag tag = (b, v, f)"
  shows "(let addr = a OR ucast (push_bit 16 b OR push_bit 11 v OR push_bit 8 f OR (reg AND 0xff)) in
      if reg > 0xff then addr OR ucast (push_bit 24 (drop_bit 8 reg AND 0xf)) else addr)
    = a OR (tag AND 0xffff00) OR ucast (reg AND 0xff) OR push_bit 16 (ucast (reg AND 0xf00))"
proof -
  have "push_bit 16 b OR push_bit 11 v OR push_bit 8 f OR (reg AND 0xff)
      = (push_bit 16 b OR push_bit 11 v OR push_bit 8 f) OR (reg AND 0xff)"
    by (simp only: or.assoc)
  then have "bit (ucast (push_bit 16 b OR push_bit 11 v OR push_bit 8 f OR (reg AND 0xff)) :: u64) k \<longleftrightarrow>
      8 \<le> k \<and> k < 24 \<and> bit tag k \<or> bit (ucast (reg AND 0xff) :: u64) k" for k
    by (simp only: bit_ucast_iff bit_or_iff [where b = "reg AND 0xff"] tag_bits [OF assms(2)]) auto
  then show ?thesis
    by (intro bit_eqI) (simp only: Let_def high_part_bits [OF assms(1)] bit_or_iff part_bits disj_assoc)
qed

lemma write_addr:
  assumes "reg < 0x1000" and "pci_break_tag tag = (b, v, f)"
  shows "conf_addr tag reg OR ucast (push_bit 16 b OR push_bit 11 v OR push_bit 8 f OR reg)
    = conf_addr (tag OR ucast (reg AND 0xf00)) reg"
proof -
  have bus: "drop_bit 16 (tag OR ucast (reg AND 0xf00)) AND 255 = drop_bit 16 tag AND 255"
    by (rule bit_eqI) (auto simp: conf_bits simp del: bit_numeral_word_iff)
  have "push_bit 16 b OR push_bit 11 v OR push_bit 8 f OR reg = (push_bit 16 b OR push_bit 11 v OR push_bit 8 f) OR reg"
    by (simp only: or.assoc)
  then have word: "bit (ucast (push_bit 16 b OR push_bit 11 v OR push_bit 8 f OR reg) :: u64) k \<longleftrightarrow>
      k < 64 \<and> (8 \<le> k \<and> k < 24 \<and> bit tag k \<or> bit reg k)" for k
    by (simp only: bit_ucast_iff bit_or_iff [where b = reg] tag_bits [OF assms(2)]) simp
  have target: "bit ((tag OR ucast (reg AND 0xf00)) AND 0xffff00) k \<longleftrightarrow>
      8 \<le> k \<and> k < 24 \<and> bit tag k \<or> 8 \<le> k \<and> k < 12 \<and> bit reg k" for k
    by (auto simp: conf_bits simp del: bit_numeral_word_iff)
  have extra: "bit (ucast (push_bit 16 b OR push_bit 11 v OR push_bit 8 f OR reg) :: u64) k \<longleftrightarrow>
      bit ((tag OR ucast (reg AND 0xf00)) AND 0xffff00) k \<or> bit (ucast (reg AND 0xff) :: u64) k" for k
    unfolding target word part_bits(2) using small_reg_bits [OF assms(1), of k] by auto
  have old: "bit (tag AND 0xffff00) k \<Longrightarrow> bit ((tag OR ucast (reg AND 0xf00)) AND 0xffff00) k" for k
    unfolding bit_and_iff bit_or_iff by blast
  have "((((B \<or> T) \<or> R) \<or> H) \<or> T' \<or> R) = (((B \<or> T') \<or> R) \<or> H)" if "T \<Longrightarrow> T'" for B T R H T' :: bool
    using that by blast
  from this [OF old] show ?thesis
    unfolding conf_addr_def bus by (intro bit_eqI) (simp only: bit_or_iff extra or.assoc disj_assoc)
qed

lemma no_bits: "w = 0 \<longleftrightarrow> (\<forall>n. \<not> bit w n)" for w :: "'a :: len word"
  by (metis bit_0_eq bot_apply bot_bool_def bit_eqI)

lemma config_words:
  assumes "reg < 0x1000" and "pci_break_tag tag = (b, v, f)"
  shows "b = 0 \<Longrightarrow> pci_read_type0_config32 d v f reg s = read32 d (conf_addr tag reg) s"
    and "b \<noteq> 0 \<Longrightarrow> pci_read_type1_config32 d b v f reg s = read32 d (conf_addr tag reg) s"
    and "b = 0 \<Longrightarrow> pci_write_type0_config32 d v f reg x s = write32 d (conf_addr (tag OR ucast (reg AND 0xf00)) reg) x s"
    and "b \<noteq> 0 \<Longrightarrow> pci_write_type1_config32 d b v f reg x s =
      write32 d (conf_addr (tag OR ucast (reg AND 0xf00)) reg) x s"
proof -
  have "bit b n \<longleftrightarrow> bit (drop_bit 16 tag AND 255) n" for n
    using assms(2) by (auto simp: pci_break_tag_def conf_bits simp del: bit_numeral_word_iff)
  moreover have "b = 0 \<longleftrightarrow> (\<forall>n. \<not> bit b n)" "drop_bit 16 tag AND 255 = 0 \<longleftrightarrow> (\<forall>n. \<not> bit (drop_bit 16 tag AND 255) n)"
    by (simp_all only: no_bits)
  ultimately have bus: "b = 0 \<longleftrightarrow> drop_bit 16 tag AND 255 = 0" by simp
  note addr = read_addr [OF assms, unfolded Let_def]
  show "pci_read_type0_config32 d v f reg s = read32 d (conf_addr tag reg) s" if b: "b = 0"
    using addr [of HT_MAP_TYPE0_CONF_ADDR] bus b
    by (simp only: pci_read_type0_config32_def Let_def conf_addr_def push_bit_of_0 or.left_neutral simp_thms if_True)
  show "pci_read_type1_config32 d b v f reg s = read32 d (conf_addr tag reg) s" if b: "b \<noteq> 0"
    using addr [of HT_MAP_TYPE1_CONF_ADDR] bus b
    by (simp only: pci_read_type1_config32_def Let_def conf_addr_def simp_thms if_False)
  note waddr = write_addr [OF assms, unfolded conf_addr_def [of tag]]
  show "pci_write_type0_config32 d v f reg x s = write32 d (conf_addr (tag OR ucast (reg AND 0xf00)) reg) x s"
    if b: "b = 0"
    using addr [of HT_MAP_TYPE0_CONF_ADDR] waddr bus b
    by (simp only: pci_write_type0_config32_def Let_def push_bit_of_0 or.left_neutral simp_thms if_True)
  show "pci_write_type1_config32 d b v f reg x s = write32 d (conf_addr (tag OR ucast (reg AND 0xf00)) reg) x s"
    if b: "b \<noteq> 0"
    using addr [of HT_MAP_TYPE1_CONF_ADDR] waddr bus b
    by (simp only: pci_write_type1_config32_def Let_def simp_thms if_False)
qed

text \<open>A tag made of a bus, a device and a function in range breaks into them again.\<close>

lemma tag_roundtrip:
  assumes "b \<le> 255" and "v \<le> 31" and "f \<le> 7"
  shows "pci_break_tag (pci_make_tag b v f) = (b, v, f)"
proof -
  have small: "bit b k \<Longrightarrow> k < 8" "bit v k \<Longrightarrow> k < 5" "bit f k \<Longrightarrow> k < 3" for k
    using bit_bounded [of b 8 k] bit_bounded [of v 5 k] bit_bounded [of f 3 k] assms by (auto simp: word_le_def)
  then have tag: "bit (pci_make_tag b v f) k \<longleftrightarrow>
      16 \<le> k \<and> k < 24 \<and> bit b (k - 16) \<or> 11 \<le> k \<and> k < 16 \<and> bit v (k - 11) \<or> 8 \<le> k \<and> k < 11 \<and> bit f (k - 8)" for k
  proof (cases "k < 32")
    case True
    then show ?thesis
      using small [of "k - 16"] small [of "k - 11"] small [of "k - 8"]
      by (auto simp: pci_make_tag_def bit_signed_iff bit_or_iff bit_push_bit_iff)
  next
    case False
    then show ?thesis using small [of 15] small [of 20] small [of 23]
      by (auto simp: pci_make_tag_def bit_signed_iff bit_or_iff bit_push_bit_iff)
  qed
  show ?thesis
    using small by (auto simp: pci_break_tag_def tag bit_eq_iff conf_bits simp del: bit_numeral_word_iff)
qed

section \<open>The space as registers of functions\<close>

text \<open>
  Reading gives a cell and changes none; what a write makes of a cell is up to the register,
  whose bits may be read-only or cleared by writing ones: \<open>eff\<close> gets the address, the old value and
  the word written.
\<close>

definition conf_reads :: "'s mmio32 \<Rightarrow> ('s \<Rightarrow> u64 \<Rightarrow> u32) \<Rightarrow> bool" where
  "conf_reads d cell \<longleftrightarrow> (\<forall>s a. fst (read32 d a s) = cell s a \<and> cell (snd (read32 d a s)) = cell s)"

definition conf_regs :: "'s mmio32 \<Rightarrow> ('s \<Rightarrow> u64 \<Rightarrow> u32) \<Rightarrow> (u64 \<Rightarrow> u32 \<Rightarrow> u32 \<Rightarrow> u32) \<Rightarrow> bool" where
  "conf_regs d cell eff \<longleftrightarrow> conf_reads d cell \<and>
     (\<forall>s a v. cell (write32 d a v s) = (cell s)(a := eff a (cell s a) v))"

lemma conf_regs_reads: "conf_regs d cell eff \<Longrightarrow> conf_reads d cell"
  by (simp add: conf_regs_def)

text \<open>Bit \<open>n\<close> of the space of a function: bit \<open>k\<close> of register \<open>r\<close> is number \<open>8 * r + k\<close>.\<close>

definition conf_bit :: "('s \<Rightarrow> u64 \<Rightarrow> u32) \<Rightarrow> u64 \<Rightarrow> nat \<Rightarrow> 's \<Rightarrow> bool" where
  "conf_bit cell tag n s = bit (cell s (conf_addr tag (word_of_nat (n div 32 * 4)))) (n mod 32)"

text \<open>
  Functions the driver accesses: not device 2 of bus 0, and behind a root port only device 0; and
  the register whose contents the driver makes up for devices 9 to 14 of bus 0.
\<close>

definition answered :: "pci_env \<Rightarrow> u64 \<Rightarrow> bool" where
  "answered env tag = (case pci_break_tag tag of (b, v, f) \<Rightarrow>
     \<not> (b = 0 \<and> v = 2) \<and> \<not> (b \<noteq> 0 \<and> is_pcie_root_port env (uint b) \<and> 0 < v))"

definition made_up :: "u64 \<Rightarrow> u32 \<Rightarrow> bool" where
  "made_up tag reg = (case pci_break_tag tag of (b, v, f) \<Rightarrow> b = 0 \<and> 9 \<le> v \<and> v \<le> 14 \<and> unat reg div 4 = 2)"

text \<open>A function that is refused behind a root port, and what the driver shows of a word in the
  others: all ones for device 2 of bus 0, and the made-up class code.\<close>

definition behind_root :: "pci_env \<Rightarrow> u64 \<Rightarrow> bool" where
  "behind_root env tag = (case pci_break_tag tag of (b, v, f) \<Rightarrow>
     b \<noteq> 0 \<and> is_pcie_root_port env (uint b) \<and> 0 < v)"

definition shown :: "u64 \<Rightarrow> u32 \<Rightarrow> u32 \<Rightarrow> u32" where
  "shown tag reg x = (case pci_break_tag tag of (b, v, f) \<Rightarrow>
     if b = 0 \<and> v = 2 then - 1 else if made_up tag reg then 0x06040001 else x)"

lemma answered_behind_root: "answered env tag \<Longrightarrow> \<not> behind_root env tag"
  by (auto simp: answered_def behind_root_def)

lemma shown_answered: "answered env tag \<Longrightarrow> \<not> made_up tag reg \<Longrightarrow> shown tag reg x = x"
  by (auto simp: answered_def shown_def)

lemma tag_ranges:
  assumes "pci_break_tag tag = (b, v, f)"
  shows "\<not> b > 255 \<and> \<not> v > 31 \<and> \<not> f > 7"
proof -
  have "uint (ucast (take_bit n x) :: u32) < 2 ^ n" for n and x :: u64
  proof -
    have "uint (ucast (take_bit n x) :: u32) = take_bit (min 32 n) (uint x)"
      by (simp add: unsigned_ucast_eq unsigned_take_bit_eq min.commute)
    also have "\<dots> < 2 ^ min 32 n" by (rule take_bit_int_less_exp)
    also have "\<dots> \<le> 2 ^ n" by (rule power_increasing) simp_all
    finally show ?thesis .
  qed
  from this [of 8 "drop_bit 16 tag"] this [of 5 "drop_bit 11 tag"] this [of 3 "drop_bit 8 tag"] assms
  show ?thesis by (auto simp: pci_break_tag_def take_bit_eq_mask mask_eq_exp_minus_1 word_less_def)
qed

lemma aligned_reg: "reg AND NOT 3 = (word_of_nat (unat reg div 4 * 4) :: u32)" for reg :: u32
proof -
  have "unat (drop_bit 2 reg) = unat reg div 4" by (simp only: unsigned_drop_bit_eq) (simp add: drop_bit_eq_div take_bit_nat_eq_self unsigned_less [where 'a = nat, of reg, simplified])
  then have "(word_of_nat (unat reg div 4 * 4) :: u32) = word_of_nat (unat (drop_bit 2 reg)) * 4" by simp
  also have "\<dots> = push_bit 2 (drop_bit 2 reg)" by (simp add: push_bit_eq_mult)
  also have "\<dots> = reg AND NOT 3"
  proof (rule bit_eqI)
    fix k
    have "bit (push_bit 2 (drop_bit 2 reg)) k \<longleftrightarrow> 2 \<le> k \<and> bit reg k"
    proof (cases "2 \<le> k")
      case True
      then obtain j where "k = 2 + j" by (metis le_Suc_ex)
      then show ?thesis
        using bit_imp_le_length [of reg k] by (auto simp: bit_push_bit_iff bit_drop_bit_eq simp del: add_2_eq_Suc)
    qed (simp add: bit_push_bit_iff)
    moreover have "bit (reg AND NOT 3) k \<longleftrightarrow> 2 \<le> k \<and> bit reg k"
      by (simp only: bit_and_iff bit_not_iff mask_bits) (auto dest: bit_imp_le_length)
    ultimately show "bit (push_bit 2 (drop_bit 2 reg)) k \<longleftrightarrow> bit (reg AND NOT 3) k" by simp
  qed
  finally show ?thesis ..
qed

lemma low_reg: "unat (reg AND 3) = unat reg mod 4" "unat (push_bit 3 (reg AND 3)) = 8 * (unat reg mod 4)" for reg :: u32
proof -
  have "reg AND 3 = take_bit 2 reg" by (simp add: take_bit_eq_mask mask_eq_exp_minus_1)
  then show low: "unat (reg AND 3) = unat reg mod 4" by (simp only: unsigned_take_bit_eq) (simp add: take_bit_eq_mod)
  have "push_bit 3 (reg AND 3) = (reg AND 3) * 8" by (simp only: push_bit_eq_mult) simp
  then have "unat (push_bit 3 (reg AND 3)) = (unat reg mod 4 * 8) mod 2 ^ 32"
    by (simp only: unat_word_ariths low) simp
  then show "unat (push_bit 3 (reg AND 3)) = 8 * (unat reg mod 4)" by simp
qed

lemma good_reg:
  assumes "\<not> bad_reg reg w" and "w = 1 \<or> w = 2 \<or> w = 4"
  shows "reg < 0x1000" and "unat reg < 0x1000" and "unat reg mod 4 + unat w \<le> 4"
proof -
  have "0 \<le> sint reg" "sint reg < 0x1000" using assms(1) by (simp_all add: bad_reg_def not_less not_le)
  then have "uint reg = sint reg" by (simp add: uint_sint take_bit_int_eq_self)
  then have "uint reg < 0x1000" using \<open>sint reg < 0x1000\<close> by simp
  then show "reg < 0x1000" by (simp add: word_less_def)
  then show "unat reg < 0x1000" by (simp add: word_less_nat_alt)
  show "unat reg mod 4 + unat w \<le> 4"
  proof (cases "w = 1")
    case True
    then show ?thesis using mod_less_divisor [of 4 "unat reg"] by simp
  next
    case False
    show ?thesis
    proof (cases "w = 2")
      case True
      have "unat (reg mod 2) = unat reg mod 2" by (simp only: unat_mod_distrib) simp
      moreover have "reg mod 2 = 0" using assms(1) True by (simp add: bad_reg_def and_one_eq)
      ultimately have "even (unat reg)" by (simp add: even_iff_mod_2_eq_zero)
      then have "unat reg mod 4 \<le> 2" by presburger
      with True show ?thesis by simp
    next
      case False
      with assms(2) \<open>w \<noteq> 1\<close> have w: "w = 4" by blast
      then have "reg AND 3 = 0" using assms(1) by (simp add: bad_reg_def)
      then have "unat reg mod 4 = 0" using low_reg(1) [of reg] by (simp only:) simp
      with w show ?thesis by simp
    qed
  qed
qed

text \<open>What a write of 32 bits does to the space, and a read of a register.\<close>

lemma small_word: "m < 0x1000 \<Longrightarrow> (word_of_nat m :: u32) < 0x1000"
  by (simp add: word_less_nat_alt unat_of_nat)

lemma bit_after_write:
  fixes cell :: "'s \<Rightarrow> u64 \<Rightarrow> u32"
  assumes "m < 0x1000" and "m mod 4 = 0" and "n < 8 * 0x1000"
  shows "bit (((cell s) (conf_addr t (word_of_nat m) := x)) (conf_addr tag' (word_of_nat (n div 32 * 4)))) (n mod 32)
    \<longleftrightarrow> (if same_function t tag' \<and> n div 32 = m div 4 then bit x (n mod 32) else conf_bit cell tag' n s)"
proof -
  have inj: "(word_of_nat k :: u32) = word_of_nat l \<longleftrightarrow> k = l" if "k < 0x1000" "l < 0x1000" for k l
    using that by (simp add: word_unat_eq_iff unat_of_nat)
  have n: "n div 32 * 4 < 0x1000" using assms(3) by simp
  have "m = n div 32 * 4 \<longleftrightarrow> n div 32 = m div 4" using assms(2) by auto
  then have "conf_addr t (word_of_nat m) = conf_addr tag' (word_of_nat (n div 32 * 4))
      \<longleftrightarrow> same_function t tag' \<and> n div 32 = m div 4"
    using conf_addr_eq [OF small_word [OF assms(1)] small_word [OF n], of t tag'] inj [OF assms(1) n] by simp
  then show ?thesis by (auto simp: conf_bit_def)
qed

lemma register_bits:
  fixes R :: nat
  assumes "8 * (R mod 4) + k < 32"
  shows "(8 * R + k) div 32 = R div 4" and "(8 * R + k) mod 32 = 8 * (R mod 4) + k"
proof -
  define a where "a = 8 * (R mod 4) + k"
  have "8 * R + k = a + 32 * (R div 4)"
    using mult_div_mod_eq [of 4 R] unfolding a_def by linarith
  moreover have "a < 32" using assms by (simp add: a_def)
  ultimately show "(8 * R + k) div 32 = R div 4" and "(8 * R + k) mod 32 = 8 * (R mod 4) + k"
    unfolding a_def [symmetric] by simp_all
qed

lemma readn_run:
  assumes "conf_reads d cell" and "answered env tag" and "\<not> made_up tag reg" and "\<not> bad_reg reg w"
    and "w = 1 \<or> w = 2 \<or> w = 4"
  shows "\<exists>s'. pci_conf_readn d env tag reg w s =
      (let x = cell s (conf_addr tag (reg AND NOT 3)); sh = 8 * (unat reg mod 4) in
       if w = 1 then drop_bit sh x AND 0xff else if w = 2 then drop_bit sh x AND 0xffff else x, s') \<and>
    cell s' = cell s"
proof -
  obtain b v f where t: "pci_break_tag tag = (b, v, f)" by (metis prod_cases3)
  note ranges = tag_ranges [OF t] and good = good_reg [OF assms(4,5)]
  let ?r = "reg AND NOT 3" and ?sh = "8 * (unat reg mod 4)"
  have "unat reg div 4 * 4 < 0x1000" using good(2) by simp
  then have r: "?r < 0x1000" unfolding aligned_reg by (rule small_word)
  obtain x s' where x: "read32 d (conf_addr tag ?r) s = (x, s')" "x = cell s (conf_addr tag ?r)" "cell s' = cell s"
    using assms(1) unfolding conf_reads_def by (metis fst_conv snd_conv prod.collapse)
  have run: "pci_conf_readn d env tag reg w s =
      (if w = 1 then drop_bit ?sh x AND 0xff else if w = 2 then drop_bit ?sh x AND 0xffff else x, s')"
  proof (cases "b = 0")
    case True
    then have "v \<noteq> 2" "\<not> ((9 \<le> v \<and> v \<le> 14) \<and> reg = 8)"
      using assms(2,3) t by (auto simp: answered_def made_up_def)
    then show ?thesis
      using ranges assms(4) config_words(1) [OF r t True, of d s, unfolded x(1)]
      by (simp only: pci_conf_readn_def t True prod.case Let_def low_reg simp_thms if_True if_False)
  next
    case False
    then have "\<not> (is_pcie_root_port env (uint b) \<and> 0 < v)"
      using assms(2) t by (auto simp: answered_def)
    then show ?thesis
      using ranges assms(4) config_words(2) [OF r t False, of d s, unfolded x(1)] False
      by (simp only: pci_conf_readn_def t prod.case Let_def low_reg simp_thms if_True if_False)
  qed
  then show ?thesis unfolding Let_def x(2) using x(3) by blast
qed

lemma readn_cells:
  assumes "conf_reads d cell" and "answered env tag" and "\<not> made_up tag reg" and "\<not> bad_reg reg w"
    and "w = 1 \<or> w = 2 \<or> w = 4"
  shows "cell (snd (pci_conf_readn d env tag reg w s)) = cell s"
    and "bit (fst (pci_conf_readn d env tag reg w s)) k \<longleftrightarrow> k < 8 * unat w \<and> conf_bit cell tag (8 * unat reg + k) s"
proof -
  let ?x = "cell s (conf_addr tag (reg AND NOT 3))" and ?sh = "8 * (unat reg mod 4)"
  note good = good_reg [OF assms(4,5)]
  obtain s' where run: "pci_conf_readn d env tag reg w s =
      (if w = 1 then drop_bit ?sh ?x AND 0xff else if w = 2 then drop_bit ?sh ?x AND 0xffff else ?x, s')"
    "cell s' = cell s"
    using readn_run [OF assms, of s] unfolding Let_def by blast
  then show "cell (snd (pci_conf_readn d env tag reg w s)) = cell s" by simp
  show "bit (fst (pci_conf_readn d env tag reg w s)) k \<longleftrightarrow> k < 8 * unat w \<and> conf_bit cell tag (8 * unat reg + k) s"
  proof (cases "k < 8 * unat w")
    case True
    then have k: "8 * (unat reg mod 4) + k < 32" using good(3) by linarith
    have "conf_bit cell tag (8 * unat reg + k) s = bit ?x (?sh + k)"
      unfolding conf_bit_def register_bits [OF k] aligned_reg by (rule refl)
    then show ?thesis
      using True assms(5) good(3) unfolding run by (auto simp: conf_bits simp del: bit_numeral_word_iff)
  next
    case False
    then show ?thesis
      using assms(5) unfolding run
      by (auto simp: conf_bits simp del: bit_numeral_word_iff dest: bit_imp_le_length)
  qed
qed

lemma aligned_good:
  assumes "m < 0x1000" and "m mod 4 = 0"
  shows "\<not> bad_reg (word_of_nat m) 4"
proof -
  let ?w = "word_of_nat m :: u32"
  have u: "unat ?w = m" using assms(1) by (simp add: unat_of_nat)
  then have "uint ?w = int m" using uint_nat [of ?w] by simp
  then have "sint ?w = int m" using assms(1) by (simp add: sint_uint signed_take_bit_int_eq_self)
  moreover have "?w AND 3 = 0" using low_reg(1) [of ?w] u assms(2) by (simp add: unat_eq_0)
  ultimately show ?thesis using assms(1) by (simp add: bad_reg_def)
qed

lemma put_bits:
  fixes old m val :: u32
  assumes "k < 32" and "\<And>j. bit m j \<longleftrightarrow> j < n" and "\<And>j. bit val j \<Longrightarrow> j < n"
  shows "bit ((old AND NOT (push_bit sh m)) OR push_bit sh val) k \<longleftrightarrow>
    (if sh \<le> k \<and> k < sh + n then bit val (k - sh) else bit old k)"
proof (cases "sh \<le> k")
  case True
  then obtain j where "k = sh + j" by (metis le_Suc_ex)
  with assms(1) assms(3) [of j] show ?thesis
    by (auto simp: bit_or_iff bit_and_iff bit_not_iff bit_push_bit_iff assms(2))
qed (use assms(1) in \<open>simp add: bit_or_iff bit_and_iff bit_not_iff bit_push_bit_iff\<close>)

text \<open>The word a write stores: the old one with the register's bytes replaced.\<close>

definition merged :: "u32 \<Rightarrow> nat \<Rightarrow> u32 \<Rightarrow> u32 \<Rightarrow> u32" where
  "merged w sh old val =
     (if w = 4 then val else if w = 1 then (old AND NOT (push_bit sh 0xff)) OR push_bit sh val
      else if w = 2 then (old AND NOT (push_bit sh 0xffff)) OR push_bit sh val else old)"

lemma merged_bits:
  assumes "w = 1 \<or> w = 2 \<or> w = 4" and "\<And>k. bit val k \<Longrightarrow> k < 8 * unat w" and "w = 4 \<Longrightarrow> sh = 0" and "k < 32"
  shows "bit (merged w sh old val) k \<longleftrightarrow> (if sh \<le> k \<and> k < sh + 8 * unat w then bit val (k - sh) else bit old k)"
proof -
  consider "w = 4" | "w = 1" | "w = 2" using assms(1) by blast
  then show ?thesis
  proof cases
    case 1
    then show ?thesis using assms(3,4) by (simp add: merged_def)
  next
    case 2
    then show ?thesis
      using put_bits [where m = "0xff" and n = 8 and val = val, OF assms(4)] assms(2)
      by (simp add: merged_def mask_bits del: bit_numeral_word_iff)
  next
    case 3
    then show ?thesis
      using put_bits [where m = "0xffff" and n = 16 and val = val, OF assms(4)] assms(2)
      by (simp add: merged_def wide_masks del: bit_numeral_word_iff)
  qed
qed

lemma writen_run:
  assumes "\<not> behind_root env tag" and "\<not> bad_reg reg w" and "(reg AND NOT 3) < 0x1000"
  shows "\<exists>t'. t' \<in> {s, snd (pci_conf_read d env tag (reg AND NOT 3) s)} \<and> pci_conf_writen d env tag reg val w s =
    write32 d (conf_addr (tag OR ucast ((reg AND NOT 3) AND 0xf00)) (reg AND NOT 3))
      (merged w (8 * (unat reg mod 4)) (fst (pci_conf_read d env tag (reg AND NOT 3) s)) val) t'"
proof -
  obtain b v f where t: "pci_break_tag tag = (b, v, f)" by (metis prod_cases3)
  note ranges = tag_ranges [OF t]
  define y where "y = merged w (8 * (unat reg mod 4)) (fst (pci_conf_read d env tag (reg AND NOT 3) s)) val"
  define t' where "t' = (if w = 4 then s else snd (pci_conf_read d env tag (reg AND NOT 3) s))"
  have "pci_conf_writen d env tag reg val w s =
      write32 d (conf_addr (tag OR ucast ((reg AND NOT 3) AND 0xf00)) (reg AND NOT 3)) y t'"
  proof (cases "b = 0")
    case True
    then show ?thesis
      using ranges assms(2) config_words(3) [OF assms(3) t True, of d y t']
      by (simp only: pci_conf_writen_def t True prod.case Let_def low_reg simp_thms if_True if_False y_def t'_def
          merged_def split_beta fst_conv snd_conv if_distrib [of fst] if_distrib [of snd] cong: if_cong)
  next
    case False
    then have "\<not> (is_pcie_root_port env (uint b) \<and> 0 < v)"
      using assms(1) t by (auto simp: behind_root_def)
    then show ?thesis
      using ranges assms(2) config_words(4) [OF assms(3) t False, of d y t'] False
      by (simp only: pci_conf_writen_def t prod.case Let_def low_reg simp_thms if_True if_False y_def t'_def
          merged_def split_beta fst_conv snd_conv if_distrib [of fst] if_distrib [of snd] cong: if_cong)
  qed
  then show ?thesis by (intro exI [of _ t']) (simp add: y_def t'_def)
qed

text \<open>What a read of a whole word shows, in any function that is not refused.\<close>

lemma conf_read_shown:
  assumes "conf_reads d cell" and "\<not> behind_root env tag" and "unat reg < 0x1000"
  defines "r \<equiv> reg AND NOT 3"
  shows "fst (pci_conf_read d env tag r s) = shown tag reg (cell s (conf_addr tag r))"
    and "cell (snd (pci_conf_read d env tag r s)) = cell s"
proof -
  obtain b v f where t: "pci_break_tag tag = (b, v, f)" by (metis prod_cases3)
  have m: "unat reg div 4 * 4 < 0x1000" using assms(3) by simp
  then have u: "unat r = unat reg div 4 * 4" unfolding r_def aligned_reg by (simp only: unat_of_nat) simp
  have good: "\<not> bad_reg r 4" unfolding r_def aligned_reg using m by (rule aligned_good) simp
  have made: "made_up tag r = made_up tag reg" by (simp only: made_up_def u) simp
  have "fst (pci_conf_read d env tag r s) = shown tag reg (cell s (conf_addr tag r)) \<and>
    cell (snd (pci_conf_read d env tag r s)) = cell s"
  proof (cases "b = 0 \<and> v = 2 \<or> made_up tag reg")
    case True
    have "r = 8" if "made_up tag reg"
    proof -
      have "unat reg div 4 = 2" using that t by (simp add: made_up_def)
      then show ?thesis unfolding r_def aligned_reg by simp
    qed
    then have "pci_conf_read d env tag r s = (shown tag reg (cell s (conf_addr tag r)), s)"
      using True good by (auto simp: pci_conf_read_def pci_conf_readn_def t shown_def made_up_def)
    then show ?thesis by simp
  next
    case False
    then have a: "answered env tag" "\<not> made_up tag r"
      using assms(2) t by (auto simp: answered_def behind_root_def made)
    have 4: "(4 :: u32) = 1 \<or> (4 :: u32) = 2 \<or> (4 :: u32) = 4" by simp
    have "r AND NOT 3 = r" by (simp add: r_def and.assoc)
    moreover have "shown tag reg (cell s (conf_addr tag r)) = cell s (conf_addr tag r)"
      using False t by (auto simp: shown_def)
    ultimately show ?thesis
      using readn_run [OF assms(1) a good 4, of s] by (auto simp: pci_conf_read_def Let_def)
  qed
  then show "fst (pci_conf_read d env tag r s) = shown tag reg (cell s (conf_addr tag r))"
    and "cell (snd (pci_conf_read d env tag r s)) = cell s" by simp_all
qed

text \<open>A write of an aligned word is one write, at the address that has the upper bits of the
  register in the tag.\<close>

lemma writen_word:
  assumes "conf_regs d cell eff" and "answered env tag" and "\<not> bad_reg reg 4"
  defines "a \<equiv> conf_addr (tag OR ucast (reg AND 0xf00)) reg"
  shows "cell (pci_conf_writen d env tag reg val 4 s) = (cell s)(a := eff a (cell s a) val)"
proof -
  note good = good_reg [OF assms(3), simplified] and open_fn = answered_behind_root [OF assms(2)]
  have al: "reg AND NOT 3 = reg"
  proof -
    have "unat reg div 4 * 4 = unat reg" using good(3) by auto
    then show ?thesis unfolding aligned_reg by simp
  qed
  have m: "unat reg div 4 * 4 < 0x1000" using good(2) by simp
  then have r: "reg AND NOT 3 < 0x1000" unfolding aligned_reg by (rule small_word)
  obtain t' where t': "t' \<in> {s, snd (pci_conf_read d env tag reg s)}"
    "pci_conf_writen d env tag reg val 4 s = write32 d a val t'"
    using writen_run [OF open_fn assms(3) r, of s d val] unfolding al a_def merged_def by auto
  have "cell t' = cell s"
    using t'(1) conf_read_shown(2) [OF conf_regs_reads [OF assms(1)] open_fn good(2), of s] unfolding al by auto
  then show ?thesis using assms(1) by (simp add: t'(2) conf_regs_def)
qed

lemma regs_of_bit:
  fixes R :: nat
  assumes "R mod 4 + w \<le> 4"
  shows "8 * R \<le> n \<and> n < 8 * (R + w) \<longleftrightarrow>
    n div 32 = R div 4 \<and> 8 * (R mod 4) \<le> n mod 32 \<and> n mod 32 < 8 * (R mod 4) + 8 * w"
proof -
  define a b c e where defs: "a = n div 32" "b = n mod 32" "c = R div 4" "e = R mod 4"
  have "n = 32 * a + b" "R = 4 * c + e" "b < 32" "e + w \<le> 4" using assms by (simp_all add: defs)
  then show ?thesis
    unfolding defs [symmetric] by (cases a c rule: linorder_cases) auto
qed

text \<open>The bits of the space after a write.\<close>

lemma bits_after_word:
  assumes "conf_regs d cell eff" and "answered env tag" and "\<not> bad_reg reg 4" and "n < 8 * 0x1000"
  defines "a \<equiv> conf_addr (tag OR ucast (reg AND 0xf00)) reg"
  shows "conf_bit cell tag' n (pci_conf_writen d env tag reg val 4 s) \<longleftrightarrow>
    (if same_function (tag OR ucast (reg AND 0xf00)) tag' \<and> 8 * unat reg \<le> n \<and> n < 8 * unat reg + 32
     then bit (eff a (cell s a) val) (n - 8 * unat reg) else conf_bit cell tag' n s)"
proof -
  let ?t = "tag OR ucast (reg AND 0xf00)" and ?m = "unat reg div 4 * 4"
  note good = good_reg [OF assms(3), simplified]
  have m: "?m < 0x1000" "?m mod 4 = 0" using good(2) by simp_all
  have al: "?m = unat reg" using good(3) by auto
  have w: "cell (pci_conf_writen d env tag reg val 4 s) =
      (cell s)(conf_addr ?t (word_of_nat ?m) := eff a (cell s a) val)"
    using writen_word [OF assms(1-3), of val s] unfolding al a_def by simp
  have "conf_bit cell tag' n (pci_conf_writen d env tag reg val 4 s) \<longleftrightarrow>
      (if same_function ?t tag' \<and> n div 32 = ?m div 4 then bit (eff a (cell s a) val) (n mod 32)
       else conf_bit cell tag' n s)"
    using bit_after_write [where cell = cell and s = s and t = ?t and x = "eff a (cell s a) val" and tag' = tag',
      OF m assms(4)]
    unfolding conf_bit_def [of _ _ _ "pci_conf_writen d env tag reg val 4 s"] w .
  moreover have "8 * unat reg \<le> n \<and> n < 8 * unat reg + 32 \<longleftrightarrow> n div 32 = ?m div 4"
    using regs_of_bit [of "unat reg" 4 n] good(3) by auto
  moreover have "n mod 32 = n - 8 * unat reg" if "n div 32 = ?m div 4"
  proof -
    have "n div 32 = unat reg div 4" using that by simp
    then show ?thesis using mult_div_mod_eq [of 32 n] al by linarith
  qed
  ultimately show ?thesis by auto
qed

lemma high_part: "unat reg < 0x100 \<Longrightarrow> (reg AND NOT 3) AND 0xf00 = 0" for reg :: u32
proof -
  assume "unat reg < 0x100"
  then have "uint reg < 2 ^ 8" by (simp add: uint_nat del: of_nat_unat)
  from bit_bounded [OF this] have "bit reg k \<Longrightarrow> k < 8" for k .
  then show ?thesis
    unfolding no_bits by (metis bit_and_iff not_less wide_masks(2))
qed

text \<open>A byte read takes eight bits of the aligned word that its low eight bits number.\<close>

lemma read8_cells:
  assumes "conf_reads d cell" and "answered env tag" and "\<not> made_up tag (reg AND 0xfc)"
  shows "bit (fst (pci_conf_read8 d env tag reg s)) k \<longleftrightarrow> k < 8 \<and> conf_bit cell tag (8 * (unat reg mod 256) + k) s"
proof -
  let ?m = "unat reg mod 256 div 4 * 4"
  have "reg AND 0xff = take_bit 8 reg" by (simp add: take_bit_eq_mask mask_eq_exp_minus_1)
  then have "unat (reg AND 0xff) = unat reg mod 256" by (simp only: unsigned_take_bit_eq) (simp add: take_bit_eq_mod)
  moreover have "reg AND 0xfc = (reg AND 0xff) AND NOT 3" by (simp add: and.assoc)
  ultimately have r: "reg AND 0xfc = word_of_nat ?m" using aligned_reg [of "reg AND 0xff"] by (simp only:)
  have m: "?m < 0x1000" "?m mod 4 = 0" by auto
  then have u: "unat (reg AND 0xfc) = ?m" unfolding r by (simp only: unat_of_nat) simp
  have good: "\<not> bad_reg (reg AND 0xfc) 4" unfolding r using m by (rule aligned_good)
  obtain x s' where x: "pci_conf_readn d env tag (reg AND 0xfc) 4 s = (x, s')" by fastforce
  have sh: "unat ((reg AND 3) * 8) = 8 * (unat reg mod 4)"
    using low_reg(2) [of reg] by (simp only: push_bit_eq_mult) simp
  have run: "fst (pci_conf_read8 d env tag reg s) = ucast (drop_bit (8 * (unat reg mod 4)) x AND 0xff)"
    by (simp only: pci_conf_read8_def Let_def x sh prod.case fst_conv)
  have word: "bit x j \<longleftrightarrow> j < 32 \<and> conf_bit cell tag (8 * ?m + j) s" for j
    using readn_cells(2) [OF assms(1-3) good, of s j] by (simp add: x u)
  show ?thesis
  proof (cases "k < 8")
    case True
    then have lt: "8 * (unat reg mod 4) + k < 32"
      using mod_less_divisor [of 4 "unat reg"] by linarith
    have "unat reg mod 256 mod 4 = unat reg mod 4" by (simp add: mod_mod_cancel)
    then have eq: "8 * ?m + (8 * (unat reg mod 4) + k) = 8 * (unat reg mod 256) + k"
      using mult_div_mod_eq [of 4 "unat reg mod 256"] by linarith
    have "bit x (8 * (unat reg mod 4) + k) \<longleftrightarrow> conf_bit cell tag (8 * (unat reg mod 256) + k) s"
      by (simp only: word lt eq simp_thms)
    then show ?thesis
      using True unfolding run by (simp only: bit_ucast_iff bit_and_iff bit_drop_bit_eq o_def mask_bits) simp
  qed (auto dest: bit_imp_le_length)
qed

lemma refused:
  fixes d :: "'s mmio32"
  assumes "behind_root env tag" and "\<not> bad_reg reg w"
  shows "pci_conf_writen d env tag reg val w s = s" and "pci_conf_readn d env tag reg w s = (- 1, s)"
  using assms by (auto simp: behind_root_def pci_conf_writen_def pci_conf_readn_def split: prod.splits)

text \<open>C26. 
  Below \<open>0x100\<close> a write of 1, 2 or 4 bytes is one write of the aligned word: its bits in the
  register are those of the value and the others those the driver shows of the word. These are the
  word's own bits, so that written-one-to-clear bits beside the register are written as they
  stand, but all ones for device 2 of bus 0, and the made-up class code for the word at 8 of
  devices 9 to 14 of bus 0, whose other bytes are overwritten with them. Behind a root port only
  device 0 is accessed; any other write is dropped and its read gives all ones. Elsewhere a read
  afterwards gives the register's bits of the word, which are the value when the register keeps
  the bits written to it.
\<close>

theorem conf_register_roundtrip:
  assumes "conf_regs d cell eff" and "\<not> bad_reg reg w" and "w = 1 \<or> w = 2 \<or> w = 4"
    and "\<forall>k. bit val k \<longrightarrow> k < 8 * unat w" and "unat reg < 0x100"
    and "a = conf_addr tag (reg AND NOT 3)" and "sh = 8 * (unat reg mod 4)"
    and "s' = pci_conf_writen d env tag reg val w s"
  shows "(behind_root env tag \<longrightarrow> s' = s \<and> fst (pci_conf_readn d env tag reg w s') = - 1) \<and>
    (\<not> behind_root env tag \<longrightarrow> (\<exists>m. cell s' = (cell s)(a := eff a (cell s a) m) \<and>
       (\<forall>k < 32. bit m k \<longleftrightarrow>
          (if sh \<le> k \<and> k < sh + 8 * unat w then bit val (k - sh) else bit (shown tag reg (cell s a)) k)) \<and>
       (answered env tag \<and> \<not> made_up tag reg \<longrightarrow>
          (\<forall>k. bit (fst (pci_conf_readn d env tag reg w s')) k \<longleftrightarrow>
             k < 8 * unat w \<and> bit (eff a (cell s a) m) (sh + k)) \<and>
          ((\<forall>k < 8 * unat w. bit (eff a (cell s a) m) (sh + k) = bit m (sh + k)) \<longrightarrow>
             fst (pci_conf_readn d env tag reg w s') = val))))"
proof (cases "behind_root env tag")
  case True
  then show ?thesis using refused [OF True assms(2), of d] by (simp add: assms(8))
next
  case False
  note reads = assms(1) [unfolded conf_regs_def, THEN conjunct1]
  note good = good_reg [OF assms(2,3)]
  let ?r = "reg AND NOT 3"
  let ?m = "merged w sh (fst (pci_conf_read d env tag ?r s)) val"
  have m: "unat reg div 4 * 4 < 0x1000" using good(2) by simp
  then have r: "?r < 0x1000" unfolding aligned_reg by (rule small_word)
  have sh4: "w = 4 \<Longrightarrow> sh = 0" using good(3) by (simp add: assms(7))
  obtain t' where t': "t' \<in> {s, snd (pci_conf_read d env tag ?r s)}" "s' = write32 d a ?m t'"
    using writen_run [OF False assms(2) r, of s d val] high_part [OF assms(5)]
    by (auto simp: assms(6-8))
  have "cell t' = cell s" using t'(1) conf_read_shown(2) [OF reads False good(2), of s] by auto
  then have cell: "cell s' = (cell s)(a := eff a (cell s a) ?m)"
    using assms(1) by (simp add: t'(2) conf_regs_def)
  have bits: "bit ?m k \<longleftrightarrow>
      (if sh \<le> k \<and> k < sh + 8 * unat w then bit val (k - sh) else bit (shown tag reg (cell s a)) k)" if "k < 32" for k
    using merged_bits [OF assms(3) assms(4) [rule_format] sh4 that] conf_read_shown(1) [OF reads False good(2), of s]
    by (simp add: assms(6))
  have read: "bit (fst (pci_conf_readn d env tag reg w s')) k \<longleftrightarrow> k < 8 * unat w \<and> bit (eff a (cell s a) ?m) (sh + k)"
    if "answered env tag" "\<not> made_up tag reg" for k
  proof (cases "k < 8 * unat w")
    case True
    then have k: "8 * (unat reg mod 4) + k < 32" using good(3) by linarith
    have "conf_bit cell tag (8 * unat reg + k) s' = bit (cell s' a) (sh + k)"
      unfolding conf_bit_def register_bits [OF k] assms(6,7) aligned_reg by (rule refl)
    then show ?thesis using readn_cells(2) [OF reads that assms(2,3), of s' k] True by (simp add: cell)
  qed (use readn_cells(2) [OF reads that assms(2,3), of s' k] in simp)
  have stays: "fst (pci_conf_readn d env tag reg w s') = val"
    if "answered env tag" "\<not> made_up tag reg"
      "\<forall>k < 8 * unat w. bit (eff a (cell s a) ?m) (sh + k) = bit ?m (sh + k)"
  proof (rule bit_eqI)
    fix k
    show "bit (fst (pci_conf_readn d env tag reg w s')) k \<longleftrightarrow> bit val k"
      using read [OF that(1,2), of k] that(3) bits [of "sh + k"] good(3) assms(4)
      by (cases "k < 8 * unat w") (auto simp: assms(7))
  qed
  show ?thesis using False cell bits read stays by (intro conjI impI exI [of _ ?m]) auto
qed

text \<open>C39. 
  From \<open>0x100\<close> on it is not: the address of a write has the upper four bits of the register in
  the place of the function's and of the device's lowest bit, too. So a word written goes into the
  register of the function whose tag has these bits set, whatever that register makes of it, and
  unless that is the function itself the register keeps its old value; and a read of a byte takes the
  register of the same number modulo 256.
\<close>

theorem extended_registers_miss:
  assumes "conf_regs d cell eff" and "answered env tag" and "\<not> made_up tag reg" and "\<not> bad_reg reg 4"
    and "\<not> made_up tag (reg AND 0xfc)" and "a = conf_addr (tag OR ucast (reg AND 0xf00)) reg"
  shows "(\<forall>tag' n. n < 8 * 0x1000 \<longrightarrow> (conf_bit cell tag' n (pci_conf_writen d env tag reg val 4 s) \<longleftrightarrow>
        (if same_function (tag OR ucast (reg AND 0xf00)) tag' \<and> 8 * unat reg \<le> n \<and> n < 8 * unat reg + 32
         then bit (eff a (cell s a) val) (n - 8 * unat reg) else conf_bit cell tag' n s)))
    \<and> (\<not> same_function (tag OR ucast (reg AND 0xf00)) tag \<longrightarrow>
        fst (pci_conf_readn d env tag reg 4 (pci_conf_writen d env tag reg val 4 s)) = fst (pci_conf_readn d env tag reg 4 s))
    \<and> (\<forall>k. bit (fst (pci_conf_read8 d env tag reg s)) k \<longleftrightarrow> k < 8 \<and> conf_bit cell tag (8 * (unat reg mod 256) + k) s)"
proof -
  let ?s = "pci_conf_writen d env tag reg val 4 s"
  note good = good_reg [OF assms(4), simplified] and reads = conf_regs_reads [OF assms(1)]
  have 4: "(4 :: u32) = 1 \<or> (4 :: u32) = 2 \<or> (4 :: u32) = 4" by simp
  note after = bits_after_word [OF assms(1,2,4), of _ _ val s, folded assms(6)]
  have "fst (pci_conf_readn d env tag reg 4 ?s) = fst (pci_conf_readn d env tag reg 4 s)"
    if other: "\<not> same_function (tag OR ucast (reg AND 0xf00)) tag"
  proof (rule bit_eqI)
    fix k
    show "bit (fst (pci_conf_readn d env tag reg 4 ?s)) k \<longleftrightarrow> bit (fst (pci_conf_readn d env tag reg 4 s)) k"
    proof (cases "k < 32")
      case True
      moreover have "unat reg div 4 < 1024" using good(2) by simp
      ultimately have "8 * unat reg + k < 8 * 0x1000"
        using good(3) mult_div_mod_eq [of 4 "unat reg"] \<open>unat reg div 4 < 1024\<close> by linarith
      from after [OF this, of tag] other show ?thesis
        using readn_cells(2) [OF reads assms(2-4) 4, of ?s k] readn_cells(2) [OF reads assms(2-4) 4, of s k] by simp
    qed (auto dest: bit_imp_le_length)
  qed
  then show ?thesis using after read8_cells [OF reads assms(2,5), of s] by blast
qed

text \<open>A space of plain cells, and no bus that has a root port.\<close>

definition conf_sim :: "(u64 \<Rightarrow> u32) mmio32" where
  "conf_sim = \<lparr>read32 = \<lambda>a s. (s a, s), write32 = \<lambda>a v s. s(a := v)\<rparr>"

definition lone_bus :: pci_env where "lone_bus = \<lparr>pci_buses = [], ROOT_PORT = 4\<rparr>"

lemma conf_sim_regs: "conf_regs conf_sim id (\<lambda>_ _ v. v)"
  by (simp add: conf_regs_def conf_reads_def conf_sim_def)

lemma lone_bus_answers: "\<not> made_up 0x11000 reg" "answered lone_bus 0x11000"
  by (simp_all add: made_up_def answered_def pci_break_tag_def is_pcie_root_port_def lone_bus_def)

text \<open>A space whose upper half-words are cleared by writing ones, and device 2 of bus 0 in it.\<close>

definition w1c_sim :: "(u64 \<Rightarrow> u32) mmio32" where
  "w1c_sim = \<lparr>read32 = \<lambda>a s. (s a, s),
     write32 = \<lambda>a v s. s(a := (v AND 0xffff) OR (s a AND NOT v AND 0xffff0000))\<rparr>"

lemma w1c_sim_regs: "conf_regs w1c_sim id (\<lambda>a x v. (v AND 0xffff) OR (x AND NOT v AND 0xffff0000))"
  by (simp add: conf_regs_def conf_reads_def w1c_sim_def)

text \<open>The command of a function is written and read back; its status bits, written as they stand,
  are lost.\<close>

theorem conf_register_roundtrip_witness:
  "let s' = pci_conf_writen w1c_sim lone_bus 0x11000 4 0xbeef 2 (\<lambda>_. 0x02900000) in
   fst (pci_conf_readn w1c_sim lone_bus 0x11000 4 2 s') = 0xbeef \<and> s' (conf_addr 0x11000 4) = 0xbeef"
proof -
  let ?s = "\<lambda>_. 0x02900000 :: u32" and ?eff = "\<lambda>a x v. (v AND 0xffff) OR (x AND NOT v AND 0xffff0000) :: u32"
  let ?s' = "pci_conf_writen w1c_sim lone_bus 0x11000 4 0xbeef 2 ?s" and ?a = "conf_addr 0x11000 (4 AND NOT 3)"
  have good: "\<not> bad_reg 4 2" "(2 :: u32) = 1 \<or> (2 :: u32) = 2 \<or> (2 :: u32) = 4" "unat (4 :: u32) < 0x100"
    "8 * (unat (4 :: u32) mod 4) = 0" "unat (2 :: u32) = 2" by (simp_all add: bad_reg_def)
  have v: "\<forall>k. bit (0xbeef :: u32) k \<longrightarrow> k < 8 * unat (2 :: u32)"
    using bit_bounded [of "0xbeef" 16] by simp
  note a = lone_bus_answers(2) and r = lone_bus_answers(1) [of 4]
  note T = conf_register_roundtrip [OF w1c_sim_regs good(1,2) v good(3) refl refl refl, where tag = "0x11000"
      and env = lone_bus and s = ?s, THEN conjunct2, THEN mp, OF answered_behind_root [OF a]]
  obtain m where m: "?s' = ?s(?a := ?eff ?a (?s ?a) m)"
    "\<forall>k < 32. bit m k \<longleftrightarrow> (if 0 \<le> k \<and> k < 0 + 8 * unat (2 :: u32) then bit (0xbeef :: u32) (k - 0) else bit (shown 0x11000 4 (?s ?a)) k)"
    "\<forall>k < 8 * unat (2 :: u32). bit (?eff ?a (?s ?a) m) (0 + k) = bit m (0 + k) \<Longrightarrow> fst (pci_conf_readn w1c_sim lone_bus 0x11000 4 2 ?s') = 0xbeef"
    using T [unfolded good(4) id_apply] a r by blast
  have "bit (0x02900000 :: u32) k \<longleftrightarrow> 16 \<le> k \<and> bit (0x290 :: u32) (k - 16)" if "k < 32" for k
  proof -
    have "(0x02900000 :: u32) = push_bit 16 0x290" by simp
    then show ?thesis using that by (simp only: bit_push_bit_iff) auto
  qed
  then have "bit m k \<longleftrightarrow> bit (0x02900000 OR 0xbeef :: u32) k" if "k < 32" for k
    using m(2) [unfolded shown_answered [OF a r] good(5), rule_format, OF that] v [unfolded good(5)]
    unfolding bit_or_iff by (cases "k < 16") auto
  then have "m = 0x02900000 OR 0xbeef" by (intro bit_word_eqI) simp
  then have "m = 0x0290beef" by simp
  moreover have "(4 :: u32) AND NOT 3 = 4" by simp
  ultimately have "?s' = ?s(conf_addr 0x11000 4 := 0xbeef)" using m(1) by simp
  moreover have "bit (0xbeef :: u32) k = bit m k" if "k < 16" for k
    using m(2) that by (simp add: good(5) del: bit_numeral_word_iff)
  then have "fst (pci_conf_readn w1c_sim lone_bus 0x11000 4 2 ?s') = 0xbeef"
    using \<open>m = 0x0290beef\<close> by (intro m(3)) (simp add: good(5) del: bit_numeral_word_iff)
  ultimately show ?thesis by (simp add: Let_def)
qed

theorem extended_registers_miss_witness:
  "fst (pci_conf_readn conf_sim lone_bus 0x11000 0x100 4
      (pci_conf_writen conf_sim lone_bus 0x11000 0x100 5 4 (\<lambda>_. 0)))
    = fst (pci_conf_readn conf_sim lone_bus 0x11000 0x100 4 (\<lambda>_. 0))"
proof -
  have "\<not> bad_reg 0x100 4" by (simp add: bad_reg_def)
  moreover have "\<not> same_function (0x11000 OR ucast (0x100 AND 0xf00 :: u32)) 0x11000"
    by (simp add: same_function_def)
  ultimately show ?thesis
    using extended_registers_miss [OF conf_sim_regs lone_bus_answers(2,1) _ _ refl, where reg = "0x100" and val = 5 and s = "\<lambda>_. 0"]
      lone_bus_answers(1) by blast
qed

end
